(* ===== verification/Prelude.thy ===== *)
theory Prelude
  imports Main "HOL-Library.Word" "HOL-Library.Monad_Syntax" "HOL-Library.Multiset"
begin

unbundle bit_operations_syntax

text \<open>
  What every component shares: the machine integer types of the target (RV64, so
  \<open>usize\<close> is 64 bits wide), Rust's panicking operations as \<open>option\<close> values (\<open>None\<close> is a
  panic, which stops the kernel), the list operations behind the iterator chains of the
  source, and the little-endian byte encoding of integers in memory.
\<close>

section \<open>Machine integers\<close>

type_synonym usize = "64 word"
type_synonym isize = "64 word"
type_synonym u64 = "64 word"
type_synonym u32 = "32 word"
type_synonym i32 = "32 word"
type_synonym u8 = "8 word"

named_theorems config_simps \<open>the constants of config.rs\<close>
named_theorems mem_simps \<open>reading memory after a write\<close>
named_theorems panic_simps \<open>unfolding of panicking operations\<close>

section \<open>Panics\<close>

text \<open>\<open>assert!(b)\<close>\<close>

definition rassert :: "bool \<Rightarrow> unit option" where
  "rassert b = (if b then Some () else None)"

lemma rassert_Some [simp, panic_simps]: "rassert b = Some u \<longleftrightarrow> b"
  by (simp add: rassert_def)

lemma rassert_None [simp, panic_simps]: "rassert b = None \<longleftrightarrow> \<not> b"
  by (simp add: rassert_def)

lemma rassert_True [simp]: "rassert True = Some ()"
  by (simp add: rassert_def)

lemma rassert_False [simp]: "rassert False = None"
  by (simp add: rassert_def)

lemma bind_rassert [simp]: "Option.bind (rassert b) f = (if b then f () else None)"
  by (simp add: rassert_def)

text \<open>\<open>v[i]\<close>: indexing out of range panics.\<close>

definition index_of :: "'a list \<Rightarrow> nat \<Rightarrow> 'a option" where
  "index_of xs i = (if i < length xs then Some (xs ! i) else None)"

lemma index_of_Some [simp, panic_simps]:
  "index_of xs i = Some x \<longleftrightarrow> i < length xs \<and> x = xs ! i"
  by (auto simp: index_of_def)

lemma index_of_None [simp]: "index_of xs i = None \<longleftrightarrow> length xs \<le> i"
  by (auto simp: index_of_def)

text \<open>\<open>v[i] = x\<close>: the index is checked as well.\<close>

definition index_set :: "'a list \<Rightarrow> nat \<Rightarrow> 'a \<Rightarrow> 'a list option" where
  "index_set xs i x = (if i < length xs then Some (xs[i := x]) else None)"

lemma index_set_Some [simp, panic_simps]:
  "index_set xs i x = Some ys \<longleftrightarrow> i < length xs \<and> ys = xs[i := x]"
  by (auto simp: index_set_def)

text \<open>\<open>&data[lo..hi]\<close> panics when the bounds are out of order or past the end.\<close>

definition slice :: "'a list \<Rightarrow> usize \<Rightarrow> usize \<Rightarrow> 'a list option" where
  "slice xs lo hi =
     (if lo \<le> hi \<and> unat hi \<le> length xs then Some (take (unat hi - unat lo) (drop (unat lo) xs))
      else None)"

text \<open>\<open>dst.copy_from_slice(ys)\<close> for the slice \<open>dst\<close> of \<open>xs\<close> that starts at \<open>i\<close>.\<close>

definition put_at :: "nat \<Rightarrow> 'a list \<Rightarrow> 'a list \<Rightarrow> 'a list" where
  "put_at i ys xs = take i xs @ ys @ drop (i + length ys) xs"

lemma length_put_at [simp]: "i + length ys \<le> length xs \<Longrightarrow> length (put_at i ys xs) = length xs"
  by (simp add: put_at_def)

lemma nth_put_at:
  assumes "i + length ys \<le> length xs" and "j < length xs"
  shows "put_at i ys xs ! j = (if i \<le> j \<and> j < i + length ys then ys ! (j - i) else xs ! j)"
  using assms by (auto simp: put_at_def nth_append min_def)

lemma take_drop_put_at [simp]:
  "i + length ys \<le> length xs \<Longrightarrow> take (length ys) (drop i (put_at i ys xs)) = ys"
  by (simp add: put_at_def)

lemma take_drop_put_at_before:
  assumes "m + n \<le> i" and "i \<le> length xs"
  shows "take n (drop m (put_at i ys xs)) = take n (drop m xs)"
proof -
  have "take n (drop m (put_at i ys xs)) = take n (take (i - m) (drop m xs))"
    using assms by (simp add: put_at_def drop_take)
  also have "\<dots> = take n (drop m xs)" using assms(1) by (simp add: take_take min_def)
  finally show ?thesis .
qed

lemma drop_put_at_after:
  "i + length ys \<le> m \<Longrightarrow> i + length ys \<le> length xs \<Longrightarrow> drop m (put_at i ys xs) = drop m xs"
  by (simp add: put_at_def)

section \<open>Words as numbers\<close>

lemma unat_and_mask: "unat (w AND mask n) = unat w mod 2 ^ n"
  for w :: "'a::len word"
  by (unfold take_bit_eq_mask [symmetric] unsigned_take_bit_eq, rule take_bit_eq_mod)

lemma unat_drop_bit: "unat (drop_bit n w) = unat w div 2 ^ n"
  for w :: "'a::len word"
  by (unfold unat_drop_bit_eq, rule drop_bit_eq_div)

lemma unat_push_bit: "unat (push_bit n w) = unat w * 2 ^ n"
  if "unat w * 2 ^ n < 2 ^ LENGTH('a)" for w :: "'a::len word"
proof -
  have "unat (push_bit n w) = take_bit LENGTH('a) (push_bit n (unat w))"
    by (rule unsigned_push_bit_eq)
  with that show ?thesis by (simp add: take_bit_eq_mod push_bit_eq_mult)
qed

lemma unat_add_less: "unat a + unat b < 2 ^ LENGTH('a) \<Longrightarrow> unat (a + b) = unat a + unat b"
  for a b :: "'a::len word"
  by (simp add: unat_add_lem)

lemma unat_less_exp: "unat w < 2 ^ LENGTH('a)" for w :: "'a::len word"
  by (rule unsigned_less)

lemma unat_usize_less: "unat w < 18446744073709551616" for w :: usize
  using unat_less_exp [of w] by simp

lemma unat_of_nat_less: "n < 2 ^ LENGTH('a) \<Longrightarrow> unat (of_nat n :: 'a::len word) = n"
  by (simp add: unat_of_nat)

lemma unat_of_nat_below: "n < unat w \<Longrightarrow> unat (of_nat n :: 'a word) = n"
  for w :: "'a::len word"
  using unat_less_exp [of w] by (simp add: unat_of_nat_less del: unsigned_less)

lemma unat_Suc_below: "unat a < unat b \<Longrightarrow> unat (a + 1) = Suc (unat a)"
  for a b :: "'a::len word"
proof -
  assume "unat a < unat b"
  with unat_less_exp [of b] have "unat a + unat (1 :: 'a word) < 2 ^ LENGTH('a)"
    by (simp only: unat_1)
  from unat_add_less [OF this] show ?thesis by simp
qed

lemma word_div_unat: "unat (a div b) = unat a div unat b"
  for a b :: "'a::len word"
  by (rule unat_div)

lemma word_mod_unat: "unat (a mod b) = unat a mod unat b"
  for a b :: "'a::len word"
  by (rule unat_mod)

section \<open>Iterator chains\<close>

text \<open>\<open>iter().enumerate().find(p)\<close>: the position of the first element that satisfies \<open>p\<close>.\<close>

fun find_index :: "('a \<Rightarrow> bool) \<Rightarrow> 'a list \<Rightarrow> nat option" where
  "find_index p [] = None"
| "find_index p (x # xs) = (if p x then Some 0 else map_option Suc (find_index p xs))"

lemma find_index_None: "find_index p xs = None \<longleftrightarrow> (\<forall>x \<in> set xs. \<not> p x)"
  by (induction xs) auto

lemma find_index_Some:
  "find_index p xs = Some i \<longleftrightarrow> i < length xs \<and> p (xs ! i) \<and> (\<forall>j < i. \<not> p (xs ! j))"
proof (induction xs arbitrary: i)
  case Nil
  then show ?case by simp
next
  case (Cons x xs)
  show ?case
  proof (cases "p x")
    case True
    then show ?thesis by (cases i) auto
  next
    case False
    then show ?thesis using Cons.IH by (cases i) (auto simp: All_less_Suc2)
  qed
qed

lemma find_index_length: "find_index p xs = Some i \<Longrightarrow> i < length xs"
  by (simp add: find_index_Some)

text \<open>\<open>Vec::remove(i)\<close> on an index in range.\<close>

definition remove_nth :: "nat \<Rightarrow> 'a list \<Rightarrow> 'a list" where
  "remove_nth i xs = take i xs @ drop (Suc i) xs"

lemma length_remove_nth: "i < length xs \<Longrightarrow> length (remove_nth i xs) = length xs - 1"
  by (simp add: remove_nth_def)

lemma mset_remove_nth:
  assumes "i < length xs"
  shows "mset xs = add_mset (xs ! i) (mset (remove_nth i xs))"
proof -
  have "mset xs = mset (take i xs @ xs ! i # drop (Suc i) xs)"
    by (subst id_take_nth_drop [OF assms]) simp
  then show ?thesis by (simp add: remove_nth_def)
qed

lemma set_remove_nth: "set (remove_nth i xs) \<subseteq> set xs"
  by (auto simp: remove_nth_def dest: in_set_takeD in_set_dropD)

lemma set_remove_nth_insert:
  assumes "i < length xs"
  shows "set xs = insert (xs ! i) (set (remove_nth i xs))"
proof -
  have "set_mset (mset xs) = insert (xs ! i) (set_mset (mset (remove_nth i xs)))"
    by (subst mset_remove_nth [OF assms]) simp
  then show ?thesis by simp
qed

lemma distinct_remove_nth:
  assumes "distinct xs" and "i < length xs"
  shows "distinct (remove_nth i xs)" and "xs ! i \<notin> set (remove_nth i xs)"
proof -
  have "distinct (take i xs @ xs ! i # drop (Suc i) xs)"
    using assms(1) id_take_nth_drop [OF assms(2)] by simp
  then show "distinct (remove_nth i xs)" and "xs ! i \<notin> set (remove_nth i xs)"
    by (auto simp: remove_nth_def)
qed

lemma remove_nth_remove1:
  assumes "distinct xs" and "i < length xs"
  shows "remove_nth i xs = remove1 (xs ! i) xs"
proof -
  have "xs = take i xs @ xs ! i # drop (Suc i) xs" by (rule id_take_nth_drop [OF assms(2)])
  moreover from this have "xs ! i \<notin> set (take i xs)" using assms(1)
    by (metis distinct_append disjoint_iff list.set_intros(1))
  ultimately show ?thesis unfolding remove_nth_def by (metis remove1_append remove1.simps(2))
qed

text \<open>Folding a panicking step over a list: a \<open>for\<close> loop whose body may panic.\<close>

fun foldM :: "('a \<Rightarrow> 's \<Rightarrow> 's option) \<Rightarrow> 'a list \<Rightarrow> 's \<Rightarrow> 's option" where
  "foldM f [] s = Some s"
| "foldM f (x # xs) s = do { s \<leftarrow> f x s; foldM f xs s }"

lemma foldM_append: "foldM f (xs @ ys) s = do { s \<leftarrow> foldM f xs s; foldM f ys s }"
  by (induction xs arbitrary: s) (auto split: bind_split)

lemma foldM_invariant:
  assumes "foldM f xs s = Some s'" and "P s"
    and "\<And>x s t. x \<in> set xs \<Longrightarrow> P s \<Longrightarrow> f x s = Some t \<Longrightarrow> P t"
  shows "P s'"
  using assms
proof (induction xs arbitrary: s)
  case Nil
  then show ?case by simp
next
  case (Cons x xs)
  from Cons.prems(1) obtain t where f: "f x s = Some t" and t: "foldM f xs t = Some s'"
    by (auto simp: bind_eq_Some_conv)
  have "P t" by (rule Cons.prems(3) [OF _ Cons.prems(2) f]) simp
  show ?case by (rule Cons.IH [OF t \<open>P t\<close>]) (rule Cons.prems(3), simp_all)
qed

section \<open>Little-endian encoding\<close>

definition le_encode :: "nat \<Rightarrow> 'a::len word \<Rightarrow> u8 list" where
  "le_encode n w = map (\<lambda>i. ucast (drop_bit (8 * i) w)) [0..<n]"

fun le_decode :: "u8 list \<Rightarrow> 'a::len word" where
  "le_decode [] = 0"
| "le_decode (b # bs) = ucast b OR push_bit 8 (le_decode bs)"

lemma length_le_encode [simp]: "length (le_encode n w) = n"
  by (simp add: le_encode_def)

lemma le_encode_Suc: "le_encode (Suc n) w = ucast w # le_encode n (drop_bit 8 w)"
  by (simp add: le_encode_def upt_rec [of 0] map_Suc_upt [symmetric] drop_bit_drop_bit
      add.commute del: upt_Suc)

lemma le_decode_encode: "le_decode (le_encode n w) = take_bit (8 * n) w"
  for w :: "'a::len word"
proof (induction n arbitrary: w)
  case 0
  then show ?case by (simp add: le_encode_def)
next
  case (Suc n)
  have "ucast (ucast w :: u8) OR push_bit 8 (take_bit (8 * n) (drop_bit 8 w))
      = take_bit (8 * Suc n) w"
    by (rule bit_word_eqI)
      (auto simp: bit_simps not_less dest: bit_imp_le_length)
  then show ?case by (simp add: le_encode_Suc Suc.IH)
qed

lemma le_decode_encode_full:
  "LENGTH('a) \<le> 8 * n \<Longrightarrow> le_decode (le_encode n w) = w" for w :: "'a::len word"
  by (simp add: le_decode_encode take_bit_word_eq_self)

end
