(* ===== verification/Address.thy ===== *)
theory Address
  imports Prelude
begin

text \<open>
  Physical and virtual addresses and page numbers: \<open>mm/address.rs\<close> and the constants of
  \<open>config.rs\<close>. The four newtypes over \<open>usize\<close> are datatypes with one constructor; the
  kernel is built in release mode, so \<open>+\<close>, \<open>-\<close> and \<open><<\<close> wrap, which is the arithmetic
  of \<open>64 word\<close>. A \<open>VPNRange\<close> is iterated by stepping \<open>current\<close> until it equals \<open>end\<close>.
\<close>

section \<open>config.rs\<close>

definition USER_STACK_SIZE :: usize where [config_simps]: "USER_STACK_SIZE = 4096 * 2"
definition KERNEL_STACK_SIZE :: usize where [config_simps]: "KERNEL_STACK_SIZE = 4096 * 20"
definition MEMORY_END :: usize where [config_simps]: "MEMORY_END = 0x88000000"
definition PAGE_SIZE :: usize where [config_simps]: "PAGE_SIZE = 0x1000"
definition PAGE_SIZE_BITS :: nat where [config_simps]: "PAGE_SIZE_BITS = 0xc"
definition MAX_SYSCALL_NUM :: nat where [config_simps]: "MAX_SYSCALL_NUM = 500"
definition BIG_STRIDE :: usize where [config_simps]: "BIG_STRIDE = - 1 div 1048576"
definition TRAMPOLINE :: usize where [config_simps]: "TRAMPOLINE = - 1 - PAGE_SIZE + 1"
definition TRAP_CONTEXT :: usize where [config_simps]: "TRAP_CONTEXT = TRAMPOLINE - PAGE_SIZE"
definition CLOCK_FREQ :: usize where [config_simps]: "CLOCK_FREQ = 12500000"

section \<open>The newtypes\<close>

datatype PhysAddr = PhysAddr (pa0: usize)
datatype VirtAddr = VirtAddr (va0: usize)
datatype PhysPageNum = PhysPageNum (ppn0: usize)
datatype VirtPageNum = VirtPageNum (vpn0: usize)

text \<open>\<open>derive(Ord)\<close> on a newtype compares the field.\<close>

instantiation VirtPageNum :: linorder
begin

definition less_eq_VirtPageNum :: "VirtPageNum \<Rightarrow> VirtPageNum \<Rightarrow> bool" where
  "less_eq_VirtPageNum a b \<longleftrightarrow> vpn0 a \<le> vpn0 b"

definition less_VirtPageNum :: "VirtPageNum \<Rightarrow> VirtPageNum \<Rightarrow> bool" where
  "less_VirtPageNum a b \<longleftrightarrow> vpn0 a < vpn0 b"

instance
proof
qed (auto simp: less_eq_VirtPageNum_def less_VirtPageNum_def VirtPageNum.expand)

end

instantiation VirtAddr :: linorder
begin

definition less_eq_VirtAddr :: "VirtAddr \<Rightarrow> VirtAddr \<Rightarrow> bool" where
  "less_eq_VirtAddr a b \<longleftrightarrow> va0 a \<le> va0 b"

definition less_VirtAddr :: "VirtAddr \<Rightarrow> VirtAddr \<Rightarrow> bool" where
  "less_VirtAddr a b \<longleftrightarrow> va0 a < va0 b"

instance
proof
qed (auto simp: less_eq_VirtAddr_def less_VirtAddr_def VirtAddr.expand)

end

section \<open>VirtAddr and PhysAddr\<close>

definition va_floor :: "VirtAddr \<Rightarrow> VirtPageNum" where
  "va_floor v = VirtPageNum (va0 v div PAGE_SIZE)"

definition va_ceil :: "VirtAddr \<Rightarrow> VirtPageNum" where
  "va_ceil v = VirtPageNum ((va0 v - 1 + PAGE_SIZE) div PAGE_SIZE)"

definition va_page_offset :: "VirtAddr \<Rightarrow> usize" where
  "va_page_offset v = va0 v AND (PAGE_SIZE - 1)"

definition va_aligned :: "VirtAddr \<Rightarrow> bool" where
  "va_aligned v \<longleftrightarrow> va_page_offset v = 0"

text \<open>\<open>From<VirtAddr> for VirtPageNum\<close> asserts that the address is aligned.\<close>

definition vpn_of_va :: "VirtAddr \<Rightarrow> VirtPageNum option" where
  "vpn_of_va v = do { rassert (va_page_offset v = 0); Some (va_floor v) }"

definition va_of_vpn :: "VirtPageNum \<Rightarrow> VirtAddr" where
  "va_of_vpn v = VirtAddr (push_bit PAGE_SIZE_BITS (vpn0 v))"

definition pa_floor :: "PhysAddr \<Rightarrow> PhysPageNum" where
  "pa_floor v = PhysPageNum (pa0 v div PAGE_SIZE)"

definition pa_ceil :: "PhysAddr \<Rightarrow> PhysPageNum" where
  "pa_ceil v = PhysPageNum ((pa0 v - 1 + PAGE_SIZE) div PAGE_SIZE)"

definition pa_page_offset :: "PhysAddr \<Rightarrow> usize" where
  "pa_page_offset v = pa0 v AND (PAGE_SIZE - 1)"

definition pa_aligned :: "PhysAddr \<Rightarrow> bool" where
  "pa_aligned v \<longleftrightarrow> pa_page_offset v = 0"

definition ppn_of_pa :: "PhysAddr \<Rightarrow> PhysPageNum option" where
  "ppn_of_pa v = do { rassert (pa_page_offset v = 0); Some (pa_floor v) }"

definition pa_of_ppn :: "PhysPageNum \<Rightarrow> PhysAddr" where
  "pa_of_ppn v = PhysAddr (push_bit PAGE_SIZE_BITS (ppn0 v))"

section \<open>Page-table indexes\<close>

text \<open>The loop \<open>for i in (0..3).rev()\<close> writes \<open>idx[i] = vpn & 511\<close> and shifts \<open>vpn\<close> by 9.\<close>

fun indexes_loop :: "nat list \<Rightarrow> usize \<Rightarrow> usize list \<Rightarrow> usize list" where
  "indexes_loop [] vpn idx = idx"
| "indexes_loop (i # is) vpn idx = indexes_loop is (drop_bit 9 vpn) (idx[i := vpn AND 511])"

definition indexes :: "VirtPageNum \<Rightarrow> usize list" where
  "indexes v = indexes_loop (rev [0..<3]) (vpn0 v) [0, 0, 0]"

section \<open>Ranges of pages\<close>

definition vpn_step :: "VirtPageNum \<Rightarrow> VirtPageNum" where
  "vpn_step v = VirtPageNum (vpn0 v + 1)"

record 'a SimpleRange =
  range_l :: 'a
  range_r :: 'a

type_synonym VPNRange = "VirtPageNum SimpleRange"

definition range_new :: "'a::ord \<Rightarrow> 'a \<Rightarrow> 'a SimpleRange option" where
  "range_new start end = do {
     rassert (start \<le> end);
     Some \<lparr>range_l = start, range_r = end\<rparr> }"

record 'a SimpleRangeIterator =
  iter_current :: 'a
  iter_end :: 'a

definition range_into_iter :: "'a SimpleRange \<Rightarrow> 'a SimpleRangeIterator" where
  "range_into_iter r = \<lparr>iter_current = range_l r, iter_end = range_r r\<rparr>"

definition iter_next ::
  "('a \<Rightarrow> 'a) \<Rightarrow> 'a SimpleRangeIterator \<Rightarrow> 'a option \<times> 'a SimpleRangeIterator" where
  "iter_next step it =
     (if iter_current it = iter_end it then (None, it)
      else (Some (iter_current it), it\<lparr>iter_current := step (iter_current it)\<rparr>))"

text \<open>
  Collecting an iterator over page numbers. \<open>iter_next\<close> compares with \<open>==\<close> and steps with
  wrap-around, so from any start the end is reached after \<open>end - current\<close> (mod \<open>2\<^sup>6\<^sup>4\<close>)
  steps: that distance is the termination measure.
\<close>

function iter_collect :: "VirtPageNum SimpleRangeIterator \<Rightarrow> VirtPageNum list" where
  "iter_collect it =
     (case iter_next vpn_step it of
        (None, _) \<Rightarrow> []
      | (Some t, it') \<Rightarrow> t # iter_collect it')"
  by pat_completeness auto
termination
proof (relation "measure (\<lambda>it. unat (vpn0 (iter_end it) - vpn0 (iter_current it)))")
  show "wf (measure (\<lambda>it. unat (vpn0 (iter_end it) - vpn0 (iter_current it))))" by simp
next
  fix it :: "VirtPageNum SimpleRangeIterator" and x y t
  assume n: "(x, y) = iter_next vpn_step it" and "x = Some t"
  then have ne: "vpn0 (iter_end it) - vpn0 (iter_current it) \<noteq> 0"
    by (auto simp: iter_next_def VirtPageNum.expand split: if_splits)
  from n \<open>x = Some t\<close> have y: "y = it\<lparr>iter_current := vpn_step (iter_current it)\<rparr>"
    by (auto simp: iter_next_def split: if_splits)
  have "vpn0 (iter_end y) - vpn0 (iter_current y)
      = vpn0 (iter_end it) - vpn0 (iter_current it) - 1"
    by (simp add: y vpn_step_def)
  then show "(y, it) \<in> measure (\<lambda>it. unat (vpn0 (iter_end it) - vpn0 (iter_current it)))"
    using measure_unat [OF ne] by simp
qed

declare iter_collect.simps [simp del]

definition range_list :: "VPNRange \<Rightarrow> VirtPageNum list" where
  "range_list r = iter_collect (range_into_iter r)"

section \<open>Addresses split into page number and offset\<close>

lemma unat_PAGE_SIZE [simp]: "unat PAGE_SIZE = 4096"
  by (simp add: PAGE_SIZE_def)

lemma page_mask: "PAGE_SIZE - 1 = mask 12"
  by (simp add: PAGE_SIZE_def mask_eq_exp_minus_1)

lemma unat_va_floor: "unat (vpn0 (va_floor v)) = unat (va0 v) div 4096"
  by (simp add: va_floor_def word_div_unat)

lemma unat_va_page_offset: "unat (va_page_offset v) = unat (va0 v) mod 4096"
  by (simp add: va_page_offset_def page_mask unat_and_mask)

lemma va_page_offset_bound: "unat (va_page_offset v) < 4096"
  by (simp add: unat_va_page_offset)

lemma va_aligned_iff: "va_aligned v \<longleftrightarrow> 4096 dvd unat (va0 v)"
  by (simp add: va_aligned_def unat_va_page_offset dvd_eq_mod_eq_0 flip: unat_eq_zero)

lemma va_floor_plus_offset:
  "unat (va0 v) = unat (vpn0 (va_floor v)) * 4096 + unat (va_page_offset v)"
  by (simp add: unat_va_floor unat_va_page_offset)

lemma unat_va_of_vpn:
  "unat (vpn0 v) < 2 ^ 52 \<Longrightarrow> unat (va0 (va_of_vpn v)) = unat (vpn0 v) * 4096"
  by (simp add: va_of_vpn_def PAGE_SIZE_BITS_def unat_push_bit)

lemma unat_pa_of_ppn:
  "unat (ppn0 p) < 2 ^ 52 \<Longrightarrow> unat (pa0 (pa_of_ppn p)) = unat (ppn0 p) * 4096"
  by (simp add: pa_of_ppn_def PAGE_SIZE_BITS_def unat_push_bit)

lemma unat_va_ceil:
  assumes "unat (va0 v) + 4095 < 2 ^ 64"
  shows "unat (vpn0 (va_ceil v)) = (unat (va0 v) + 4095) div 4096"
proof -
  have e: "va0 v - 1 + PAGE_SIZE = va0 v + 4095" by (simp add: PAGE_SIZE_def)
  have "unat (va0 v + 4095) = unat (va0 v) + 4095"
    using assms by (subst unat_add_less) simp_all
  then show ?thesis by (simp only: va_ceil_def e word_div_unat VirtPageNum.sel unat_PAGE_SIZE)
qed

lemma vpn_of_va_of_vpn: "unat (vpn0 v) < 2 ^ 52 \<Longrightarrow> vpn_of_va (va_of_vpn v) = Some v"
  using unat_va_of_vpn [of v] unat_va_floor [of "va_of_vpn v"]
    unat_va_page_offset [of "va_of_vpn v"]
  by (auto simp: vpn_of_va_def VirtPageNum.expand word_unat_eq_iff)

section \<open>Indexes\<close>

lemma indexes_unfold:
  "indexes v = [drop_bit 18 (vpn0 v) AND 511, drop_bit 9 (vpn0 v) AND 511, vpn0 v AND 511]"
  by (simp add: indexes_def upt_rec drop_bit_drop_bit)

definition idx0 :: "VirtPageNum \<Rightarrow> nat" where
  "idx0 v = unat (vpn0 v) div 2 ^ 18 mod 512"
definition idx1 :: "VirtPageNum \<Rightarrow> nat" where
  "idx1 v = unat (vpn0 v) div 2 ^ 9 mod 512"
definition idx2 :: "VirtPageNum \<Rightarrow> nat" where
  "idx2 v = unat (vpn0 v) mod 512"

lemma mask9: "(511 :: usize) = mask 9"
  by (simp add: mask_eq_exp_minus_1)

lemma unat_indexes: "map unat (indexes v) = [idx0 v, idx1 v, idx2 v]"
  by (simp add: indexes_unfold idx0_def idx1_def idx2_def mask9 unat_and_mask unat_drop_bit)

lemma idx_bounds [simp]: "idx0 v < 512" "idx1 v < 512" "idx2 v < 512"
  by (simp_all add: idx0_def idx1_def idx2_def)

lemma mod_27_split:
  "n mod 2 ^ 27 = (n div 2 ^ 18 mod 512) * 2 ^ 18 + (n div 2 ^ 9 mod 512) * 2 ^ 9 + n mod 512"
  for n :: nat
proof -
  have "n mod (2 ^ 18 * 512) = 2 ^ 18 * (n div 2 ^ 18 mod 512) + n mod 2 ^ 18"
    by (rule mod_mult2_eq)
  moreover have "n mod (2 ^ 9 * 512) = 2 ^ 9 * (n div 2 ^ 9 mod 512) + n mod 2 ^ 9"
    by (rule mod_mult2_eq)
  ultimately show ?thesis by simp
qed

lemma idx_recombine:
  "unat (vpn0 v) mod 2 ^ 27 = idx0 v * 2 ^ 18 + idx1 v * 2 ^ 9 + idx2 v"
  unfolding idx0_def idx1_def idx2_def by (rule mod_27_split)

lemma idx_split:
  fixes a b c a' b' c' :: nat
  assumes "a * 2 ^ 18 + b * 2 ^ 9 + c = a' * 2 ^ 18 + b' * 2 ^ 9 + c'"
    and "b < 512" "c < 512" "b' < 512" "c' < 512"
  shows "a = a' \<and> b = b' \<and> c = c'"
proof -
  from assms(1) have e: "(a * 512 + b) * 512 + c = (a' * 512 + b') * 512 + c'" by simp
  from arg_cong [OF e, of "\<lambda>x. x mod 512"] assms(3,5) have c: "c = c'"
    by (simp only: mod_mult_self3 mod_less)
  with e have f: "a * 512 + b = a' * 512 + b'" by simp
  from arg_cong [OF f, of "\<lambda>x. x mod 512"] assms(2,4) have "b = b'"
    by (simp only: mod_mult_self3 mod_less)
  with f c show ?thesis by simp
qed

lemma idx_eq_iff:
  "(idx0 v = idx0 w \<and> idx1 v = idx1 w \<and> idx2 v = idx2 w)
     \<longleftrightarrow> unat (vpn0 v) mod 2 ^ 27 = unat (vpn0 w) mod 2 ^ 27"
  unfolding idx_recombine
  using idx_split [of "idx0 v" "idx1 v" "idx2 v" "idx0 w" "idx1 w" "idx2 w"] by auto

section \<open>Iterating a range\<close>

lemma iter_collect_eq:
  assumes "unat a \<le> unat b"
  shows "iter_collect \<lparr>iter_current = VirtPageNum a, iter_end = VirtPageNum b\<rparr>
       = map (\<lambda>n. VirtPageNum (of_nat n)) [unat a..<unat b]"
  using assms
proof (induction "unat b - unat a" arbitrary: a)
  case 0
  then have "a = b" by (simp add: word_unat_eq_iff)
  then show ?case by (subst iter_collect.simps) (simp add: iter_next_def)
next
  case (Suc n)
  then have lt: "unat a < unat b" by simp
  then have ne: "a \<noteq> b" by auto
  from lt have s: "unat (a + 1) = Suc (unat a)" by (rule unat_Suc_below)
  have "iter_collect \<lparr>iter_current = VirtPageNum (a + 1), iter_end = VirtPageNum b\<rparr>
      = map (\<lambda>n. VirtPageNum (of_nat n)) [unat (a + 1)..<unat b]"
    by (rule Suc.hyps(1)) (use Suc.hyps(2) s lt in simp_all)
  then show ?case using ne lt
    by (subst iter_collect.simps) (simp add: iter_next_def vpn_step_def s upt_rec [of "unat a"])
qed

lemma range_list_eq:
  assumes "range_l r \<le> range_r r"
  shows "range_list r
       = map (\<lambda>n. VirtPageNum (of_nat n)) [unat (vpn0 (range_l r))..<unat (vpn0 (range_r r))]"
proof -
  have "unat (vpn0 (range_l r)) \<le> unat (vpn0 (range_r r))"
    using assms by (simp add: less_eq_VirtPageNum_def word_le_nat_alt)
  from iter_collect_eq [OF this] show ?thesis
    by (simp add: range_list_def range_into_iter_def)
qed

lemma set_range_list:
  assumes "range_l r \<le> range_r r"
  shows "set (range_list r) = {v. range_l r \<le> v \<and> v < range_r r}"
proof -
  have "v \<in> (\<lambda>n. VirtPageNum (of_nat n)) ` {unat (vpn0 (range_l r))..<unat (vpn0 (range_r r))}
      \<longleftrightarrow> range_l r \<le> v \<and> v < range_r r" for v
    by (cases v) (auto simp: image_iff less_eq_VirtPageNum_def less_VirtPageNum_def
        word_le_nat_alt word_less_nat_alt unat_of_nat_below intro!: bexI [of _ "unat (vpn0 v)"])
  then show ?thesis by (auto simp: range_list_eq [OF assms])
qed

lemma distinct_range_list:
  assumes "range_l r \<le> range_r r"
  shows "distinct (range_list r)"
proof -
  have "inj_on (\<lambda>n. VirtPageNum (of_nat n))
      {unat (vpn0 (range_l r))..<unat (vpn0 (range_r r))}"
    by (auto simp: inj_on_def word_unat_eq_iff unat_of_nat_below)
  then show ?thesis by (simp add: range_list_eq [OF assms] distinct_map)
qed

lemma length_range_list:
  "range_l r \<le> range_r r \<Longrightarrow>
    length (range_list r) = unat (vpn0 (range_r r)) - unat (vpn0 (range_l r))"
  by (simp add: range_list_eq)

lemma range_new_Some:
  "range_new l r = Some g \<longleftrightarrow> l \<le> r \<and> g = \<lparr>range_l = l, range_r = r\<rparr>"
  by (auto simp: range_new_def)

section \<open>Properties\<close>

text \<open>
  C21. The three page-table indexes and the page offset of a virtual address determine its low
  39 bits: the address modulo 2^39 is the number with those digits. The offset is below the
  page size, and the address is aligned exactly when the offset is 0.
\<close>

theorem sv39_digits:
  "map unat (indexes (va_floor v)) = [i, j, k] \<Longrightarrow>
    unat (va0 v) mod 2 ^ 39
      = i * 2 ^ 30 + j * 2 ^ 21 + k * 2 ^ 12 + unat (va_page_offset v)
    \<and> i < 512 \<and> j < 512 \<and> k < 512 \<and> unat (va_page_offset v) < 4096
    \<and> (va_aligned v \<longleftrightarrow> va_page_offset v = 0)"
proof -
  assume "map unat (indexes (va_floor v)) = [i, j, k]"
  then have e: "i = idx0 (va_floor v)" "j = idx1 (va_floor v)" "k = idx2 (va_floor v)"
    by (simp_all only: unat_indexes list.inject)
  let ?n = "unat (va0 v)"
  have "?n mod (4096 * 2 ^ 27) = 4096 * (?n div 4096 mod 2 ^ 27) + ?n mod 4096"
    by (rule mod_mult2_eq)
  also have "?n div 4096 mod 2 ^ 27 = i * 2 ^ 18 + j * 2 ^ 9 + k"
    unfolding e unat_va_floor [symmetric] by (rule idx_recombine)
  finally have "?n mod 2 ^ 39 = i * 2 ^ 30 + j * 2 ^ 21 + k * 2 ^ 12 + unat (va_page_offset v)"
    by (simp add: unat_va_page_offset)
  then show ?thesis by (simp add: e va_page_offset_bound va_aligned_def)
qed

theorem sv39_digits_witness:
  "unat (va0 (VirtAddr 0x40403023)) mod 2 ^ 39 = 1 * 2 ^ 30 + 2 * 2 ^ 21 + 3 * 2 ^ 12
     + unat (va_page_offset (VirtAddr 0x40403023))"
proof -
  have "map unat (indexes (va_floor (VirtAddr 0x40403023))) = [1, 2, 3]"
    by (simp add: unat_indexes idx0_def idx1_def idx2_def unat_va_floor)
  from sv39_digits [OF this] show ?thesis by blast
qed

text \<open>
  C22. Iterating a \<open>VPNRange\<close> visits every page number from its start to just before its end once,
  in increasing order, although the iterator stops on equality and steps with wrap-around.
\<close>

theorem vpn_range_visits:
  assumes "range_new l r = Some g"
  shows "set (range_list g) = {v. l \<le> v \<and> v < r} \<and> sorted_wrt (<) (range_list g)
    \<and> length (range_list g) = unat (vpn0 r) - unat (vpn0 l)"
proof -
  have lr: "l \<le> r" and g: "g = \<lparr>range_l = l, range_r = r\<rparr>" using assms by (simp_all add: range_new_Some)
  have le: "range_l g \<le> range_r g" using lr g by simp
  have below: "unat (of_nat x :: usize) = x" if "x < unat (vpn0 (range_r g))" for x
    using that by (rule unat_of_nat_below)
  have "sorted_wrt (<) (range_list g)"
    unfolding range_list_eq [OF le] sorted_wrt_map
    by (rule sorted_wrt_mono_rel [OF _ sorted_wrt_upt])
      (auto simp: less_VirtPageNum_def word_less_nat_alt below)
  with set_range_list [OF le] length_range_list [OF le] show ?thesis by (simp add: g)
qed

theorem vpn_range_visits_witness:
  "sorted_wrt (<) (range_list \<lparr>range_l = VirtPageNum 3, range_r = VirtPageNum 6\<rparr>)
    \<and> length (range_list \<lparr>range_l = VirtPageNum 3, range_r = VirtPageNum 6\<rparr>) = 3"
  using vpn_range_visits [of "VirtPageNum 3" "VirtPageNum 6"]
  by (simp add: range_new_def less_eq_VirtPageNum_def)

end
