(* ===== verification/PhysMem.thy ===== *)
theory PhysMem
  imports Address
begin

text \<open>
  Physical memory. The kernel reads and writes it through references it makes from
  physical page numbers and addresses (\<open>get_pte_array\<close>, \<open>get_bytes_array\<close> and \<open>get_mut\<close>
  of \<open>mm/address.rs\<close>); since these references alias freely, memory is an explicit store,
  a function from 64-bit addresses to bytes, and a reference is the address it points to.
  Integers are stored in little-endian order, as on RV64.
\<close>

section \<open>Bytes and integers\<close>

type_synonym phys_mem = "usize \<Rightarrow> u8"

definition read_bytes :: "phys_mem \<Rightarrow> usize \<Rightarrow> nat \<Rightarrow> u8 list" where
  "read_bytes m a n = map (\<lambda>i. m (a + of_nat i)) [0..<n]"

definition write_bytes :: "phys_mem \<Rightarrow> usize \<Rightarrow> u8 list \<Rightarrow> phys_mem" where
  "write_bytes m a bs =
     (\<lambda>x. if unat (x - a) < length bs then bs ! unat (x - a) else m x)"

definition read_u64 :: "phys_mem \<Rightarrow> usize \<Rightarrow> u64" where
  "read_u64 m a = le_decode (read_bytes m a 8)"

definition write_u64 :: "phys_mem \<Rightarrow> usize \<Rightarrow> u64 \<Rightarrow> phys_mem" where
  "write_u64 m a w = write_bytes m a (le_encode 8 w)"

section \<open>References made from page numbers\<close>

text \<open>A slice is its first address and its number of elements.\<close>

definition get_pte_array :: "PhysPageNum \<Rightarrow> usize \<times> nat" where
  "get_pte_array p = (pa0 (pa_of_ppn p), 512)"

definition get_bytes_array :: "PhysPageNum \<Rightarrow> usize \<times> nat" where
  "get_bytes_array p = (pa0 (pa_of_ppn p), 4096)"

text \<open>\<open>PhysAddr::get_mut\<close> unwraps \<open>as_mut\<close>, which is \<open>None\<close> for the null pointer.\<close>

definition pa_get_mut :: "PhysAddr \<Rightarrow> usize option" where
  "pa_get_mut p = (if pa0 p = 0 then None else Some (pa0 p))"

definition ppn_get_mut :: "PhysPageNum \<Rightarrow> usize option" where
  "ppn_get_mut p = pa_get_mut (pa_of_ppn p)"

text \<open>Indexing a slice of 8-byte entries, and of bytes.\<close>

definition pte_slice_index :: "usize \<times> nat \<Rightarrow> usize \<Rightarrow> usize option" where
  "pte_slice_index s i = (if unat i < snd s then Some (fst s + 8 * i) else None)"

definition byte_slice_range :: "usize \<times> nat \<Rightarrow> usize \<Rightarrow> usize \<Rightarrow> (usize \<times> nat) option" where
  "byte_slice_range s lo hi =
     (if lo \<le> hi \<and> unat hi \<le> snd s then Some (fst s + lo, unat (hi - lo)) else None)"

section \<open>Reading back what was written\<close>

lemma length_read_bytes [simp]: "length (read_bytes m a n) = n"
  by (simp add: read_bytes_def)

lemma write_bytes_same [mem_simps]:
  "i < length bs \<Longrightarrow> length bs \<le> 2 ^ 64 \<Longrightarrow> write_bytes m a bs (a + of_nat i) = bs ! i"
  by (simp add: write_bytes_def unat_of_nat_less)

lemma write_bytes_other:
  "length bs \<le> unat (x - a) \<Longrightarrow> write_bytes m a bs x = m x"
  by (simp add: write_bytes_def)

lemma read_write_bytes [mem_simps]:
  "length bs \<le> 2 ^ 64 \<Longrightarrow> read_bytes (write_bytes m a bs) a (length bs) = bs"
  by (rule nth_equalityI) (simp_all add: read_bytes_def write_bytes_same)

lemma read_write_u64 [mem_simps]: "read_u64 (write_u64 m a w) a = w"
  using read_write_bytes [of "le_encode 8 w" m a]
  by (simp add: read_u64_def write_u64_def le_decode_encode_full)

section \<open>Frames\<close>

text \<open>An address lies in the frame whose number is the address divided by 4096.\<close>

definition in_frame :: "PhysPageNum \<Rightarrow> usize \<Rightarrow> bool" where
  "in_frame p x \<longleftrightarrow> unat x div 4096 = unat (ppn0 p)"

definition frame_base :: "PhysPageNum \<Rightarrow> usize" where
  "frame_base p = pa0 (pa_of_ppn p)"

definition ppn_ok :: "PhysPageNum \<Rightarrow> bool" where
  "ppn_ok p \<longleftrightarrow> unat (ppn0 p) < 2 ^ 44"

lemma unat_frame_base: "ppn_ok p \<Longrightarrow> unat (frame_base p) = unat (ppn0 p) * 4096"
  by (simp add: frame_base_def unat_pa_of_ppn ppn_ok_def)

lemma unat_frame_offset:
  assumes "ppn_ok p" and "i < 4096"
  shows "unat (frame_base p + of_nat i) = unat (ppn0 p) * 4096 + i"
proof -
  have "unat (ppn0 p) * 4096 + i < 2 ^ 64" using assms by (simp add: ppn_ok_def)
  moreover have "unat (of_nat i :: usize) = i" using assms(2) by (simp add: unat_of_nat_less)
  ultimately show ?thesis using assms(1)
    by (subst unat_add_less) (simp_all add: unat_frame_base)
qed

lemma in_frame_offset: "ppn_ok p \<Longrightarrow> i < 4096 \<Longrightarrow> in_frame p (frame_base p + of_nat i)"
  by (simp add: in_frame_def unat_frame_offset)

lemma in_frame_cases:
  assumes "ppn_ok p" and "in_frame p x"
  obtains i where "i < 4096" and "x = frame_base p + of_nat i"
proof
  show "unat x mod 4096 < 4096" by simp
  have "unat (frame_base p + of_nat (unat x mod 4096)) = unat (ppn0 p) * 4096 + unat x mod 4096"
    by (rule unat_frame_offset [OF assms(1)]) simp
  also have "\<dots> = unat x" using assms(2) unfolding in_frame_def by (metis div_mult_mod_eq)
  finally show "x = frame_base p + of_nat (unat x mod 4096)" by (simp add: word_unat_eq_iff)
qed

lemma in_frame_unique: "in_frame p x \<Longrightarrow> in_frame q x \<Longrightarrow> p = q"
  by (simp add: in_frame_def PhysPageNum.expand word_unat_eq_iff)

lemma frame_offset_inj:
  "ppn_ok p \<Longrightarrow> i < 4096 \<Longrightarrow> j < 4096 \<Longrightarrow>
    frame_base p + of_nat i = frame_base p + of_nat j \<longleftrightarrow> i = j"
  by (metis unat_frame_offset add_left_imp_eq)

text \<open>A write inside a frame leaves the rest of memory alone.\<close>

lemma write_bytes_in_frame:
  assumes "ppn_ok p" and "off + length bs \<le> 4096"
    and "x \<notin> (\<lambda>i. frame_base p + of_nat i) ` {off..<off + length bs}"
  shows "write_bytes m (frame_base p + of_nat off) bs x = m x"
proof (rule write_bytes_other, rule ccontr)
  assume lt: "\<not> length bs \<le> unat (x - (frame_base p + of_nat off))"
  define k where "k = unat (x - (frame_base p + of_nat off))"
  have "x = frame_base p + of_nat off + (x - (frame_base p + of_nat off))" by simp
  also have "\<dots> = frame_base p + of_nat (off + k)" by (simp add: k_def)
  finally have "x = frame_base p + of_nat (off + k)" .
  moreover have "off + k \<in> {off..<off + length bs}" using lt by (simp add: k_def)
  ultimately show False using assms(3) by blast
qed

lemma write_bytes_other_frame:
  assumes "ppn_ok p" and "off + length bs \<le> 4096" and "\<not> in_frame p x"
  shows "write_bytes m (frame_base p + of_nat off) bs x = m x"
proof (rule write_bytes_in_frame [OF assms(1,2)])
  show "x \<notin> (\<lambda>i. frame_base p + of_nat i) ` {off..<off + length bs}"
    using assms in_frame_offset [OF assms(1)] by fastforce
qed

section \<open>A frame as an array of 512 entries\<close>

text \<open>The address of entry \<open>i\<close> of a frame and the entry stored there.\<close>

definition pte_addr :: "PhysPageNum \<Rightarrow> nat \<Rightarrow> usize" where
  "pte_addr p i = frame_base p + of_nat (8 * i)"

definition pte_bits :: "phys_mem \<Rightarrow> PhysPageNum \<Rightarrow> nat \<Rightarrow> u64" where
  "pte_bits m p i = read_u64 m (pte_addr p i)"

lemma pte_slice_index_array:
  "pte_slice_index (get_pte_array p) i = (if unat i < 512 then Some (pte_addr p (unat i)) else None)"
  by (simp add: pte_slice_index_def get_pte_array_def pte_addr_def frame_base_def)

lemma read_bytes_cong:
  "(\<And>i. i < n \<Longrightarrow> m (a + of_nat i) = m' (a + of_nat i)) \<Longrightarrow> read_bytes m a n = read_bytes m' a n"
  by (simp add: read_bytes_def)

lemma pte_addr_plus: "pte_addr p i + of_nat k = frame_base p + of_nat (8 * i + k)"
  by (simp add: pte_addr_def)

lemma unat_neg: "x \<noteq> 0 \<Longrightarrow> unat (- x) = 2 ^ 64 - unat x" for x :: usize
proof -
  assume "x \<noteq> 0"
  then have p: "0 < unat x" by (simp add: unat_gt_0)
  have "(of_nat (2 ^ 64 - unat x) :: usize) = of_nat (2 ^ 64) - of_nat (unat x)"
    by (rule of_nat_diff) (use unat_less_exp [of x] in simp)
  then have "- x = of_nat (2 ^ 64 - unat x)" by simp
  moreover have "unat (of_nat (2 ^ 64 - unat x) :: usize) = 2 ^ 64 - unat x" by (rule unat_of_nat_less) (use p in simp)
  ultimately show ?thesis by (simp only:)
qed

lemma read_write_apart:
  assumes "8 \<le> unat (b - a)" and "8 \<le> unat (a - b)"
  shows "read_u64 (write_u64 m a w) b = read_u64 m b"
proof -
  have "read_bytes (write_u64 m a w) b 8 = read_bytes m b 8"
  proof (rule read_bytes_cong)
    fix i :: nat assume i: "i < 8"
    have "8 \<le> unat (b + of_nat i - a)"
    proof (cases "unat (b - a) + i < 2 ^ 64")
      case True
      have "unat (b - a + of_nat i) = unat (b - a) + i"
        using True i by (simp add: unat_add_lem [THEN iffD1] unat_of_nat_less)
      then show ?thesis using assms(1) by (simp add: algebra_simps)
    next
      case False
      have "unat (a - b) = 2 ^ 64 - unat (b - a)"
        using unat_neg [of "b - a"] assms(1) by (cases "b = a") auto
      then show ?thesis using False assms(2) i by simp
    qed
    then show "write_u64 m a w (b + of_nat i) = m (b + of_nat i)"
      unfolding write_u64_def by (intro write_bytes_other) simp
  qed
  then show ?thesis by (simp add: read_u64_def)
qed

lemma pte_bits_cong:
  assumes "ppn_ok p" and "i < 512" and "\<And>x. in_frame p x \<Longrightarrow> m x = m' x"
  shows "pte_bits m p i = pte_bits m' p i"
proof -
  have "read_bytes m (pte_addr p i) 8 = read_bytes m' (pte_addr p i) 8"
    using assms by (intro read_bytes_cong) (simp only: pte_addr_plus in_frame_offset)
  then show ?thesis by (simp add: pte_bits_def read_u64_def)
qed

lemma pte_bits_write_same [mem_simps]: "pte_bits (write_u64 m (pte_addr p i) e) p i = e"
  by (simp add: pte_bits_def read_write_u64)

lemma write_u64_other_frame:
  "ppn_ok p \<Longrightarrow> i < 512 \<Longrightarrow> \<not> in_frame p x \<Longrightarrow> write_u64 m (pte_addr p i) e x = m x"
  unfolding write_u64_def pte_addr_def by (rule write_bytes_other_frame) simp_all

lemma pte_bits_write_other:
  assumes "ppn_ok p" "ppn_ok q" "i < 512" "j < 512" and "(p, i) \<noteq> (q, j)"
  shows "pte_bits (write_u64 m (pte_addr p i) e) q j = pte_bits m q j"
proof (cases "p = q")
  case False
  then have "\<not> in_frame p x" if "in_frame q x" for x
    using that in_frame_unique by blast
  then show ?thesis
    using assms by (intro pte_bits_cong) (simp_all add: write_u64_other_frame)
next
  case True
  then have ij: "i \<noteq> j" using assms(5) by simp
  have "write_bytes m (frame_base p + of_nat (8 * i)) (le_encode 8 e) (pte_addr q j + of_nat k)
      = m (pte_addr q j + of_nat k)" if "k < 8" for k
  proof (rule write_bytes_in_frame [OF assms(1)])
    show "8 * i + length (le_encode 8 e) \<le> 4096" using assms(3) by simp
    show "pte_addr q j + of_nat k
        \<notin> (\<lambda>n. frame_base p + of_nat n) ` {8 * i..<8 * i + length (le_encode 8 e)}"
    proof
      assume "pte_addr q j + of_nat k
        \<in> (\<lambda>n. frame_base p + of_nat n) ` {8 * i..<8 * i + length (le_encode 8 e)}"
      then obtain n where n: "8 * i \<le> n" "n < 8 * i + 8"
        and "frame_base p + of_nat (8 * j + k) = frame_base p + of_nat n"
        unfolding pte_addr_plus True by auto
      with assms(1,3,4) that have "8 * j + k = n"
        by (subst (asm) frame_offset_inj) simp_all
      with n ij that show False by presburger
    qed
  qed
  then have "read_bytes (write_u64 m (pte_addr p i) e) (pte_addr q j) 8
      = read_bytes m (pte_addr q j) 8"
    by (intro read_bytes_cong) (simp add: write_u64_def pte_addr_def)
  then show ?thesis by (simp add: pte_bits_def read_u64_def)
qed

text \<open>Zeroing a frame zeroes its entries.\<close>

lemma le_decode_zeros: "le_decode (replicate n 0) = 0"
  by (induction n) simp_all

lemma pte_bits_zero:
  assumes "ppn_ok p" and "i < 512" and "\<And>x. in_frame p x \<Longrightarrow> m x = 0"
  shows "pte_bits m p i = 0"
proof -
  have "read_bytes m (pte_addr p i) 8 = read_bytes (\<lambda>_. 0) (pte_addr p i) 8"
    using assms by (intro read_bytes_cong) (simp only: pte_addr_plus in_frame_offset)
  then have "read_bytes m (pte_addr p i) 8 = replicate 8 0"
    by (simp add: read_bytes_def map_replicate_const)
  then show ?thesis by (simp only: pte_bits_def read_u64_def le_decode_zeros)
qed

end
