(* ===== verification/Allocator.thy ===== *)
theory Allocator
  imports Prelude
begin

text \<open>
  The contract that the kernel's allocators share. Physical frames (\<open>StackFrameAllocator\<close>) and
  process identifiers (\<open>PidAllocator\<close>) hand out an item that nobody holds and take back only
  items that are held: a second \<open>dealloc\<close> of the same item panics. \<open>room\<close> says when an allocation keeps the contract (a counter that does not wrap). The
  consequences are proved here once, for any provider.
\<close>

locale id_allocator =
  fixes alloc :: "'s \<Rightarrow> 'i option \<times> 's"
    and dealloc :: "'i \<Rightarrow> 's \<Rightarrow> 's option"
    and inv :: "'s \<Rightarrow> bool"
    and live :: "'s \<Rightarrow> 'i set"
    and room :: "'s \<Rightarrow> bool"
  assumes alloc_fresh: "inv s \<Longrightarrow> room s \<Longrightarrow> alloc s = (Some i, s') \<Longrightarrow> i \<notin> live s"
    and alloc_live: "inv s \<Longrightarrow> room s \<Longrightarrow> alloc s = (Some i, s') \<Longrightarrow> live s' = insert i (live s)"
    and alloc_inv: "inv s \<Longrightarrow> room s \<Longrightarrow> alloc s = (Some i, s') \<Longrightarrow> inv s'"
    and alloc_none: "alloc s = (None, s') \<Longrightarrow> s' = s"
    and dealloc_live: "inv s \<Longrightarrow> i \<in> live s \<Longrightarrow> \<exists>s'. dealloc i s = Some s'"
    and dealloc_dead: "inv s \<Longrightarrow> dealloc i s = Some s' \<Longrightarrow> i \<in> live s"
    and dealloc_removes: "inv s \<Longrightarrow> dealloc i s = Some s' \<Longrightarrow> live s' = live s - {i}"
    and dealloc_inv: "inv s \<Longrightarrow> dealloc i s = Some s' \<Longrightarrow> inv s'"
begin

lemma double_dealloc_panics: "inv s \<Longrightarrow> dealloc i s = Some s' \<Longrightarrow> dealloc i s' = None"
  using dealloc_dead dealloc_inv dealloc_removes by (metis Diff_iff insertI1 option.exhaust)

lemma alloc_then_dealloc:
  assumes "inv s" and "room s" and "alloc s = (Some i, s')"
  shows "\<exists>s''. dealloc i s' = Some s'' \<and> live s'' = live s \<and> inv s''"
proof -
  have "i \<in> live s'" using alloc_live [OF assms] by simp
  then obtain s'' where s'': "dealloc i s' = Some s''"
    using dealloc_live [OF alloc_inv [OF assms]] by blast
  have "live s'' = live s"
    using dealloc_removes [OF alloc_inv [OF assms] s''] alloc_live [OF assms] alloc_fresh [OF assms]
    by simp
  with s'' dealloc_inv [OF alloc_inv [OF assms] s''] show ?thesis by blast
qed

text \<open>Dropping a vector of handles returns exactly the items they stand for.\<close>

lemma drop_all:
  assumes "inv s" and "distinct xs" and "set xs \<subseteq> live s"
  shows "\<exists>s'. foldM dealloc xs s = Some s' \<and> live s' = live s - set xs \<and> inv s'"
  using assms
proof (induction xs arbitrary: s)
  case Nil
  then show ?case by simp
next
  case (Cons x xs)
  then obtain t where t: "dealloc x s = Some t" using dealloc_live by force
  have lt: "live t = live s - {x}" and it: "inv t"
    using dealloc_removes dealloc_inv Cons.prems(1) t by blast+
  have "\<exists>s'. foldM dealloc xs t = Some s' \<and> live s' = live t - set xs \<and> inv s'"
    by (rule Cons.IH [OF it]) (use Cons.prems lt in auto)
  then show ?case using t lt by auto
qed

lemma drop_all_conv:
  assumes "inv s" and "foldM dealloc xs s = Some s'"
  shows "distinct xs \<and> set xs \<subseteq> live s \<and> live s' = live s - set xs \<and> inv s'"
  using assms
proof (induction xs arbitrary: s)
  case Nil
  then show ?case by simp
next
  case (Cons x xs)
  from Cons.prems(2) obtain t where t: "dealloc x s = Some t" and r: "foldM dealloc xs t = Some s'"
    by (auto simp: bind_eq_Some_conv)
  have "distinct xs \<and> set xs \<subseteq> live t \<and> live s' = live t - set xs \<and> inv s'"
    by (rule Cons.IH) (use dealloc_inv Cons.prems(1) t r in blast)+
  then show ?case
    using dealloc_removes [OF Cons.prems(1) t] dealloc_dead [OF Cons.prems(1) t] by auto
qed

end

end
