(* ===== verification/FrameAllocator.thy ===== *)
theory FrameAllocator
  imports PhysMem Allocator
begin

text \<open>
  The physical frame allocator, \<open>mm/frame_allocator.rs\<close>. A \<open>FrameTracker\<close> owns one frame
  and frees it when it is dropped; in the model a tracker is the page number it owns, and
  every place where the source drops trackers calls \<open>frame_dealloc\<close> explicitly, in the
  order Rust drops them. The global allocator and memory together are the record \<open>mm\<close>.
\<close>

section \<open>The allocator\<close>

record StackFrameAllocator =
  fa_current :: usize
  fa_end :: usize
  fa_recycled :: "usize list"

definition fa_new :: StackFrameAllocator where
  "fa_new = \<lparr>fa_current = 0, fa_end = 0, fa_recycled = []\<rparr>"

definition fa_init :: "PhysPageNum \<Rightarrow> PhysPageNum \<Rightarrow> StackFrameAllocator \<Rightarrow> StackFrameAllocator" where
  "fa_init l r a = a\<lparr>fa_current := ppn0 l, fa_end := ppn0 r\<rparr>"

definition fa_alloc :: "StackFrameAllocator \<Rightarrow> PhysPageNum option \<times> StackFrameAllocator" where
  "fa_alloc a =
     (if fa_recycled a \<noteq> [] then
        (Some (PhysPageNum (last (fa_recycled a))), a\<lparr>fa_recycled := butlast (fa_recycled a)\<rparr>)
      else if fa_current a = fa_end a then (None, a)
      else let a' = a\<lparr>fa_current := fa_current a + 1\<rparr>
           in (Some (PhysPageNum (fa_current a' - 1)), a'))"

definition fa_dealloc :: "PhysPageNum \<Rightarrow> StackFrameAllocator \<Rightarrow> StackFrameAllocator option" where
  "fa_dealloc p a =
     (if ppn0 p \<ge> fa_current a \<or> ppn0 p \<in> set (fa_recycled a) then None
      else Some (a\<lparr>fa_recycled := fa_recycled a @ [ppn0 p]\<rparr>))"

section \<open>Memory and the global allocator\<close>

record mm =
  mem :: phys_mem
  frame_allocator :: StackFrameAllocator

type_synonym FrameTracker = PhysPageNum

text \<open>\<open>FrameTracker::new\<close> clears the page.\<close>

definition frame_tracker_new :: "PhysPageNum \<Rightarrow> mm \<Rightarrow> FrameTracker \<times> mm" where
  "frame_tracker_new p s =
     (let (base, len) = get_bytes_array p
      in (p, s\<lparr>mem := write_bytes (mem s) base (replicate len 0)\<rparr>))"

definition frame_alloc :: "mm \<Rightarrow> FrameTracker option \<times> mm" where
  "frame_alloc s =
     (case fa_alloc (frame_allocator s) of
        (None, a) \<Rightarrow> (None, s\<lparr>frame_allocator := a\<rparr>)
      | (Some p, a) \<Rightarrow>
          (let (t, s') = frame_tracker_new p (s\<lparr>frame_allocator := a\<rparr>) in (Some t, s')))"

definition frame_dealloc :: "PhysPageNum \<Rightarrow> mm \<Rightarrow> mm option" where
  "frame_dealloc p s = do {
     a \<leftarrow> fa_dealloc p (frame_allocator s);
     Some (s\<lparr>frame_allocator := a\<rparr>) }"

text \<open>\<open>frame_alloc().unwrap()\<close>, and dropping a vector of trackers.\<close>

definition frame_alloc_unwrap :: "mm \<Rightarrow> (FrameTracker \<times> mm) option" where
  "frame_alloc_unwrap s =
     (case frame_alloc s of (None, _) \<Rightarrow> None | (Some t, s') \<Rightarrow> Some (t, s'))"

definition drop_frames :: "FrameTracker list \<Rightarrow> mm \<Rightarrow> mm option" where
  "drop_frames ts s = foldM frame_dealloc ts s"

definition init_frame_allocator :: "usize \<Rightarrow> mm \<Rightarrow> mm" where
  "init_frame_allocator ekernel s =
     s\<lparr>frame_allocator := fa_init (pa_ceil (PhysAddr ekernel)) (pa_floor (PhysAddr MEMORY_END))
         (frame_allocator s)\<rparr>"

text \<open>The built-in test allocates five frames, drops them, and does so once more.\<close>

fun alloc_frames :: "nat \<Rightarrow> FrameTracker list \<Rightarrow> mm \<Rightarrow> (FrameTracker list \<times> mm) option" where
  "alloc_frames 0 v s = Some (v, s)"
| "alloc_frames (Suc n) v s = do {
     (frame, s) \<leftarrow> frame_alloc_unwrap s;
     alloc_frames n (v @ [frame]) s }"

definition frame_allocator_test :: "mm \<Rightarrow> mm option" where
  "frame_allocator_test s = do {
     (v, s) \<leftarrow> alloc_frames 5 [] s;
     s \<leftarrow> drop_frames v s;
     (v, s) \<leftarrow> alloc_frames 5 [] s;
     drop_frames v s }"

section \<open>Invariant and the set of frames in use\<close>

definition fa_inv :: "StackFrameAllocator \<Rightarrow> bool" where
  "fa_inv a \<longleftrightarrow> distinct (fa_recycled a) \<and> (\<forall>p \<in> set (fa_recycled a). p < fa_current a)
     \<and> fa_current a \<le> fa_end a \<and> unat (fa_end a) \<le> 2 ^ 44"

text \<open>
  A frame below \<open>current\<close> that is not on the recycle stack is in use: by the kernel image
  when it lies below the allocator's first frame, by a tracker otherwise.
\<close>

definition fa_live :: "StackFrameAllocator \<Rightarrow> PhysPageNum set" where
  "fa_live a = {p. ppn0 p < fa_current a \<and> ppn0 p \<notin> set (fa_recycled a)}"

text \<open>How many further allocations succeed.\<close>

definition fa_free :: "StackFrameAllocator \<Rightarrow> nat" where
  "fa_free a = length (fa_recycled a) + (unat (fa_end a) - unat (fa_current a))"

lemma fa_alloc_cases:
  assumes "fa_inv a" and "fa_alloc a = (Some p, a')"
  obtains (recycled) rs where "fa_recycled a = rs @ [ppn0 p]" "a' = a\<lparr>fa_recycled := rs\<rparr>"
  | (bump) "fa_recycled a = []" "p = PhysPageNum (fa_current a)" "fa_current a < fa_end a"
      "a' = a\<lparr>fa_current := fa_current a + 1\<rparr>"
proof (cases "fa_recycled a = []")
  case True
  then show ?thesis
    using assms bump by (auto simp: fa_alloc_def fa_inv_def Let_def split: if_splits)
next
  case False
  then have "fa_recycled a = butlast (fa_recycled a) @ [last (fa_recycled a)]" by simp
  with False show ?thesis
    using assms recycled [of "butlast (fa_recycled a)"] by (auto simp: fa_alloc_def)
qed

lemma word_Suc_less: "(a :: usize) < e \<Longrightarrow> p < a + 1 \<longleftrightarrow> p < a \<or> p = a"
  using unat_Suc_below [of a e] by (auto simp: word_less_nat_alt word_unat_eq_iff)

lemma fa_alloc_inv: "fa_inv a \<Longrightarrow> fa_alloc a = (Some p, a') \<Longrightarrow> fa_inv a'"
  by (frule (1) fa_alloc_cases)
    (auto simp: fa_inv_def word_le_nat_alt word_less_nat_alt unat_Suc_below [of _ "fa_end a"])

lemma fa_alloc_fresh: "fa_inv a \<Longrightarrow> fa_alloc a = (Some p, a') \<Longrightarrow> p \<notin> fa_live a"
  by (frule (1) fa_alloc_cases) (auto simp: fa_live_def)

lemma fa_alloc_live: "fa_inv a \<Longrightarrow> fa_alloc a = (Some p, a') \<Longrightarrow> fa_live a' = insert p (fa_live a)"
  by (frule (1) fa_alloc_cases)
    (auto simp: fa_live_def fa_inv_def word_Suc_less PhysPageNum.expand)

lemma fa_alloc_free:
  "fa_inv a \<Longrightarrow> fa_alloc a = (Some p, a') \<Longrightarrow> fa_free a = Suc (fa_free a')"
  by (frule (1) fa_alloc_cases)
    (auto simp: fa_free_def word_less_nat_alt unat_Suc_below [of _ "fa_end a"])

lemma fa_alloc_ok: "fa_inv a \<Longrightarrow> fa_alloc a = (Some p, a') \<Longrightarrow> ppn_ok p"
  by (frule (1) fa_alloc_cases)
    (auto simp: fa_inv_def ppn_ok_def word_less_nat_alt word_le_nat_alt)

lemma fa_alloc_some: "fa_inv a \<Longrightarrow> 0 < fa_free a \<Longrightarrow> \<exists>p a'. fa_alloc a = (Some p, a')"
  by (auto simp: fa_alloc_def fa_free_def Let_def)

lemma fa_dealloc_Some:
  "fa_dealloc p a = Some a' \<longleftrightarrow> p \<in> fa_live a \<and> a' = a\<lparr>fa_recycled := fa_recycled a @ [ppn0 p]\<rparr>"
  by (auto simp: fa_dealloc_def fa_live_def)

lemma fa_dealloc_inv: "fa_inv a \<Longrightarrow> fa_dealloc p a = Some a' \<Longrightarrow> fa_inv a'"
  by (auto simp: fa_dealloc_Some fa_inv_def fa_live_def)

lemma fa_dealloc_live: "fa_dealloc p a = Some a' \<Longrightarrow> fa_live a' = fa_live a - {p}"
  by (auto simp: fa_dealloc_Some fa_live_def PhysPageNum.expand)

lemma fa_dealloc_free: "fa_dealloc p a = Some a' \<Longrightarrow> fa_free a' = Suc (fa_free a)"
  by (simp add: fa_dealloc_Some fa_free_def)

lemma fa_live_ok: "fa_inv a \<Longrightarrow> p \<in> fa_live a \<Longrightarrow> ppn_ok p"
  by (auto simp: fa_inv_def fa_live_def ppn_ok_def word_less_nat_alt word_le_nat_alt)

interpretation frames: id_allocator fa_alloc fa_dealloc fa_inv fa_live "\<lambda>_. True"
proof unfold_locales
  fix s p s'
  show "fa_inv s \<Longrightarrow> fa_alloc s = (Some p, s') \<Longrightarrow> p \<notin> fa_live s" by (rule fa_alloc_fresh)
  show "fa_inv s \<Longrightarrow> fa_alloc s = (Some p, s') \<Longrightarrow> fa_live s' = insert p (fa_live s)"
    by (rule fa_alloc_live)
  show "fa_inv s \<Longrightarrow> fa_alloc s = (Some p, s') \<Longrightarrow> fa_inv s'" by (rule fa_alloc_inv)
  show "fa_alloc s = (None, s') \<Longrightarrow> s' = s" by (auto simp: fa_alloc_def Let_def split: if_splits)
qed (auto simp: fa_dealloc_inv fa_dealloc_live, auto simp: fa_dealloc_Some)

section \<open>The same contract for memory with its allocator\<close>

abbreviation mm_inv :: "mm \<Rightarrow> bool" where
  "mm_inv s \<equiv> fa_inv (frame_allocator s)"

abbreviation mm_live :: "mm \<Rightarrow> PhysPageNum set" where
  "mm_live s \<equiv> fa_live (frame_allocator s)"

abbreviation mm_free :: "mm \<Rightarrow> nat" where
  "mm_free s \<equiv> fa_free (frame_allocator s)"

lemma frame_tracker_new_mem:
  assumes "ppn_ok p"
  shows "mem (snd (frame_tracker_new p s)) x = (if in_frame p x then 0 else mem s x)"
proof (cases "in_frame p x")
  case True
  with assms obtain i where "i < 4096" and "x = frame_base p + of_nat i"
    by (rule in_frame_cases)
  then show ?thesis using True
    by (simp add: frame_tracker_new_def get_bytes_array_def write_bytes_same flip: frame_base_def)
next
  case False
  then show ?thesis
    using write_bytes_other_frame [OF assms, of 0 "replicate 4096 0" x "mem s"]
    by (simp add: frame_tracker_new_def get_bytes_array_def flip: frame_base_def)
qed

lemma frame_alloc_conv:
  "frame_alloc s = (r, s') \<longleftrightarrow>
     (\<exists>a. fa_alloc (frame_allocator s) = (r, a) \<and>
        s' = (case r of None \<Rightarrow> s\<lparr>frame_allocator := a\<rparr>
              | Some p \<Rightarrow> snd (frame_tracker_new p (s\<lparr>frame_allocator := a\<rparr>))))"
  by (auto simp: frame_alloc_def frame_tracker_new_def split: prod.splits option.splits)

lemma frame_tracker_new_allocator [simp]:
  "frame_allocator (snd (frame_tracker_new p s)) = frame_allocator s"
  by (simp add: frame_tracker_new_def split: prod.splits)

text \<open>Everything a client of \<open>frame_alloc().unwrap()\<close> needs.\<close>

lemma frame_alloc_unwrap_Some:
  assumes "mm_inv s" and "frame_alloc_unwrap s = Some (p, s')"
  shows "p \<notin> mm_live s" and "mm_live s' = insert p (mm_live s)" and "mm_inv s'"
    and "ppn_ok p" and "mm_free s = Suc (mm_free s')"
    and "mem s' x = (if in_frame p x then 0 else mem s x)"
proof -
  from assms(2) obtain a where a: "fa_alloc (frame_allocator s) = (Some p, a)"
    and s': "s' = snd (frame_tracker_new p (s\<lparr>frame_allocator := a\<rparr>))"
    by (auto simp: frame_alloc_unwrap_def frame_alloc_conv split: prod.splits option.splits)
  show "p \<notin> mm_live s" by (rule fa_alloc_fresh [OF assms(1) a])
  show "mm_live s' = insert p (mm_live s)" by (simp add: s' fa_alloc_live [OF assms(1) a])
  show "mm_inv s'" by (simp add: s' fa_alloc_inv [OF assms(1) a])
  show ok: "ppn_ok p" by (rule fa_alloc_ok [OF assms(1) a])
  show "mm_free s = Suc (mm_free s')" by (simp add: s' fa_alloc_free [OF assms(1) a])
  show "mem s' x = (if in_frame p x then 0 else mem s x)"
    by (simp add: s' frame_tracker_new_mem [OF ok])
qed

lemma frame_alloc_unwrap_total:
  "mm_inv s \<Longrightarrow> 0 < mm_free s \<Longrightarrow> \<exists>p s'. frame_alloc_unwrap s = Some (p, s')"
  using fa_alloc_some [of "frame_allocator s"]
  by (auto simp: frame_alloc_unwrap_def frame_alloc_def frame_tracker_new_def get_bytes_array_def)

lemma frame_dealloc_Some:
  "frame_dealloc p s = Some s' \<longleftrightarrow>
     (\<exists>a. fa_dealloc p (frame_allocator s) = Some a \<and> s' = s\<lparr>frame_allocator := a\<rparr>)"
  by (auto simp: frame_dealloc_def bind_eq_Some_conv)

lemma frame_dealloc_mem: "frame_dealloc p s = Some s' \<Longrightarrow> mem s' = mem s"
  by (auto simp: frame_dealloc_Some)

lemma frame_dealloc_free: "frame_dealloc p s = Some s' \<Longrightarrow> mm_free s' = Suc (mm_free s)"
  by (auto simp: frame_dealloc_Some fa_dealloc_free)

interpretation mm_frames: id_allocator frame_alloc frame_dealloc mm_inv mm_live "\<lambda>_. True"
proof unfold_locales
  fix s p s'
  assume a: "mm_inv s" and b: "frame_alloc s = (Some p, s')"
  then have "frame_alloc_unwrap s = Some (p, s')" by (simp add: frame_alloc_unwrap_def)
  note c = frame_alloc_unwrap_Some [OF a this]
  show "p \<notin> mm_live s" "mm_live s' = insert p (mm_live s)" "mm_inv s'" by (fact c)+
next
  fix s s'
  assume "frame_alloc s = (None, s')"
  then show "s' = s"
    by (auto simp: frame_alloc_conv fa_alloc_def Let_def split: if_splits)
next
  fix s i
  assume "mm_inv s" "i \<in> mm_live s"
  then show "\<exists>s'. frame_dealloc i s = Some s'" by (simp add: frame_dealloc_Some fa_dealloc_Some)
next
  fix s i s'
  assume a: "mm_inv s" and "frame_dealloc i s = Some s'"
  then obtain b where b: "fa_dealloc i (frame_allocator s) = Some b" "s' = s\<lparr>frame_allocator := b\<rparr>"
    by (auto simp: frame_dealloc_Some)
  show "i \<in> mm_live s" by (rule frames.dealloc_dead [OF a b(1)])
  show "mm_live s' = mm_live s - {i}" using frames.dealloc_removes [OF a b(1)] b(2) by simp
  show "mm_inv s'" using frames.dealloc_inv [OF a b(1)] b(2) by simp
qed

lemma drop_frames_mem: "drop_frames ts s = Some s' \<Longrightarrow> mem s' = mem s"
  unfolding drop_frames_def
  by (rule foldM_invariant [where P = "\<lambda>t. mem t = mem s"]) (auto simp: frame_dealloc_mem)

lemma drop_frames_free: "drop_frames ts s = Some s' \<Longrightarrow> mm_free s' = mm_free s + length ts"
  unfolding drop_frames_def
proof (induction ts arbitrary: s)
  case (Cons p ts)
  then obtain t where "frame_dealloc p s = Some t" "foldM frame_dealloc ts t = Some s'"
    by (auto simp: bind_eq_Some_conv)
  with Cons.IH [of t] frame_dealloc_free [of p s t] show ?case by simp
qed simp

lemma drop_frames_ok:
  assumes "mm_inv s" and "distinct ts" and "set ts \<subseteq> mm_live s"
  shows "\<exists>s'. drop_frames ts s = Some s' \<and> mm_live s' = mm_live s - set ts \<and> mm_inv s'
    \<and> mem s' = mem s"
  using mm_frames.drop_all [OF assms] drop_frames_mem by (metis drop_frames_def)

text \<open>A run of allocations returns distinct frames that were free.\<close>

lemma alloc_frames_spec:
  assumes "mm_inv s" and "n \<le> mm_free s" and "set v \<subseteq> mm_live s" and "distinct v"
  shows "\<exists>w s'. alloc_frames n v s = Some (v @ w, s') \<and> length w = n \<and> distinct (v @ w)
    \<and> set w \<inter> mm_live s = {} \<and> mm_live s' = mm_live s \<union> set w \<and> mm_inv s'
    \<and> mm_free s = mm_free s' + n"
  using assms
proof (induction n arbitrary: v s)
  case (Suc n)
  obtain p t where f: "frame_alloc_unwrap s = Some (p, t)"
    using frame_alloc_unwrap_total [OF Suc.prems(1)] Suc.prems(2) by auto
  note A = frame_alloc_unwrap_Some [OF Suc.prems(1) f]
  have "\<exists>w s'. alloc_frames n (v @ [p]) t = Some ((v @ [p]) @ w, s') \<and> length w = n
      \<and> distinct ((v @ [p]) @ w) \<and> set w \<inter> mm_live t = {} \<and> mm_live s' = mm_live t \<union> set w
      \<and> mm_inv s' \<and> mm_free t = mm_free s' + n"
    by (rule Suc.IH) (use Suc.prems A(1-5) in auto)
  then obtain w s' where "alloc_frames n (v @ [p]) t = Some ((v @ [p]) @ w, s')" "length w = n"
    "distinct ((v @ [p]) @ w)" "set w \<inter> mm_live t = {}" "mm_live s' = mm_live t \<union> set w"
    "mm_inv s'" "mm_free t = mm_free s' + n" by blast
  then show ?case using f A(1,2,5) by (intro exI [of _ "p # w"] exI [of _ s']) auto
qed simp

section \<open>A concrete memory\<close>

text \<open>
  Zeroed memory with the frames from 0x80400 to 0x88000 free. The properties are applied to it
  (and to what the operations make of it) to show that their hypotheses can hold.
\<close>

definition sample_mm :: mm where
  "sample_mm = \<lparr>mem = (\<lambda>_. 0),
     frame_allocator = \<lparr>fa_current = 0x80400, fa_end = 0x88000, fa_recycled = []\<rparr>\<rparr>"

lemma sample_inv [simp]: "mm_inv sample_mm"
  by (simp add: sample_mm_def fa_inv_def)

lemma sample_free [simp]: "mm_free sample_mm = 31744"
  by (simp add: sample_mm_def fa_free_def)

lemma sample_live: "p \<in> mm_live sample_mm \<longleftrightarrow> ppn0 p < 0x80400"
  by (simp add: sample_mm_def fa_live_def)

section \<open>Properties\<close>

text \<open>
  C19. Allocating a frame yields a frame that nobody holds, with every byte zero and all other
  memory unchanged; giving it back restores the set of frames in use, and giving it back a
  second time panics.
\<close>

theorem frame_alloc_lifecycle:
  assumes inv: "mm_inv s" and a: "frame_alloc s = (Some p, s')"
  shows "p \<notin> mm_live s \<and> mm_live s' = insert p (mm_live s)
    \<and> (\<forall>x. mem s' x = (if in_frame p x then 0 else mem s x))
    \<and> (\<exists>s''. frame_dealloc p s' = Some s'' \<and> mm_live s'' = mm_live s \<and> mem s'' = mem s'
         \<and> frame_dealloc p s'' = None)"
proof -
  have u: "frame_alloc_unwrap s = Some (p, s')" using a by (simp add: frame_alloc_unwrap_def)
  note A = frame_alloc_unwrap_Some [OF inv u]
  obtain s'' where d: "frame_dealloc p s' = Some s''" "mm_live s'' = mm_live s"
    using mm_frames.alloc_then_dealloc [OF inv TrueI a] by blast
  have "frame_dealloc p s'' = None" by (rule mm_frames.double_dealloc_panics [OF A(3) d(1)])
  with A(1,2,6) d frame_dealloc_mem [OF d(1)] show ?thesis by blast
qed

theorem frame_alloc_lifecycle_witness:
  "\<exists>p s'. frame_alloc sample_mm = (Some p, s') \<and> p \<notin> mm_live sample_mm
    \<and> mm_live s' = insert p (mm_live sample_mm)"
proof -
  obtain p s' where "frame_alloc sample_mm = (Some p, s')"
    using frame_alloc_unwrap_total [OF sample_inv]
    by (auto simp: frame_alloc_unwrap_def split: prod.splits option.splits)
  with frame_alloc_lifecycle [OF sample_inv this] show ?thesis by blast
qed

text \<open>
  C20. \<open>frame_allocator_test\<close> passes whenever five frames are free, and afterwards exactly the
  same frames are in use.
\<close>

theorem frame_allocator_test_passes:
  assumes inv: "mm_inv s" and five: "5 \<le> mm_free s"
  shows "\<exists>s'. frame_allocator_test s = Some s' \<and> mm_live s' = mm_live s"
proof -
  have round: "\<exists>v t u. alloc_frames 5 [] s = Some (v, t) \<and> drop_frames v t = Some u
      \<and> mm_live u = mm_live s \<and> mm_inv u \<and> mm_free u = mm_free s"
    if inv: "mm_inv s" and five: "5 \<le> mm_free s" for s
  proof -
    obtain v t where v: "alloc_frames 5 [] s = Some (v, t)" "length v = 5" "distinct v"
      "set v \<inter> mm_live s = {}" "mm_live t = mm_live s \<union> set v" "mm_inv t" "mm_free s = mm_free t + 5"
      using alloc_frames_spec [OF inv five, of "[]"] by auto
    obtain u where u: "drop_frames v t = Some u" "mm_live u = mm_live t - set v" "mm_inv u"
      using drop_frames_ok [OF v(6,3)] v(5) by auto
    have "mm_free u = mm_free t + length v" by (rule drop_frames_free [OF u(1)])
    then show ?thesis using u v by (intro exI [of _ v] exI [of _ t] exI [of _ u]) auto
  qed
  obtain v t u where 1: "alloc_frames 5 [] s = Some (v, t)" "drop_frames v t = Some u"
    "mm_live u = mm_live s" "mm_inv u" "mm_free u = mm_free s"
    using round [OF inv five] by blast
  obtain w x y where "alloc_frames 5 [] u = Some (w, x)" "drop_frames w x = Some y"
    "mm_live y = mm_live u"
    using round [OF 1(4)] five 1(5) by auto
  with 1 show ?thesis by (simp add: frame_allocator_test_def)
qed

theorem frame_allocator_test_passes_witness:
  "\<exists>s'. frame_allocator_test sample_mm = Some s' \<and> mm_live s' = mm_live sample_mm"
  by (rule frame_allocator_test_passes) simp_all

end
