(* ===== verification/PageTable.thy ===== *)
theory PageTable
  imports FrameAllocator
begin

text \<open>
  SV39 page tables, \<open>mm/page_table.rs\<close>. A page table is a three-level tree of frames in
  physical memory; \<open>find_pte\<close> and \<open>find_pte_create\<close> return references into it, which here
  are addresses. Operations that panic return \<open>None\<close>; \<open>Option\<close>-valued source functions
  return an \<open>option\<close> inside.
\<close>

section \<open>Entries\<close>

definition PTE_V :: u8 where "PTE_V = push_bit 0 1"
definition PTE_R :: u8 where "PTE_R = push_bit 1 1"
definition PTE_W :: u8 where "PTE_W = push_bit 2 1"
definition PTE_X :: u8 where "PTE_X = push_bit 3 1"
definition PTE_U :: u8 where "PTE_U = push_bit 4 1"
definition PTE_G :: u8 where "PTE_G = push_bit 5 1"
definition PTE_A :: u8 where "PTE_A = push_bit 6 1"
definition PTE_D :: u8 where "PTE_D = push_bit 7 1"

lemmas PTE_flag_defs = PTE_V_def PTE_R_def PTE_W_def PTE_X_def PTE_U_def PTE_G_def PTE_A_def
  PTE_D_def

text \<open>\<open>from_bits\<close> of a \<open>bitflags!\<close> type: \<open>None\<close> when a bit outside the declared ones is set.\<close>

definition PTEFlags_all :: u8 where
  "PTEFlags_all = PTE_V OR PTE_R OR PTE_W OR PTE_X OR PTE_U OR PTE_G OR PTE_A OR PTE_D"

definition PTEFlags_from_bits :: "u8 \<Rightarrow> u8 option" where
  "PTEFlags_from_bits b = (if b AND NOT PTEFlags_all = 0 then Some b else None)"

datatype PageTableEntry = PageTableEntry (bits: usize)

definition pte_new :: "PhysPageNum \<Rightarrow> u8 \<Rightarrow> PageTableEntry" where
  "pte_new ppn flags = PageTableEntry (push_bit 10 (ppn0 ppn) OR ucast flags)"

definition pte_empty :: PageTableEntry where
  "pte_empty = PageTableEntry 0"

definition pte_ppn :: "PageTableEntry \<Rightarrow> PhysPageNum" where
  "pte_ppn e = PhysPageNum (drop_bit 10 (bits e) AND (push_bit 44 1 - 1))"

definition pte_flags :: "PageTableEntry \<Rightarrow> u8" where
  "pte_flags e = the (PTEFlags_from_bits (ucast (bits e)))"

definition pte_is_valid :: "PageTableEntry \<Rightarrow> bool" where
  "pte_is_valid e \<longleftrightarrow> pte_flags e AND PTE_V \<noteq> 0"

definition pte_readable :: "PageTableEntry \<Rightarrow> bool" where
  "pte_readable e \<longleftrightarrow> pte_flags e AND PTE_R \<noteq> 0"

definition pte_writable :: "PageTableEntry \<Rightarrow> bool" where
  "pte_writable e \<longleftrightarrow> pte_flags e AND PTE_W \<noteq> 0"

definition pte_executable :: "PageTableEntry \<Rightarrow> bool" where
  "pte_executable e \<longleftrightarrow> pte_flags e AND PTE_X \<noteq> 0"

text \<open>Dereferencing and assigning through a reference to an entry.\<close>

definition pte_load :: "mm \<Rightarrow> usize \<Rightarrow> PageTableEntry" where
  "pte_load s a = PageTableEntry (read_u64 (mem s) a)"

definition pte_store :: "usize \<Rightarrow> PageTableEntry \<Rightarrow> mm \<Rightarrow> mm" where
  "pte_store a e s = s\<lparr>mem := write_u64 (mem s) a (bits e)\<rparr>"

section \<open>The page table\<close>

record PageTable =
  root_ppn :: PhysPageNum
  pt_frames :: "FrameTracker list"

definition pt_new :: "mm \<Rightarrow> (PageTable \<times> mm) option" where
  "pt_new s = do {
     (frame, s) \<leftarrow> frame_alloc_unwrap s;
     Some (\<lparr>root_ppn = frame, pt_frames = [frame]\<rparr>, s) }"

definition pt_from_token :: "usize \<Rightarrow> PageTable" where
  "pt_from_token satp =
     \<lparr>root_ppn = PhysPageNum (satp AND (push_bit 44 1 - 1)), pt_frames = []\<rparr>"

text \<open>\<open>find_pte_create\<close>: the loop over the enumerated indexes, allocating missing tables.\<close>

fun find_pte_create_loop ::
  "(nat \<times> usize) list \<Rightarrow> PhysPageNum \<Rightarrow> PageTable \<Rightarrow> mm
     \<Rightarrow> (usize option \<times> PageTable \<times> mm) option" where
  "find_pte_create_loop [] ppn pt s = Some (None, pt, s)"
| "find_pte_create_loop ((i, idx) # rest) ppn pt s = do {
     pte \<leftarrow> pte_slice_index (get_pte_array ppn) idx;
     if i = 2 then Some (Some pte, pt, s)
     else do {
       (pt, s) \<leftarrow>
         (if \<not> pte_is_valid (pte_load s pte) then do {
            (frame, s) \<leftarrow> frame_alloc_unwrap s;
            Some (pt\<lparr>pt_frames := pt_frames pt @ [frame]\<rparr>, pte_store pte (pte_new frame PTE_V) s) }
          else Some (pt, s));
       find_pte_create_loop rest (pte_ppn (pte_load s pte)) pt s } }"

definition find_pte_create ::
  "VirtPageNum \<Rightarrow> PageTable \<Rightarrow> mm \<Rightarrow> (usize option \<times> PageTable \<times> mm) option" where
  "find_pte_create vpn pt s =
     find_pte_create_loop (enumerate 0 (indexes vpn)) (root_ppn pt) pt s"

fun find_pte_loop :: "(nat \<times> usize) list \<Rightarrow> PhysPageNum \<Rightarrow> mm \<Rightarrow> usize option option" where
  "find_pte_loop [] ppn s = Some None"
| "find_pte_loop ((i, idx) # rest) ppn s = do {
     pte \<leftarrow> pte_slice_index (get_pte_array ppn) idx;
     if i = 2 then Some (Some pte)
     else if \<not> pte_is_valid (pte_load s pte) then Some None
     else find_pte_loop rest (pte_ppn (pte_load s pte)) s }"

definition find_pte :: "VirtPageNum \<Rightarrow> PageTable \<Rightarrow> mm \<Rightarrow> usize option option" where
  "find_pte vpn pt s = find_pte_loop (enumerate 0 (indexes vpn)) (root_ppn pt) s"

definition pt_map ::
  "VirtPageNum \<Rightarrow> PhysPageNum \<Rightarrow> u8 \<Rightarrow> PageTable \<Rightarrow> mm \<Rightarrow> (PageTable \<times> mm) option" where
  "pt_map vpn ppn flags pt s = do {
     (r, pt, s) \<leftarrow> find_pte_create vpn pt s;
     pte \<leftarrow> r;
     rassert (\<not> pte_is_valid (pte_load s pte));
     Some (pt, pte_store pte (pte_new ppn (flags OR PTE_V)) s) }"

definition pt_unmap :: "VirtPageNum \<Rightarrow> PageTable \<Rightarrow> mm \<Rightarrow> (PageTable \<times> mm) option" where
  "pt_unmap vpn pt s = do {
     (r, pt, s) \<leftarrow> find_pte_create vpn pt s;
     pte \<leftarrow> r;
     rassert (pte_is_valid (pte_load s pte));
     Some (pt, pte_store pte pte_empty s) }"

definition pt_translate :: "VirtPageNum \<Rightarrow> PageTable \<Rightarrow> mm \<Rightarrow> PageTableEntry option option" where
  "pt_translate vpn pt s = do {
     r \<leftarrow> find_pte vpn pt s;
     Some (map_option (pte_load s) r) }"

definition pt_translate_va :: "VirtAddr \<Rightarrow> PageTable \<Rightarrow> mm \<Rightarrow> PhysAddr option option" where
  "pt_translate_va va pt s = do {
     r \<leftarrow> find_pte (va_floor va) pt s;
     Some (map_option (\<lambda>pte.
       let aligned_pa = pa_of_ppn (pte_ppn (pte_load s pte));
           offset = va_page_offset va
       in PhysAddr (pa0 aligned_pa + offset)) r) }"

definition pt_token :: "PageTable \<Rightarrow> usize" where
  "pt_token pt = push_bit 60 8 OR ppn0 (root_ppn pt)"

section \<open>Reading user memory through a token\<close>

text \<open>
  The three \<open>translated_*\<close> functions. The loop of \<open>translated_byte_buffer\<close> steps to the next
  page boundary, which wraps to 0 at the top of the address space, and that of
  \<open>translated_str\<close> runs until it meets a zero byte; neither has a bound in the source, so
  both are partial functions.
\<close>

partial_function (option) translated_byte_buffer_loop ::
  "PageTable \<Rightarrow> usize \<Rightarrow> usize \<Rightarrow> (usize \<times> nat) list \<Rightarrow> mm \<Rightarrow> (usize \<times> nat) list option" where
  "translated_byte_buffer_loop pt start end v s =
     (if start < end then do {
        let start_va = VirtAddr start;
        let vpn = va_floor start_va;
        r \<leftarrow> pt_translate vpn pt s;
        pte \<leftarrow> r;
        let ppn = pte_ppn pte;
        let vpn = vpn_step vpn;
        let end_va = min (va_of_vpn vpn) (VirtAddr end);
        buf \<leftarrow> (if va_page_offset end_va = 0
                then byte_slice_range (get_bytes_array ppn) (va_page_offset start_va) 4096
                else byte_slice_range (get_bytes_array ppn) (va_page_offset start_va)
                       (va_page_offset end_va));
        translated_byte_buffer_loop pt (va0 end_va) end (v @ [buf]) s }
      else Some v)"

definition translated_byte_buffer :: "usize \<Rightarrow> usize \<Rightarrow> usize \<Rightarrow> mm \<Rightarrow> (usize \<times> nat) list option" where
  "translated_byte_buffer token ptr len s =
     translated_byte_buffer_loop (pt_from_token token) ptr (ptr + len) [] s"

text \<open>
  \<open>string.push(ch as char)\<close>: a \<open>String\<close> holds UTF-8 bytes, and \<open>u8 as char\<close> is the code point
  with that number, so a byte from 128 on becomes two bytes.
\<close>

definition char_utf8 :: "u8 \<Rightarrow> u8 list" where
  "char_utf8 c = (if c < 128 then [c] else [0xC0 OR drop_bit 6 c, 0x80 OR (c AND 0x3F)])"

partial_function (option) translated_str_loop ::
  "PageTable \<Rightarrow> usize \<Rightarrow> u8 list \<Rightarrow> mm \<Rightarrow> u8 list option" where
  "translated_str_loop pt va string s = do {
     r \<leftarrow> pt_translate_va (VirtAddr va) pt s;
     pa \<leftarrow> r;
     a \<leftarrow> pa_get_mut pa;
     let ch = mem s a;
     if ch = 0 then Some string
     else translated_str_loop pt (va + 1) (string @ char_utf8 ch) s }"

definition translated_str :: "usize \<Rightarrow> usize \<Rightarrow> mm \<Rightarrow> u8 list option" where
  "translated_str token ptr s = translated_str_loop (pt_from_token token) ptr [] s"

definition translated_refmut :: "usize \<Rightarrow> usize \<Rightarrow> mm \<Rightarrow> usize option" where
  "translated_refmut token ptr s = do {
     r \<leftarrow> pt_translate_va (VirtAddr ptr) (pt_from_token token) s;
     pa \<leftarrow> r;
     pa_get_mut pa }"

section \<open>Entries: packing and unpacking\<close>

lemma PTEFlags_from_bits_total: "PTEFlags_from_bits b = Some b"
proof -
  have e: "PTEFlags_all = - 1" by (simp add: PTEFlags_all_def PTE_flag_defs)
  show ?thesis unfolding PTEFlags_from_bits_def e by simp
qed

lemma pte_flags_eq: "pte_flags e = ucast (bits e)"
  by (simp add: pte_flags_def PTEFlags_from_bits_total)

lemma and_single_bit: "w AND push_bit n 1 \<noteq> 0 \<longleftrightarrow> bit w n"
  for w :: "'a::len word"
proof (cases "bit w n")
  case True
  then have b: "bit (w AND push_bit n 1) n" by (simp add: bit_simps bit_imp_le_length)
  have "w AND push_bit n 1 \<noteq> 0"
  proof
    assume z: "w AND push_bit n 1 = 0"
    from b show False unfolding z by simp
  qed
  with True show ?thesis by simp
next
  case False
  have "w AND push_bit n 1 = 0"
    by (rule bit_word_eqI) (use False in \<open>auto simp: bit_simps\<close>)
  with False show ?thesis by simp
qed

lemma pte_is_valid_iff: "pte_is_valid e \<longleftrightarrow> bit (bits e) 0"
  unfolding pte_is_valid_def PTE_V_def and_single_bit pte_flags_eq by (simp add: bit_ucast_iff)

lemma mask44: "push_bit 44 1 - 1 = (mask 44 :: usize)"
  by (simp add: mask_eq_exp_minus_1 push_bit_eq_mult)

lemma unat_pte_ppn: "unat (ppn0 (pte_ppn e)) = unat (bits e) div 2 ^ 10 mod 2 ^ 44"
  by (simp only: pte_ppn_def PhysPageNum.sel mask44 unat_and_mask unat_drop_bit)

lemma pte_ppn_ok [simp]: "ppn_ok (pte_ppn e)"
  by (simp add: ppn_ok_def unat_pte_ppn)

lemma ppn_ok_take_bit: "ppn_ok p \<Longrightarrow> take_bit 44 (ppn0 p) = ppn0 p"
  unfolding word_unat_eq_iff unsigned_take_bit_eq by (simp add: take_bit_nat_eq_self ppn_ok_def)

lemma pte_ppn_new [simp]: "ppn_ok p \<Longrightarrow> pte_ppn (pte_new p f) = p"
proof -
  assume "ppn_ok p"
  have "drop_bit 10 (push_bit 10 (ppn0 p) OR ucast f) AND mask 44 = take_bit 44 (ppn0 p)"
    by (rule bit_word_eqI) (auto simp: bit_simps dest: bit_imp_le_length)
  also have "\<dots> = ppn0 p" using \<open>ppn_ok p\<close> by (rule ppn_ok_take_bit)
  finally show ?thesis by (simp only: pte_ppn_def pte_new_def mask44 PageTableEntry.sel) simp
qed

lemma pte_flags_new [simp]: "pte_flags (pte_new p f) = f"
proof -
  have "ucast (push_bit 10 (ppn0 p) OR ucast f) = f"
    by (rule bit_word_eqI) (auto simp: bit_simps dest: bit_imp_le_length)
  then show ?thesis by (simp add: pte_flags_eq pte_new_def)
qed

lemma pte_is_valid_new: "pte_is_valid (pte_new p f) \<longleftrightarrow> bit f 0"
  unfolding pte_is_valid_def PTE_V_def and_single_bit by simp

lemma bit_OR_V [simp]: "bit (f OR PTE_V) 0"
  by (simp add: PTE_V_def bit_simps)

lemma pte_is_valid_empty [simp]: "\<not> pte_is_valid pte_empty"
  by (simp add: pte_is_valid_iff pte_empty_def)

end
