(* ===== verification/PageTableTree.thy ===== *)
theory PageTableTree
  imports PageTable "HOL-Library.Sublist"
begin

text \<open>
  The page table as a tree and its refinement. \<open>node\<close> follows a list of indexes from the
  root; \<open>pt_wf\<close> says that the interior nodes are exactly the frames the page table owns,
  each reached by one path only. Under it a page table is a finite map from the 27 low
  bits of a page number to entries (\<open>pt_entry\<close>): \<open>map\<close> and \<open>unmap\<close> update that map at one
  key and touch no frame that the table does not own.
\<close>

section \<open>Walking the tree\<close>

definition walk_step :: "phys_mem \<Rightarrow> PhysPageNum \<Rightarrow> nat \<Rightarrow> PhysPageNum option" where
  "walk_step m p i =
     (let e = PageTableEntry (pte_bits m p i)
      in if pte_is_valid e then Some (pte_ppn e) else None)"

fun node :: "phys_mem \<Rightarrow> PhysPageNum \<Rightarrow> nat list \<Rightarrow> PhysPageNum option" where
  "node m p [] = Some p"
| "node m p (i # is) = do { q \<leftarrow> walk_step m p i; node m q is }"

lemma node_append: "node m p (is @ js) = do { q \<leftarrow> node m p is; node m q js }"
  by (induction "is" arbitrary: p) (auto split: bind_split)

lemma node_snoc: "node m p (is @ [i]) = do { q \<leftarrow> node m p is; walk_step m q i }"
  by (simp add: node_append)

lemma node_ok: "node m r is = Some p \<Longrightarrow> ppn_ok r \<Longrightarrow> ppn_ok p"
  by (induction "is" arbitrary: r)
    (auto simp: bind_eq_Some_conv walk_step_def Let_def split: if_splits)

lemma pte_load_pte_addr: "pte_load s (pte_addr p i) = PageTableEntry (pte_bits (mem s) p i)"
  by (simp add: pte_load_def pte_bits_def)

lemma enumerate_indexes:
  "\<exists>x y z. enumerate 0 (indexes v) = [(0, x), (1, y), (2, z)]
     \<and> unat x = idx0 v \<and> unat y = idx1 v \<and> unat z = idx2 v"
  using unat_indexes [of v] by (simp add: indexes_unfold)

text \<open>\<open>find_pte\<close> never panics: it is the walk to the leaf table.\<close>

lemma find_pte_eq:
  "find_pte v pt s
     = Some (map_option (\<lambda>p. pte_addr p (idx2 v)) (node (mem s) (root_ppn pt) [idx0 v, idx1 v]))"
proof -
  obtain x y z where e: "enumerate 0 (indexes v) = [(0, x), (1, y), (2, z)]"
    "unat x = idx0 v" "unat y = idx1 v" "unat z = idx2 v"
    using enumerate_indexes by blast
  show ?thesis
    by (simp add: find_pte_def e pte_slice_index_array pte_load_pte_addr walk_step_def Let_def)
qed

lemma pt_translate_eq:
  "pt_translate v pt s
     = Some (map_option (\<lambda>p. PageTableEntry (pte_bits (mem s) p (idx2 v)))
         (node (mem s) (root_ppn pt) [idx0 v, idx1 v]))"
  by (simp add: pt_translate_def find_pte_eq option.map_comp o_def pte_load_pte_addr)

section \<open>Well-formed page tables\<close>

definition table_path :: "nat list \<Rightarrow> bool" where
  "table_path is \<longleftrightarrow> length is \<le> 2 \<and> (\<forall>i \<in> set is. i < 512)"

definition pt_wf :: "phys_mem \<Rightarrow> PageTable \<Rightarrow> bool" where
  "pt_wf m pt \<longleftrightarrow>
     distinct (pt_frames pt) \<and> (\<forall>p \<in> set (pt_frames pt). ppn_ok p)
     \<and> set (pt_frames pt) = {p. \<exists>is. table_path is \<and> node m (root_ppn pt) is = Some p}
     \<and> (\<forall>is js p. table_path is \<longrightarrow> table_path js
          \<longrightarrow> node m (root_ppn pt) is = Some p \<longrightarrow> node m (root_ppn pt) js = Some p \<longrightarrow> is = js)"

text \<open>The valid entry for a page number, if there is one.\<close>

definition pt_entry :: "phys_mem \<Rightarrow> PageTable \<Rightarrow> VirtPageNum \<Rightarrow> PageTableEntry option" where
  "pt_entry m pt v = do {
     p \<leftarrow> node m (root_ppn pt) [idx0 v, idx1 v];
     let e = PageTableEntry (pte_bits m p (idx2 v));
     if pte_is_valid e then Some e else None }"

lemma pt_wf_root: "pt_wf m pt \<Longrightarrow> root_ppn pt \<in> set (pt_frames pt)"
  unfolding pt_wf_def table_path_def by (auto intro!: exI [of _ "[]"])

lemma pt_wf_node:
  "pt_wf m pt \<Longrightarrow> table_path is \<Longrightarrow> node m (root_ppn pt) is = Some p \<Longrightarrow> p \<in> set (pt_frames pt)"
  unfolding pt_wf_def by blast

lemma pt_wf_inj:
  "pt_wf m pt \<Longrightarrow> table_path is \<Longrightarrow> table_path js \<Longrightarrow> node m (root_ppn pt) is = Some p \<Longrightarrow>
    node m (root_ppn pt) js = Some p \<Longrightarrow> is = js"
  unfolding pt_wf_def by blast

lemma pt_wf_frame_ok: "pt_wf m pt \<Longrightarrow> p \<in> set (pt_frames pt) \<Longrightarrow> ppn_ok p"
  unfolding pt_wf_def by blast

lemma table_path_idx [simp]: "table_path [idx0 v, idx1 v]" "table_path []"
  by (simp_all add: table_path_def)

lemma table_path_snoc: "table_path (is @ [i]) \<Longrightarrow> table_path is \<and> length is < 2 \<and> i < 512"
  by (auto simp: table_path_def)

text \<open>A walk depends only on the entries of the nodes it passes.\<close>

lemma node_cong:
  assumes "\<And>js k p. prefix (js @ [k]) is \<Longrightarrow> node m r js = Some p \<Longrightarrow>
     pte_bits m' p k = pte_bits m p k"
  shows "node m' r is = node m r is"
  using assms
proof (induction "is" rule: rev_induct)
  case Nil
  then show ?case by simp
next
  case (snoc i "is")
  have "node m' r is = node m r is"
    by (rule snoc.IH) (meson prefix_prefix snoc.prems)
  moreover have "walk_step m' q i = walk_step m q i" if "node m r is = Some q" for q
    using snoc.prems [OF prefix_order.refl that] by (simp add: walk_step_def)
  ultimately show ?case by (cases "node m r is") (simp_all add: node_snoc)
qed

text \<open>Memory that agrees on the frames of a page table leaves it as it is.\<close>

definition agree_on :: "PhysPageNum set \<Rightarrow> phys_mem \<Rightarrow> phys_mem \<Rightarrow> bool" where
  "agree_on F m m' \<longleftrightarrow> (\<forall>p \<in> F. \<forall>x. in_frame p x \<longrightarrow> m' x = m x)"

lemma agree_on_refl [simp]: "agree_on F m m"
  by (simp add: agree_on_def)

lemma agree_on_trans: "agree_on F m m' \<Longrightarrow> agree_on F m' m'' \<Longrightarrow> agree_on F m m''"
  by (simp add: agree_on_def)

lemma agree_on_subset: "agree_on F m m' \<Longrightarrow> G \<subseteq> F \<Longrightarrow> agree_on G m m'"
  by (auto simp: agree_on_def)

lemma agree_on_pte_bits:
  "agree_on F m m' \<Longrightarrow> p \<in> F \<Longrightarrow> ppn_ok p \<Longrightarrow> k < 512 \<Longrightarrow> pte_bits m' p k = pte_bits m p k"
  by (rule pte_bits_cong) (auto simp: agree_on_def)

lemma table_path_prefix: "table_path is \<Longrightarrow> prefix (js @ [k]) is \<Longrightarrow> table_path js \<and> k < 512"
  by (auto simp: table_path_def prefix_def)

lemma node_agree:
  assumes "pt_wf m pt" and "agree_on (set (pt_frames pt)) m m'" and "table_path is"
  shows "node m' (root_ppn pt) is = node m (root_ppn pt) is"
proof (rule node_cong)
  fix js k p
  assume "prefix (js @ [k]) is" and n: "node m (root_ppn pt) js = Some p"
  with assms(3) have "table_path js" "k < 512" using table_path_prefix by blast+
  with assms(1) n have "p \<in> set (pt_frames pt)" using pt_wf_node by blast
  with assms(1,2) \<open>k < 512\<close> show "pte_bits m' p k = pte_bits m p k"
    using agree_on_pte_bits pt_wf_frame_ok by blast
qed

lemma pt_wf_agree:
  assumes "pt_wf m pt" and "agree_on (set (pt_frames pt)) m m'"
  shows "pt_wf m' pt"
proof -
  have *: "table_path is \<Longrightarrow> node m' (root_ppn pt) is = node m (root_ppn pt) is" for "is"
    by (rule node_agree [OF assms])
  have "{p. \<exists>is. table_path is \<and> node m' (root_ppn pt) is = Some p}
      = {p. \<exists>is. table_path is \<and> node m (root_ppn pt) is = Some p}"
    using * by auto
  with assms(1) show ?thesis unfolding pt_wf_def by (metis *)
qed

lemma pt_entry_agree:
  assumes "pt_wf m pt" and "agree_on (set (pt_frames pt)) m m'"
  shows "pt_entry m' pt v = pt_entry m pt v"
proof (cases "node m (root_ppn pt) [idx0 v, idx1 v]")
  case None
  then show ?thesis
    using node_agree [OF assms, of "[idx0 v, idx1 v]"] by (simp add: pt_entry_def del: node.simps)
next
  case (Some p)
  then have "p \<in> set (pt_frames pt)" by (rule pt_wf_node [OF assms(1) table_path_idx(1)])
  then have "pte_bits m' p (idx2 v) = pte_bits m p (idx2 v)"
    using agree_on_pte_bits [OF assms(2)] pt_wf_frame_ok [OF assms(1)] by simp
  then show ?thesis
    using node_agree [OF assms, of "[idx0 v, idx1 v]"] Some
    by (simp add: pt_entry_def del: node.simps)
qed

section \<open>Adding a table\<close>

text \<open>
  The step of \<open>find_pte_create\<close> at an invalid interior entry: a zeroed frame \<open>f\<close> that the
  table does not own is linked at entry \<open>i\<close> of node \<open>q\<close>.
\<close>

definition link_table :: "phys_mem \<Rightarrow> PhysPageNum \<Rightarrow> nat \<Rightarrow> PhysPageNum \<Rightarrow> phys_mem" where
  "link_table m q i f =
     write_u64 (\<lambda>x. if in_frame f x then 0 else m x) (pte_addr q i) (bits (pte_new f PTE_V))"

lemma pte_bits_link_other:
  assumes "ppn_ok q" "ppn_ok p" "i < 512" "k < 512" "p \<noteq> f" "(q, i) \<noteq> (p, k)"
  shows "pte_bits (link_table m q i f) p k = pte_bits m p k"
proof -
  have "pte_bits (link_table m q i f) p k = pte_bits (\<lambda>x. if in_frame f x then 0 else m x) p k"
    unfolding link_table_def by (rule pte_bits_write_other) (use assms in auto)
  also have "\<dots> = pte_bits m p k"
    using assms in_frame_unique by (intro pte_bits_cong) auto
  finally show ?thesis .
qed

lemma pte_bits_link_new:
  assumes "ppn_ok q" "ppn_ok f" "i < 512" "k < 512" "q \<noteq> f"
  shows "pte_bits (link_table m q i f) f k = 0"
proof -
  have "pte_bits (link_table m q i f) f k = pte_bits (\<lambda>x. if in_frame f x then 0 else m x) f k"
    unfolding link_table_def by (rule pte_bits_write_other) (use assms in auto)
  also have "\<dots> = 0" using assms by (intro pte_bits_zero) auto
  finally show ?thesis .
qed

lemma walk_step_link:
  "ppn_ok f \<Longrightarrow> walk_step (link_table m q i f) q i = Some f"
  by (simp add: walk_step_def link_table_def mem_simps pte_is_valid_new PTE_V_def)

lemma walk_step_zero: "pte_bits m p k = 0 \<Longrightarrow> walk_step m p k = None"
  by (simp add: walk_step_def pte_is_valid_iff)

definition link_site ::
  "phys_mem \<Rightarrow> PageTable \<Rightarrow> nat list \<Rightarrow> PhysPageNum \<Rightarrow> nat \<Rightarrow> PhysPageNum \<Rightarrow> bool" where
  "link_site m pt ps q i f \<longleftrightarrow>
     pt_wf m pt \<and> table_path (ps @ [i]) \<and> node m (root_ppn pt) ps = Some q
     \<and> walk_step m q i = None \<and> ppn_ok f \<and> f \<notin> set (pt_frames pt)"

lemma link_siteD:
  assumes "link_site m pt ps q i f"
  shows "pt_wf m pt" "table_path (ps @ [i])" "node m (root_ppn pt) ps = Some q"
    "walk_step m q i = None" "ppn_ok f" "f \<notin> set (pt_frames pt)"
  using assms by (simp_all add: link_site_def)

lemma link_facts:
  assumes L: "link_site m pt ps q i f"
  shows "table_path ps" "length ps < 2" "i < 512" "q \<in> set (pt_frames pt)" "ppn_ok q" "q \<noteq> f"
proof -
  note wf = link_siteD(1) [OF L] and path = link_siteD(2) [OF L] and q = link_siteD(3) [OF L]
    and f = link_siteD(5,6) [OF L]
  show *: "table_path ps" "length ps < 2" "i < 512" using table_path_snoc [OF path] by auto
  show q': "q \<in> set (pt_frames pt)" by (rule pt_wf_node [OF wf *(1) q])
  show "ppn_ok q" by (rule pt_wf_frame_ok [OF wf q'])
  show "q \<noteq> f" using q' f(2) by auto
qed

lemma link_node_other:
  assumes L: "link_site m pt ps q i f" and "table_path is" and "\<not> prefix (ps @ [i]) is"
  shows "node (link_table m q i f) (root_ppn pt) is = node m (root_ppn pt) is"
proof (rule node_cong)
  note wf = link_siteD(1) [OF L] and q = link_siteD(3) [OF L] and f = link_siteD(5,6) [OF L]
  fix js k p
  assume p: "prefix (js @ [k]) is" and n: "node m (root_ppn pt) js = Some p"
  with assms(2) have js: "table_path js" "k < 512" using table_path_prefix by blast+
  with n have pf: "p \<in> set (pt_frames pt)" using pt_wf_node [OF wf] by blast
  have "(q, i) \<noteq> (p, k)"
  proof
    assume "(q, i) = (p, k)"
    with n q have "js = ps" "k = i" using pt_wf_inj [OF wf js(1) link_facts(1) [OF L]] by auto
    with p assms(3) show False by simp
  qed
  then show "pte_bits (link_table m q i f) p k = pte_bits m p k"
    using pf f(2) js link_facts [OF L] pt_wf_frame_ok [OF wf] by (intro pte_bits_link_other) auto
qed

lemma link_node_path:
  assumes L: "link_site m pt ps q i f"
  shows "node (link_table m q i f) (root_ppn pt) (ps @ [i]) = Some f"
proof -
  have "node (link_table m q i f) (root_ppn pt) ps = Some q"
    using link_node_other [OF L link_facts(1) [OF L]] link_siteD(3) [OF L]
    by (simp add: prefix_def)
  then show ?thesis by (simp add: node_snoc walk_step_link link_siteD(5) [OF L])
qed

lemma link_node_below:
  assumes L: "link_site m pt ps q i f" and t: "table_path (ps @ i # k # ks)"
  shows "node (link_table m q i f) (root_ppn pt) (ps @ i # k # ks) = None"
proof -
  from t have "k < 512" by (simp add: table_path_def)
  then have "walk_step (link_table m q i f) f k = None"
    using link_facts [OF L] link_siteD(5) [OF L]
    by (intro walk_step_zero pte_bits_link_new) auto
  then have "node (link_table m q i f) (root_ppn pt) ((ps @ [i]) @ k # ks) = None"
    by (subst node_append) (simp add: link_node_path [OF L])
  then show ?thesis by simp
qed

lemma unlinked_below:
  "link_site m pt ps q i f \<Longrightarrow> prefix (ps @ [i]) is \<Longrightarrow> node m (root_ppn pt) is = None"
  by (auto simp: link_site_def prefix_def node_append)

lemma link_node:
  assumes L: "link_site m pt ps q i f" and "table_path is"
  shows "node (link_table m q i f) (root_ppn pt) is
       = (if is = ps @ [i] then Some f else node m (root_ppn pt) is)"
proof (cases "prefix (ps @ [i]) is \<and> is \<noteq> ps @ [i]")
  case True
  then obtain k ks where "is = ps @ i # k # ks"
    by (auto simp: prefix_def) (metis append.right_neutral list.exhaust)
  then show ?thesis using link_node_below [OF L] unlinked_below [OF L] True assms(2) by auto
next
  case False
  then show ?thesis using link_node_path [OF L] link_node_other [OF L] assms(2) by auto
qed

lemma link_table_wf:
  assumes L: "link_site m pt ps q i f"
  shows "pt_wf (link_table m q i f) (pt\<lparr>pt_frames := pt_frames pt @ [f]\<rparr>)"
proof -
  note wf = link_siteD(1) [OF L] and path = link_siteD(2) [OF L] and f = link_siteD(5,6) [OF L]
  have none: "node m (root_ppn pt) (ps @ [i]) = None" using unlinked_below [OF L] by simp
  have fresh: "node m (root_ppn pt) is \<noteq> Some f" if "table_path is" for "is"
    using pt_wf_node [OF wf that] f(2) by auto
  have "{p. \<exists>is. table_path is \<and> node (link_table m q i f) (root_ppn pt) is = Some p}
      = insert f {p. \<exists>is. table_path is \<and> node m (root_ppn pt) is = Some p}"
    (is "?A = ?B")
  proof (intro equalityI subsetI)
    fix p assume "p \<in> ?A"
    then show "p \<in> ?B" by (auto simp: link_node [OF L] split: if_splits)
  next
    fix p assume "p \<in> ?B"
    then consider "p = f" | "is" where "table_path is" "node m (root_ppn pt) is = Some p" by auto
    then show "p \<in> ?A"
    proof cases
      case 1
      then show ?thesis using path link_node_path [OF L] by blast
    next
      case 2
      then have "is \<noteq> ps @ [i]" using none by auto
      with 2 have "node (link_table m q i f) (root_ppn pt) is = Some p" by (simp add: link_node [OF L])
      with 2(1) show ?thesis by blast
    qed
  qed
  moreover have "is = js"
    if "table_path is" "table_path js" "node (link_table m q i f) (root_ppn pt) is = Some p"
      "node (link_table m q i f) (root_ppn pt) js = Some p" for "is" js p
    using that fresh pt_wf_inj [OF wf that(1,2)] by (auto simp: link_node [OF L] split: if_splits)
  ultimately show ?thesis
    using wf f unfolding pt_wf_def by auto
qed

lemma link_table_entry:
  assumes L: "link_site m pt ps q i f"
  shows "pt_entry (link_table m q i f) pt v = pt_entry m pt v"
proof (cases "ps @ [i] = [idx0 v, idx1 v]")
  case True
  then have "node (link_table m q i f) (root_ppn pt) [idx0 v, idx1 v] = Some f"
    and "node m (root_ppn pt) [idx0 v, idx1 v] = None"
    using link_node_path [OF L] unlinked_below [OF L, of "ps @ [i]"] by (simp_all del: node.simps)
  moreover have "pte_bits (link_table m q i f) f (idx2 v) = 0"
    using link_facts [OF L] link_siteD(5) [OF L] by (intro pte_bits_link_new) auto
  ultimately show ?thesis by (simp add: pt_entry_def pte_is_valid_iff del: node.simps)
next
  case False
  then have n: "node (link_table m q i f) (root_ppn pt) [idx0 v, idx1 v]
      = node m (root_ppn pt) [idx0 v, idx1 v]"
    using link_node [OF L table_path_idx(1), of v] by auto
  show ?thesis
  proof (cases "node m (root_ppn pt) [idx0 v, idx1 v]")
    case None
    with n show ?thesis by (simp add: pt_entry_def del: node.simps)
  next
    case (Some p)
    note wf = link_siteD(1) [OF L] and q = link_siteD(3) [OF L] and f = link_siteD(5,6) [OF L]
    have "p \<noteq> q"
      using pt_wf_inj [OF wf link_facts(1) [OF L] table_path_idx(1) q, of v] Some
        link_facts(2) [OF L] by auto
    moreover have "p \<in> set (pt_frames pt)" by (rule pt_wf_node [OF wf table_path_idx(1) Some])
    ultimately have "pte_bits (link_table m q i f) p (idx2 v) = pte_bits m p (idx2 v)"
      using f link_facts [OF L] pt_wf_frame_ok [OF wf] by (intro pte_bits_link_other) auto
    with n Some show ?thesis by (simp add: pt_entry_def del: node.simps)
  qed
qed

section \<open>Writing a leaf entry\<close>

definition vkey :: "VirtPageNum \<Rightarrow> nat" where
  "vkey v = unat (vpn0 v) mod 2 ^ 27"

lemma vkey_eq_iff: "vkey v = vkey w \<longleftrightarrow> idx0 v = idx0 w \<and> idx1 v = idx1 w \<and> idx2 v = idx2 w"
  by (simp only: vkey_def idx_eq_iff)

lemma leaf_store_node:
  assumes wf: "pt_wf m pt" and p: "node m (root_ppn pt) [idx0 v, idx1 v] = Some p"
    and k: "k < 512" and path: "table_path is"
  shows "node (write_u64 m (pte_addr p k) e) (root_ppn pt) is = node m (root_ppn pt) is"
proof (rule node_cong)
  fix js l r
  assume pre: "prefix (js @ [l]) is" and n: "node m (root_ppn pt) js = Some r"
  then have js: "table_path js" "l < 512" using path table_path_prefix by blast+
  have "length js < 2" using pre path by (auto simp: table_path_def prefix_def)
  then have "r \<noteq> p" using pt_wf_inj [OF wf js(1) table_path_idx(1) n, of v] p by auto
  moreover have "ppn_ok p" "ppn_ok r"
    using pt_wf_frame_ok [OF wf] pt_wf_node [OF wf] p n js(1) table_path_idx(1) by blast+
  ultimately show "pte_bits (write_u64 m (pte_addr p k) e) r l = pte_bits m r l"
    using k js(2) by (intro pte_bits_write_other) auto
qed

lemma leaf_store_wf:
  assumes wf: "pt_wf m pt" and p: "node m (root_ppn pt) [idx0 v, idx1 v] = Some p"
    and k: "k < 512"
  shows "pt_wf (write_u64 m (pte_addr p k) e) pt"
proof -
  note n = leaf_store_node [OF wf p k]
  have "{q. \<exists>is. table_path is \<and> node (write_u64 m (pte_addr p k) e) (root_ppn pt) is = Some q}
      = {q. \<exists>is. table_path is \<and> node m (root_ppn pt) is = Some q}"
    using n by auto
  with wf show ?thesis unfolding pt_wf_def by (metis n)
qed

lemma leaf_store_entry:
  assumes wf: "pt_wf m pt" and p: "node m (root_ppn pt) [idx0 v, idx1 v] = Some p"
  shows "pt_entry (write_u64 m (pte_addr p (idx2 v)) (bits e)) pt w
       = (if vkey w = vkey v then (if pte_is_valid e then Some e else None) else pt_entry m pt w)"
proof (cases "vkey w = vkey v")
  case True
  then have "idx0 w = idx0 v" "idx1 w = idx1 v" "idx2 w = idx2 v" by (simp_all add: vkey_eq_iff)
  then show ?thesis
    using True p leaf_store_node [OF wf p idx_bounds(3) table_path_idx(1), of v "bits e"]
    by (simp add: pt_entry_def mem_simps del: node.simps)
next
  case False
  let ?m = "write_u64 m (pte_addr p (idx2 v)) (bits e)"
  have n: "node ?m (root_ppn pt) [idx0 w, idx1 w] = node m (root_ppn pt) [idx0 w, idx1 w]"
    by (rule leaf_store_node [OF wf p idx_bounds(3) table_path_idx(1)])
  show ?thesis
  proof (cases "node m (root_ppn pt) [idx0 w, idx1 w]")
    case None
    with n False show ?thesis by (simp add: pt_entry_def del: node.simps)
  next
    case (Some q)
    have "(p, idx2 v) \<noteq> (q, idx2 w)"
      using pt_wf_inj [OF wf table_path_idx(1) table_path_idx(1) Some, of v] p False
      by (auto simp: vkey_eq_iff)
    moreover have "ppn_ok p" "ppn_ok q"
      using pt_wf_frame_ok [OF wf] pt_wf_node [OF wf table_path_idx(1)] p Some by blast+
    ultimately have "pte_bits ?m q (idx2 w) = pte_bits m q (idx2 w)"
      by (intro pte_bits_write_other) auto
    with n Some False show ?thesis by (simp add: pt_entry_def del: node.simps)
  qed
qed

section \<open>find_pte_create\<close>

text \<open>
  What an operation that may add tables guarantees: the table \<open>pt'\<close> owns the frames of \<open>pt\<close>
  and the newly allocated \<open>new\<close>, and memory outside its frames is as before.
\<close>

definition pt_ext :: "PageTable \<Rightarrow> mm \<Rightarrow> PageTable \<Rightarrow> mm \<Rightarrow> PhysPageNum list \<Rightarrow> bool" where
  "pt_ext pt s pt' s' new \<longleftrightarrow>
     root_ppn pt' = root_ppn pt \<and> pt_frames pt' = pt_frames pt @ new
     \<and> pt_wf (mem s') pt' \<and> mm_inv s'
     \<and> mm_live s' = mm_live s \<union> set new \<and> set new \<inter> mm_live s = {}
     \<and> mm_free s = mm_free s' + length new
     \<and> (\<forall>x. (\<forall>p \<in> set (pt_frames pt'). \<not> in_frame p x) \<longrightarrow> mem s' x = mem s x)"

text \<open>The precondition of every page-table operation.\<close>

definition pt_ok :: "PageTable \<Rightarrow> mm \<Rightarrow> bool" where
  "pt_ok pt s \<longleftrightarrow> pt_wf (mem s) pt \<and> mm_inv s \<and> set (pt_frames pt) \<subseteq> mm_live s"

lemma pt_ext_refl: "pt_ok pt s \<Longrightarrow> pt_ext pt s pt s []"
  by (simp add: pt_ext_def pt_ok_def)

lemma pt_ext_ok: "pt_ext pt s pt' s' new \<Longrightarrow> pt_ok pt s \<Longrightarrow> pt_ok pt' s'"
  by (auto simp: pt_ext_def pt_ok_def)

lemma pt_ext_trans:
  "pt_ext pt s pt1 s1 n1 \<Longrightarrow> pt_ext pt1 s1 pt2 s2 n2 \<Longrightarrow> pt_ext pt s pt2 s2 (n1 @ n2)"
  by (auto simp: pt_ext_def ball_Un)

lemma pt_entry_root: "root_ppn pt' = root_ppn pt \<Longrightarrow> pt_entry m pt' v = pt_entry m pt v"
  by (simp add: pt_entry_def)

text \<open>One round of the loop above the leaf level.\<close>

definition create_step :: "usize \<Rightarrow> PageTable \<Rightarrow> mm \<Rightarrow> (PageTable \<times> mm) option" where
  "create_step pte pt s =
     (if \<not> pte_is_valid (pte_load s pte) then do {
        (frame, s) \<leftarrow> frame_alloc_unwrap s;
        Some (pt\<lparr>pt_frames := pt_frames pt @ [frame]\<rparr>, pte_store pte (pte_new frame PTE_V) s) }
      else Some (pt, s))"

lemma walk_step_conv:
  "walk_step (mem s) q i
     = (if pte_is_valid (pte_load s (pte_addr q i)) then Some (pte_ppn (pte_load s (pte_addr q i)))
        else None)"
  by (simp add: walk_step_def pte_load_pte_addr Let_def)

lemma create_step_spec:
  assumes ok: "pt_ok pt s" and q: "node (mem s) (root_ppn pt) ps = Some q"
    and path: "table_path (ps @ [i])" and st: "create_step (pte_addr q i) pt s = Some (pt', s')"
  shows "\<exists>new. pt_ext pt s pt' s' new \<and> length new \<le> 1
    \<and> node (mem s') (root_ppn pt) (ps @ [i]) = Some (pte_ppn (pte_load s' (pte_addr q i)))
    \<and> (\<forall>v. pt_entry (mem s') pt v = pt_entry (mem s) pt v)"
proof (cases "pte_is_valid (pte_load s (pte_addr q i))")
  case True
  with st have "pt' = pt" "s' = s" by (simp_all add: create_step_def)
  with True q ok show ?thesis
    by (intro exI [of _ "[]"]) (simp add: pt_ext_refl node_snoc walk_step_conv)
next
  case False
  with st obtain f s1 where f: "frame_alloc_unwrap s = Some (f, s1)"
    and pt': "pt' = pt\<lparr>pt_frames := pt_frames pt @ [f]\<rparr>"
    and s': "s' = pte_store (pte_addr q i) (pte_new f PTE_V) s1"
    by (auto simp: create_step_def bind_eq_Some_conv)
  have inv: "mm_inv s" and sub: "set (pt_frames pt) \<subseteq> mm_live s" and wf: "pt_wf (mem s) pt"
    using ok by (simp_all add: pt_ok_def)
  note A = frame_alloc_unwrap_Some [OF inv f]
  have m': "mem s' = link_table (mem s) q i f"
    by (simp add: s' pte_store_def link_table_def A(6) flip: fun_eq_iff)
      (rule arg_cong [where f = "\<lambda>m. write_u64 m _ _"], simp add: fun_eq_iff A(6))
  have L: "link_site (mem s) pt ps q i f"
    using wf path q False A(1,4) sub by (auto simp: link_site_def walk_step_conv)
  have fa: "frame_allocator s' = frame_allocator s1" by (simp add: s' pte_store_def)
  have "mem s' x = mem s x" if "\<forall>p \<in> set (pt_frames pt'). \<not> in_frame p x" for x
  proof -
    have "\<not> in_frame q x" "\<not> in_frame f x" using that link_facts(4) [OF L] by (auto simp: pt')
    then show ?thesis
      using write_u64_other_frame link_facts(3,5) [OF L] by (simp add: m' link_table_def)
  qed
  then have "pt_ext pt s pt' s' [f]"
    using link_table_wf [OF L] A(1,2,3,5) by (simp add: pt_ext_def pt' m' fa)
  moreover have "node (mem s') (root_ppn pt) (ps @ [i]) = Some f"
    by (simp add: m' link_node_path [OF L])
  moreover have "pte_load s' (pte_addr q i) = pte_new f PTE_V"
    by (simp add: s' pte_load_def pte_store_def mem_simps)
  moreover have "pt_entry (mem s') pt v = pt_entry (mem s) pt v" for v
    by (simp add: m' link_table_entry [OF L])
  ultimately show ?thesis using A(4) by (intro exI [of _ "[f]"]) simp
qed

lemma create_step_total:
  assumes "pt_ok pt s" and "0 < mm_free s"
  shows "\<exists>pt' s'. create_step a pt s = Some (pt', s')"
  using frame_alloc_unwrap_total [of s] assms by (auto simp: create_step_def pt_ok_def)

lemma find_pte_create_steps:
  "find_pte_create v pt s = do {
     (pt1, s1) \<leftarrow> create_step (pte_addr (root_ppn pt) (idx0 v)) pt s;
     let q = pte_ppn (pte_load s1 (pte_addr (root_ppn pt) (idx0 v)));
     (pt2, s2) \<leftarrow> create_step (pte_addr q (idx1 v)) pt1 s1;
     let p = pte_ppn (pte_load s2 (pte_addr q (idx1 v)));
     Some (Some (pte_addr p (idx2 v)), pt2, s2) }"
proof -
  obtain x y z where e: "enumerate 0 (indexes v) = [(0, x), (1, y), (2, z)]"
    "unat x = idx0 v" "unat y = idx1 v" "unat z = idx2 v"
    using enumerate_indexes by blast
  show ?thesis
    by (simp add: find_pte_create_def e pte_slice_index_array create_step_def [symmetric] Let_def)
qed

lemma find_pte_create_spec:
  assumes ok: "pt_ok pt s" and r: "find_pte_create v pt s = Some (r, pt', s')"
  shows "\<exists>new p. pt_ext pt s pt' s' new \<and> length new \<le> 2
    \<and> r = Some (pte_addr p (idx2 v)) \<and> node (mem s') (root_ppn pt) [idx0 v, idx1 v] = Some p
    \<and> (\<forall>w. pt_entry (mem s') pt w = pt_entry (mem s) pt w)"
proof -
  define q where "q s1 = pte_ppn (pte_load s1 (pte_addr (root_ppn pt) (idx0 v)))" for s1
  obtain pt1 s1 where 1: "create_step (pte_addr (root_ppn pt) (idx0 v)) pt s = Some (pt1, s1)"
    and 2: "create_step (pte_addr (q s1) (idx1 v)) pt1 s1 = Some (pt', s')"
    and r': "r = Some (pte_addr (pte_ppn (pte_load s' (pte_addr (q s1) (idx1 v)))) (idx2 v))"
    using r by (auto simp: find_pte_create_steps bind_eq_Some_conv Let_def q_def)
  have "node (mem s) (root_ppn pt) [] = Some (root_ppn pt)" "table_path ([] @ [idx0 v])"
    by (simp_all add: table_path_def)
  from create_step_spec [OF ok this 1] obtain n1 where n1: "pt_ext pt s pt1 s1 n1"
    "length n1 \<le> 1" "node (mem s1) (root_ppn pt) [idx0 v] = Some (q s1)"
    "\<And>w. pt_entry (mem s1) pt w = pt_entry (mem s) pt w"
    by (auto simp: q_def)
  have root: "root_ppn pt1 = root_ppn pt" using n1(1) by (simp add: pt_ext_def)
  have ok1: "pt_ok pt1 s1" by (rule pt_ext_ok [OF n1(1) ok])
  have "node (mem s1) (root_ppn pt1) [idx0 v] = Some (q s1)"
    "table_path ([idx0 v] @ [idx1 v])" using n1(3) root by (simp_all del: node.simps)
  from create_step_spec [OF ok1 this 2] obtain n2 where n2: "pt_ext pt1 s1 pt' s' n2"
    "length n2 \<le> 1" "\<And>w. pt_entry (mem s') pt1 w = pt_entry (mem s1) pt1 w"
    "node (mem s') (root_ppn pt1) [idx0 v, idx1 v]
       = Some (pte_ppn (pte_load s' (pte_addr (q s1) (idx1 v))))"
    by auto
  have "pt_entry (mem s') pt w = pt_entry (mem s) pt w" for w
    using n1(4) n2(3) by (simp add: pt_entry_root [OF root])
  then show ?thesis
    using pt_ext_trans [OF n1(1) n2(1)] n1(2) n2(2,4) r' root
    by (intro exI [of _ "n1 @ n2"]) (auto simp del: node.simps)
qed

lemma find_pte_create_total:
  assumes ok: "pt_ok pt s" and "2 \<le> mm_free s"
  shows "\<exists>r. find_pte_create v pt s = Some r"
proof -
  obtain pt1 s1 where 1: "create_step (pte_addr (root_ppn pt) (idx0 v)) pt s = Some (pt1, s1)"
    using create_step_total [OF ok] assms(2) by fastforce
  have "node (mem s) (root_ppn pt) [] = Some (root_ppn pt)" "table_path ([] @ [idx0 v])"
    by (simp_all add: table_path_def)
  from create_step_spec [OF ok this 1] obtain n1 where n1: "pt_ext pt s pt1 s1 n1"
    "length n1 \<le> 1" by auto
  then have "pt_ok pt1 s1" "0 < mm_free s1"
    using pt_ext_ok [OF _ ok] assms(2) by (auto simp: pt_ext_def)
  then obtain pt2 s2 where "create_step (pte_addr (pte_ppn
      (pte_load s1 (pte_addr (root_ppn pt) (idx0 v)))) (idx1 v)) pt1 s1 = Some (pt2, s2)"
    using create_step_total by blast
  with 1 show ?thesis by (simp add: find_pte_create_steps Let_def)
qed

section \<open>map and unmap\<close>

lemma pt_ext_store:
  assumes e: "pt_ext pt s pt' s' new" and n: "node (mem s') (root_ppn pt) [idx0 v, idx1 v] = Some p"
    and k: "k < 512"
  shows "pt_ext pt s pt' (pte_store (pte_addr p k) x s') new"
proof -
  have root: "root_ppn pt' = root_ppn pt" and wf: "pt_wf (mem s') pt'"
    using e by (simp_all add: pt_ext_def)
  have n': "node (mem s') (root_ppn pt') [idx0 v, idx1 v] = Some p" by (simp only: root n)
  then have p: "p \<in> set (pt_frames pt')" by (rule pt_wf_node [OF wf table_path_idx(1)])
  have "write_u64 (mem s') (pte_addr p k) (bits x) a = mem s' a" if "\<not> in_frame p a" for a
    using write_u64_other_frame [OF pt_wf_frame_ok [OF wf p] k that] .
  then show ?thesis
    using e leaf_store_wf [OF wf n' k] p by (auto simp: pt_ext_def pte_store_def)
qed

lemma pt_entry_iff_load:
  "node (mem s) (root_ppn pt) [idx0 v, idx1 v] = Some p \<Longrightarrow>
    pt_entry (mem s) pt v = (if pte_is_valid (pte_load s (pte_addr p (idx2 v)))
       then Some (pte_load s (pte_addr p (idx2 v))) else None)"
  by (simp add: pt_entry_def pte_load_pte_addr Let_def del: node.simps)

text \<open>Frames in use that the table did not own keep their contents.\<close>

lemma pt_ext_agree:
  assumes e: "pt_ext pt s pt' s' new"
  shows "agree_on (mm_live s - set (pt_frames pt)) (mem s) (mem s')"
  unfolding agree_on_def
proof (intro ballI allI impI)
  fix p x
  assume p: "p \<in> mm_live s - set (pt_frames pt)" and x: "in_frame p x"
  then have "p \<notin> set (pt_frames pt')" using e by (auto simp: pt_ext_def)
  then have "\<forall>q \<in> set (pt_frames pt'). \<not> in_frame q x" using x in_frame_unique by blast
  then show "mem s' x = mem s x" using e by (simp add: pt_ext_def)
qed

text \<open>\<open>map\<close> panics on a mapped page and otherwise updates the map at one key.\<close>

lemma pt_map_spec:
  assumes ok: "pt_ok pt s" and m: "pt_map v p fl pt s = Some (pt', s')"
  shows "\<exists>new. pt_ext pt s pt' s' new \<and> length new \<le> 2 \<and> pt_entry (mem s) pt v = None
    \<and> (\<forall>w. pt_entry (mem s') pt' w
          = (if vkey w = vkey v then Some (pte_new p (fl OR PTE_V)) else pt_entry (mem s) pt w))"
proof -
  obtain r s1 a where f: "find_pte_create v pt s = Some (r, pt', s1)" and r: "r = Some a"
    and a: "\<not> pte_is_valid (pte_load s1 a)" and s': "s' = pte_store a (pte_new p (fl OR PTE_V)) s1"
    using m by (auto simp: pt_map_def bind_eq_Some_conv rassert_def split: if_splits)
  from find_pte_create_spec [OF ok f] obtain new t where S: "pt_ext pt s pt' s1 new"
    "length new \<le> 2" "a = pte_addr t (idx2 v)"
    "node (mem s1) (root_ppn pt) [idx0 v, idx1 v] = Some t"
    "\<And>w. pt_entry (mem s1) pt w = pt_entry (mem s) pt w"
    using r by auto
  have root: "root_ppn pt' = root_ppn pt" and wf: "pt_wf (mem s1) pt'"
    using S(1) by (simp_all add: pt_ext_def)
  have n': "node (mem s1) (root_ppn pt') [idx0 v, idx1 v] = Some t" by (simp only: root S(4))
  have "pt_entry (mem s) pt v = None"
    using pt_entry_iff_load [OF S(4)] a S(3,5) by simp
  moreover have "pt_entry (mem s') pt' w
      = (if vkey w = vkey v then Some (pte_new p (fl OR PTE_V)) else pt_entry (mem s) pt w)" for w
    using leaf_store_entry [OF wf n', of "pte_new p (fl OR PTE_V)" w] S(5) [of w]
    by (simp add: s' pte_store_def S(3) pt_entry_root [OF root] pte_is_valid_new bit_OR_V)
  moreover have "pt_ext pt s pt' s' new"
    unfolding s' S(3) by (rule pt_ext_store [OF S(1,4)]) simp
  ultimately show ?thesis using S(2) by blast
qed

lemma pt_map_total:
  assumes ok: "pt_ok pt s" and "2 \<le> mm_free s" and "pt_entry (mem s) pt v = None"
  shows "\<exists>pt' s'. pt_map v p fl pt s = Some (pt', s')"
proof -
  obtain r pt' s1 where f: "find_pte_create v pt s = Some (r, pt', s1)"
    using find_pte_create_total [OF ok assms(2), of v] by auto
  from find_pte_create_spec [OF ok f] obtain t where "r = Some (pte_addr t (idx2 v))"
    "node (mem s1) (root_ppn pt) [idx0 v, idx1 v] = Some t"
    "pt_entry (mem s1) pt v = pt_entry (mem s) pt v" by auto
  then show ?thesis using assms(3) f pt_entry_iff_load [of s1 pt v t]
    by (auto simp: pt_map_def rassert_def split: if_splits)
qed

lemma pt_map_mapped_panics:
  assumes ok: "pt_ok pt s" and "pt_entry (mem s) pt v \<noteq> None"
  shows "pt_map v p fl pt s = None"
  using pt_map_spec [OF ok, of v p fl] assms(2) by (cases "pt_map v p fl pt s") auto

text \<open>Where the leaf table exists \<open>find_pte_create\<close> changes nothing.\<close>

lemma find_pte_create_present:
  "node (mem s) (root_ppn pt) [idx0 v, idx1 v] = Some p \<Longrightarrow>
    find_pte_create v pt s = Some (Some (pte_addr p (idx2 v)), pt, s)"
  by (auto simp: find_pte_create_steps create_step_def walk_step_conv bind_eq_Some_conv Let_def
      split: if_splits)

lemma pt_entry_node:
  "pt_entry m pt v = Some e \<Longrightarrow> \<exists>p. node m (root_ppn pt) [idx0 v, idx1 v] = Some p
     \<and> e = PageTableEntry (pte_bits m p (idx2 v)) \<and> pte_is_valid e"
  by (auto simp: pt_entry_def bind_eq_Some_conv Let_def simp del: node.simps split: if_splits)

text \<open>\<open>unmap\<close> panics on a page that is not mapped and otherwise removes one key.\<close>

lemma pt_unmap_unmapped_panics:
  assumes ok: "pt_ok pt s" and e: "pt_entry (mem s) pt v = None"
  shows "pt_unmap v pt s = None"
proof (cases "find_pte_create v pt s")
  case (Some a)
  then obtain r pt' s1 where f: "find_pte_create v pt s = Some (r, pt', s1)" by (cases a) auto
  from find_pte_create_spec [OF ok f] obtain t where "r = Some (pte_addr t (idx2 v))"
    "node (mem s1) (root_ppn pt) [idx0 v, idx1 v] = Some t"
    "pt_entry (mem s1) pt v = pt_entry (mem s) pt v" by auto
  then show ?thesis using e f pt_entry_iff_load [of s1 pt v t]
    by (auto simp: pt_unmap_def rassert_def split: if_splits)
qed (simp add: pt_unmap_def)

lemma pt_unmap_spec:
  assumes ok: "pt_ok pt s" and e: "pt_entry (mem s) pt v \<noteq> None"
  shows "\<exists>s'. pt_unmap v pt s = Some (pt, s') \<and> pt_ext pt s pt s' []
    \<and> (\<forall>w. pt_entry (mem s') pt w = (if vkey w = vkey v then None else pt_entry (mem s) pt w))"
proof -
  obtain p where p: "node (mem s) (root_ppn pt) [idx0 v, idx1 v] = Some p"
    and v: "pte_is_valid (pte_load s (pte_addr p (idx2 v)))"
    using e pt_entry_node by (fastforce simp: pte_load_pte_addr)
  have wf: "pt_wf (mem s) pt" using ok by (simp add: pt_ok_def)
  have "pt_unmap v pt s = Some (pt, pte_store (pte_addr p (idx2 v)) pte_empty s)"
    by (simp add: pt_unmap_def find_pte_create_present [OF p] v rassert_def)
  moreover have "pt_ext pt s pt (pte_store (pte_addr p (idx2 v)) pte_empty s) []"
    by (rule pt_ext_store [OF pt_ext_refl [OF ok] p]) simp
  ultimately show ?thesis
    using leaf_store_entry [OF wf p, of pte_empty]
    by (simp add: pte_store_def pte_is_valid_empty)
qed

text \<open>The new page table: an empty map.\<close>

lemma pt_new_spec:
  assumes inv: "mm_inv s" and n: "pt_new s = Some (pt, s')"
  shows "pt_ok pt s'" "pt_entry (mem s') pt v = None" "pt_frames pt = [root_ppn pt]"
    "root_ppn pt \<notin> mm_live s" "mm_live s' = insert (root_ppn pt) (mm_live s)"
    "mm_free s = mm_free s' + 1" "\<not> in_frame (root_ppn pt) x \<Longrightarrow> mem s' x = mem s x"
proof -
  obtain f where f: "frame_alloc_unwrap s = Some (f, s')" and pt: "root_ppn pt = f" "pt_frames pt = [f]"
    using n by (auto simp: pt_new_def bind_eq_Some_conv)
  note A = frame_alloc_unwrap_Some [OF inv f]
  have z: "walk_step (mem s') f i = None" if "i < 512" for i
    using that A(6) by (intro walk_step_zero pte_bits_zero) (auto intro: A)
  have nd: "node (mem s') f is = (if is = [] then Some f else None)" if "table_path is" for "is"
    using that z by (cases "is") (auto simp: table_path_def)
  have "pt_wf (mem s') pt"
    using nd A(4) by (auto simp: pt_wf_def pt intro!: exI [of _ "[]"] split: if_splits)
  then show "pt_ok pt s'" using A by (simp add: pt_ok_def pt)
  show "pt_entry (mem s') pt v = None" using nd [of "[idx0 v, idx1 v]"]
    by (simp add: pt_entry_def pt del: node.simps)
  show "pt_frames pt = [root_ppn pt]" "root_ppn pt \<notin> mm_live s"
    "mm_live s' = insert (root_ppn pt) (mm_live s)" "mm_free s = mm_free s' + 1"
    "\<not> in_frame (root_ppn pt) x \<Longrightarrow> mem s' x = mem s x"
    using A by (simp_all add: pt)
qed

lemma pt_translate_entry:
  "pt_entry (mem s) pt v = Some e \<Longrightarrow> pt_translate v pt s = Some (Some e)"
  using pt_entry_node [of "mem s" pt v e] by (auto simp: pt_translate_eq simp del: node.simps)

lemma pt_ext_same_agree:
  assumes "pt_ext pt s pt s' []" and "F \<inter> set (pt_frames pt) = {}"
  shows "agree_on F (mem s) (mem s')"
  unfolding agree_on_def
proof (intro ballI allI impI)
  fix p x
  assume "p \<in> F" "in_frame p x"
  then have "\<forall>q \<in> set (pt_frames pt). \<not> in_frame q x" using assms(2) in_frame_unique by blast
  then show "mem s' x = mem s x" using assms(1) by (simp add: pt_ext_def)
qed

section \<open>Properties\<close>

text \<open>
  C7. Mapping a page that is not mapped succeeds when two frames are free. Seen as a map from the
  27 low bits of page numbers to entries, the table then has the new entry at that key and is
  unchanged elsewhere; it keeps its root, stays well formed, and no frame in use outside the
  table changes.
\<close>

theorem pt_map_refines:
  assumes ok: "pt_ok pt s" and room: "2 \<le> mm_free s" and fresh: "pt_entry (mem s) pt v = None"
  shows "\<exists>pt' s'. pt_map v p fl pt s = Some (pt', s') \<and> pt_ok pt' s' \<and> pt_token pt' = pt_token pt
    \<and> (\<forall>w. pt_entry (mem s') pt' w
          = (if vkey w = vkey v then Some (pte_new p (fl OR PTE_V)) else pt_entry (mem s) pt w))
    \<and> agree_on (mm_live s - set (pt_frames pt)) (mem s) (mem s')"
proof -
  obtain pt' s' where m: "pt_map v p fl pt s = Some (pt', s')"
    using pt_map_total [OF ok room fresh] by blast
  obtain new where N: "pt_ext pt s pt' s' new"
    "\<And>w. pt_entry (mem s') pt' w
       = (if vkey w = vkey v then Some (pte_new p (fl OR PTE_V)) else pt_entry (mem s) pt w)"
    using pt_map_spec [OF ok m] by blast
  have "agree_on (mm_live s - set (pt_frames pt)) (mem s) (mem s')"
    by (rule pt_ext_agree [OF N(1)])
  then show ?thesis
    using m N pt_ext_ok [OF N(1) ok] by (auto simp: pt_token_def pt_ext_def)
qed

theorem pt_map_refines_witness:
  "\<exists>pt s pt' s'. pt_new sample_mm = Some (pt, s)
    \<and> pt_map (VirtPageNum 0x12345) (PhysPageNum 0x80399) PTE_R pt s = Some (pt', s')
    \<and> pt_entry (mem s') pt' (VirtPageNum 0x12345) = Some (pte_new (PhysPageNum 0x80399) (PTE_R OR PTE_V))"
proof -
  obtain pt s where n: "pt_new sample_mm = Some (pt, s)"
    using frame_alloc_unwrap_total [OF sample_inv] by (auto simp: pt_new_def)
  note N = pt_new_spec [OF sample_inv n]
  have "2 \<le> mm_free s" using N(6) by simp
  from pt_map_refines [OF N(1) this N(2), of "VirtPageNum 0x12345" "PhysPageNum 0x80399" PTE_R] n
  show ?thesis by fastforce
qed

text \<open>
  C8. Unmapping a mapped page always succeeds, allocates nothing, removes exactly that key of the
  table and changes no frame outside the table; unmapping a page that is not mapped, and
  mapping one that is, panics.
\<close>

theorem pt_unmap_refines:
  assumes ok: "pt_ok pt s"
  shows "(case pt_entry (mem s) pt v of
      Some e \<Rightarrow> pt_map v p fl pt s = None
        \<and> (\<exists>s'. pt_unmap v pt s = Some (pt, s') \<and> pt_ok pt s'
             \<and> frame_allocator s' = frame_allocator s
             \<and> (\<forall>w. pt_entry (mem s') pt w = (if vkey w = vkey v then None else pt_entry (mem s) pt w))
             \<and> agree_on (- set (pt_frames pt)) (mem s) (mem s'))
    | None \<Rightarrow> pt_unmap v pt s = None)"
proof (cases "pt_entry (mem s) pt v")
  case None
  then show ?thesis using pt_unmap_unmapped_panics [OF ok] by simp
next
  case (Some e)
  then have ne: "pt_entry (mem s) pt v \<noteq> None" by simp
  obtain s' where u: "pt_unmap v pt s = Some (pt, s')" and x: "pt_ext pt s pt s' []"
    and l: "\<And>w. pt_entry (mem s') pt w = (if vkey w = vkey v then None else pt_entry (mem s) pt w)"
    using pt_unmap_spec [OF ok ne] by blast
  obtain q where "node (mem s) (root_ppn pt) [idx0 v, idx1 v] = Some q"
    using pt_entry_node [OF Some] by blast
  then have "frame_allocator s' = frame_allocator s"
    using u by (auto simp: pt_unmap_def find_pte_create_present pte_store_def split: if_splits)
  moreover have "agree_on (- set (pt_frames pt)) (mem s) (mem s')"
    by (rule pt_ext_same_agree [OF x]) simp
  ultimately show ?thesis
    using Some u l pt_ext_ok [OF x ok] pt_map_mapped_panics [OF ok ne] by auto
qed

theorem pt_unmap_refines_witness:
  "\<exists>pt s pt' s' s''. pt_new sample_mm = Some (pt, s) \<and> pt_unmap (VirtPageNum 7) pt s = None
    \<and> pt_map (VirtPageNum 7) (PhysPageNum 0x80399) PTE_R pt s = Some (pt', s')
    \<and> pt_unmap (VirtPageNum 7) pt' s' = Some (pt', s'')
    \<and> pt_entry (mem s'') pt' (VirtPageNum 7) = None"
proof -
  obtain pt s where n: "pt_new sample_mm = Some (pt, s)"
    using frame_alloc_unwrap_total [OF sample_inv] by (auto simp: pt_new_def)
  note N = pt_new_spec [OF sample_inv n]
  have "2 \<le> mm_free s" using N(6) by simp
  then obtain pt' s' where m: "pt_map (VirtPageNum 7) (PhysPageNum 0x80399) PTE_R pt s = Some (pt', s')"
    using pt_map_total [OF N(1) _ N(2)] by blast
  obtain new where M: "pt_ext pt s pt' s' new" "pt_entry (mem s') pt' (VirtPageNum 7)
      = Some (pte_new (PhysPageNum 0x80399) (PTE_R OR PTE_V))"
    using pt_map_spec [OF N(1) m] by auto
  from pt_unmap_refines [OF N(1), of "VirtPageNum 7"] N(2) have "pt_unmap (VirtPageNum 7) pt s = None"
    by simp
  moreover from pt_unmap_refines [OF pt_ext_ok [OF M(1) N(1)], of "VirtPageNum 7" "PhysPageNum 0" 0] M(2)
  obtain s'' where "pt_unmap (VirtPageNum 7) pt' s' = Some (pt', s'')"
    "pt_entry (mem s'') pt' (VirtPageNum 7) = None" by auto
  ultimately show ?thesis using n m by blast
qed

end
