(* ===== verification/UserMem.thy ===== *)
theory UserMem
  imports PageTableTree
begin

text \<open>
  Access to user memory: the functions \<open>translated_byte_buffer\<close>, \<open>translated_str\<close> and
  \<open>translated_refmut\<close> of \<open>mm/page_table.rs\<close> against the address map of the page table
  (\<open>user_addr\<close>). The buffers cover the requested bytes in order, and the loops end.
\<close>

section \<open>The address map\<close>

definition user_addr :: "PageTable \<Rightarrow> mm \<Rightarrow> usize \<Rightarrow> usize option" where
  "user_addr pt s x = map_option (\<lambda>e. frame_base (pte_ppn e) + va_page_offset (VirtAddr x))
     (pt_entry (mem s) pt (va_floor (VirtAddr x)))"

definition buf_addrs :: "usize \<times> nat \<Rightarrow> usize list" where
  "buf_addrs = (\<lambda>(a, n). map (\<lambda>i. a + of_nat i) [0..<n])"

lemma translate_va_user_addr:
  "user_addr pt s x = Some a \<Longrightarrow> pt_translate_va (VirtAddr x) pt s = Some (Some (PhysAddr a))"
  using pt_entry_node [of "mem s" pt "va_floor (VirtAddr x)"]
  by (auto simp: user_addr_def pt_translate_va_def find_pte_eq pte_load_pte_addr Let_def
      frame_base_def simp del: node.simps)

text \<open>The token names the table, and a table rebuilt from it has the same entries.\<close>

lemma root_from_token:
  assumes "ppn_ok (root_ppn pt)"
  shows "root_ppn (pt_from_token (pt_token pt)) = root_ppn pt"
proof (rule PhysPageNum.expand)
  have m: "(push_bit 44 1 - 1 :: usize) = mask 44" by (simp add: mask_eq_exp_minus_1 push_bit_eq_mult)
  have "ppn0 (root_ppn pt) AND mask 44 = ppn0 (root_ppn pt)"
    using assms
    by (simp add: ppn_ok_take_bit flip: take_bit_eq_mask)
  moreover have "(push_bit 60 8 :: usize) AND mask 44 = 0" by (simp add: mask_eq_exp_minus_1 push_bit_eq_mult)
  ultimately show "ppn0 (root_ppn (pt_from_token (pt_token pt))) = ppn0 (root_ppn pt)"
    unfolding pt_from_token_def pt_token_def m by (simp add: bit.conj_disj_distrib2)
qed

lemma entry_from_token:
  assumes "pt_ok pt s"
  shows "pt_entry m (pt_from_token (pt_token pt)) v = pt_entry m pt v"
    and "user_addr (pt_from_token (pt_token pt)) s x = user_addr pt s x"
proof -
  have "ppn_ok (root_ppn pt)" using assms pt_wf_root by (auto simp: pt_ok_def pt_wf_def)
  then show "pt_entry m (pt_from_token (pt_token pt)) v = pt_entry m pt v" for m v
    by (simp add: pt_entry_def root_from_token)
  then show "user_addr (pt_from_token (pt_token pt)) s x = user_addr pt s x"
    by (simp add: user_addr_def)
qed

section \<open>Byte buffers\<close>

lemma unat_page_end:
  assumes "unat x < 2 ^ 64 - 4096"
  shows "unat (va0 (va_of_vpn (vpn_step (va_floor (VirtAddr x))))) = (unat x div 4096 + 1) * 4096"
proof -
  have f: "unat (vpn0 (va_floor (VirtAddr x))) = unat x div 4096" by (simp add: unat_va_floor)
  have lt: "unat x div 4096 + 1 < 2 ^ 52" using assms by simp
  then have "unat (vpn0 (vpn_step (va_floor (VirtAddr x)))) = unat x div 4096 + 1"
    using f by (simp add: vpn_step_def) (subst unat_add_less; simp)
  then show ?thesis using lt by (subst unat_va_of_vpn) simp_all
qed

lemma unat_of_nat_usize: "n < 2 ^ 64 \<Longrightarrow> unat (of_nat n :: usize) = n"
  by (simp add: unat_of_nat_less)

text \<open>The addresses of one page, from \<open>a\<close> to \<open>b\<close>.\<close>

lemma user_addr_page:
  assumes e: "pt_entry (mem s) pt (va_floor (VirtAddr x)) = Some e"
    and n: "unat x \<le> n" "n < (unat x div 4096 + 1) * 4096" "n < 2 ^ 64"
  shows "the (user_addr pt s (of_nat n))
    = frame_base (pte_ppn e) + va_page_offset (VirtAddr x) + of_nat (n - unat x)"
proof -
  have d: "n div 4096 = unat x div 4096" using n by (simp add: div_nat_eqI)
  have un: "unat (of_nat n :: usize) = n" by (rule unat_of_nat_usize [OF n(3)])
  have "va_floor (VirtAddr (of_nat n)) = va_floor (VirtAddr x)"
    by (rule VirtPageNum.expand) (simp add: word_unat_eq_iff unat_va_floor un d)
  moreover have "va_page_offset (VirtAddr (of_nat n)) = va_page_offset (VirtAddr x) + of_nat (n - unat x)"
  proof -
    have "n mod 4096 = unat x mod 4096 + (n - unat x)"
    proof -
      have "n = n div 4096 * 4096 + n mod 4096" "unat x = unat x div 4096 * 4096 + unat x mod 4096"
        by simp_all
      then show ?thesis using d n(1) by linarith
    qed
    moreover have "n mod 4096 < 4096" by simp
    ultimately have "unat (va_page_offset (VirtAddr x) + of_nat (n - unat x)) = n mod 4096"
      using n(3) by (subst unat_add_less) (simp_all add: unat_va_page_offset unat_of_nat_usize)
    then show ?thesis by (simp add: word_unat_eq_iff unat_va_page_offset un)
  qed
  ultimately show ?thesis using e by (simp add: user_addr_def add.assoc)
qed

lemma slice_of_page:
  assumes "lo \<le> hi" and "hi \<le> 4096"
  shows "byte_slice_range (get_bytes_array p) (of_nat lo) (of_nat hi)
    = Some (frame_base p + of_nat lo, hi - lo)"
proof -
  have u: "unat (of_nat lo :: usize) = lo" "unat (of_nat hi :: usize) = hi"
    using assms by (simp_all add: unat_of_nat_usize)
  have le: "(of_nat lo :: usize) \<le> of_nat hi" using assms u by (simp add: word_le_nat_alt)
  then have "unat (of_nat hi - of_nat lo :: usize) = hi - lo" using u by (simp add: unat_sub)
  then show ?thesis
    using assms le u by (simp add: byte_slice_range_def get_bytes_array_def frame_base_def)
qed

text \<open>One round of the loop: the buffer for the bytes from \<open>x\<close> to \<open>m\<close>, where the page or the range ends.\<close>

lemma buffer_round:
  assumes lt: "unat x < unat y" and y: "unat y \<le> 2 ^ 64 - 4096"
    and e: "pt_entry (mem s) pt (va_floor (VirtAddr x)) = Some e"
  defines "m \<equiv> min ((unat x div 4096 + 1) * 4096) (unat y)"
  shows "translated_byte_buffer_loop pt x y v s
      = translated_byte_buffer_loop pt (of_nat m) y
          (v @ [(frame_base (pte_ppn e) + va_page_offset (VirtAddr x), m - unat x)]) s"
    and "unat x < m" "m \<le> unat y"
proof -
  let ?nb = "(unat x div 4096 + 1) * 4096"
  show xm: "unat x < m" and my: "m \<le> unat y" using lt by (auto simp: m_def)
  have x: "unat x < 2 ^ 64 - 4096" using lt y by simp
  define ev where "ev = min (va_of_vpn (vpn_step (va_floor (VirtAddr x)))) (VirtAddr y)"
  have ev: "unat (va0 ev) = m"
    using unat_page_end [OF x] by (simp add: ev_def m_def min_def less_eq_VirtAddr_def word_le_nat_alt)
  have m64: "m < 2 ^ 64" using my y by simp
  then have evm: "va0 ev = of_nat m" using ev by (simp add: word_unat_eq_iff unat_of_nat_usize)
  have off: "va_page_offset (VirtAddr x) = of_nat (unat x mod 4096)"
    by (simp add: word_unat_eq_iff unat_va_page_offset unat_of_nat_usize)
  have eoff: "va_page_offset ev = of_nat (m mod 4096)"
    by (simp add: word_unat_eq_iff unat_va_page_offset unat_of_nat_usize ev)
  have aux: "(q + 1) * 4096 - (q * 4096 + r) = 4096 - r" for q r :: nat by simp
  have split: "unat x = unat x div 4096 * 4096 + unat x mod 4096" by simp
  have buf: "(if va_page_offset ev = 0
        then byte_slice_range (get_bytes_array (pte_ppn e)) (va_page_offset (VirtAddr x)) 4096
        else byte_slice_range (get_bytes_array (pte_ppn e)) (va_page_offset (VirtAddr x)) (va_page_offset ev))
      = Some (frame_base (pte_ppn e) + va_page_offset (VirtAddr x), m - unat x)"
  proof (cases "m mod 4096 = 0")
    case True
    have "?nb \<le> unat y" if "m = unat y"
    proof -
      have "4096 dvd unat y" using True that by auto
      then obtain q where q: "unat y = q * 4096" by (metis dvd_div_mult_self)
      then have "unat x div 4096 < q" using lt less_mult_imp_div_less by metis
      then show ?thesis by (simp add: q)
    qed
    then have "m = ?nb" unfolding m_def min_def by (cases "?nb \<le> unat y") simp_all
    then have "m - unat x = 4096 - unat x mod 4096"
      using aux [of "unat x div 4096" "unat x mod 4096"] by (simp only: div_mult_mod_eq)
    moreover have "unat x mod 4096 \<le> 4096" by simp
    ultimately show ?thesis
      using slice_of_page [of "unat x mod 4096" 4096 "pte_ppn e"] True eoff by (simp add: off)
  next
    case False
    then have "m < ?nb" by (auto simp: m_def min_def split: if_splits)
    then have d: "m div 4096 = unat x div 4096" using xm by (simp add: div_nat_eqI)
    have "m = m div 4096 * 4096 + m mod 4096" by simp
    then have "m - unat x = m mod 4096 - unat x mod 4096" "unat x mod 4096 \<le> m mod 4096"
      using split d xm by linarith+
    moreover have "va_page_offset ev \<noteq> 0"
      using False by (simp add: eoff word_unat_eq_iff unat_of_nat_usize)
    ultimately show ?thesis
      using slice_of_page [of "unat x mod 4096" "m mod 4096" "pte_ppn e"] by (simp add: off eoff)
  qed
  have "x < y" using lt by (simp add: word_less_nat_alt)
  then show "translated_byte_buffer_loop pt x y v s
      = translated_byte_buffer_loop pt (of_nat m) y
          (v @ [(frame_base (pte_ppn e) + va_page_offset (VirtAddr x), m - unat x)]) s"
    using buf by (subst translated_byte_buffer_loop.simps)
      (simp add: pt_translate_entry [OF e] Let_def evm split: if_splits flip: ev_def)
qed

lemma translated_byte_buffer_loop_spec:
  assumes "unat x \<le> unat y" and "unat y \<le> 2 ^ 64 - 4096"
    and "\<And>n. unat x \<le> n \<Longrightarrow> n < unat y \<Longrightarrow> user_addr pt s (of_nat n) \<noteq> None"
  shows "\<exists>bufs. translated_byte_buffer_loop pt x y v s = Some (v @ bufs)
    \<and> concat (map buf_addrs bufs) = map (\<lambda>n. the (user_addr pt s (of_nat n))) [unat x..<unat y]"
  using assms
proof (induction "unat y - unat x" arbitrary: x v rule: less_induct)
  case less
  show ?case
  proof (cases "unat x < unat y")
    case False
    then have "\<not> x < y" by (simp add: word_less_nat_alt)
    then show ?thesis using False by (subst translated_byte_buffer_loop.simps) simp
  next
    case True
    have "user_addr pt s (of_nat (unat x)) \<noteq> None" using less.prems(3) True by blast
    then obtain e where e: "pt_entry (mem s) pt (va_floor (VirtAddr x)) = Some e"
      by (auto simp: user_addr_def)
    define m where "m = min ((unat x div 4096 + 1) * 4096) (unat y)"
    note R = buffer_round(1) [OF True less.prems(2) e, where v = v, folded m_def]
      buffer_round(2,3) [OF True less.prems(2) e, folded m_def]
    have um: "unat (of_nat m :: usize) = m" using R(3) less.prems(2) by (simp add: unat_of_nat_usize)
    define b where "b = (frame_base (pte_ppn e) + va_page_offset (VirtAddr x), m - unat x)"
    have "\<exists>bufs. translated_byte_buffer_loop pt (of_nat m) y (v @ [b]) s = Some ((v @ [b]) @ bufs)
        \<and> concat (map buf_addrs bufs)
            = map (\<lambda>n. the (user_addr pt s (of_nat n))) [unat (of_nat m :: usize)..<unat y]"
      by (rule less.hyps) (use R(2,3) um less.prems in auto)
    then obtain bufs where I: "translated_byte_buffer_loop pt (of_nat m) y (v @ [b]) s
        = Some (v @ b # bufs)"
      "concat (map buf_addrs bufs) = map (\<lambda>n. the (user_addr pt s (of_nat n))) [m..<unat y]"
      by (auto simp: um)
    have "buf_addrs b = map (\<lambda>n. the (user_addr pt s (of_nat n))) [unat x..<m]"
      unfolding b_def buf_addrs_def prod.case
    proof (rule nth_equalityI)
      fix i
      assume "i < length (map (\<lambda>i. frame_base (pte_ppn e) + va_page_offset (VirtAddr x) + of_nat i)
          [0..<m - unat x])"
      then have i: "i < m - unat x" by simp
      then have "unat x + i < (unat x div 4096 + 1) * 4096" by (auto simp: m_def)
      moreover have "unat x + i < 2 ^ 64" using i R(3) less.prems(2) by simp
      ultimately show "map (\<lambda>i. frame_base (pte_ppn e) + va_page_offset (VirtAddr x) + of_nat i)
            [0..<m - unat x] ! i
          = map (\<lambda>n. the (user_addr pt s (of_nat n))) [unat x..<m] ! i"
        using user_addr_page [OF e, of "unat x + i"] i by simp
    qed simp
    then have "concat (map buf_addrs (b # bufs))
        = map (\<lambda>n. the (user_addr pt s (of_nat n))) [unat x..<unat y]"
      using I(2) R(2,3) upt_add_eq_append [of "unat x" m "unat y - m"] by simp
    then show ?thesis using R(1) I(1) by (intro exI [of _ "b # bufs"]) (simp add: b_def)
  qed
qed

section \<open>Strings\<close>

lemma translated_str_loop_spec:
  assumes "\<And>i. i < length bs \<Longrightarrow> \<exists>a. user_addr pt s (va + of_nat i) = Some a \<and> a \<noteq> 0
      \<and> mem s a = bs ! i \<and> bs ! i \<noteq> 0"
    and "user_addr pt s (va + of_nat (length bs)) = Some z" "z \<noteq> 0" "mem s z = 0"
  shows "translated_str_loop pt va acc s = Some (acc @ concat (map char_utf8 bs))"
  using assms
proof (induction bs arbitrary: va acc)
  case Nil
  then show ?case
    by (subst translated_str_loop.simps) (simp add: translate_va_user_addr pa_get_mut_def)
next
  case (Cons b bs)
  obtain a where a: "user_addr pt s va = Some a" "a \<noteq> 0" "mem s a = b" "b \<noteq> 0"
    using Cons.prems(1) [of 0] by auto
  have "translated_str_loop pt (va + 1) (acc @ char_utf8 b) s
      = Some ((acc @ char_utf8 b) @ concat (map char_utf8 bs))"
  proof (rule Cons.IH)
    show "\<exists>a. user_addr pt s (va + 1 + of_nat i) = Some a \<and> a \<noteq> 0 \<and> mem s a = bs ! i \<and> bs ! i \<noteq> 0"
      if "i < length bs" for i
      using Cons.prems(1) [of "Suc i"] that by (simp add: add.assoc)
  qed (use Cons.prems in \<open>simp_all add: add.assoc\<close>)
  then show ?case
    using a by (subst translated_str_loop.simps) (simp add: translate_va_user_addr pa_get_mut_def)
qed

section \<open>Properties\<close>

text \<open>
  C9. For a buffer that ends below the top page of the address space and whose bytes are all mapped,
  \<open>translated_byte_buffer\<close> returns, and the slices it returns are, byte by byte and in order, the
  physical addresses of the virtual range, across page boundaries.
\<close>

theorem translated_byte_buffer_covers:
  assumes ok: "pt_ok pt s" and fits: "unat ptr + unat len \<le> 2 ^ 64 - 4096"
    and mapped: "\<And>i. i < unat len \<Longrightarrow> user_addr pt s (ptr + of_nat i) \<noteq> None"
  shows "\<exists>bufs. translated_byte_buffer (pt_token pt) ptr len s = Some bufs
    \<and> map Some (concat (map buf_addrs bufs))
        = map (\<lambda>i. user_addr pt s (ptr + of_nat i)) [0..<unat len]"
proof -
  let ?q = "pt_from_token (pt_token pt)"
  have e: "unat (ptr + len) = unat ptr + unat len" using fits by (subst unat_add_less) simp_all
  have m: "user_addr ?q s (of_nat n) \<noteq> None" if "unat ptr \<le> n" "n < unat (ptr + len)" for n
  proof -
    have "ptr + of_nat (n - unat ptr) = of_nat n" using that(1) by (simp add: of_nat_diff)
    then show ?thesis
      using mapped [of "n - unat ptr"] that e by (simp add: entry_from_token(2) [OF ok])
  qed
  obtain bufs where b: "translated_byte_buffer_loop ?q ptr (ptr + len) [] s = Some bufs"
    "concat (map buf_addrs bufs) = map (\<lambda>n. the (user_addr ?q s (of_nat n))) [unat ptr..<unat (ptr + len)]"
    using translated_byte_buffer_loop_spec [of ptr "ptr + len" ?q s "[]", OF _ _ m] fits e by auto
  have "map Some (concat (map buf_addrs bufs))
      = map (\<lambda>i. user_addr pt s (ptr + of_nat i)) [0..<unat len]"
    unfolding b(2) e
  proof (rule nth_equalityI)
    fix i
    assume "i < length (map Some (map (\<lambda>n. the (user_addr ?q s (of_nat n))) [unat ptr..<unat ptr + unat len]))"
    then have "i < unat len" by simp
    then show "map Some (map (\<lambda>n. the (user_addr ?q s (of_nat n))) [unat ptr..<unat ptr + unat len]) ! i
        = map (\<lambda>i. user_addr pt s (ptr + of_nat i)) [0..<unat len] ! i"
      using mapped [of i] by (simp add: entry_from_token(2) [OF ok])
  qed simp
  then show ?thesis using b(1) by (auto simp: translated_byte_buffer_def)
qed

text \<open>
  C10. \<open>translated_str\<close> returns the text before the first zero byte of the mapped user memory, each byte
  taken as the code point of that number.
\<close>

theorem translated_str_reads:
  assumes ok: "pt_ok pt s"
    and chars: "\<And>i. i < length bs \<Longrightarrow> \<exists>a. user_addr pt s (ptr + of_nat i) = Some a \<and> a \<noteq> 0
      \<and> mem s a = bs ! i \<and> bs ! i \<noteq> 0"
    and stop: "user_addr pt s (ptr + of_nat (length bs)) = Some z" "z \<noteq> 0" "mem s z = 0"
  shows "translated_str (pt_token pt) ptr s = Some (concat (map char_utf8 bs))"
  using translated_str_loop_spec [of bs "pt_from_token (pt_token pt)" s ptr z "[]"] chars stop
  by (simp add: translated_str_def entry_from_token(2) [OF ok])

text \<open>Two pages of user memory, mapped to frames that hold the text \<open>hi\<close> across the boundary.\<close>

definition sample_text :: mm where
  "sample_text = sample_mm\<lparr>mem := (\<lambda>_. 0)(0x80399FFF := 104, 0x80398000 := 105)\<rparr>"

lemma sample_text_mapped:
  "\<exists>pt s. pt_ok pt s
    \<and> pt_entry (mem s) pt (VirtPageNum 7) = Some (pte_new (PhysPageNum 0x80399) (PTE_R OR PTE_V))
    \<and> pt_entry (mem s) pt (VirtPageNum 8) = Some (pte_new (PhysPageNum 0x80398) (PTE_R OR PTE_V))
    \<and> agree_on (mm_live sample_mm) (mem sample_text) (mem s)"
proof -
  have inv: "mm_inv sample_text" using sample_inv by (simp add: sample_text_def)
  have lv: "mm_live sample_text = mm_live sample_mm" by (simp add: sample_text_def)
  have fr: "mm_free sample_text = 31744" using sample_free by (simp add: sample_text_def)
  obtain pt s where n: "pt_new sample_text = Some (pt, s)"
    using frame_alloc_unwrap_total [OF inv] fr by (auto simp: pt_new_def)
  note N = pt_new_spec [OF inv n]
  obtain pt1 s1 where m1: "pt_map (VirtPageNum 7) (PhysPageNum 0x80399) PTE_R pt s = Some (pt1, s1)"
    using pt_map_total [OF N(1) _ N(2)] N(6) fr by fastforce
  obtain new1 where x1: "pt_ext pt s pt1 s1 new1" "length new1 \<le> 2" "\<And>w. pt_entry (mem s1) pt1 w
      = (if vkey w = vkey (VirtPageNum 7) then Some (pte_new (PhysPageNum 0x80399) (PTE_R OR PTE_V)) else None)"
    using pt_map_spec [OF N(1) m1] N(2) by auto
  note ok1 = pt_ext_ok [OF x1(1) N(1)]
  have "2 \<le> mm_free s1" using x1(1,2) N(6) fr by (simp add: pt_ext_def)
  moreover have none: "pt_entry (mem s1) pt1 (VirtPageNum 8) = None" by (simp add: x1(3) vkey_def)
  ultimately obtain pt2 s2 where m2: "pt_map (VirtPageNum 8) (PhysPageNum 0x80398) PTE_R pt1 s1 = Some (pt2, s2)"
    using pt_map_total [OF ok1] by blast
  obtain new2 where x2: "pt_ext pt1 s1 pt2 s2 new2" "\<And>w. pt_entry (mem s2) pt2 w
      = (if vkey w = vkey (VirtPageNum 8) then Some (pte_new (PhysPageNum 0x80398) (PTE_R OR PTE_V))
         else pt_entry (mem s1) pt1 w)"
    using pt_map_spec [OF ok1 m2] by auto
  have "agree_on (mm_live sample_mm) (mem sample_text) (mem s)"
    using N(4,7) lv in_frame_unique unfolding agree_on_def by metis
  moreover have "agree_on (mm_live sample_mm) (mem s) (mem s1)"
    using pt_ext_agree [OF x1(1)] N(3,4,5) lv by (auto intro: agree_on_subset)
  moreover have "set (pt_frames pt1) \<inter> mm_live sample_mm = {}" "mm_live sample_mm \<subseteq> mm_live s1"
    using x1(1) N(3,4,5) lv by (auto simp: pt_ext_def)
  then have "agree_on (mm_live sample_mm) (mem s1) (mem s2)"
    using pt_ext_agree [OF x2(1)] by (auto intro: agree_on_subset)
  ultimately have "agree_on (mm_live sample_mm) (mem sample_text) (mem s2)"
    using agree_on_trans by blast
  then show ?thesis
    using pt_ext_ok [OF x2(1) ok1] x1(3) x2(2)
    by (intro exI [of _ pt2] exI [of _ s2]) (simp add: vkey_def)
qed

lemma sample_text_bytes:
  assumes "pt_entry (mem s) pt (VirtPageNum 7) = Some (pte_new (PhysPageNum 0x80399) (PTE_R OR PTE_V))"
    and "pt_entry (mem s) pt (VirtPageNum 8) = Some (pte_new (PhysPageNum 0x80398) (PTE_R OR PTE_V))"
    and a: "agree_on (mm_live sample_mm) (mem sample_text) (mem s)"
  shows "user_addr pt s 0x7FFF = Some 0x80399FFF" "user_addr pt s 0x8000 = Some 0x80398000"
    "user_addr pt s 0x8001 = Some 0x80398001"
    "mem s 0x80399FFF = 104" "mem s 0x80398000 = 105" "mem s 0x80398001 = 0"
proof -
  have o: "ppn_ok (PhysPageNum 0x80399)" "ppn_ok (PhysPageNum 0x80398)" by (simp_all add: ppn_ok_def)
  have f: "va_floor (VirtAddr 0x7FFF) = VirtPageNum 7" "va_floor (VirtAddr 0x8000) = VirtPageNum 8"
    "va_floor (VirtAddr 0x8001) = VirtPageNum 8"
    by (simp_all add: va_floor_def PAGE_SIZE_def)
  show "user_addr pt s 0x7FFF = Some 0x80399FFF" "user_addr pt s 0x8000 = Some 0x80398000"
    "user_addr pt s 0x8001 = Some 0x80398001"
    using assms(1,2) o
    by (simp_all add: user_addr_def f frame_base_def va_page_offset_def PAGE_SIZE_def PAGE_SIZE_BITS_def
        pa_of_ppn_def push_bit_eq_mult)
  have "PhysPageNum 0x80399 \<in> mm_live sample_mm" "PhysPageNum 0x80398 \<in> mm_live sample_mm"
    by (simp_all add: sample_live)
  moreover have "in_frame (PhysPageNum 0x80399) 0x80399FFF" "in_frame (PhysPageNum 0x80398) 0x80398000"
    "in_frame (PhysPageNum 0x80398) 0x80398001"
    by (simp_all add: in_frame_def)
  ultimately show "mem s 0x80399FFF = 104" "mem s 0x80398000 = 105" "mem s 0x80398001 = 0"
    using a unfolding agree_on_def by (simp_all add: sample_text_def)
qed

theorem translated_byte_buffer_covers_witness:
  "\<exists>pt s bufs. translated_byte_buffer (pt_token pt) 0x7FFF 2 s = Some bufs
    \<and> concat (map buf_addrs bufs) = [0x80399FFF, 0x80398000]"
proof -
  obtain pt s where P: "pt_ok pt s"
    "user_addr pt s 0x7FFF = Some 0x80399FFF" "user_addr pt s 0x8000 = Some 0x80398000"
    using sample_text_mapped sample_text_bytes(1,2) by blast
  have m: "user_addr pt s (0x7FFF + of_nat i) \<noteq> None" if "i < unat (2 :: usize)" for i
    using that P by (auto simp: less_2_cases_iff)
  obtain bufs where "translated_byte_buffer (pt_token pt) 0x7FFF 2 s = Some bufs"
    "map Some (concat (map buf_addrs bufs)) = map Some [0x80399FFF, 0x80398000]"
    using translated_byte_buffer_covers [OF P(1) _ m, of 2] P by (auto simp: upt_rec)
  moreover from this(2) have "concat (map buf_addrs bufs) = [0x80399FFF, 0x80398000]"
    by (simp only: list.inj_map_strong inj_map_eq_map [OF inj_Some])
  ultimately show ?thesis by blast
qed

theorem translated_str_reads_witness:
  "\<exists>pt s. pt_ok pt s \<and> translated_str (pt_token pt) 0x7FFF s = Some [104, 105]"
proof -
  obtain pt s where P: "pt_ok pt s"
    "user_addr pt s 0x7FFF = Some 0x80399FFF" "user_addr pt s 0x8000 = Some 0x80398000"
    "user_addr pt s 0x8001 = Some 0x80398001"
    "mem s 0x80399FFF = 104" "mem s 0x80398000 = 105" "mem s 0x80398001 = 0"
    using sample_text_mapped sample_text_bytes by blast
  have "\<exists>a. user_addr pt s (0x7FFF + of_nat i) = Some a \<and> a \<noteq> 0 \<and> mem s a = [104, 105] ! i
      \<and> [104, 105] ! i \<noteq> (0 :: u8)" if "i < length [104, 105 :: u8]" for i
    using that P by (auto simp: less_Suc_eq)
  from translated_str_reads [OF P(1) this, where z = "0x80398001"] P
  show ?thesis by (auto simp: char_utf8_def)
qed

text \<open>
  C37. A pointer into a page that has been unmapped. The functions that reach user memory do not look at the valid bit of the
  entry: after \<open>unmap\<close> the page is not mapped, but \<open>translate\<close> still returns its entry, which is empty, and
  \<open>translated_refmut\<close> returns the address with the same offset in physical page 0; it panics for the offset 0, whose
  address is the null pointer.
\<close>

theorem unmapped_page_reaches_frame_zero:
  assumes ok: "pt_ok pt s" and m: "pt_entry (mem s) pt (va_floor (VirtAddr ptr)) \<noteq> None"
    and u: "pt_unmap (va_floor (VirtAddr ptr)) pt s = Some (pt', s')"
  shows "pt_entry (mem s') pt' (va_floor (VirtAddr ptr)) = None
    \<and> pt_translate (va_floor (VirtAddr ptr)) pt' s' = Some (Some pte_empty)
    \<and> translated_refmut (pt_token pt') ptr s' = (let offset = va_page_offset (VirtAddr ptr) in if offset = 0 then None else Some offset)"
proof -
  let ?v = "va_floor (VirtAddr ptr)"
  obtain s1 where s1: "pt_unmap ?v pt s = Some (pt, s1)" "pt_ext pt s pt s1 []" "pt_entry (mem s1) pt ?v = None"
    using pt_unmap_spec [OF ok m] by auto
  then have eq: "pt' = pt" "s' = s1" using u by simp_all
  obtain p where p: "node (mem s) (root_ppn pt) [idx0 ?v, idx1 ?v] = Some p" using m pt_entry_node by fastforce
  have "s' = pte_store (pte_addr p (idx2 ?v)) pte_empty s"
    using u by (simp add: pt_unmap_def find_pte_create_present [OF p] split: if_splits)
  then have s': "mem s' = write_u64 (mem s) (pte_addr p (idx2 ?v)) 0" by (simp add: pte_store_def pte_empty_def)
  have wf: "pt_wf (mem s) pt" using ok by (simp add: pt_ok_def)
  have n: "node (mem s') (root_ppn pt) [idx0 ?v, idx1 ?v] = Some p"
    unfolding s' using leaf_store_node [OF wf p idx_bounds(3) table_path_idx(1)] p by simp
  have l: "pte_load s' (pte_addr p (idx2 ?v)) = pte_empty" by (simp add: pte_load_def s' pte_empty_def read_write_u64)
  have "pt_translate ?v pt' s' = Some (Some pte_empty)"
    using l by (simp add: eq pt_translate_def find_pte_eq n [unfolded eq] del: node.simps)
  moreover have "root_ppn (pt_from_token (pt_token pt)) = root_ppn pt"
    using ok pt_wf_root by (auto simp: pt_ok_def pt_wf_def intro: root_from_token)
  then have "translated_refmut (pt_token pt') ptr s' = pa_get_mut (PhysAddr (va_page_offset (VirtAddr ptr)))"
    using l n by (simp add: eq translated_refmut_def pt_translate_va_def find_pte_eq pte_empty_def pte_ppn_def pa_of_ppn_def del: node.simps)
  ultimately show ?thesis using s1(3) by (simp add: eq pa_get_mut_def Let_def)
qed

theorem unmapped_page_reaches_frame_zero_witness:
  "\<exists>pt s s'. pt_unmap (va_floor (VirtAddr 0x7FFF)) pt s = Some (pt, s') \<and> pt_entry (mem s') pt (va_floor (VirtAddr 0x7FFF)) = None
    \<and> translated_refmut (pt_token pt) 0x7FFF s' = Some 0xFFF"
proof -
  obtain pt s where P: "pt_ok pt s" "user_addr pt s 0x7FFF = Some 0x80399FFF"
    using sample_text_mapped sample_text_bytes(1,2) by blast
  have m: "pt_entry (mem s) pt (va_floor (VirtAddr 0x7FFF)) \<noteq> None" using P(2) by (auto simp: user_addr_def)
  obtain s' where u: "pt_unmap (va_floor (VirtAddr 0x7FFF)) pt s = Some (pt, s')" using pt_unmap_spec [OF P(1) m] by blast
  have "va_page_offset (VirtAddr 0x7FFF) = 0xFFF" by (simp add: va_page_offset_def PAGE_SIZE_def)
  then show ?thesis using unmapped_page_reaches_frame_zero [OF P(1) m u] u by auto
qed

end
