(* ===== verification/BTree.thy ===== *)
theory BTree
  imports Prelude
begin

text \<open>
  \<open>alloc::collections::BTreeMap\<close> as the list of its entries in ascending key order, which is
  the order in which the map is iterated and its values are dropped.
\<close>

type_synonym ('k, 'v) btree = "('k \<times> 'v) list"

definition btree_get :: "'k \<Rightarrow> ('k, 'v) btree \<Rightarrow> 'v option" where
  "btree_get k t = map_of t k"

text \<open>\<open>insert\<close> keeps the order and replaces the value of a present key.\<close>

fun btree_insert :: "'k::linorder \<Rightarrow> 'v \<Rightarrow> ('k, 'v) btree \<Rightarrow> ('k, 'v) btree" where
  "btree_insert k v [] = [(k, v)]"
| "btree_insert k v ((l, w) # t) =
     (if k < l then (k, v) # (l, w) # t
      else if k = l then (k, v) # t
      else (l, w) # btree_insert k v t)"

definition btree_remove :: "'k \<Rightarrow> ('k, 'v) btree \<Rightarrow> ('k, 'v) btree" where
  "btree_remove k t = filter (\<lambda>e. fst e \<noteq> k) t"

definition btree_values :: "('k, 'v) btree \<Rightarrow> 'v list" where
  "btree_values t = map snd t"

definition btree_wf :: "('k::linorder, 'v) btree \<Rightarrow> bool" where
  "btree_wf t \<longleftrightarrow> sorted_wrt (<) (map fst t)"

lemma btree_wf_Nil [simp]: "btree_wf []"
  by (simp add: btree_wf_def)

lemma btree_wf_Cons: "btree_wf ((k, v) # t) \<longleftrightarrow> (\<forall>l \<in> fst ` set t. k < l) \<and> btree_wf t"
  by (auto simp: btree_wf_def)

lemma btree_wf_distinct: "btree_wf t \<Longrightarrow> distinct (map fst t)"
  by (simp add: btree_wf_def strict_sorted_iff)

lemma keys_btree_insert [simp]: "fst ` set (btree_insert k v t) = insert k (fst ` set t)"
  by (induction k v t rule: btree_insert.induct) auto

lemma btree_wf_insert: "btree_wf t \<Longrightarrow> btree_wf (btree_insert k v t)"
  by (induction k v t rule: btree_insert.induct) (auto simp: btree_wf_Cons)

lemma btree_get_insert [simp]:
  "btree_wf t \<Longrightarrow> btree_get l (btree_insert k v t) = (if l = k then Some v else btree_get l t)"
  by (induction k v t rule: btree_insert.induct)
    (auto simp: btree_get_def btree_wf_Cons map_of_eq_None_iff)

lemma btree_wf_remove: "btree_wf t \<Longrightarrow> btree_wf (btree_remove k t)"
  by (induction t) (auto simp: btree_remove_def btree_wf_Cons)

lemma btree_get_remove [simp]:
  "btree_get l (btree_remove k t) = (if l = k then None else btree_get l t)"
  by (induction t) (auto simp: btree_get_def btree_remove_def)

lemma set_btree_insert:
  "btree_wf t \<Longrightarrow> set (btree_insert k v t) = insert (k, v) {e \<in> set t. fst e \<noteq> k}"
  by (induction k v t rule: btree_insert.induct) (auto simp: btree_wf_Cons)

text \<open>A fresh key adds one value.\<close>

lemma mset_values_insert:
  "k \<notin> fst ` set t \<Longrightarrow>
    mset (btree_values (btree_insert k v t)) = add_mset v (mset (btree_values t))"
  by (induction k v t rule: btree_insert.induct) (auto simp: btree_values_def)

lemma btree_get_None: "btree_get k t = None \<longleftrightarrow> k \<notin> fst ` set t"
  by (simp add: btree_get_def map_of_eq_None_iff)

lemma btree_get_Some: "btree_wf t \<Longrightarrow> btree_get k t = Some v \<longleftrightarrow> (k, v) \<in> set t"
  by (simp add: btree_get_def btree_wf_distinct)

text \<open>Removing a key takes its value out.\<close>

lemma mset_values_remove:
  "btree_wf t \<Longrightarrow> (k, v) \<in> set t \<Longrightarrow>
    mset (btree_values t) = add_mset v (mset (btree_values (btree_remove k t)))"
proof (induction t)
  case Nil
  then show ?case by simp
next
  case (Cons e t)
  obtain l w where e: "e = (l, w)" by fastforce
  show ?case
  proof (cases "l = k")
    case True
    with Cons.prems e have "k \<notin> fst ` set t" "v = w"
      by (auto simp: btree_wf_Cons image_iff)
    then have "btree_remove k t = t" by (force simp: btree_remove_def filter_id_conv)
    with True e \<open>v = w\<close> show ?thesis by (simp add: btree_remove_def btree_values_def)
  next
    case False
    with Cons e show ?thesis
      by (simp add: btree_wf_Cons) (simp add: btree_remove_def btree_values_def add_mset_commute)
  qed
qed

lemma btree_remove_absent: "k \<notin> fst ` set t \<Longrightarrow> btree_remove k t = t"
  by (force simp: btree_remove_def filter_id_conv)

end
