(* ===== verification/MemorySet.thy ===== *)
theory MemorySet
  imports PageTableTree BTree
begin

text \<open>
  Address spaces: \<open>mm/memory_set.rs\<close>. A \<open>MemorySet\<close> owns its page table (and with it the
  frames of the tables) and a vector of areas, each owning the frames of its pages in a
  \<open>BTreeMap\<close>. Values that Rust drops are given back to the frame allocator where the source
  drops them, in drop order. The linker's symbols are a parameter, and so is the ELF parser
  (crate \<open>xmas_elf\<close>), which is not part of the repository.
\<close>

section \<open>Data\<close>

datatype MapType = Identical | Framed

definition MapPermission_R :: u8 where "MapPermission_R = push_bit 1 1"
definition MapPermission_W :: u8 where "MapPermission_W = push_bit 2 1"
definition MapPermission_X :: u8 where "MapPermission_X = push_bit 3 1"
definition MapPermission_U :: u8 where "MapPermission_U = push_bit 4 1"

lemmas MapPermission_defs = MapPermission_R_def MapPermission_W_def MapPermission_X_def
  MapPermission_U_def

definition MapPermission_all :: u8 where
  "MapPermission_all = MapPermission_R OR MapPermission_W OR MapPermission_X OR MapPermission_U"

definition MapPermission_from_bits :: "u8 \<Rightarrow> u8 option" where
  "MapPermission_from_bits b = (if b AND NOT MapPermission_all = 0 then Some b else None)"

record MapArea =
  vpn_range :: VPNRange
  data_frames :: "(VirtPageNum, FrameTracker) btree"
  map_type :: MapType
  map_perm :: u8

record MemorySet =
  page_table :: PageTable
  areas :: "MapArea list"

text \<open>The \<open>extern "C"\<close> symbols of the linker script.\<close>

record linker_symbols =
  stext :: usize
  etext :: usize
  srodata :: usize
  erodata :: usize
  sdata :: usize
  edata :: usize
  sbss_with_stack :: usize
  sbss :: usize
  ebss :: usize
  ekernel :: usize
  strampoline :: usize

text \<open>What the kernel reads of a parsed ELF file.\<close>

datatype ph_type = Load | NotLoad

record ProgramHeader =
  get_type :: "ph_type option"
  virtual_addr :: u64
  mem_size :: u64
  ph_offset :: u64
  file_size :: u64
  is_read :: bool
  is_write :: bool
  is_execute :: bool

record ElfFile =
  elf_magic :: "u8 list"
  ph_count :: nat
  program_header :: "nat \<Rightarrow> ProgramHeader option"
  elf_input :: "u8 list"
  entry_point :: u64

section \<open>MapArea\<close>

definition maparea_new :: "VirtAddr \<Rightarrow> VirtAddr \<Rightarrow> MapType \<Rightarrow> u8 \<Rightarrow> MapArea option" where
  "maparea_new start_va end_va ty perm = do {
     r \<leftarrow> range_new (va_floor start_va) (va_ceil end_va);
     Some \<lparr>vpn_range = r, data_frames = [], map_type = ty, map_perm = perm\<rparr> }"

definition maparea_from_another :: "MapArea \<Rightarrow> MapArea option" where
  "maparea_from_another another = do {
     r \<leftarrow> range_new (range_l (vpn_range another)) (range_r (vpn_range another));
     Some \<lparr>vpn_range = r, data_frames = [], map_type = map_type another,
           map_perm = map_perm another\<rparr> }"

text \<open>Dropping an \<open>Option<FrameTracker>\<close>, as returned by \<open>insert\<close> and \<open>remove\<close>.\<close>

definition drop_opt :: "FrameTracker option \<Rightarrow> mm \<Rightarrow> mm option" where
  "drop_opt t s = (case t of None \<Rightarrow> Some s | Some f \<Rightarrow> frame_dealloc f s)"

definition map_one ::
  "VirtPageNum \<Rightarrow> MapArea \<times> PageTable \<times> mm \<Rightarrow> (MapArea \<times> PageTable \<times> mm) option" where
  "map_one vpn = (\<lambda>(area, pt, s). do {
     (ppn, area, s) \<leftarrow>
       (case map_type area of
          Identical \<Rightarrow> Some (PhysPageNum (vpn0 vpn), area, s)
        | Framed \<Rightarrow> do {
            (frame, s) \<leftarrow> frame_alloc_unwrap s;
            s \<leftarrow> drop_opt (btree_get vpn (data_frames area)) s;
            Some (frame, area\<lparr>data_frames := btree_insert vpn frame (data_frames area)\<rparr>, s) });
     pte_flags \<leftarrow> PTEFlags_from_bits (map_perm area);
     (pt, s) \<leftarrow> pt_map vpn ppn pte_flags pt s;
     Some (area, pt, s) })"

definition unmap_one ::
  "VirtPageNum \<Rightarrow> MapArea \<times> PageTable \<times> mm \<Rightarrow> (MapArea \<times> PageTable \<times> mm) option" where
  "unmap_one vpn = (\<lambda>(area, pt, s). do {
     (area, s) \<leftarrow>
       (case map_type area of
          Framed \<Rightarrow> do {
            s \<leftarrow> drop_opt (btree_get vpn (data_frames area)) s;
            Some (area\<lparr>data_frames := btree_remove vpn (data_frames area)\<rparr>, s) }
        | Identical \<Rightarrow> Some (area, s));
     (pt, s) \<leftarrow> pt_unmap vpn pt s;
     Some (area, pt, s) })"

definition maparea_map :: "MapArea \<Rightarrow> PageTable \<Rightarrow> mm \<Rightarrow> (MapArea \<times> PageTable \<times> mm) option" where
  "maparea_map area pt s = foldM map_one (range_list (vpn_range area)) (area, pt, s)"

definition maparea_unmap :: "MapArea \<Rightarrow> PageTable \<Rightarrow> mm \<Rightarrow> (MapArea \<times> PageTable \<times> mm) option" where
  "maparea_unmap area pt s = foldM unmap_one (range_list (vpn_range area)) (area, pt, s)"

partial_function (option) copy_data_loop ::
  "PageTable \<Rightarrow> u8 list \<Rightarrow> usize \<Rightarrow> usize \<Rightarrow> VirtPageNum \<Rightarrow> mm \<Rightarrow> mm option" where
  "copy_data_loop pt data len start current_vpn s = do {
     src \<leftarrow> slice data start (min len (start + PAGE_SIZE));
     r \<leftarrow> pt_translate current_vpn pt s;
     pte \<leftarrow> r;
     dst \<leftarrow> byte_slice_range (get_bytes_array (pte_ppn pte)) 0 (of_nat (length src));
     rassert (snd dst = length src);
     let s = s\<lparr>mem := write_bytes (mem s) (fst dst) src\<rparr>;
     let start = start + PAGE_SIZE;
     if start \<ge> len then Some s
     else copy_data_loop pt data len start (vpn_step current_vpn) s }"

definition copy_data :: "MapArea \<Rightarrow> PageTable \<Rightarrow> u8 list \<Rightarrow> mm \<Rightarrow> mm option" where
  "copy_data area pt data s = do {
     rassert (map_type area = Framed);
     copy_data_loop pt data (of_nat (length data)) 0 (range_l (vpn_range area)) s }"

definition drop_area :: "MapArea \<Rightarrow> mm \<Rightarrow> mm option" where
  "drop_area area s = drop_frames (btree_values (data_frames area)) s"

section \<open>MemorySet\<close>

definition new_bare :: "mm \<Rightarrow> (MemorySet \<times> mm) option" where
  "new_bare s = do {
     (pt, s) \<leftarrow> pt_new s;
     Some (\<lparr>page_table = pt, areas = []\<rparr>, s) }"

definition ms_token :: "MemorySet \<Rightarrow> usize" where
  "ms_token ms = pt_token (page_table ms)"

definition ms_push ::
  "MapArea \<Rightarrow> u8 list option \<Rightarrow> MemorySet \<Rightarrow> mm \<Rightarrow> (MemorySet \<times> mm) option" where
  "ms_push map_area data ms s = do {
     (map_area, pt, s) \<leftarrow> maparea_map map_area (page_table ms) s;
     s \<leftarrow> (case data of None \<Rightarrow> Some s | Some data \<Rightarrow> copy_data map_area pt data s);
     Some (\<lparr>page_table = pt, areas = areas ms @ [map_area]\<rparr>, s) }"

definition insert_framed_area ::
  "VirtAddr \<Rightarrow> VirtAddr \<Rightarrow> u8 \<Rightarrow> MemorySet \<Rightarrow> mm \<Rightarrow> (MemorySet \<times> mm) option" where
  "insert_framed_area start_va end_va permission ms s = do {
     area \<leftarrow> maparea_new start_va end_va Framed permission;
     ms_push area None ms s }"

definition remove_area_with_start_vpn ::
  "VirtPageNum \<Rightarrow> MemorySet \<Rightarrow> mm \<Rightarrow> (MemorySet \<times> mm) option" where
  "remove_area_with_start_vpn start_vpn ms s =
     (case find_index (\<lambda>area. range_l (vpn_range area) = start_vpn) (areas ms) of
        None \<Rightarrow> Some (ms, s)
      | Some idx \<Rightarrow> do {
          (area, pt, s) \<leftarrow> maparea_unmap (areas ms ! idx) (page_table ms) s;
          s \<leftarrow> drop_area area s;
          Some (\<lparr>page_table = pt, areas = remove_nth idx (areas ms)\<rparr>, s) })"

definition map_trampoline :: "linker_symbols \<Rightarrow> MemorySet \<Rightarrow> mm \<Rightarrow> (MemorySet \<times> mm) option" where
  "map_trampoline ld ms s = do {
     vpn \<leftarrow> vpn_of_va (VirtAddr TRAMPOLINE);
     ppn \<leftarrow> ppn_of_pa (PhysAddr (strampoline ld));
     (pt, s) \<leftarrow> pt_map vpn ppn (PTE_R OR PTE_X) (page_table ms) s;
     Some (ms\<lparr>page_table := pt\<rparr>, s) }"

text \<open>\<open>push(MapArea::new(l.into(), r.into(), ty, perm), data)\<close>, the idiom of the three constructors.\<close>

definition push_new ::
  "usize \<Rightarrow> usize \<Rightarrow> MapType \<Rightarrow> u8 \<Rightarrow> u8 list option \<Rightarrow> MemorySet \<Rightarrow> mm \<Rightarrow> (MemorySet \<times> mm) option" where
  "push_new l r ty perm data ms s = do {
     area \<leftarrow> maparea_new (VirtAddr l) (VirtAddr r) ty perm;
     ms_push area data ms s }"

definition new_kernel :: "linker_symbols \<Rightarrow> mm \<Rightarrow> (MemorySet \<times> mm) option" where
  "new_kernel ld s = do {
     (ms, s) \<leftarrow> new_bare s;
     (ms, s) \<leftarrow> map_trampoline ld ms s;
     (ms, s) \<leftarrow> push_new (stext ld) (etext ld) Identical (MapPermission_R OR MapPermission_X) None ms s;
     (ms, s) \<leftarrow> push_new (srodata ld) (erodata ld) Identical MapPermission_R None ms s;
     (ms, s) \<leftarrow> push_new (sdata ld) (edata ld) Identical (MapPermission_R OR MapPermission_W) None ms s;
     (ms, s) \<leftarrow> push_new (sbss_with_stack ld) (ebss ld) Identical
                  (MapPermission_R OR MapPermission_W) None ms s;
     push_new (ekernel ld) MEMORY_END Identical (MapPermission_R OR MapPermission_W) None ms s }"

definition elf_perm :: "ProgramHeader \<Rightarrow> u8" where
  "elf_perm ph =
     (let map_perm = MapPermission_U;
          map_perm = (if is_read ph then map_perm OR MapPermission_R else map_perm);
          map_perm = (if is_write ph then map_perm OR MapPermission_W else map_perm)
      in if is_execute ph then map_perm OR MapPermission_X else map_perm)"

definition load_segment ::
  "ElfFile \<Rightarrow> nat \<Rightarrow> VirtPageNum \<times> MemorySet \<times> mm \<Rightarrow> (VirtPageNum \<times> MemorySet \<times> mm) option" where
  "load_segment elf i = (\<lambda>(max_end_vpn, ms, s). do {
     ph \<leftarrow> program_header elf i;
     ty \<leftarrow> get_type ph;
     if ty = Load then do {
       let start_va = VirtAddr (virtual_addr ph);
       let end_va = VirtAddr (virtual_addr ph + mem_size ph);
       map_area \<leftarrow> maparea_new start_va end_va Framed (elf_perm ph);
       let max_end_vpn = range_r (vpn_range map_area);
       data \<leftarrow> slice (elf_input elf) (ph_offset ph) (ph_offset ph + file_size ph);
       (ms, s) \<leftarrow> ms_push map_area (Some data) ms s;
       Some (max_end_vpn, ms, s) }
     else Some (max_end_vpn, ms, s) })"

definition from_elf ::
  "linker_symbols \<Rightarrow> (u8 list \<Rightarrow> ElfFile option) \<Rightarrow> u8 list \<Rightarrow> mm
     \<Rightarrow> (MemorySet \<times> usize \<times> usize \<times> mm) option" where
  "from_elf ld ElfFile_new elf_data s = do {
     (ms, s) \<leftarrow> new_bare s;
     (ms, s) \<leftarrow> map_trampoline ld ms s;
     elf \<leftarrow> ElfFile_new elf_data;
     rassert (elf_magic elf = [0x7f, 0x45, 0x4c, 0x46]);
     (max_end_vpn, ms, s) \<leftarrow> foldM (load_segment elf) [0..<ph_count elf] (VirtPageNum 0, ms, s);
     let user_stack_bottom = va0 (va_of_vpn max_end_vpn);
     let user_stack_bottom = user_stack_bottom + PAGE_SIZE;
     let user_stack_top = user_stack_bottom + USER_STACK_SIZE;
     (ms, s) \<leftarrow> push_new user_stack_bottom user_stack_top Framed
                  (MapPermission_R OR MapPermission_W OR MapPermission_U) None ms s;
     (ms, s) \<leftarrow> push_new TRAP_CONTEXT TRAMPOLINE Framed (MapPermission_R OR MapPermission_W) None ms s;
     Some (ms, user_stack_top, entry_point elf, s) }"

definition ms_translate :: "VirtPageNum \<Rightarrow> MemorySet \<Rightarrow> mm \<Rightarrow> PageTableEntry option option" where
  "ms_translate vpn ms s = pt_translate vpn (page_table ms) s"

text \<open>\<open>ms.translate(vpn).unwrap().ppn()\<close>\<close>

definition ms_translate_ppn :: "VirtPageNum \<Rightarrow> MemorySet \<Rightarrow> mm \<Rightarrow> PhysPageNum option" where
  "ms_translate_ppn vpn ms s = do {
     r \<leftarrow> ms_translate vpn ms s;
     pte \<leftarrow> r;
     Some (pte_ppn pte) }"

definition copy_page :: "MemorySet \<Rightarrow> MemorySet \<Rightarrow> VirtPageNum \<Rightarrow> mm \<Rightarrow> mm option" where
  "copy_page user_space ms vpn s = do {
     src_ppn \<leftarrow> ms_translate_ppn vpn user_space s;
     dst_ppn \<leftarrow> ms_translate_ppn vpn ms s;
     let (src, n) = get_bytes_array src_ppn;
     Some (s\<lparr>mem := write_bytes (mem s) (fst (get_bytes_array dst_ppn)) (read_bytes (mem s) src n)\<rparr>) }"

definition copy_area ::
  "MemorySet \<Rightarrow> MapArea \<Rightarrow> MemorySet \<times> mm \<Rightarrow> (MemorySet \<times> mm) option" where
  "copy_area user_space area = (\<lambda>(ms, s). do {
     new_area \<leftarrow> maparea_from_another area;
     (ms, s) \<leftarrow> ms_push new_area None ms s;
     s \<leftarrow> foldM (copy_page user_space ms) (range_list (vpn_range area)) s;
     Some (ms, s) })"

definition from_existed_user ::
  "linker_symbols \<Rightarrow> MemorySet \<Rightarrow> mm \<Rightarrow> (MemorySet \<times> mm) option" where
  "from_existed_user ld user_space s = do {
     (ms, s) \<leftarrow> new_bare s;
     (ms, s) \<leftarrow> map_trampoline ld ms s;
     foldM (copy_area user_space) (areas user_space) (ms, s) }"

definition recycle_data_pages :: "MemorySet \<Rightarrow> mm \<Rightarrow> (MemorySet \<times> mm) option" where
  "recycle_data_pages ms s = do {
     s \<leftarrow> foldM drop_area (areas ms) s;
     Some (ms\<lparr>areas := []\<rparr>, s) }"

definition unmap_step :: "VirtPageNum \<Rightarrow> PageTable \<times> mm \<Rightarrow> (PageTable \<times> mm) option" where
  "unmap_step vpn = (\<lambda>(pt, s). pt_unmap vpn pt s)"

definition ms_unmap ::
  "VirtPageNum \<Rightarrow> VirtPageNum \<Rightarrow> MemorySet \<Rightarrow> mm \<Rightarrow> (MemorySet \<times> mm) option" where
  "ms_unmap start_vpn end_vpn ms s = do {
     r \<leftarrow> range_new start_vpn end_vpn;
     (pt, s) \<leftarrow> foldM unmap_step (range_list r) (page_table ms, s);
     Some (ms\<lparr>page_table := pt\<rparr>, s) }"

text \<open>Dropping a \<open>MemorySet\<close>: first the page table's frames, then the areas.\<close>

definition drop_memory_set :: "MemorySet \<Rightarrow> mm \<Rightarrow> mm option" where
  "drop_memory_set ms s = do {
     s \<leftarrow> drop_frames (pt_frames (page_table ms)) s;
     foldM drop_area (areas ms) s }"

definition remap_test :: "linker_symbols \<Rightarrow> MemorySet \<Rightarrow> mm \<Rightarrow> unit option" where
  "remap_test ld kernel_space s = do {
     let mid_text = VirtAddr ((stext ld + etext ld) div 2);
     let mid_rodata = VirtAddr ((srodata ld + erodata ld) div 2);
     let mid_data = VirtAddr ((sdata ld + edata ld) div 2);
     r \<leftarrow> ms_translate (va_floor mid_text) kernel_space s;
     pte \<leftarrow> r;
     rassert (\<not> pte_writable pte);
     r \<leftarrow> ms_translate (va_floor mid_rodata) kernel_space s;
     pte \<leftarrow> r;
     rassert (\<not> pte_writable pte);
     r \<leftarrow> ms_translate (va_floor mid_data) kernel_space s;
     pte \<leftarrow> r;
     rassert (\<not> pte_executable pte) }"

end
