(* ===== verification/PageLoop.thy ===== *)
theory PageLoop
  imports PageTableTree
begin

text \<open>
  Loops over pages. Address spaces change one page at a time: \<open>MapArea::map\<close>, \<open>MapArea::unmap\<close>
  and \<open>MemorySet::unmap\<close> are loops over a range of page numbers that map or unmap one page in
  each round. The locales state what a round promises of the map from page numbers to
  entries (\<open>look\<close>), and prove once what the whole loop does and when it does not panic.
\<close>

locale page_loop =
  fixes one :: "VirtPageNum \<Rightarrow> 'a \<Rightarrow> 'a option"
    and ok :: "'a \<Rightarrow> bool"
    and look :: "'a \<Rightarrow> VirtPageNum \<Rightarrow> PageTableEntry option"
  assumes one_ok: "ok a \<Longrightarrow> one v a = Some b \<Longrightarrow> ok b"
    and one_other: "ok a \<Longrightarrow> one v a = Some b \<Longrightarrow> vkey w \<noteq> vkey v \<Longrightarrow> look b w = look a w"
begin

lemma loop_ok: "foldM one vs a = Some b \<Longrightarrow> ok a \<Longrightarrow> ok b"
  by (erule foldM_invariant) (auto intro: one_ok)

lemma loop_other:
  "foldM one vs a = Some b \<Longrightarrow> ok a \<Longrightarrow> vkey w \<notin> vkey ` set vs \<Longrightarrow> look b w = look a w"
proof (induction vs arbitrary: a)
  case (Cons v vs)
  then obtain c where c: "one v a = Some c" "foldM one vs c = Some b"
    by (auto simp: bind_eq_Some_conv)
  with Cons show ?case using one_ok [OF _ c(1)] one_other [OF _ c(1), of w] by auto
qed simp

end

locale page_mapper = page_loop one ok look
  for one :: "VirtPageNum \<Rightarrow> 'a \<Rightarrow> 'a option" and ok look +
  fixes entry_of :: "'a \<Rightarrow> VirtPageNum \<Rightarrow> PageTableEntry"
    and grow :: "'a \<Rightarrow> 'a \<Rightarrow> bool"
    and room :: "'a \<Rightarrow> nat"
    and cost :: nat
  assumes one_fresh: "ok a \<Longrightarrow> one v a = Some b \<Longrightarrow> look a v = None"
    and one_same: "ok a \<Longrightarrow> one v a = Some b \<Longrightarrow> vkey w = vkey v \<Longrightarrow> look b w = Some (entry_of b v)"
    and one_stable: "ok a \<Longrightarrow> one v a = Some b \<Longrightarrow> w \<noteq> v \<Longrightarrow> entry_of b w = entry_of a w"
    and grow_refl: "ok a \<Longrightarrow> grow a a"
    and grow_trans: "ok a \<Longrightarrow> ok b \<Longrightarrow> ok c \<Longrightarrow> grow a b \<Longrightarrow> grow b c \<Longrightarrow> grow a c"
    and one_grow: "ok a \<Longrightarrow> one v a = Some b \<Longrightarrow> grow a b"
    and one_room: "ok a \<Longrightarrow> one v a = Some b \<Longrightarrow> room a \<le> room b + cost"
    and one_total: "ok a \<Longrightarrow> look a v = None \<Longrightarrow> cost \<le> room a \<Longrightarrow> \<exists>b. one v a = Some b"
begin

lemma loop_grow: "foldM one vs a = Some b \<Longrightarrow> ok a \<Longrightarrow> grow a b"
proof (induction vs arbitrary: a)
  case (Cons v vs)
  then obtain c where c: "one v a = Some c" "foldM one vs c = Some b"
    by (auto simp: bind_eq_Some_conv)
  with Cons have "ok c" "grow a c" "grow c b" using one_ok one_grow by blast+
  then show ?case using grow_trans loop_ok [OF c(2)] Cons.prems(2) by blast
qed (simp add: grow_refl)

lemma loop_stable:
  "foldM one vs a = Some b \<Longrightarrow> ok a \<Longrightarrow> w \<notin> set vs \<Longrightarrow> entry_of b w = entry_of a w"
proof (induction vs arbitrary: a)
  case (Cons v vs)
  then obtain c where c: "one v a = Some c" "foldM one vs c = Some b"
    by (auto simp: bind_eq_Some_conv)
  with Cons show ?case using one_ok [OF _ c(1)] one_stable [OF _ c(1), of w] by auto
qed simp

text \<open>A loop that completes has found every page unmapped and mapped no page twice.\<close>

lemma loop_fresh:
  "foldM one vs a = Some b \<Longrightarrow> ok a \<Longrightarrow>
    distinct (map vkey vs) \<and> (\<forall>v \<in> set vs. look a v = None)"
proof (induction vs arbitrary: a)
  case (Cons v vs)
  then obtain c where c: "one v a = Some c" "foldM one vs c = Some b"
    by (auto simp: bind_eq_Some_conv)
  note okc = one_ok [OF Cons.prems(2) c(1)]
  have ih: "distinct (map vkey vs)" "\<And>w. w \<in> set vs \<Longrightarrow> look c w = None"
    using Cons.IH [OF c(2) okc] by auto
  have "vkey w \<noteq> vkey v" if "w \<in> set vs" for w
    using ih(2) [OF that] one_same [OF Cons.prems(2) c(1), of w] by auto
  then show ?case
    using ih one_fresh [OF Cons.prems(2) c(1)] one_other [OF Cons.prems(2) c(1)] by fastforce
qed simp

lemma loop_mapped:
  "foldM one vs a = Some b \<Longrightarrow> ok a \<Longrightarrow> v \<in> set vs \<Longrightarrow> vkey w = vkey v \<Longrightarrow>
    look b w = Some (entry_of b v)"
proof (induction vs arbitrary: a)
  case (Cons u vs)
  from Cons.prems(1) obtain c where c: "one u a = Some c" "foldM one vs c = Some b"
    by (auto simp: bind_eq_Some_conv)
  note okc = one_ok [OF Cons.prems(2) c(1)]
  show ?case
  proof (cases "v \<in> set vs")
    case True
    then show ?thesis using Cons.IH [OF c(2) okc] Cons.prems(4) by blast
  next
    case False
    with Cons.prems(3) have [simp]: "v = u" by simp
    have "look c w = Some (entry_of c v)" using one_same [OF Cons.prems(2) c(1)] Cons.prems(4) by simp
    moreover have "vkey w \<notin> vkey ` set vs"
      using loop_fresh [OF Cons.prems(1,2)] Cons.prems(4) by auto
    ultimately show ?thesis
      using loop_other [OF c(2) okc] loop_stable [OF c(2) okc False] by simp
  qed
qed simp

lemma loop_room: "foldM one vs a = Some b \<Longrightarrow> ok a \<Longrightarrow> room a \<le> room b + length vs * cost"
proof (induction vs arbitrary: a)
  case (Cons v vs)
  then obtain c where c: "one v a = Some c" "foldM one vs c = Some b"
    by (auto simp: bind_eq_Some_conv)
  with Cons show ?case using one_ok [OF _ c(1)] one_room [OF _ c(1)] by fastforce
qed simp

lemma loop_total:
  "ok a \<Longrightarrow> distinct (map vkey vs) \<Longrightarrow> (\<And>v. v \<in> set vs \<Longrightarrow> look a v = None) \<Longrightarrow>
    length vs * cost \<le> room a \<Longrightarrow> \<exists>b. foldM one vs a = Some b"
proof (induction vs arbitrary: a)
  case (Cons v vs)
  obtain c where c: "one v a = Some c" using one_total [of a v] Cons.prems by auto
  have "look c w = None" if "w \<in> set vs" for w
  proof -
    have "vkey v \<notin> vkey ` set vs" using Cons.prems(2) by simp
    then have "vkey w \<noteq> vkey v" using that by (metis imageI)
    then show ?thesis using one_other [OF Cons.prems(1) c] Cons.prems(3) that by simp
  qed
  then have "\<exists>b. foldM one vs c = Some b"
    using Cons.prems one_ok [OF _ c] one_room [OF _ c] by (intro Cons.IH) auto
  with c show ?case by simp
qed simp

end

locale page_unmapper = page_loop one ok look
  for one :: "VirtPageNum \<Rightarrow> 'a \<Rightarrow> 'a option" and ok look +
  assumes one_mapped: "ok a \<Longrightarrow> one v a = Some b \<Longrightarrow> look a v \<noteq> None"
    and one_gone: "ok a \<Longrightarrow> one v a = Some b \<Longrightarrow> vkey w = vkey v \<Longrightarrow> look b w = None"
    and unmap_total: "ok a \<Longrightarrow> look a v \<noteq> None \<Longrightarrow> \<exists>b. one v a = Some b"
begin

lemma loop_gone:
  "foldM one vs a = Some b \<Longrightarrow> ok a \<Longrightarrow> vkey w \<in> vkey ` set vs \<Longrightarrow> look b w = None"
proof (induction vs arbitrary: a)
  case (Cons v vs)
  then obtain c where c: "one v a = Some c" "foldM one vs c = Some b"
    by (auto simp: bind_eq_Some_conv)
  note okc = one_ok [OF Cons.prems(2) c(1)]
  show ?case
  proof (cases "vkey w \<in> vkey ` set vs")
    case True
    then show ?thesis using Cons.IH [OF c(2) okc] by blast
  next
    case False
    then have "vkey w = vkey v" using Cons.prems(3) by auto
    then show ?thesis
      using one_gone [OF Cons.prems(2) c(1)] loop_other [OF c(2) okc False] by simp
  qed
qed simp

lemma unmap_loop_iff:
  "ok a \<Longrightarrow> (\<exists>b. foldM one vs a = Some b) \<longleftrightarrow>
    distinct (map vkey vs) \<and> (\<forall>v \<in> set vs. look a v \<noteq> None)"
proof (induction vs arbitrary: a)
  case (Cons v vs)
  show ?case
  proof (cases "one v a")
    case None
    then show ?thesis using unmap_total [OF Cons.prems, of v] by auto
  next
    case (Some c)
    note o = one_other [OF Cons.prems Some] and g = one_gone [OF Cons.prems Some]
    have "(\<exists>b. foldM one vs c = Some b) \<longleftrightarrow>
        distinct (map vkey vs) \<and> (\<forall>w \<in> set vs. look c w \<noteq> None)"
      by (rule Cons.IH [OF one_ok [OF Cons.prems Some]])
    moreover have "(\<forall>w \<in> set vs. look c w \<noteq> None) \<longleftrightarrow>
        vkey v \<notin> vkey ` set vs \<and> (\<forall>w \<in> set vs. look a w \<noteq> None)"
      using o g by (metis (no_types, lifting) image_iff)
    ultimately show ?thesis using Some one_mapped [OF Cons.prems Some] by auto
  qed
qed simp

end

end
