(* ===== verification/AddressSpace.thy ===== *)
theory AddressSpace
  imports MemorySet PageLoop
begin

text \<open>
  Correctness of areas and address spaces. A framed area in use (\<open>area_ok\<close>) maps each page
  it has a frame for to that frame; the loops of \<open>MapArea::map\<close> and \<open>MapArea::unmap\<close> are
  instances of the page loops. A memory set (\<open>ms_ok\<close>) owns pairwise distinct frames, and every
  page it maps apart from the trampoline is backed by a frame of one of its areas
  (\<open>ms_backed\<close>).
\<close>

section \<open>Allocation next to a page table\<close>

lemma agree_on_other:
  assumes "\<And>x. \<not> in_frame f x \<Longrightarrow> m' x = m x" and "f \<notin> F"
  shows "agree_on F m m'"
  unfolding agree_on_def
proof (intro ballI allI impI)
  fix p x
  assume "p \<in> F" "in_frame p x"
  then have "\<not> in_frame f x" using assms(2) in_frame_unique by blast
  then show "m' x = m x" by (rule assms(1))
qed

lemma alloc_agree:
  assumes "mm_inv s" and "frame_alloc_unwrap s = Some (f, s')" and "F \<subseteq> mm_live s"
  shows "agree_on F (mem s) (mem s')"
  using frame_alloc_unwrap_Some(1,6) [OF assms(1,2)] assms(3)
  by (intro agree_on_other [of f]) auto

lemma alloc_pt_ok:
  assumes "pt_ok pt s" and "frame_alloc_unwrap s = Some (f, s')"
  shows "pt_ok pt s'" and "pt_entry (mem s') pt v = pt_entry (mem s) pt v"
proof -
  have i: "mm_inv s" and w: "pt_wf (mem s) pt" and l: "set (pt_frames pt) \<subseteq> mm_live s"
    using assms(1) by (simp_all add: pt_ok_def)
  note g = alloc_agree [OF i assms(2) l]
  show "pt_entry (mem s') pt v = pt_entry (mem s) pt v" by (rule pt_entry_agree [OF w g])
  show "pt_ok pt s'"
    using pt_wf_agree [OF w g] frame_alloc_unwrap_Some(2,3) [OF i assms(2)] l
    by (auto simp: pt_ok_def)
qed

lemma frame_dealloc_live:
  assumes "mm_inv s" and "frame_dealloc f s = Some s'"
  shows "f \<in> mm_live s" and "mm_live s' = mm_live s - {f}" and "mm_inv s'"
  using mm_frames.dealloc_dead mm_frames.dealloc_removes mm_frames.dealloc_inv assms by blast+

lemma dealloc_pt_ok:
  assumes "pt_ok pt s" and "frame_dealloc f s = Some s'" and "f \<notin> set (pt_frames pt)"
  shows "pt_ok pt s'"
  using assms frame_dealloc_live [of s f s'] frame_dealloc_mem [of f s s']
  by (auto simp: pt_ok_def)

section \<open>Framed areas\<close>

type_synonym area_state = "MapArea \<times> PageTable \<times> mm"

definition area_frames :: "MapArea \<Rightarrow> PhysPageNum list" where
  "area_frames area = btree_values (data_frames area)"

definition area_entry :: "area_state \<Rightarrow> VirtPageNum \<Rightarrow> PageTableEntry" where
  "area_entry = (\<lambda>(area, pt, s) v.
     pte_new (case map_type area of
         Identical \<Rightarrow> PhysPageNum (vpn0 v)
       | Framed \<Rightarrow> the (btree_get v (data_frames area))) (map_perm area OR PTE_V))"

definition area_look :: "area_state \<Rightarrow> VirtPageNum \<Rightarrow> PageTableEntry option" where
  "area_look = (\<lambda>(area, pt, s) v. pt_entry (mem s) pt v)"

definition area_own :: "area_state \<Rightarrow> bool" where
  "area_own = (\<lambda>(area, pt, s).
     (map_type area = Identical \<longrightarrow> data_frames area = []) \<and> pt_ok pt s \<and> btree_wf (data_frames area)
     \<and> distinct (pt_frames pt @ area_frames area) \<and> set (area_frames area) \<subseteq> mm_live s)"

definition area_ok :: "area_state \<Rightarrow> bool" where
  "area_ok = (\<lambda>(area, pt, s). area_own (area, pt, s)
     \<and> (\<forall>(v, f) \<in> set (data_frames area).
          pt_entry (mem s) pt v = Some (pte_new f (map_perm area OR PTE_V))))"

text \<open>
  What mapping pages into an area may change: it adds frames that were free, the new data
  frames are zero, and memory outside the tables and the new frames is as before.
\<close>

definition area_grow :: "area_state \<Rightarrow> area_state \<Rightarrow> bool" where
  "area_grow = (\<lambda>(area, pt, s) (area', pt', s').
     vpn_range area' = vpn_range area \<and> map_type area' = map_type area
     \<and> map_perm area' = map_perm area \<and> root_ppn pt' = root_ppn pt
     \<and> set (pt_frames pt) \<subseteq> set (pt_frames pt') \<and> set (area_frames area) \<subseteq> set (area_frames area')
     \<and> (set (pt_frames pt') - set (pt_frames pt)) \<inter> mm_live s = {}
     \<and> (set (area_frames area') - set (area_frames area)) \<inter> mm_live s = {}
     \<and> mm_live s' = mm_live s \<union> set (pt_frames pt') \<union> set (area_frames area')
     \<and> (\<forall>x. (\<forall>p \<in> set (pt_frames pt'). \<not> in_frame p x)
          \<longrightarrow> (\<forall>p \<in> set (area_frames area') - set (area_frames area). \<not> in_frame p x)
          \<longrightarrow> mem s' x = mem s x)
     \<and> (\<forall>p \<in> set (area_frames area') - set (area_frames area).
          \<forall>x. in_frame p x \<longrightarrow> mem s' x = 0))"

definition area_room :: "area_state \<Rightarrow> nat" where
  "area_room = (\<lambda>(area, pt, s). mm_free s)"

lemma area_ok_key_mapped:
  assumes "area_ok (area, pt, s)" and "btree_get v (data_frames area) = Some f"
  shows "pt_entry (mem s) pt v = Some (pte_new f (map_perm area OR PTE_V))"
    and "f \<notin> set (pt_frames pt)" and "f \<in> set (area_frames area)"
proof -
  have vf: "(v, f) \<in> set (data_frames area)"
    using assms by (simp add: area_ok_def area_own_def btree_get_Some)
  then show "pt_entry (mem s) pt v = Some (pte_new f (map_perm area OR PTE_V))"
    using assms(1) by (fastforce simp: area_ok_def area_own_def)
  show "f \<in> set (area_frames area)" using vf by (force simp: area_frames_def btree_values_def)
  then show "f \<notin> set (pt_frames pt)" using assms(1) by (auto simp: area_ok_def area_own_def)
qed

text \<open>\<open>map_one\<close> on a framed area completes only for a page that has no frame yet.\<close>

lemma map_one_framed:
  assumes ok: "area_ok (area, pt, s)" and ty: "map_type area = Framed" and m: "map_one v (area, pt, s) = Some b"
  obtains f s1 pt' s' where "frame_alloc_unwrap s = Some (f, s1)"
    "btree_get v (data_frames area) = None" "pt_map v f (map_perm area) pt s1 = Some (pt', s')"
    "b = (area\<lparr>data_frames := btree_insert v f (data_frames area)\<rparr>, pt', s')"
proof -
  have pok: "pt_ok pt s" using ok by (simp add: area_ok_def area_own_def)
  obtain f s1 s2 pt' s' where f: "frame_alloc_unwrap s = Some (f, s1)"
    and d: "drop_opt (btree_get v (data_frames area)) s1 = Some s2"
    and p: "pt_map v f (map_perm area) pt s2 = Some (pt', s')"
    and b: "b = (area\<lparr>data_frames := btree_insert v f (data_frames area)\<rparr>, pt', s')"
    using m by (auto simp: map_one_def ty bind_eq_Some_conv PTEFlags_from_bits_total)
  note A = alloc_pt_ok [OF pok f]
  have "btree_get v (data_frames area) = None"
  proof (rule ccontr)
    assume "btree_get v (data_frames area) \<noteq> None"
    then obtain old where old: "btree_get v (data_frames area) = Some old" by blast
    note K = area_ok_key_mapped [OF ok old]
    have d': "frame_dealloc old s1 = Some s2" using d old by (simp add: drop_opt_def)
    have "pt_ok pt s2" by (rule dealloc_pt_ok [OF A(1) d' K(2)])
    moreover have "pt_entry (mem s2) pt v \<noteq> None"
      using K(1) A(2) frame_dealloc_mem [OF d'] by simp
    ultimately show False using pt_map_mapped_panics p by simp
  qed
  moreover from this d have "s2 = s1" by (simp add: drop_opt_def)
  ultimately show ?thesis using that f p b by blast
qed

lemma area_frames_insert:
  "btree_get v (data_frames area) = None \<Longrightarrow>
    mset (area_frames (area\<lparr>data_frames := btree_insert v f (data_frames area)\<rparr>))
      = add_mset f (mset (area_frames area))"
  by (simp add: area_frames_def mset_values_insert btree_get_None)

lemma set_area_frames_insert:
  "btree_get v (data_frames area) = None \<Longrightarrow>
    set (area_frames (area\<lparr>data_frames := btree_insert v f (data_frames area)\<rparr>))
      = insert f (set (area_frames area))"
  using area_frames_insert [of v area f] by (metis set_mset_add_mset_insert set_mset_mset)

lemma pt_entry_key: "vkey v = vkey w \<Longrightarrow> pt_entry m pt v = pt_entry m pt w"
  by (simp add: pt_entry_def vkey_eq_iff)

text \<open>The round on a framed area: frame \<open>f\<close> is allocated in \<open>s1\<close> and then mapped.\<close>

definition framed_round ::
  "VirtPageNum \<Rightarrow> area_state \<Rightarrow> PhysPageNum \<Rightarrow> mm \<Rightarrow> PhysPageNum list \<Rightarrow> area_state \<Rightarrow> bool" where
  "framed_round v = (\<lambda>(area, pt, s) f s1 new (area', pt', s').
     area' = area\<lparr>data_frames := btree_insert v f (data_frames area)\<rparr>
     \<and> btree_get v (data_frames area) = None \<and> f \<notin> mm_live s
     \<and> mm_live s1 = insert f (mm_live s) \<and> mm_free s = Suc (mm_free s1)
     \<and> (\<forall>x. mem s1 x = (if in_frame f x then 0 else mem s x))
     \<and> pt_ext pt s1 pt' s' new \<and> length new \<le> 2 \<and> pt_ok pt' s'
     \<and> pt_entry (mem s) pt v = None
     \<and> (\<forall>w. pt_entry (mem s') pt' w = (if vkey w = vkey v
          then Some (pte_new f (map_perm area OR PTE_V)) else pt_entry (mem s) pt w)))"

lemma map_one_framed_round:
  assumes ok: "area_ok (area, pt, s)" and ty: "map_type area = Framed"
    and m: "map_one v (area, pt, s) = Some b"
  shows "\<exists>f s1 new. framed_round v (area, pt, s) f s1 new b"
proof -
  obtain f s1 pt' s' where F: "frame_alloc_unwrap s = Some (f, s1)"
    "btree_get v (data_frames area) = None" "pt_map v f (map_perm area) pt s1 = Some (pt', s')"
    "b = (area\<lparr>data_frames := btree_insert v f (data_frames area)\<rparr>, pt', s')"
    by (rule map_one_framed [OF ok ty m])
  have pok: "pt_ok pt s" and inv: "mm_inv s" using ok by (simp_all add: area_ok_def area_own_def pt_ok_def)
  note A = alloc_pt_ok [OF pok F(1)] and B = frame_alloc_unwrap_Some [OF inv F(1)]
  from pt_map_spec [OF A(1) F(3)] obtain new where N: "pt_ext pt s1 pt' s' new" "length new \<le> 2"
    "pt_entry (mem s1) pt v = None"
    "\<And>w. pt_entry (mem s') pt' w = (if vkey w = vkey v
       then Some (pte_new f (map_perm area OR PTE_V)) else pt_entry (mem s1) pt w)"
    by blast
  have "framed_round v (area, pt, s) f s1 new b"
    using F(2) B(1,2,5,6) N pt_ext_ok [OF N(1) A(1)] A(2) by (simp add: framed_round_def F(4))
  then show ?thesis by blast
qed

lemma map_one_framed_ok:
  assumes ok: "area_ok (area, pt, s)" and ty: "map_type area = Framed"
    and m: "map_one v (area, pt, s) = Some b"
  shows "area_ok b"
proof -
  obtain f s1 new where R: "framed_round v (area, pt, s) f s1 new b"
    using map_one_framed_round [OF ok ty m] by blast
  obtain pt' s' where F:
    "b = (area\<lparr>data_frames := btree_insert v f (data_frames area)\<rparr>, pt', s')"
    "btree_get v (data_frames area) = None" "f \<notin> mm_live s" "mm_live s1 = insert f (mm_live s)"
    "pt_ext pt s1 pt' s' new" "pt_ok pt' s'" "pt_entry (mem s) pt v = None"
    "\<And>w. pt_entry (mem s') pt' w = (if vkey w = vkey v then Some (pte_new f (map_perm area OR PTE_V))
       else pt_entry (mem s) pt w)"
    using R by (cases b) (simp add: framed_round_def)
  let ?a = "area\<lparr>data_frames := btree_insert v f (data_frames area)\<rparr>"
  have live: "set (pt_frames pt) \<subseteq> mm_live s" "set (area_frames area) \<subseteq> mm_live s"
    and wf: "btree_wf (data_frames area)"
    and dist: "distinct (pt_frames pt)" "distinct (area_frames area)"
       "set (pt_frames pt) \<inter> set (area_frames area) = {}"
    using ok by (simp_all add: area_ok_def area_own_def pt_ok_def)
  have fr: "pt_frames pt' = pt_frames pt @ new" "set new \<inter> mm_live s1 = {}"
    "mm_live s' = mm_live s1 \<union> set new"
    using F(5) by (simp_all add: pt_ext_def)
  have dist': "distinct (pt_frames pt')" using F(6) by (simp add: pt_ok_def pt_wf_def)
  have "distinct (area_frames ?a)"
    using mset_eq_imp_distinct_iff [of "area_frames ?a" "f # area_frames area"]
      area_frames_insert [OF F(2)] dist(2) F(3) live(2) by auto
  moreover have "set (area_frames ?a) = insert f (set (area_frames area))"
    by (rule set_area_frames_insert [OF F(2)])
  moreover have "pt_entry (mem s') pt' w = Some (pte_new g (map_perm area OR PTE_V))"
    if "(w, g) \<in> set (btree_insert v f (data_frames area))" for w g
  proof (cases "w = v")
    case True
    then have "g = f" using that by (auto simp: set_btree_insert [OF wf])
    with True show ?thesis by (simp add: F(8))
  next
    case False
    then have "(w, g) \<in> set (data_frames area)" using that by (auto simp: set_btree_insert [OF wf])
    then have e: "pt_entry (mem s) pt w = Some (pte_new g (map_perm area OR PTE_V))"
      using ok by (fastforce simp: area_ok_def area_own_def)
    then have "vkey w \<noteq> vkey v" using F(7) pt_entry_key [of w v] by auto
    with e show ?thesis by (simp add: F(8))
  qed
  ultimately show ?thesis
    using F(3,4,6) fr dist dist' live ty btree_wf_insert [OF wf] by (auto simp: F(1) area_ok_def area_own_def)
qed

lemma map_one_framed_grow:
  assumes ok: "area_ok (area, pt, s)" and ty: "map_type area = Framed"
    and m: "map_one v (area, pt, s) = Some b"
  shows "area_grow (area, pt, s) b"
proof -
  obtain f s1 new where R: "framed_round v (area, pt, s) f s1 new b"
    using map_one_framed_round [OF ok ty m] by blast
  obtain pt' s' where F:
    "b = (area\<lparr>data_frames := btree_insert v f (data_frames area)\<rparr>, pt', s')"
    "btree_get v (data_frames area) = None" "f \<notin> mm_live s" "mm_live s1 = insert f (mm_live s)"
    "\<And>x. mem s1 x = (if in_frame f x then 0 else mem s x)" "pt_ext pt s1 pt' s' new"
    using R by (cases b) (simp add: framed_round_def)
  let ?a = "area\<lparr>data_frames := btree_insert v f (data_frames area)\<rparr>"
  have live: "set (pt_frames pt) \<subseteq> mm_live s" "set (area_frames area) \<subseteq> mm_live s"
    using ok by (simp_all add: area_ok_def area_own_def pt_ok_def)
  have fr: "pt_frames pt' = pt_frames pt @ new" "set new \<inter> mm_live s1 = {}"
    "mm_live s' = mm_live s1 \<union> set new" "root_ppn pt' = root_ppn pt"
    and mem: "\<And>x. \<forall>p \<in> set (pt_frames pt'). \<not> in_frame p x \<Longrightarrow> mem s' x = mem s1 x"
    using F(6) by (simp_all add: pt_ext_def)
  note af = set_area_frames_insert [OF F(2), of f]
  have fpt: "f \<notin> set (pt_frames pt')" using fr(1,2) F(3,4) live(1) by auto
  have zero: "mem s' x = 0" if "in_frame f x" for x
  proof -
    have "\<forall>p \<in> set (pt_frames pt'). \<not> in_frame p x" using fpt that in_frame_unique by blast
    then show ?thesis using mem that F(5) by simp
  qed
  have new: "set (area_frames ?a) - set (area_frames area) = {f}" using af F(3) live(2) by auto
  have "mem s' x = mem s x" if "\<forall>p \<in> set (pt_frames pt'). \<not> in_frame p x" "\<not> in_frame f x" for x
    using mem [OF that(1)] that(2) F(5) by simp
  moreover have "(set (pt_frames pt') - set (pt_frames pt)) \<inter> mm_live s = {}"
    using fr(1,2) F(4) by auto
  moreover have "mm_live s' = mm_live s \<union> set (pt_frames pt') \<union> set (area_frames ?a)"
    using fr(1,3) F(4) af live by auto
  ultimately show ?thesis
    unfolding F(1) area_grow_def prod.case new using fr(1,4) F(3) zero af by auto
qed

lemma area_grow_refl: "area_ok a \<Longrightarrow> area_grow a a"
  by (cases a) (auto simp: area_grow_def area_ok_def area_own_def pt_ok_def)

lemma area_growD:
  assumes "area_grow (A, p, s) (B, q, t)"
  shows "vpn_range B = vpn_range A" "map_type B = map_type A" "map_perm B = map_perm A"
    "root_ppn q = root_ppn p" "set (pt_frames p) \<subseteq> set (pt_frames q)"
    "set (area_frames A) \<subseteq> set (area_frames B)"
    "(set (pt_frames q) - set (pt_frames p)) \<inter> mm_live s = {}"
    "(set (area_frames B) - set (area_frames A)) \<inter> mm_live s = {}"
    "mm_live t = mm_live s \<union> set (pt_frames q) \<union> set (area_frames B)"
    "\<forall>p \<in> set (pt_frames q). \<not> in_frame p x \<Longrightarrow>
       \<forall>p \<in> set (area_frames B) - set (area_frames A). \<not> in_frame p x \<Longrightarrow> mem t x = mem s x"
    "r \<in> set (area_frames B) \<Longrightarrow> r \<notin> set (area_frames A) \<Longrightarrow> in_frame r x \<Longrightarrow> mem t x = 0"
  using assms by (simp_all add: area_grow_def)

lemma area_grow_trans:
  assumes "area_ok a" "area_ok b" "area_ok c" "area_grow a b" "area_grow b c"
  shows "area_grow a c"
proof -
  obtain A p s where a: "a = (A, p, s)" by (cases a)
  obtain B q t where b: "b = (B, q, t)" by (cases b)
  obtain C r u where c: "c = (C, r, u)" by (cases c)
  note G1 = area_growD [OF assms(4) [unfolded a b]]
  note G2 = area_growD [OF assms(5) [unfolded b c]]
  have disj: "set (pt_frames r) \<inter> set (area_frames C) = {}"
    using assms(3) by (simp add: c area_ok_def area_own_def)
  have mem: "mem u x = mem s x" if "\<forall>p \<in> set (pt_frames r). \<not> in_frame p x"
    "\<forall>p \<in> set (area_frames C) - set (area_frames A). \<not> in_frame p x" for x
    using G1(10) [of x] G2(10) [of x] that G1(6) G2(5,6) by (metis DiffD1 DiffD2 DiffI subsetD)
  have zero: "mem u x = 0"
    if p: "p \<in> set (area_frames C)" "p \<notin> set (area_frames A)" and x: "in_frame p x" for p x
  proof (cases "p \<in> set (area_frames B)")
    case True
    have "\<forall>q \<in> set (pt_frames r). \<not> in_frame q x" using p(1) x disj in_frame_unique by blast
    moreover have "\<forall>q \<in> set (area_frames C) - set (area_frames B). \<not> in_frame q x"
      using True x in_frame_unique by blast
    ultimately have "mem u x = mem t x" by (rule G2(10))
    with G1(11) [OF True p(2) x] show ?thesis by simp
  qed (rule G2(11) [OF p(1) _ x])
  have "(set (pt_frames r) - set (pt_frames p)) \<inter> mm_live s = {}"
    using G1(7,9) G2(7) by auto
  moreover have "(set (area_frames C) - set (area_frames A)) \<inter> mm_live s = {}"
    using G1(8,9) G2(8) by auto
  moreover have "mm_live u = mm_live s \<union> set (pt_frames r) \<union> set (area_frames C)"
    using G1(9) G2(5,6,9) by auto
  ultimately show ?thesis
    using G1(1-6) G2(1-6) mem zero by (simp add: a c area_grow_def) blast
qed

text \<open>The round on an identity-mapped area: only the page table changes.\<close>

lemma map_one_identical:
  assumes ok: "area_ok (area, pt, s)" and ty: "map_type area = Identical"
    and m: "map_one v (area, pt, s) = Some b"
  shows "\<exists>pt' s' new. b = (area, pt', s') \<and> pt_ext pt s pt' s' new \<and> length new \<le> 2
    \<and> pt_ok pt' s' \<and> pt_entry (mem s) pt v = None \<and> area_frames area = []
    \<and> (\<forall>w. pt_entry (mem s') pt' w = (if vkey w = vkey v
          then Some (pte_new (PhysPageNum (vpn0 v)) (map_perm area OR PTE_V))
          else pt_entry (mem s) pt w))"
proof -
  have pok: "pt_ok pt s" and d: "data_frames area = []" using ok ty by (simp_all add: area_ok_def area_own_def)
  obtain pt' s' where p: "pt_map v (PhysPageNum (vpn0 v)) (map_perm area) pt s = Some (pt', s')"
    and b: "b = (area, pt', s')"
    using m by (auto simp: map_one_def ty bind_eq_Some_conv PTEFlags_from_bits_total)
  from pt_map_spec [OF pok p] d pt_ext_ok [OF _ pok] b show ?thesis
    by (auto simp: area_frames_def btree_values_def)
qed

lemma map_one_ok: "area_ok a \<Longrightarrow> map_one v a = Some b \<Longrightarrow> area_ok b"
proof (cases a)
  fix area pt s
  assume ok: "area_ok a" and m: "map_one v a = Some b" and a: "a = (area, pt, s)"
  show "area_ok b"
  proof (cases "map_type area")
    case Identical
    with ok m obtain pt' s' where "b = (area, pt', s')" "pt_ok pt' s'" "area_frames area = []"
      using map_one_identical [of area pt s v b] by (auto simp: a)
    then show ?thesis using ok Identical by (auto simp: area_ok_def area_own_def a pt_ok_def pt_wf_def)
  next
    case Framed
    then show ?thesis using map_one_framed_ok ok m by (simp add: a)
  qed
qed

lemma map_one_look:
  assumes "area_ok a" and "map_one v a = Some b"
  shows "area_look a v = None"
    and "area_look b w = (if vkey w = vkey v then Some (area_entry b v) else area_look a w)"
    and "w \<noteq> v \<Longrightarrow> area_entry b w = area_entry a w"
    and "area_room a \<le> area_room b + 3"
proof -
  obtain area pt s where a: "a = (area, pt, s)" by (cases a)
  note ok = assms(1) [unfolded a] and m = assms(2) [unfolded a]
  have wf: "btree_wf (data_frames area)" using ok by (simp add: area_ok_def area_own_def)
  have "area_look a v = None
    \<and> area_look b w = (if vkey w = vkey v then Some (area_entry b v) else area_look a w)
    \<and> (w \<noteq> v \<longrightarrow> area_entry b w = area_entry a w) \<and> area_room a \<le> area_room b + 3"
  proof (cases "map_type area")
    case Identical
    then show ?thesis using map_one_identical [OF ok Identical m]
      by (auto simp add: a area_look_def area_entry_def area_room_def pt_ext_def)
  next
    case Framed
    obtain f s1 new where R: "framed_round v (area, pt, s) f s1 new b"
      using map_one_framed_round [OF ok Framed m] by blast
    then show ?thesis
      by (cases b) (simp add: a Framed area_look_def area_entry_def area_room_def framed_round_def
          pt_ext_def wf)
  qed
  then show "area_look a v = None"
    "area_look b w = (if vkey w = vkey v then Some (area_entry b v) else area_look a w)"
    "w \<noteq> v \<Longrightarrow> area_entry b w = area_entry a w" "area_room a \<le> area_room b + 3"
    by blast+
qed

lemma map_one_grow:
  assumes "area_ok a" and "map_one v a = Some b"
  shows "area_grow a b"
proof -
  obtain area pt s where a: "a = (area, pt, s)" by (cases a)
  note ok = assms(1) [unfolded a] and m = assms(2) [unfolded a]
  show ?thesis
  proof (cases "map_type area")
    case Identical
    then obtain pt' s' new where "b = (area, pt', s')" "pt_ext pt s pt' s' new"
      "area_frames area = []" using map_one_identical [OF ok Identical m] by blast
    then show ?thesis using ok by (auto simp: a area_grow_def pt_ext_def area_ok_def area_own_def pt_ok_def)
  next
    case Framed
    then show ?thesis unfolding a by (rule map_one_framed_grow [OF ok _ m])
  qed
qed

lemma map_one_total:
  assumes "area_ok a" and "area_look a v = None" and "3 \<le> area_room a"
  shows "\<exists>b. map_one v a = Some b"
proof -
  obtain area pt s where a: "a = (area, pt, s)" by (cases a)
  have pok: "pt_ok pt s" and inv: "mm_inv s" and wf: "btree_wf (data_frames area)"
    and e: "pt_entry (mem s) pt v = None" and r: "3 \<le> mm_free s"
    using assms by (auto simp: a area_ok_def area_own_def area_look_def area_room_def pt_ok_def)
  show ?thesis
  proof (cases "map_type area")
    case Identical
    then show ?thesis using pt_map_total [OF pok _ e, of "PhysPageNum (vpn0 v)" "map_perm area"] r
      by (auto simp: map_one_def a PTEFlags_from_bits_total)
  next
    case Framed
    obtain f s1 where f: "frame_alloc_unwrap s = Some (f, s1)"
      using frame_alloc_unwrap_total [OF inv] r by auto
    have "2 \<le> mm_free s1" using frame_alloc_unwrap_Some(5) [OF inv f] r by simp
    then obtain pt' s' where "pt_map v f (map_perm area) pt s1 = Some (pt', s')"
      using pt_map_total [OF alloc_pt_ok(1) [OF pok f]] alloc_pt_ok(2) [OF pok f] e by metis
    moreover have "btree_get v (data_frames area) = None"
      using area_ok_key_mapped(1) [OF assms(1) [unfolded a], of v] e
      by (cases "btree_get v (data_frames area)") auto
    ultimately show ?thesis
      by (simp add: map_one_def a Framed f drop_opt_def PTEFlags_from_bits_total)
  qed
qed

interpretation area_mapper: page_mapper map_one area_ok area_look area_entry area_grow area_room 3
proof unfold_locales
  fix a b v w
  assume ok: "area_ok a" and m: "map_one v a = Some b"
  show "area_ok b" by (rule map_one_ok [OF ok m])
  show "vkey w \<noteq> vkey v \<Longrightarrow> area_look b w = area_look a w"
    "area_look a v = None" "vkey w = vkey v \<Longrightarrow> area_look b w = Some (area_entry b v)"
    "w \<noteq> v \<Longrightarrow> area_entry b w = area_entry a w" "area_room a \<le> area_room b + 3"
    using map_one_look [OF ok m] by simp_all
  show "area_grow a b" by (rule map_one_grow [OF ok m])
qed (use area_grow_refl area_grow_trans map_one_total in blast)+

section \<open>Unmapping\<close>

text \<open>\<open>MemorySet::unmap\<close> runs on the page table alone.\<close>

definition table_ok :: "PageTable \<times> mm \<Rightarrow> bool" where
  "table_ok = (\<lambda>(pt, s). pt_ok pt s)"

definition table_look :: "PageTable \<times> mm \<Rightarrow> VirtPageNum \<Rightarrow> PageTableEntry option" where
  "table_look = (\<lambda>(pt, s) v. pt_entry (mem s) pt v)"

lemma unmap_step_Some:
  assumes "table_ok (pt, s)" and "unmap_step v (pt, s) = Some b"
  shows "\<exists>s'. b = (pt, s') \<and> pt_ext pt s pt s' [] \<and> pt_entry (mem s) pt v \<noteq> None
    \<and> (\<forall>w. pt_entry (mem s') pt w = (if vkey w = vkey v then None else pt_entry (mem s) pt w))"
proof -
  have ok: "pt_ok pt s" using assms(1) by (simp add: table_ok_def)
  have e: "pt_entry (mem s) pt v \<noteq> None"
    using assms(2) pt_unmap_unmapped_panics [OF ok, of v] by (auto simp: unmap_step_def)
  then show ?thesis using pt_unmap_spec [OF ok e] assms(2) by (auto simp: unmap_step_def)
qed

interpretation table_unmapper: page_unmapper unmap_step table_ok table_look
proof unfold_locales
  fix a b v w
  assume ok: "table_ok a" and m: "unmap_step v a = Some b"
  obtain pt s where a: "a = (pt, s)" by (cases a)
  note S = unmap_step_Some [OF ok [unfolded a] m [unfolded a]]
  show "table_ok b" using S ok pt_ext_ok by (auto simp: table_ok_def a)
  show "vkey w \<noteq> vkey v \<Longrightarrow> table_look b w = table_look a w" "table_look a v \<noteq> None"
    "vkey w = vkey v \<Longrightarrow> table_look b w = None"
    using S by (auto simp: table_look_def a)
next
  fix a v
  assume "table_ok a" "table_look a v \<noteq> None"
  then show "\<exists>b. unmap_step v a = Some b"
    using pt_unmap_spec by (cases a) (fastforce simp: table_ok_def table_look_def unmap_step_def)
qed

text \<open>\<open>MapArea::unmap\<close> also gives the frame of the page back.\<close>

lemma area_own_key:
  assumes "area_own (area, pt, s)" and "btree_get v (data_frames area) = Some f"
  shows "f \<notin> set (pt_frames pt)"
proof -
  have "f \<in> set (area_frames area)"
    using assms by (force simp: area_own_def btree_get_Some area_frames_def btree_values_def)
  then show ?thesis using assms(1) by (auto simp: area_own_def)
qed

lemma unmap_one_Some:
  assumes ok: "area_own (area, pt, s)" and m: "unmap_one v (area, pt, s) = Some b"
  shows "\<exists>s1 s'. b = ((if map_type area = Framed
           then area\<lparr>data_frames := btree_remove v (data_frames area)\<rparr> else area), pt, s')
    \<and> drop_opt (btree_get v (data_frames area)) s = Some s1 \<and> mem s1 = mem s \<and> pt_ok pt s1
    \<and> pt_ext pt s1 pt s' [] \<and> pt_entry (mem s) pt v \<noteq> None
    \<and> (\<forall>w. pt_entry (mem s') pt w = (if vkey w = vkey v then None else pt_entry (mem s) pt w))"
proof -
  have pok: "pt_ok pt s" and d: "map_type area = Identical \<Longrightarrow> data_frames area = []"
    using ok by (auto simp: area_own_def)
  obtain s1 pt' s' where d1: "drop_opt (btree_get v (data_frames area)) s = Some s1"
    and u: "pt_unmap v pt s1 = Some (pt', s')"
    and b: "b = ((if map_type area = Framed
           then area\<lparr>data_frames := btree_remove v (data_frames area)\<rparr> else area), pt', s')"
    using m d by (cases "map_type area")
      (auto simp: unmap_one_def bind_eq_Some_conv drop_opt_def btree_get_def)
  have m1: "mem s1 = mem s" and ok1: "pt_ok pt s1"
    using d1 pok area_own_key [OF ok, of v] dealloc_pt_ok frame_dealloc_mem
    by (auto simp: drop_opt_def split: option.splits)
  have e: "pt_entry (mem s) pt v \<noteq> None"
    using u pt_unmap_unmapped_panics [OF ok1, of v] m1 by auto
  show ?thesis using b d1 m1 ok1 e u pt_unmap_spec [OF ok1, of v] by auto
qed

lemma drop_opt_live:
  assumes "mm_inv s" and "drop_opt t s = Some s'"
  shows "mm_inv s'" "mm_live s' = mm_live s - set_option t" "set_option t \<subseteq> mm_live s"
  using assms frame_dealloc_live [of s] by (auto simp: drop_opt_def split: option.splits)

lemma area_frames_remove:
  assumes "btree_wf (data_frames area)" and "distinct (area_frames area)"
  shows "set (area_frames (area\<lparr>data_frames := btree_remove v (data_frames area)\<rparr>))
      = set (area_frames area) - set_option (btree_get v (data_frames area))"
    and "distinct (area_frames (area\<lparr>data_frames := btree_remove v (data_frames area)\<rparr>))"
proof -
  let ?r = "area_frames (area\<lparr>data_frames := btree_remove v (data_frames area)\<rparr>)"
  have "set ?r = set (area_frames area) - set_option (btree_get v (data_frames area)) \<and> distinct ?r"
  proof (cases "btree_get v (data_frames area)")
    case None
    then have "btree_remove v (data_frames area) = data_frames area"
      by (simp add: btree_get_None btree_remove_absent)
    with None assms(2) show ?thesis by simp
  next
    case (Some f)
    then have "mset (area_frames area) = add_mset f (mset ?r)"
      using mset_values_remove [OF assms(1), of v f] assms(1)
      by (simp add: btree_get_Some area_frames_def)
    then have m: "mset (area_frames area) = mset (f # ?r)" by simp
    have "set (area_frames area) = insert f (set ?r)" using mset_eq_setD [OF m] by simp
    moreover have "distinct (f # ?r)" using mset_eq_imp_distinct_iff [OF m] assms(2) by simp
    ultimately show ?thesis using Some by auto
  qed
  then show "set ?r = set (area_frames area) - set_option (btree_get v (data_frames area))"
    "distinct ?r" by blast+
qed

lemma unmap_one_own:
  assumes ok: "area_own (area, pt, s)" and m: "unmap_one v (area, pt, s) = Some b"
  shows "area_own b"
proof -
  obtain s1 s' where U:
    "b = ((if map_type area = Framed
           then area\<lparr>data_frames := btree_remove v (data_frames area)\<rparr> else area), pt, s')"
    "drop_opt (btree_get v (data_frames area)) s = Some s1" "mem s1 = mem s" "pt_ok pt s1"
    "pt_ext pt s1 pt s' []"
    using unmap_one_Some [OF ok m] by blast
  have A: "btree_wf (data_frames area)" "distinct (area_frames area)" "mm_inv s"
    "set (area_frames area) \<subseteq> mm_live s" "distinct (pt_frames pt)"
    "set (pt_frames pt) \<inter> set (area_frames area) = {}"
    "map_type area = Identical \<Longrightarrow> data_frames area = []"
    using ok by (auto simp: area_own_def pt_ok_def)
  define area' where "area' = area\<lparr>data_frames := btree_remove v (data_frames area)\<rparr>"
  note R = area_frames_remove [OF A(1,2), of v, folded area'_def]
  note D = drop_opt_live [OF A(3) U(2)]
  have b: "b = (area', pt, s')"
  proof (cases "map_type area")
    case Identical
    then have "area' = area" using A(7) by (simp add: area'_def btree_remove_def)
    with Identical U(1) show ?thesis by simp
  next
    case Framed
    with U(1) show ?thesis by (simp add: area'_def)
  qed
  have "mm_live s' = mm_live s1" "pt_ok pt s'"
    using U(5) pt_ext_ok [OF U(5,4)] by (simp_all add: pt_ext_def)
  then show ?thesis
    using A R D btree_wf_remove [OF A(1)]
    by (auto simp: b area_own_def area'_def btree_remove_def)
qed

lemma unmap_one_total:
  assumes "area_own a" and "area_look a v \<noteq> None"
  shows "\<exists>b. unmap_one v a = Some b"
proof -
  obtain area pt s where a: "a = (area, pt, s)" by (cases a)
  have ok: "area_own (area, pt, s)" and e: "pt_entry (mem s) pt v \<noteq> None"
    using assms by (simp_all add: a area_look_def)
  have pok: "pt_ok pt s" and inv: "mm_inv s" and wf: "btree_wf (data_frames area)"
    and l: "set (area_frames area) \<subseteq> mm_live s"
    using ok by (simp_all add: area_own_def pt_ok_def)
  have "\<exists>s1. drop_opt (btree_get v (data_frames area)) s = Some s1 \<and> pt_ok pt s1 \<and> mem s1 = mem s"
  proof (cases "btree_get v (data_frames area)")
    case (Some f)
    then have "f \<in> mm_live s"
      using l wf by (force simp: btree_get_Some area_frames_def btree_values_def)
    then obtain s1 where s1: "frame_dealloc f s = Some s1"
      using mm_frames.dealloc_live [OF inv] by blast
    with Some show ?thesis
      using dealloc_pt_ok [OF pok s1 area_own_key [OF ok Some]] frame_dealloc_mem [OF s1]
      by (simp add: drop_opt_def)
  qed (simp add: drop_opt_def pok)
  then obtain s1 where s1: "drop_opt (btree_get v (data_frames area)) s = Some s1" "pt_ok pt s1"
    "mem s1 = mem s" by blast
  obtain s' where "pt_unmap v pt s1 = Some (pt, s')"
    using pt_unmap_spec [OF s1(2), of v] e s1(3) by auto
  moreover have "\<exists>s'. pt_unmap v pt s = Some (pt, s')" using pt_unmap_spec [OF pok e] by blast
  ultimately show ?thesis
    using s1(1) by (cases "map_type area") (auto simp: a unmap_one_def)
qed

interpretation area_unmapper: page_unmapper unmap_one area_own area_look
proof unfold_locales
  fix a b v w
  assume ok: "area_own a" and m: "unmap_one v a = Some b"
  obtain area pt s where a: "a = (area, pt, s)" by (cases a)
  show "area_own b" using unmap_one_own ok m by (simp add: a)
  obtain area' s' where b: "b = (area', pt, s')" and v: "pt_entry (mem s) pt v \<noteq> None"
    and e: "\<forall>w. pt_entry (mem s') pt w = (if vkey w = vkey v then None else pt_entry (mem s) pt w)"
    using unmap_one_Some [OF ok [unfolded a] m [unfolded a]] by blast
  show "vkey w \<noteq> vkey v \<Longrightarrow> area_look b w = area_look a w"
    "vkey w = vkey v \<Longrightarrow> area_look b w = None"
    using e by (simp_all add: area_look_def a b)
  show "area_look a v \<noteq> None" using v by (simp add: area_look_def a)
next
  fix a v
  assume "area_own a" and "area_look a v \<noteq> None"
  then show "\<exists>b. unmap_one v a = Some b" by (rule unmap_one_total)
qed

section \<open>Memory sets\<close>

definition ms_frames :: "MemorySet \<Rightarrow> PhysPageNum list" where
  "ms_frames ms = pt_frames (page_table ms) @ concat (map area_frames (areas ms))"

definition area_shape :: "MapArea \<Rightarrow> bool" where
  "area_shape a \<longleftrightarrow> range_l (vpn_range a) \<le> range_r (vpn_range a) \<and> btree_wf (data_frames a)
     \<and> (map_type a = Identical \<longrightarrow> data_frames a = [])"

definition ms_ok :: "MemorySet \<Rightarrow> mm \<Rightarrow> bool" where
  "ms_ok ms s \<longleftrightarrow> pt_ok (page_table ms) s \<and> distinct (ms_frames ms)
     \<and> set (ms_frames ms) \<subseteq> mm_live s \<and> (\<forall>a \<in> set (areas ms). area_shape a)"

text \<open>
  What building up a memory set may change of the rest of the system: the frames it gains
  were free, and frames in use that it did not own keep their contents.
\<close>

definition ms_grow :: "MemorySet \<Rightarrow> mm \<Rightarrow> MemorySet \<Rightarrow> mm \<Rightarrow> bool" where
  "ms_grow ms s ms' s' \<longleftrightarrow>
     root_ppn (page_table ms') = root_ppn (page_table ms)
     \<and> set (ms_frames ms) \<subseteq> set (ms_frames ms')
     \<and> (set (ms_frames ms') - set (ms_frames ms)) \<inter> mm_live s = {}
     \<and> mm_live s' = mm_live s \<union> set (ms_frames ms')
     \<and> agree_on (mm_live s - set (ms_frames ms)) (mem s) (mem s')"

lemma ms_grow_refl: "ms_ok ms s \<Longrightarrow> ms_grow ms s ms s"
  by (auto simp: ms_grow_def ms_ok_def)

lemma ms_grow_trans:
  assumes "ms_grow a s b t" and "ms_grow b t c u"
  shows "ms_grow a s c u"
proof -
  have "mm_live s - set (ms_frames a) \<subseteq> mm_live t - set (ms_frames b)"
    using assms(1) by (auto simp: ms_grow_def)
  then have "agree_on (mm_live s - set (ms_frames a)) (mem s) (mem u)"
    using assms agree_on_trans agree_on_subset unfolding ms_grow_def by metis
  then show ?thesis using assms by (auto simp: ms_grow_def)
qed

lemma area_own_fresh:
  assumes "ms_ok ms s" and "data_frames area = []"
  shows "area_ok (area, page_table ms, s)"
  using assms by (auto simp: area_ok_def area_own_def ms_ok_def ms_frames_def area_frames_def
      btree_values_def)

text \<open>The pages of an area after \<open>map\<close>: those of the range.\<close>

lemma map_one_keys:
  assumes "area_ok (area, pt, s)" and "map_type area = Framed"
    and "map_one v (area, pt, s) = Some (area', pt', s')"
  shows "fst ` set (data_frames area') = insert v (fst ` set (data_frames area))"
    and "map_type area' = Framed"
proof -
  obtain f where "area' = area\<lparr>data_frames := btree_insert v f (data_frames area)\<rparr>"
    using map_one_framed_round [OF assms] by (auto simp: framed_round_def)
  then show "fst ` set (data_frames area') = insert v (fst ` set (data_frames area))"
    "map_type area' = Framed" using assms(2) by simp_all
qed

lemma map_loop_keys:
  "foldM map_one vs (area, pt, s) = Some (area', pt', s') \<Longrightarrow> area_ok (area, pt, s) \<Longrightarrow>
    map_type area = Framed \<Longrightarrow>
    fst ` set (data_frames area') = set vs \<union> fst ` set (data_frames area)"
proof (induction vs arbitrary: area pt s)
  case (Cons v vs)
  from Cons.prems(1) obtain b where b: "map_one v (area, pt, s) = Some b"
    and r: "foldM map_one vs b = Some (area', pt', s')"
    by (auto simp: bind_eq_Some_conv)
  obtain area1 pt1 s1 where b1: "b = (area1, pt1, s1)" by (cases b)
  have "fst ` set (data_frames area1) = insert v (fst ` set (data_frames area))"
    "map_type area1 = Framed" "area_ok (area1, pt1, s1)"
    using map_one_keys [OF Cons.prems(2,3)] map_one_ok [OF Cons.prems(2)] b b1 by blast+
  then show ?case using Cons.IH [OF r [unfolded b1]] by auto
qed simp

text \<open>Everything that \<open>push\<close> of a new framed area without data does.\<close>

definition area_pushed ::
  "MapArea \<Rightarrow> MemorySet \<Rightarrow> mm \<Rightarrow> MapArea \<Rightarrow> MemorySet \<Rightarrow> mm \<Rightarrow> bool" where
  "area_pushed area ms s area' ms' s' \<longleftrightarrow>
     areas ms' = areas ms @ [area'] \<and> vpn_range area' = vpn_range area
     \<and> map_type area' = map_type area \<and> map_perm area' = map_perm area
     \<and> (map_type area = Framed \<longrightarrow>
          fst ` set (data_frames area') = set (range_list (vpn_range area)))
     \<and> distinct (map vkey (range_list (vpn_range area)))
     \<and> (\<forall>v \<in> set (range_list (vpn_range area)). pt_entry (mem s) (page_table ms) v = None)
     \<and> (\<forall>v \<in> set (range_list (vpn_range area)). \<forall>w. vkey w = vkey v \<longrightarrow>
          pt_entry (mem s') (page_table ms') w = Some (area_entry (area', page_table ms', s') v))
     \<and> (\<forall>w. vkey w \<notin> vkey ` set (range_list (vpn_range area)) \<longrightarrow>
          pt_entry (mem s') (page_table ms') w = pt_entry (mem s) (page_table ms) w)
     \<and> (\<forall>p \<in> set (area_frames area'). \<forall>x. in_frame p x \<longrightarrow> mem s' x = 0)
     \<and> set (area_frames area') \<inter> mm_live s = {}
     \<and> agree_on (mm_live s - set (pt_frames (page_table ms))) (mem s) (mem s')"

lemma area_pushedD:
  assumes "area_pushed area ms s area' ms' s'"
  shows "areas ms' = areas ms @ [area']" "vpn_range area' = vpn_range area"
    "map_type area' = map_type area" "map_perm area' = map_perm area"
    "map_type area = Framed \<Longrightarrow>
       fst ` set (data_frames area') = set (range_list (vpn_range area))"
    "distinct (map vkey (range_list (vpn_range area)))"
    "v \<in> set (range_list (vpn_range area)) \<Longrightarrow> pt_entry (mem s) (page_table ms) v = None"
    "v \<in> set (range_list (vpn_range area)) \<Longrightarrow> vkey w = vkey v \<Longrightarrow>
       pt_entry (mem s') (page_table ms') w = Some (area_entry (area', page_table ms', s') v)"
    "vkey w \<notin> vkey ` set (range_list (vpn_range area)) \<Longrightarrow>
       pt_entry (mem s') (page_table ms') w = pt_entry (mem s) (page_table ms) w"
    "p \<in> set (area_frames area') \<Longrightarrow> in_frame p x \<Longrightarrow> mem s' x = 0"
    "set (area_frames area') \<inter> mm_live s = {}"
    "agree_on (mm_live s - set (pt_frames (page_table ms))) (mem s) (mem s')"
  using assms unfolding area_pushed_def by blast+

lemma ms_push_loop:
  assumes "ms_push area None ms s = Some (ms', s')"
  obtains area' where "foldM map_one (range_list (vpn_range area)) (area, page_table ms, s)
      = Some (area', page_table ms', s')"
    and "areas ms' = areas ms @ [area']"
  using assms by (auto simp: ms_push_def maparea_map_def bind_eq_Some_conv)

lemma area_grow_agree:
  assumes "area_grow (A, p, s) (B, q, t)" and "F \<subseteq> mm_live s" and "F \<inter> set (pt_frames p) = {}"
  shows "agree_on F (mem s) (mem t)"
proof -
  note G = area_growD [OF assms(1)]
  have "mem t x = mem s x" if "r \<in> F" "in_frame r x" for r x
  proof (rule G(10))
    show "\<forall>p \<in> set (pt_frames q). \<not> in_frame p x"
      using that assms(2,3) G(7) in_frame_unique by blast
    show "\<forall>p \<in> set (area_frames B) - set (area_frames A). \<not> in_frame p x"
      using that assms(2) G(8) in_frame_unique by blast
  qed
  then show ?thesis by (simp add: agree_on_def)
qed

lemma ms_push_spec:
  assumes ok: "ms_ok ms s" and fresh: "data_frames area = []"
    and r: "range_l (vpn_range area) \<le> range_r (vpn_range area)"
    and p: "ms_push area None ms s = Some (ms', s')"
  shows "\<exists>area'. area_pushed area ms s area' ms' s'" and "ms_ok ms' s'" and "ms_grow ms s ms' s'"
proof -
  obtain area' where l: "foldM map_one (range_list (vpn_range area)) (area, page_table ms, s)
      = Some (area', page_table ms', s')" and a': "areas ms' = areas ms @ [area']"
    using p by (rule ms_push_loop)
  note aok = area_own_fresh [OF ok fresh]
  have e: "area_frames area = []" by (simp add: fresh area_frames_def btree_values_def)
  note g = area_mapper.loop_grow [OF l aok]
  note G = area_growD [OF g, unfolded e list.set]
  have own: "area_ok (area', page_table ms', s')" by (rule area_mapper.loop_ok [OF l aok])
  have F: "set (area_frames area') \<inter> mm_live s = {}" using G(8) by auto
  have "agree_on (mm_live s - set (pt_frames (page_table ms))) (mem s) (mem s')"
    by (rule area_grow_agree [OF g]) auto
  moreover have "fst ` set (data_frames area') = set (range_list (vpn_range area))"
    if "map_type area = Framed"
    using map_loop_keys [OF l aok that] by (simp add: fresh)
  ultimately have "area_pushed area ms s area' ms' s'"
    using area_mapper.loop_fresh [OF l aok] area_mapper.loop_mapped [OF l aok]
      area_mapper.loop_other [OF l aok] a' G(1-3) G(11) F
    by (simp add: area_pushed_def area_look_def)
  then show "\<exists>area'. area_pushed area ms s area' ms' s'" by blast
  have pf: "set (pt_frames (page_table ms')) \<subseteq> set (pt_frames (page_table ms)) \<union> - mm_live s"
    using G(7) by auto
  have old: "distinct (concat (map area_frames (areas ms)))"
    "set (concat (map area_frames (areas ms))) \<subseteq> mm_live s"
    "set (pt_frames (page_table ms)) \<inter> set (concat (map area_frames (areas ms))) = {}"
    using ok by (auto simp: ms_ok_def ms_frames_def)
  have new: "distinct (pt_frames (page_table ms') @ area_frames area')"
    "pt_ok (page_table ms') s'" "btree_wf (data_frames area')"
    "map_type area' = Identical \<longrightarrow> data_frames area' = []"
    using own by (auto simp: area_ok_def area_own_def)
  have sf: "set (ms_frames ms') = set (pt_frames (page_table ms'))
      \<union> set (concat (map area_frames (areas ms))) \<union> set (area_frames area')"
    by (auto simp: ms_frames_def a')
  have "distinct (ms_frames ms')" using old new(1) pf F by (auto simp: ms_frames_def a')
  moreover have "area_shape area'" using r G(1) new by (simp add: area_shape_def)
  ultimately show "ms_ok ms' s'"
    using ok new(2) G(9) old(2) by (auto simp: ms_ok_def sf a')
  show "ms_grow ms s ms' s'"
    using G(4,5,9) pf F old(2) area_grow_agree [OF g, of "mm_live s - set (ms_frames ms)"]
    by (auto simp: ms_grow_def sf) (auto simp: ms_frames_def)
qed

lemma ms_push_room:
  assumes "ms_ok ms s" and "data_frames area = []" and "ms_push area None ms s = Some (ms', s')"
  shows "mm_free s \<le> mm_free s' + 3 * length (range_list (vpn_range area))"
proof -
  obtain area' where "foldM map_one (range_list (vpn_range area)) (area, page_table ms, s)
      = Some (area', page_table ms', s')"
    using assms(3) by (rule ms_push_loop)
  from area_mapper.loop_room [OF this area_own_fresh [OF assms(1,2)]] show ?thesis
    by (simp add: area_room_def mult.commute)
qed

lemma ms_push_total:
  assumes "ms_ok ms s" and "data_frames area = []"
    and "distinct (map vkey (range_list (vpn_range area)))"
    and "\<And>v. v \<in> set (range_list (vpn_range area)) \<Longrightarrow> pt_entry (mem s) (page_table ms) v = None"
    and "3 * length (range_list (vpn_range area)) \<le> mm_free s"
  shows "\<exists>ms' s'. ms_push area None ms s = Some (ms', s')"
proof -
  have "\<exists>b. foldM map_one (range_list (vpn_range area)) (area, page_table ms, s) = Some b"
    by (rule area_mapper.loop_total [OF area_own_fresh [OF assms(1,2)]])
      (use assms(3-5) in \<open>auto simp: area_look_def area_room_def mult.commute\<close>)
  then show ?thesis by (auto simp: ms_push_def maparea_map_def)
qed

section \<open>Address spaces under construction\<close>

text \<open>A memory set built from scratch since the state \<open>s\<close>: all its frames are new.\<close>

definition ms_build :: "mm \<Rightarrow> MemorySet \<Rightarrow> mm \<Rightarrow> bool" where
  "ms_build s ms s' \<longleftrightarrow> ms_ok ms s' \<and> set (ms_frames ms) \<inter> mm_live s = {}
     \<and> mm_live s' = mm_live s \<union> set (ms_frames ms) \<and> agree_on (mm_live s) (mem s) (mem s')"

lemma ms_build_grow:
  assumes "ms_build s ms t" and "ms_grow ms t ms' u" and "ms_ok ms' u"
  shows "ms_build s ms' u"
proof -
  have "mm_live s \<subseteq> mm_live t - set (ms_frames ms)" using assms(1) by (auto simp: ms_build_def)
  then have "agree_on (mm_live s) (mem s) (mem u)"
    using assms(1,2) agree_on_trans agree_on_subset unfolding ms_build_def ms_grow_def by metis
  then show ?thesis using assms by (auto simp: ms_build_def ms_grow_def)
qed

lemma new_bare_spec:
  assumes inv: "mm_inv s" and n: "new_bare s = Some (ms, s')"
  shows "ms_build s ms s'" and "areas ms = []" and "pt_entry (mem s') (page_table ms) v = None"
    and "mm_free s = mm_free s' + 1"
proof -
  obtain pt where pt: "pt_new s = Some (pt, s')" and ms: "ms = \<lparr>page_table = pt, areas = []\<rparr>"
    using n by (auto simp: new_bare_def bind_eq_Some_conv)
  note P = pt_new_spec [OF inv pt]
  have "agree_on (mm_live s) (mem s) (mem s')"
    by (rule agree_on_other [OF P(7) P(4)])
  moreover have "distinct (pt_frames pt)" "set (pt_frames pt) \<subseteq> mm_live s'"
    using P(1,3) by (simp_all add: pt_ok_def)
  ultimately show "ms_build s ms s'"
    using P(1,3-5) by (simp add: ms_build_def ms_ok_def ms_frames_def ms)
  show "areas ms = []" "pt_entry (mem s') (page_table ms) v = None" "mm_free s = mm_free s' + 1"
    using P(2,6) by (simp_all add: ms)
qed

lemma new_bare_total:
  assumes "mm_inv s" and "0 < mm_free s"
  shows "\<exists>ms s'. new_bare s = Some (ms, s')"
  using frame_alloc_unwrap_total [OF assms] by (auto simp: new_bare_def pt_new_def)

definition trampoline_vpn :: VirtPageNum where
  "trampoline_vpn = va_floor (VirtAddr TRAMPOLINE)"

definition trampoline_entry :: "linker_symbols \<Rightarrow> PageTableEntry" where
  "trampoline_entry ld = pte_new (pa_floor (PhysAddr (strampoline ld))) ((PTE_R OR PTE_X) OR PTE_V)"

lemma vpn_of_TRAMPOLINE: "vpn_of_va (VirtAddr TRAMPOLINE) = Some trampoline_vpn"
  by (simp add: vpn_of_va_def trampoline_vpn_def va_page_offset_def config_simps)

lemma map_trampoline_conv:
  "map_trampoline ld ms s = Some (ms', s') \<longleftrightarrow>
    pa_aligned (PhysAddr (strampoline ld))
    \<and> pt_map trampoline_vpn (pa_floor (PhysAddr (strampoline ld))) (PTE_R OR PTE_X) (page_table ms) s
        = Some (page_table ms', s')
    \<and> areas ms' = areas ms"
  by (auto simp: map_trampoline_def vpn_of_TRAMPOLINE ppn_of_pa_def pa_aligned_def bind_eq_Some_conv)

lemma map_trampoline_spec:
  assumes ok: "ms_ok ms s" and m: "map_trampoline ld ms s = Some (ms', s')"
  shows "ms_ok ms' s'" and "ms_grow ms s ms' s'" and "areas ms' = areas ms"
    and "pt_entry (mem s') (page_table ms') w = (if vkey w = vkey trampoline_vpn
       then Some (trampoline_entry ld) else pt_entry (mem s) (page_table ms) w)"
    and "mm_free s \<le> mm_free s' + 2"
proof -
  have pok: "pt_ok (page_table ms) s" using ok by (simp add: ms_ok_def)
  note M = m [unfolded map_trampoline_conv]
  show a: "areas ms' = areas ms" using M by simp
  from M pt_map_spec [OF pok] obtain new where P: "pt_ext (page_table ms) s (page_table ms') s' new"
    "length new \<le> 2" "\<And>w. pt_entry (mem s') (page_table ms') w = (if vkey w = vkey trampoline_vpn
       then Some (trampoline_entry ld) else pt_entry (mem s) (page_table ms) w)"
    unfolding trampoline_entry_def by blast
  have pok': "pt_ok (page_table ms') s'" by (rule pt_ext_ok [OF P(1) pok])
  note E = P(1) [unfolded pt_ext_def]
  have mf: "mset (ms_frames ms') = mset (ms_frames ms) + mset new"
    using E by (simp add: ms_frames_def a)
  have sf: "set (ms_frames ms') = set (ms_frames ms) \<union> set new"
    using E by (auto simp: ms_frames_def a)
  have "distinct (pt_frames (page_table ms'))" using pok' by (simp add: pt_ok_def pt_wf_def)
  then have dn: "distinct new" using E by simp
  have "set new \<inter> set (ms_frames ms) = {}" using E ok by (auto simp: ms_ok_def)
  then have "distinct (ms_frames ms')"
    using mset_eq_imp_distinct_iff [of "ms_frames ms'" "ms_frames ms @ new"] mf dn ok
    by (auto simp: ms_ok_def)
  then show "ms_ok ms' s'" using ok pok' E by (auto simp: ms_ok_def sf a)
  have "mem s' x = mem s x" if "p \<in> mm_live s - set (ms_frames ms)" "in_frame p x" for p x
  proof -
    have "p \<notin> set (pt_frames (page_table ms'))" using that(1) E by (auto simp: ms_frames_def)
    then have "\<forall>q \<in> set (pt_frames (page_table ms')). \<not> in_frame q x"
      using that(2) in_frame_unique by blast
    then show ?thesis using E by blast
  qed
  then show "ms_grow ms s ms' s'" using E ok by (auto simp: ms_grow_def sf agree_on_def ms_ok_def)
  show "pt_entry (mem s') (page_table ms') w = (if vkey w = vkey trampoline_vpn
     then Some (trampoline_entry ld) else pt_entry (mem s) (page_table ms) w)" by (rule P(3))
  show "mm_free s \<le> mm_free s' + 2" using E P(2) by linarith
qed

lemma map_trampoline_total:
  assumes "ms_ok ms s" and "pa_aligned (PhysAddr (strampoline ld))" and "2 \<le> mm_free s"
    and "pt_entry (mem s) (page_table ms) trampoline_vpn = None"
  shows "\<exists>ms' s'. map_trampoline ld ms s = Some (ms', s')"
proof -
  have "pt_ok (page_table ms) s" using assms(1) by (simp add: ms_ok_def)
  from pt_map_total [OF this assms(3,4)] obtain pt' s' where
    "pt_map trampoline_vpn (pa_floor (PhysAddr (strampoline ld))) (PTE_R OR PTE_X) (page_table ms) s
       = Some (pt', s')" by blast
  then have "map_trampoline ld ms s = Some (ms\<lparr>page_table := pt'\<rparr>, s')"
    using assms(2) by (simp add: map_trampoline_conv)
  then show ?thesis by blast
qed

end
