(* ===== verification/Fork.thy ===== *)
theory Fork
  imports AddressSpace
begin

text \<open>
  Building address spaces: \<open>new_bare\<close>, \<open>map_trampoline\<close> and \<open>from_existed_user\<close>, the copy of an
  address space that \<open>fork\<close> makes. The copy maps the same pages with the same permissions to
  frames of its own with the same contents (\<open>page_view\<close>), and no other address space changes.
\<close>

section \<open>Contents of a frame\<close>

definition page_bytes :: "phys_mem \<Rightarrow> PhysPageNum \<Rightarrow> u8 list" where
  "page_bytes m p = read_bytes m (frame_base p) 4096"

lemma length_page_bytes [simp]: "length (page_bytes m p) = 4096"
  by (simp add: page_bytes_def)

lemma page_bytes_cong:
  "ppn_ok p \<Longrightarrow> (\<And>x. in_frame p x \<Longrightarrow> m x = m' x) \<Longrightarrow> page_bytes m p = page_bytes m' p"
  unfolding page_bytes_def by (rule read_bytes_cong) (simp add: in_frame_offset)

lemma page_bytes_agree:
  "agree_on F m m' \<Longrightarrow> p \<in> F \<Longrightarrow> ppn_ok p \<Longrightarrow> page_bytes m' p = page_bytes m p"
  by (rule page_bytes_cong) (auto simp: agree_on_def)

lemma page_bytes_write:
  "length bs = 4096 \<Longrightarrow> page_bytes (write_bytes m (frame_base p) bs) p = bs"
  using read_write_bytes [of bs m "frame_base p"] by (simp add: page_bytes_def)

lemma write_page_agree:
  assumes "ppn_ok p" and "length bs = 4096"
  shows "agree_on (- {p}) m (write_bytes m (frame_base p) bs)"
proof -
  have "write_bytes m (frame_base p) bs x = m x" if "\<not> in_frame p x" for x
    using write_bytes_other_frame [OF assms(1), of 0 bs x m] that assms(2) by simp
  then show ?thesis using in_frame_unique by (auto simp: agree_on_def)
qed

lemma ms_translate_ppn_entry:
  "pt_entry (mem s) (page_table ms) v = Some e \<Longrightarrow> ms_translate_ppn v ms s = Some (pte_ppn e)"
  by (simp add: ms_translate_ppn_def ms_translate_def pt_translate_entry)

section \<open>Copying pages\<close>

lemma copy_page_eq:
  assumes "pt_entry (mem s) (page_table u) v = Some e" "pt_entry (mem s) (page_table ms) v = Some d"
  shows "copy_page u ms v s
      = Some (s\<lparr>mem := write_bytes (mem s) (frame_base (pte_ppn d)) (page_bytes (mem s) (pte_ppn e))\<rparr>)"
  by (simp add: copy_page_def ms_translate_ppn_entry [OF assms(1)] ms_translate_ppn_entry [OF assms(2)]
      get_bytes_array_def frame_base_def page_bytes_def)

text \<open>
  The loop over the pages \<open>vs\<close> of an area: \<open>E\<close> and \<open>D\<close> are the entries of the two spaces. The
  destination frames are distinct and are neither tables nor sources.
\<close>

definition copy_site ::
  "MemorySet \<Rightarrow> MemorySet \<Rightarrow> (VirtPageNum \<Rightarrow> PageTableEntry) \<Rightarrow> (VirtPageNum \<Rightarrow> PageTableEntry)
     \<Rightarrow> VirtPageNum list \<Rightarrow> PhysPageNum set \<Rightarrow> mm \<Rightarrow> bool" where
  "copy_site u ms E D vs dst s \<longleftrightarrow>
     pt_wf (mem s) (page_table u) \<and> pt_wf (mem s) (page_table ms)
     \<and> (\<forall>v \<in> set vs. pt_entry (mem s) (page_table u) v = Some (E v)
          \<and> pt_entry (mem s) (page_table ms) v = Some (D v)
          \<and> pte_ppn (D v) \<in> dst \<and> pte_ppn (E v) \<notin> dst)
     \<and> distinct (map (\<lambda>v. pte_ppn (D v)) vs)
     \<and> dst \<inter> set (pt_frames (page_table u)) = {} \<and> dst \<inter> set (pt_frames (page_table ms)) = {}"

lemma copy_loop:
  "copy_site u ms E D vs dst s \<Longrightarrow>
    \<exists>s'. foldM (copy_page u ms) vs s = Some s' \<and> frame_allocator s' = frame_allocator s
      \<and> agree_on (- dst) (mem s) (mem s')
      \<and> (\<forall>v \<in> set vs. page_bytes (mem s') (pte_ppn (D v)) = page_bytes (mem s) (pte_ppn (E v)))
      \<and> (\<forall>p \<in> dst - (\<lambda>v. pte_ppn (D v)) ` set vs. agree_on {p} (mem s) (mem s'))"
proof (induction vs arbitrary: s)
  case (Cons v vs)
  note S = Cons.prems [unfolded copy_site_def]
  define t where "t = s\<lparr>mem := write_bytes (mem s) (frame_base (pte_ppn (D v)))
    (page_bytes (mem s) (pte_ppn (E v)))\<rparr>"
  have c: "copy_page u ms v s = Some t"
    using S copy_page_eq [of s u v "E v" ms "D v"] by (simp add: t_def)
  have ag: "agree_on (- {pte_ppn (D v)}) (mem s) (mem t)"
    using write_page_agree [of "pte_ppn (D v)"] by (simp add: t_def page_bytes_def)
  have pu: "agree_on (set (pt_frames (page_table u))) (mem s) (mem t)"
    "agree_on (set (pt_frames (page_table ms))) (mem s) (mem t)"
    using S by (auto intro!: agree_on_subset [OF ag])
  have "copy_site u ms E D vs dst t"
    using S pu pt_wf_agree [OF _ pu(1)] pt_wf_agree [OF _ pu(2)] pt_entry_agree [OF _ pu(1)]
      pt_entry_agree [OF _ pu(2)]
    by (simp add: copy_site_def)
  from Cons.IH [OF this] obtain s' where I: "foldM (copy_page u ms) vs t = Some s'"
    "frame_allocator s' = frame_allocator t" "agree_on (- dst) (mem t) (mem s')"
    "\<And>w. w \<in> set vs \<Longrightarrow> page_bytes (mem s') (pte_ppn (D w)) = page_bytes (mem t) (pte_ppn (E w))"
    "\<And>p. p \<in> dst - (\<lambda>v. pte_ppn (D v)) ` set vs \<Longrightarrow> agree_on {p} (mem t) (mem s')" by blast
  have dst: "pte_ppn (D v) \<in> dst" "pte_ppn (D v) \<notin> (\<lambda>v. pte_ppn (D v)) ` set vs" using S by auto
  have "page_bytes (mem s') (pte_ppn (D w)) = page_bytes (mem s) (pte_ppn (E w))"
    if "w \<in> set (v # vs)" for w
  proof (cases "w \<in> set vs")
    case True
    then have "pte_ppn (E w) \<noteq> pte_ppn (D v)" using S dst(1) by auto
    then have "page_bytes (mem t) (pte_ppn (E w)) = page_bytes (mem s) (pte_ppn (E w))"
      using page_bytes_agree [OF ag] by simp
    with I(4) [OF True] show ?thesis by simp
  next
    case False
    with that have w: "w = v" by simp
    have "page_bytes (mem s') (pte_ppn (D v)) = page_bytes (mem t) (pte_ppn (D v))"
      using page_bytes_agree [OF I(5)] dst by simp
    then show ?thesis by (simp add: w t_def page_bytes_write)
  qed
  moreover have "agree_on (- dst) (mem s) (mem s')"
    using agree_on_trans [OF agree_on_subset [OF ag] I(3)] dst(1) by auto
  moreover have "agree_on {p} (mem s) (mem s')"
    if "p \<in> dst - (\<lambda>v. pte_ppn (D v)) ` set (v # vs)" for p
  proof -
    have "agree_on {p} (mem s) (mem t)" using that by (auto intro: agree_on_subset [OF ag])
    then show ?thesis using agree_on_trans I(5) [of p] that by auto
  qed
  ultimately show ?case using c I(1,2) by (simp add: t_def)
qed simp

section \<open>User address spaces\<close>

definition area_pages :: "MapArea \<Rightarrow> VirtPageNum list" where
  "area_pages a = range_list (vpn_range a)"

definition ms_pages :: "MemorySet \<Rightarrow> VirtPageNum list" where
  "ms_pages ms = concat (map area_pages (areas ms))"

definition area_full :: "MapArea \<Rightarrow> MemorySet \<Rightarrow> mm \<Rightarrow> bool" where
  "area_full a ms s \<longleftrightarrow> map_type a = Framed \<and> fst ` set (data_frames a) = set (area_pages a)
     \<and> (\<forall>(v, f) \<in> set (data_frames a).
          pt_entry (mem s) (page_table ms) v = Some (pte_new f (map_perm a OR PTE_V)))"

text \<open>
  An address space in which the trampoline and every page of every area is mapped, each page to
  the frame its area has for it, and nothing else.
\<close>

definition ms_full :: "linker_symbols \<Rightarrow> MemorySet \<Rightarrow> mm \<Rightarrow> bool" where
  "ms_full ld ms s \<longleftrightarrow> ms_ok ms s \<and> (\<forall>a \<in> set (areas ms). area_full a ms s)
     \<and> distinct (map vkey (trampoline_vpn # ms_pages ms))
     \<and> pt_entry (mem s) (page_table ms) trampoline_vpn = Some (trampoline_entry ld)
     \<and> (\<forall>v. vkey v \<notin> vkey ` set (trampoline_vpn # ms_pages ms)
          \<longrightarrow> pt_entry (mem s) (page_table ms) v = None)"

text \<open>What a process sees at a page: the permissions and the contents.\<close>

definition page_view :: "MemorySet \<Rightarrow> mm \<Rightarrow> VirtPageNum \<Rightarrow> (u8 \<times> u8 list) option" where
  "page_view ms s v = map_option (\<lambda>e. (pte_flags e, page_bytes (mem s) (pte_ppn e)))
     (pt_entry (mem s) (page_table ms) v)"

lemma area_full_entry:
  assumes "area_full a ms s" and "v \<in> set (area_pages a)"
  obtains f where "(v, f) \<in> set (data_frames a)"
    and "pt_entry (mem s) (page_table ms) v = Some (pte_new f (map_perm a OR PTE_V))"
proof -
  have "v \<in> fst ` set (data_frames a)" using assms by (simp add: area_full_def)
  then obtain f where "(v, f) \<in> set (data_frames a)" by auto
  with that assms(1) show ?thesis by (fastforce simp: area_full_def)
qed

lemma ms_page_area: "v \<in> set (ms_pages ms) \<longleftrightarrow> (\<exists>a \<in> set (areas ms). v \<in> set (area_pages a))"
  by (simp add: ms_pages_def)

lemma ms_full_mapped:
  assumes "ms_full ld ms s" and "v \<in> set (trampoline_vpn # ms_pages ms)"
  shows "pt_entry (mem s) (page_table ms) v \<noteq> None"
proof (cases "v = trampoline_vpn")
  case False
  then obtain a where "a \<in> set (areas ms)" "v \<in> set (area_pages a)"
    using assms(2) by (auto simp: ms_page_area)
  moreover from this have "area_full a ms s" using assms(1) by (simp add: ms_full_def)
  ultimately show ?thesis by (metis area_full_entry option.distinct(1))
qed (use assms(1) in \<open>simp add: ms_full_def\<close>)

lemma area_frame_in: "(v, f) \<in> set (data_frames a) \<Longrightarrow> f \<in> set (area_frames a)"
  by (force simp: area_frames_def btree_values_def)

lemma area_frame_in_ms:
  "a \<in> set (areas ms) \<Longrightarrow> (v, f) \<in> set (data_frames a) \<Longrightarrow> f \<in> set (ms_frames ms)"
  using area_frame_in by (fastforce simp: ms_frames_def)

lemma ms_ok_frame_ok: "ms_ok ms s \<Longrightarrow> p \<in> set (ms_frames ms) \<Longrightarrow> ppn_ok p"
  using fa_live_ok by (auto simp: ms_ok_def pt_ok_def)

text \<open>A memory set depends on its own frames only.\<close>

lemma pt_frames_in_ms: "set (pt_frames (page_table ms)) \<subseteq> set (ms_frames ms)"
  by (simp add: ms_frames_def)

lemma ms_ok_agree:
  assumes "ms_ok ms s" and "agree_on (set (pt_frames (page_table ms))) (mem s) (mem s')"
    and "mm_inv s'" and "set (ms_frames ms) \<subseteq> mm_live s'"
  shows "ms_ok ms s'"
    and "pt_entry (mem s') (page_table ms) v = pt_entry (mem s) (page_table ms) v"
proof -
  have w: "pt_wf (mem s) (page_table ms)" using assms(1) by (simp add: ms_ok_def pt_ok_def)
  show "ms_ok ms s'"
    using pt_wf_agree [OF w assms(2)] assms(1,3,4) pt_frames_in_ms [of ms]
    by (auto simp: ms_ok_def pt_ok_def)
  show "pt_entry (mem s') (page_table ms) v = pt_entry (mem s) (page_table ms) v"
    by (rule pt_entry_agree [OF w assms(2)])
qed

lemma ms_full_agree:
  assumes "ms_full ld ms s" and "agree_on (set (pt_frames (page_table ms))) (mem s) (mem s')"
    and "mm_inv s'" and "set (ms_frames ms) \<subseteq> mm_live s'"
  shows "ms_full ld ms s'"
proof -
  have "ms_ok ms s" using assms(1) by (simp add: ms_full_def)
  from ms_ok_agree [OF this assms(2-4)] show ?thesis
    using assms(1) by (simp add: ms_full_def area_full_def)
qed

lemma page_view_agree:
  assumes full: "ms_full ld ms s" and "agree_on (set (ms_frames ms)) (mem s) (mem s')"
    and v: "v \<in> set (ms_pages ms)"
  shows "page_view ms s' v = page_view ms s v"
proof -
  obtain a where a: "a \<in> set (areas ms)" "v \<in> set (area_pages a)" using v by (auto simp: ms_page_area)
  have ok: "ms_ok ms s" and "area_full a ms s" using full a by (simp_all add: ms_full_def)
  then obtain f where f: "(v, f) \<in> set (data_frames a)"
    and e: "pt_entry (mem s) (page_table ms) v = Some (pte_new f (map_perm a OR PTE_V))"
    using a(2) by (auto elim: area_full_entry)
  have fm: "f \<in> set (ms_frames ms)" by (rule area_frame_in_ms [OF a(1) f])
  have "pt_entry (mem s') (page_table ms) v = pt_entry (mem s) (page_table ms) v"
    using ok agree_on_subset [OF assms(2) pt_frames_in_ms]
    by (intro pt_entry_agree) (auto simp: ms_ok_def pt_ok_def)
  moreover have "page_bytes (mem s') f = page_bytes (mem s) f"
    by (rule page_bytes_agree [OF assms(2) fm ms_ok_frame_ok [OF ok fm]])
  ultimately show ?thesis using e ms_ok_frame_ok [OF ok fm] by (simp add: page_view_def)
qed

lemma area_entry_framed:
  assumes "area_shape a" and "map_type a = Framed" and "(v, f) \<in> set (data_frames a)"
  shows "area_entry (a, pt, s) v = pte_new f (map_perm a OR PTE_V)"
  using assms by (simp add: area_entry_def area_shape_def flip: btree_get_Some)

text \<open>Adding a framed area to a full address space.\<close>

lemma area_pushed_old:
  assumes full: "ms_full ld ms s" and A: "area_pushed area ms s a' ms' s'"
    and w: "w \<in> set (trampoline_vpn # ms_pages ms)"
  shows "vkey w \<notin> vkey ` set (range_list (vpn_range area))"
    and "pt_entry (mem s') (page_table ms') w = pt_entry (mem s) (page_table ms) w"
proof -
  note D = area_pushedD [OF A]
  show n: "vkey w \<notin> vkey ` set (range_list (vpn_range area))"
  proof
    assume "vkey w \<in> vkey ` set (range_list (vpn_range area))"
    then obtain v where "v \<in> set (range_list (vpn_range area))" "vkey w = vkey v" by blast
    then have "pt_entry (mem s) (page_table ms) w = None"
      using D(7) pt_entry_key [of w v] by simp
    with ms_full_mapped [OF full w] show False by simp
  qed
  show "pt_entry (mem s') (page_table ms') w = pt_entry (mem s) (page_table ms) w"
    by (rule D(9) [OF n])
qed

lemma area_pushed_view:
  assumes full: "ms_full ld ms s" and A: "area_pushed area ms s a' ms' s'"
    and v: "v \<in> set (ms_pages ms)"
  shows "page_view ms' s' v = page_view ms s v"
proof -
  obtain a where a: "a \<in> set (areas ms)" "v \<in> set (area_pages a)" using v by (auto simp: ms_page_area)
  have ok: "ms_ok ms s" and "area_full a ms s" using full a by (simp_all add: ms_full_def)
  then obtain f where f: "(v, f) \<in> set (data_frames a)"
    and e: "pt_entry (mem s) (page_table ms) v = Some (pte_new f (map_perm a OR PTE_V))"
    using a(2) by (auto elim: area_full_entry)
  have fa: "f \<in> set (concat (map area_frames (areas ms)))"
    using a(1) area_frame_in [OF f] by auto
  then have fl: "f \<in> mm_live s - set (pt_frames (page_table ms))" and fo: "ppn_ok f"
    using ok ms_ok_frame_ok [OF ok, of f] by (auto simp: ms_ok_def ms_frames_def)
  have "page_bytes (mem s') f = page_bytes (mem s) f"
    by (rule page_bytes_agree [OF area_pushedD(12) [OF A] fl fo])
  then show ?thesis
    using area_pushed_old(2) [OF full A, of v] v e fo by (simp add: page_view_def)
qed

lemma ms_push_full:
  assumes full: "ms_full ld ms s" and fresh: "data_frames area = []" and ty: "map_type area = Framed"
    and r: "range_l (vpn_range area) \<le> range_r (vpn_range area)"
    and p: "ms_push area None ms s = Some (ms', s')"
  shows "ms_full ld ms' s'"
proof -
  have ok: "ms_ok ms s" using full by (simp add: ms_full_def)
  note P = ms_push_spec [OF ok fresh r p]
  obtain a' where A: "area_pushed area ms s a' ms' s'" using P(1) by blast
  note D = area_pushedD [OF A]
  have pages: "area_pages a' = range_list (vpn_range area)" by (simp add: area_pages_def D(2))
  have mp: "ms_pages ms' = ms_pages ms @ area_pages a'" by (simp add: ms_pages_def D(1))
  have old: "vkey w \<notin> vkey ` set (area_pages a')" if "w \<in> set (trampoline_vpn # ms_pages ms)" for w
    using area_pushed_old(1) [OF full A that] pages by simp
  note same = area_pushed_old(2) [OF full A]
  have shape: "area_shape a'" using P(2) by (simp add: ms_ok_def D(1))
  have "pt_entry (mem s') (page_table ms') v = Some (pte_new f (map_perm a' OR PTE_V))"
    if vf: "(v, f) \<in> set (data_frames a')" for v f
  proof -
    have "v \<in> set (range_list (vpn_range area))" using vf D(5) [OF ty] by force
    from D(8) [OF this refl] show ?thesis using area_entry_framed [OF shape _ vf] D(3) ty by simp
  qed
  then have new: "area_full a' ms' s'" using D(3,5) ty pages by (auto simp: area_full_def)
  have old_full: "area_full a ms' s'" if a: "a \<in> set (areas ms)" for a
  proof -
    have f: "area_full a ms s" using full a by (simp add: ms_full_def)
    have "pt_entry (mem s') (page_table ms') v = pt_entry (mem s) (page_table ms) v"
      if "(v, g) \<in> set (data_frames a)" for v g
    proof (rule same)
      have "v \<in> set (area_pages a)" using f that by (force simp: area_full_def)
      then show "v \<in> set (trampoline_vpn # ms_pages ms)" using a by (auto simp: ms_page_area)
    qed
    then show ?thesis using f unfolding area_full_def by (metis (no_types, lifting) case_prodI2 case_prodD)
  qed
  have dist: "distinct (map vkey (trampoline_vpn # ms_pages ms'))"
    using full old D(6) pages by (auto simp: ms_full_def mp)
  have "pt_entry (mem s') (page_table ms') v = None"
    if "vkey v \<notin> vkey ` set (trampoline_vpn # ms_pages ms')" for v
    using that full D(9) [of v] pages by (simp add: ms_full_def mp image_Un)
  then show ?thesis
    using P(2) new old_full dist D(1) full same [of trampoline_vpn] by (simp add: ms_full_def)
qed

section \<open>Copying an address space\<close>

definition same_area :: "MapArea \<Rightarrow> MapArea \<Rightarrow> bool" where
  "same_area a b \<longleftrightarrow> vpn_range b = vpn_range a \<and> map_type b = map_type a \<and> map_perm b = map_perm a"

lemma ms_build_live: "ms_build s ms t \<Longrightarrow> mm_live s \<subseteq> mm_live t"
  by (auto simp: ms_build_def)

lemma ms_build_inv: "ms_build s ms t \<Longrightarrow> mm_inv t"
  by (simp add: ms_build_def ms_ok_def pt_ok_def)

text \<open>Another address space is not touched while this one is built.\<close>

lemma ms_build_other:
  assumes "ms_full ld u s" and "ms_build s ms t"
  shows "ms_full ld u t" and "agree_on (set (ms_frames u)) (mem s) (mem t)"
proof -
  have l: "set (ms_frames u) \<subseteq> mm_live s" using assms(1) by (simp add: ms_full_def ms_ok_def)
  show ag: "agree_on (set (ms_frames u)) (mem s) (mem t)"
    using assms(2) agree_on_subset [OF _ l] by (simp add: ms_build_def)
  show "ms_full ld u t"
    using ms_full_agree [OF assms(1) agree_on_subset [OF ag pt_frames_in_ms] ms_build_inv [OF assms(2)]]
      ms_build_live [OF assms(2)] l by blast
qed

lemma copy_site_area:
  assumes u: "ms_full ld u s" and a: "a \<in> set (areas u)" and ms: "ms_full ld ms s"
    and b: "b \<in> set (areas ms)" and r: "vpn_range b = vpn_range a"
    and disj: "set (area_frames b) \<inter> set (ms_frames u) = {}"
  shows "copy_site u ms (area_entry (a, page_table u, s)) (area_entry (b, page_table ms, s))
    (area_pages a) (set (area_frames b)) s"
proof -
  have ok: "ms_ok u s" "ms_ok ms s" "area_full a u s" "area_full b ms s"
    using u ms a b by (simp_all add: ms_full_def)
  have sh: "area_shape a" "area_shape b" using ok a b by (simp_all add: ms_ok_def)
  have ty: "map_type a = Framed" "map_type b = Framed" using ok by (simp_all add: area_full_def)
  have pg: "area_pages b = area_pages a" by (simp add: area_pages_def r)
  have E: "\<exists>f. f \<in> set (ms_frames u) \<and> pte_ppn (area_entry (a, page_table u, s) v) = f
      \<and> pt_entry (mem s) (page_table u) v = Some (area_entry (a, page_table u, s) v)"
    if "v \<in> set (area_pages a)" for v
  proof -
    obtain f where f: "(v, f) \<in> set (data_frames a)"
      "pt_entry (mem s) (page_table u) v = Some (pte_new f (map_perm a OR PTE_V))"
      using area_full_entry [OF ok(3) \<open>v \<in> set (area_pages a)\<close>] by blast
    then show ?thesis
      using area_entry_framed [OF sh(1) ty(1) f(1)] ms_ok_frame_ok [OF ok(1)]
        area_frame_in_ms [OF a f(1)] by simp
  qed
  have D: "pte_ppn (area_entry (b, page_table ms, s) v) = the (btree_get v (data_frames b))
      \<and> (v, the (btree_get v (data_frames b))) \<in> set (data_frames b)
      \<and> pt_entry (mem s) (page_table ms) v = Some (area_entry (b, page_table ms, s) v)"
    if vp: "v \<in> set (area_pages a)" for v
  proof -
    obtain f where f: "(v, f) \<in> set (data_frames b)"
      "pt_entry (mem s) (page_table ms) v = Some (pte_new f (map_perm b OR PTE_V))"
      using area_full_entry [OF ok(4), of v] vp pg by auto
    then have "btree_get v (data_frames b) = Some f" using sh(2) by (simp add: btree_get_Some area_shape_def)
    then show ?thesis
      using f area_entry_framed [OF sh(2) ty(2) f(1)] ms_ok_frame_ok [OF ok(2)]
        area_frame_in_ms [OF b f(1)] by simp
  qed
  have df: "distinct (area_frames b)"
    using ok(2) b by (auto simp: ms_ok_def ms_frames_def distinct_concat_iff)
  have inj: "inj_on (\<lambda>v. pte_ppn (area_entry (b, page_table ms, s) v)) (set (area_pages a))"
  proof (rule inj_onI)
    fix v w
    assume vw: "v \<in> set (area_pages a)" "w \<in> set (area_pages a)"
      "pte_ppn (area_entry (b, page_table ms, s) v) = pte_ppn (area_entry (b, page_table ms, s) w)"
    have "distinct (map snd (data_frames b))" using df by (simp add: area_frames_def btree_values_def)
    then show "v = w" using D [OF vw(1)] D [OF vw(2)] vw(3) by (metis distinct_map inj_on_def prod.inject snd_conv)
  qed
  have "distinct (area_pages a)"
    using sh(1) distinct_range_list by (simp add: area_pages_def area_shape_def)
  moreover have "set (area_frames b) \<inter> set (pt_frames (page_table ms)) = {}"
    using ok(2) b by (auto simp: ms_ok_def ms_frames_def)
  moreover have "pt_wf (mem s) (page_table u)" "pt_wf (mem s) (page_table ms)"
    using ok(1,2) by (simp_all add: ms_ok_def pt_ok_def)
  ultimately show ?thesis
    using E D inj disj pt_frames_in_ms [of u] area_frame_in
    by (fastforce simp: copy_site_def distinct_map)
qed

definition fresh_area :: "MapArea \<Rightarrow> MapArea" where
  "fresh_area a = a\<lparr>data_frames := []\<rparr>"

lemma maparea_from_another_eq:
  "maparea_from_another a = (if range_l (vpn_range a) \<le> range_r (vpn_range a)
     then Some (fresh_area a) else None)"
  by (simp add: maparea_from_another_def range_new_def fresh_area_def)

text \<open>
  One round of the loop over the areas: \<open>t1\<close> is the state after the push of the new area \<open>b\<close>,
  \<open>t'\<close> the state after its pages have been copied.
\<close>

definition area_copied ::
  "linker_symbols \<Rightarrow> mm \<Rightarrow> MemorySet \<Rightarrow> MapArea \<Rightarrow> MemorySet \<Rightarrow> mm \<Rightarrow> MapArea \<Rightarrow> MemorySet
     \<Rightarrow> mm \<Rightarrow> mm \<Rightarrow> bool" where
  "area_copied ld s u a ms t b ms' t1 t' \<longleftrightarrow>
     area_pushed (fresh_area a) ms t b ms' t1 \<and> ms_full ld ms' t1 \<and> ms_build s ms' t1
     \<and> copy_site u ms' (area_entry (a, page_table u, t1)) (area_entry (b, page_table ms', t1))
         (area_pages a) (set (area_frames b)) t1
     \<and> set (area_frames b) \<inter> mm_live t = {}
     \<and> frame_allocator t' = frame_allocator t1
     \<and> agree_on (- set (area_frames b)) (mem t1) (mem t')
     \<and> (\<forall>v \<in> set (area_pages a).
          page_bytes (mem t') (pte_ppn (area_entry (b, page_table ms', t1) v))
          = page_bytes (mem t1) (pte_ppn (area_entry (a, page_table u, t1) v)))"

lemma push_copy_site:
  assumes u: "ms_full ld u s" and a: "a \<in> set (areas u)" and build: "ms_build s ms t"
    and full: "ms_full ld ms t" and p: "ms_push (fresh_area a) None ms t = Some (ms', t1)"
  shows "\<exists>b. area_pushed (fresh_area a) ms t b ms' t1 \<and> ms_full ld ms' t1 \<and> ms_build s ms' t1
    \<and> copy_site u ms' (area_entry (a, page_table u, t1)) (area_entry (b, page_table ms', t1))
         (area_pages a) (set (area_frames b)) t1"
proof -
  have uo: "ms_ok u s" "area_full a u s" "area_shape a" using u a by (auto simp: ms_full_def ms_ok_def)
  have ok: "ms_ok ms t" using full by (simp add: ms_full_def)
  have nf: "data_frames (fresh_area a) = []" "map_type (fresh_area a) = Framed"
    "range_l (vpn_range (fresh_area a)) \<le> range_r (vpn_range (fresh_area a))"
    using uo by (simp_all add: fresh_area_def area_full_def area_shape_def)
  note P = ms_push_spec [OF ok nf(1,3) p]
  obtain b where A: "area_pushed (fresh_area a) ms t b ms' t1" using P(1) by blast
  note D = area_pushedD [OF A]
  have full1: "ms_full ld ms' t1" by (rule ms_push_full [OF full nf p])
  have build1: "ms_build s ms' t1" by (rule ms_build_grow [OF build P(3,2)])
  have "set (ms_frames u) \<subseteq> mm_live t" using uo ms_build_live [OF build] by (auto simp: ms_ok_def)
  then have "copy_site u ms' (area_entry (a, page_table u, t1))
      (area_entry (b, page_table ms', t1)) (area_pages a) (set (area_frames b)) t1"
    using D(1,2,11) ms_build_other(1) [OF u build1] a full1
    by (intro copy_site_area) (auto simp: fresh_area_def)
  then show ?thesis using A full1 build1 by blast
qed

lemma copy_area_copied:
  assumes u: "ms_full ld u s" and a: "a \<in> set (areas u)" and build: "ms_build s ms t"
    and full: "ms_full ld ms t" and c: "copy_area u a (ms, t) = Some (ms', t')"
  shows "\<exists>b t1. area_copied ld s u a ms t b ms' t1 t'"
    and "mm_free t \<le> mm_free t' + 3 * length (area_pages a)"
proof -
  obtain t1 where p: "ms_push (fresh_area a) None ms t = Some (ms', t1)"
    and l: "foldM (copy_page u ms') (area_pages a) t1 = Some t'"
    using c by (auto simp: copy_area_def maparea_from_another_eq area_pages_def bind_eq_Some_conv
        split: if_splits)
  obtain b where B: "area_pushed (fresh_area a) ms t b ms' t1" "ms_full ld ms' t1" "ms_build s ms' t1"
    and site: "copy_site u ms' (area_entry (a, page_table u, t1)) (area_entry (b, page_table ms', t1))
         (area_pages a) (set (area_frames b)) t1"
    using push_copy_site [OF u a build full p] by blast
  have "area_copied ld s u a ms t b ms' t1 t'"
    using copy_loop [OF site] l B site area_pushedD(11) [OF B(1)] by (simp add: area_copied_def)
  then show "\<exists>b t1. area_copied ld s u a ms t b ms' t1 t'" by blast
  have "frame_allocator t' = frame_allocator t1" using copy_loop [OF site] l by auto
  then show "mm_free t \<le> mm_free t' + 3 * length (area_pages a)"
    using ms_push_room [OF _ _ p] full by (simp add: fresh_area_def area_pages_def ms_full_def)
qed

lemma area_copiedD:
  assumes "area_copied ld s u a ms t b ms' t1 t'"
  shows "area_pushed (fresh_area a) ms t b ms' t1" "ms_full ld ms' t1" "ms_build s ms' t1"
    "copy_site u ms' (area_entry (a, page_table u, t1)) (area_entry (b, page_table ms', t1))
         (area_pages a) (set (area_frames b)) t1"
    "set (area_frames b) \<inter> mm_live t = {}" "frame_allocator t' = frame_allocator t1"
    "agree_on (- set (area_frames b)) (mem t1) (mem t')"
    "v \<in> set (area_pages a) \<Longrightarrow>
       page_bytes (mem t') (pte_ppn (area_entry (b, page_table ms', t1) v))
       = page_bytes (mem t1) (pte_ppn (area_entry (a, page_table u, t1) v))"
    "areas ms' = areas ms @ [b]" "same_area a b"
  using assms unfolding area_copied_def
  by (auto simp: same_area_def fresh_area_def dest: area_pushedD(1-4))

lemma area_copied_full:
  assumes C: "area_copied ld s u a ms t b ms' t1 t'" and live: "mm_live s \<subseteq> mm_live t"
  shows "ms_full ld ms' t'" and "ms_build s ms' t'"
    and "pt_entry (mem t') (page_table ms') w = pt_entry (mem t1) (page_table ms') w"
proof -
  note D = area_copiedD [OF C]
  have ok: "ms_ok ms' t1" using D(2) by (simp add: ms_full_def)
  have inv: "mm_inv t'" "mm_live t' = mm_live t1" using D(6) ms_build_inv [OF D(3)] by simp_all
  have ag: "agree_on (set (pt_frames (page_table ms'))) (mem t1) (mem t')"
    using agree_on_subset [OF D(7)] D(4) by (auto simp: copy_site_def)
  have "set (ms_frames ms') \<subseteq> mm_live t1" using ok by (simp add: ms_ok_def)
  then show full': "ms_full ld ms' t'" using ms_full_agree [OF D(2) ag inv(1)] inv(2) by simp
  have "agree_on (mm_live s) (mem t1) (mem t')"
    using D(5) live by (intro agree_on_subset [OF D(7)]) auto
  then show "ms_build s ms' t'"
    using D(3) full' inv(2) agree_on_trans by (auto simp: ms_build_def ms_full_def)
  show "pt_entry (mem t') (page_table ms') w = pt_entry (mem t1) (page_table ms') w"
    using pt_entry_agree [OF _ ag] ok by (simp add: ms_ok_def pt_ok_def)
qed

lemma area_copied_view:
  assumes C: "area_copied ld s u a ms t b ms' t1 t'" and live: "mm_live s \<subseteq> mm_live t"
    and u: "ms_full ld u s" and a: "a \<in> set (areas u)" and v: "v \<in> set (area_pages a)"
  shows "page_view ms' t' v = page_view u s v"
proof -
  note D = area_copiedD [OF C]
  let ?E = "area_entry (a, page_table u, t1) v" and ?D = "area_entry (b, page_table ms', t1) v"
  have E: "pt_entry (mem t1) (page_table u) v = Some ?E" "pt_entry (mem t1) (page_table ms') v = Some ?D"
    using D(4) v by (simp_all add: copy_site_def)
  have fl: "pte_flags ?D = pte_flags ?E" using D(10) by (simp add: area_entry_def same_area_def)
  have "page_view ms' t' v = Some (pte_flags ?D, page_bytes (mem t') (pte_ppn ?D))"
    using area_copied_full(3) [OF C live] E(2) by (simp add: page_view_def)
  also have "\<dots> = page_view u t1 v" using D(8) [OF v] E(1) fl by (simp add: page_view_def)
  also have "\<dots> = page_view u s v"
    using page_view_agree [OF u ms_build_other(2) [OF u D(3)]] a v by (auto simp: ms_page_area)
  finally show ?thesis .
qed

lemma area_copied_view_old:
  assumes C: "area_copied ld s u a ms t b ms' t1 t'" and live: "mm_live s \<subseteq> mm_live t"
    and full: "ms_full ld ms t" and v: "v \<in> set (ms_pages ms)"
  shows "page_view ms' t' v = page_view ms t v"
proof -
  note D = area_copiedD [OF C]
  obtain c where c: "c \<in> set (areas ms)" "v \<in> set (area_pages c)" using v by (auto simp: ms_page_area)
  have ok: "ms_ok ms t" and "area_full c ms t" using full c by (simp_all add: ms_full_def)
  then obtain f where f: "(v, f) \<in> set (data_frames c)"
    and e: "pt_entry (mem t) (page_table ms) v = Some (pte_new f (map_perm c OR PTE_V))"
    using c(2) by (auto elim: area_full_entry)
  have fm: "f \<in> set (ms_frames ms)" by (rule area_frame_in_ms [OF c(1) f])
  then have fb: "f \<in> - set (area_frames b)" using D(5) ok by (auto simp: ms_ok_def)
  have e1: "pt_entry (mem t1) (page_table ms') v = Some (pte_new f (map_perm c OR PTE_V))"
    using area_pushed_old(2) [OF full D(1), of v] v e by simp
  have "page_bytes (mem t') f = page_bytes (mem t1) f"
    by (rule page_bytes_agree [OF D(7) fb ms_ok_frame_ok [OF ok fm]])
  then have "page_view ms' t' v = page_view ms' t1 v"
    using area_copied_full(3) [OF C live] e1 ms_ok_frame_ok [OF ok fm] by (simp add: page_view_def)
  also have "\<dots> = page_view ms t v" by (rule area_pushed_view [OF full D(1) v])
  finally show ?thesis .
qed

lemma copy_areas_spec:
  assumes u: "ms_full ld u s"
  shows "foldM (copy_area u) as (ms, t) = Some (ms', t') \<Longrightarrow> set as \<subseteq> set (areas u) \<Longrightarrow>
    ms_build s ms t \<Longrightarrow> ms_full ld ms t \<Longrightarrow>
    ms_build s ms' t' \<and> ms_full ld ms' t'
      \<and> (\<exists>bs. areas ms' = areas ms @ bs \<and> list_all2 same_area as bs)
      \<and> (\<forall>v \<in> set (ms_pages ms). page_view ms' t' v = page_view ms t v)
      \<and> (\<forall>a \<in> set as. \<forall>v \<in> set (area_pages a). page_view ms' t' v = page_view u s v)"
proof (induction "as" arbitrary: ms t)
  case (Cons a as')
  from Cons.prems(1) obtain ms1 t1 where c: "copy_area u a (ms, t) = Some (ms1, t1)"
    and r: "foldM (copy_area u) as' (ms1, t1) = Some (ms', t')"
    by (auto simp: bind_eq_Some_conv)
  have a: "a \<in> set (areas u)" using Cons.prems(2) by simp
  obtain b t0 where C: "area_copied ld s u a ms t b ms1 t0 t1"
    using copy_area_copied(1) [OF u a Cons.prems(3,4) c] by blast
  note live = ms_build_live [OF Cons.prems(3)]
  note F = area_copied_full [OF C live] and D = area_copiedD [OF C]
  from Cons.IH [OF r _ F(2,1)] Cons.prems(2) obtain bs where
    I: "ms_build s ms' t'" "ms_full ld ms' t'" "areas ms' = areas ms1 @ bs" "list_all2 same_area as' bs"
      "\<And>v. v \<in> set (ms_pages ms1) \<Longrightarrow> page_view ms' t' v = page_view ms1 t1 v"
      "\<And>a v. a \<in> set as' \<Longrightarrow> v \<in> set (area_pages a) \<Longrightarrow> page_view ms' t' v = page_view u s v"
    by auto
  have pg: "ms_pages ms1 = ms_pages ms @ area_pages a"
    using D(9,10) by (simp add: ms_pages_def area_pages_def same_area_def)
  have "areas ms' = areas ms @ b # bs" "list_all2 same_area (a # as') (b # bs)"
    using I(3,4) D(9,10) by simp_all
  moreover have "page_view ms' t' v = page_view ms t v" if "v \<in> set (ms_pages ms)" for v
    using I(5) pg area_copied_view_old [OF C live Cons.prems(4) that] that by simp
  moreover have "page_view ms' t' v = page_view u s v" if "v \<in> set (area_pages a)" for v
    using I(5) pg area_copied_view [OF C live u a that] that by simp
  ultimately show ?case using I(1,2,6) by auto
qed simp

lemma copy_area_total:
  assumes u: "ms_full ld u s" and a: "a \<in> set (areas u)" and build: "ms_build s ms t"
    and full: "ms_full ld ms t"
    and keys: "distinct (map vkey (trampoline_vpn # ms_pages ms @ area_pages a))"
    and room: "3 * length (area_pages a) \<le> mm_free t"
  shows "\<exists>ms' t'. copy_area u a (ms, t) = Some (ms', t')"
proof -
  have "area_shape a" using u a by (auto simp: ms_full_def ms_ok_def)
  then have rg: "range_l (vpn_range a) \<le> range_r (vpn_range a)" by (simp add: area_shape_def)
  have ok: "ms_ok ms t" using full by (simp add: ms_full_def)
  have "pt_entry (mem t) (page_table ms) v = None" if "v \<in> set (area_pages a)" for v
    using full keys that by (auto simp: ms_full_def) (metis IntI empty_iff imageI)
  then obtain ms' t1 where p: "ms_push (fresh_area a) None ms t = Some (ms', t1)"
    using ms_push_total [OF ok, of "fresh_area a"] keys room
    by (auto simp: fresh_area_def area_pages_def)
  then obtain b where "copy_site u ms' (area_entry (a, page_table u, t1))
      (area_entry (b, page_table ms', t1)) (area_pages a) (set (area_frames b)) t1"
    using push_copy_site [OF u a build full] by blast
  from copy_loop [OF this] p rg show ?thesis
    by (auto simp: copy_area_def maparea_from_another_eq area_pages_def)
qed

lemma copy_areas_total:
  assumes u: "ms_full ld u s"
  shows "set as \<subseteq> set (areas u) \<Longrightarrow> ms_build s ms t \<Longrightarrow> ms_full ld ms t \<Longrightarrow>
    distinct (map vkey (trampoline_vpn # ms_pages ms @ concat (map area_pages as))) \<Longrightarrow>
    3 * length (concat (map area_pages as)) \<le> mm_free t \<Longrightarrow>
    \<exists>ms' t'. foldM (copy_area u) as (ms, t) = Some (ms', t')"
proof (induction "as" arbitrary: ms t)
  case (Cons a as')
  have a: "a \<in> set (areas u)" using Cons.prems(1) by simp
  have k: "distinct (map vkey (trampoline_vpn # ms_pages ms @ area_pages a))"
    using Cons.prems(4) by (auto simp: Int_Un_distrib)
  obtain ms1 t1 where c: "copy_area u a (ms, t) = Some (ms1, t1)"
    using copy_area_total [OF u a Cons.prems(2,3) k] Cons.prems(5) by auto
  obtain b t0 where C: "area_copied ld s u a ms t b ms1 t0 t1"
    using copy_area_copied(1) [OF u a Cons.prems(2,3) c] by blast
  note F = area_copied_full [OF C ms_build_live [OF Cons.prems(2)]] and D = area_copiedD [OF C]
  have "ms_pages ms1 = ms_pages ms @ area_pages a"
    using D(9,10) by (simp add: ms_pages_def area_pages_def same_area_def)
  then have "\<exists>ms' t'. foldM (copy_area u) as' (ms1, t1) = Some (ms', t')"
    using Cons.prems copy_area_copied(2) [OF u a Cons.prems(2,3) c]
    by (intro Cons.IH [OF _ F(2,1)]) auto
  with c show ?case by simp
qed simp

lemma page_view_key: "vkey v = vkey w \<Longrightarrow> page_view ms s v = page_view ms s w"
  by (simp add: page_view_def pt_entry_key [of v w])

lemma bare_full:
  assumes inv: "mm_inv s" and n: "new_bare s = Some (ms0, s0)"
    and m: "map_trampoline ld ms0 s0 = Some (ms, t)"
  shows "ms_build s ms t" and "ms_full ld ms t" and "areas ms = []" and "mm_free s \<le> mm_free t + 3"
proof -
  note N = new_bare_spec [OF inv n]
  have ok: "ms_ok ms0 s0" using N(1) by (simp add: ms_build_def)
  note M = map_trampoline_spec [OF ok m]
  show "ms_build s ms t" by (rule ms_build_grow [OF N(1) M(2,1)])
  show "areas ms = []" using M(3) N(2) by simp
  then show "ms_full ld ms t" using M(1,4) N(3) by (auto simp: ms_full_def ms_pages_def)
  show "mm_free s \<le> mm_free t + 3" using M(5) N(4) by simp
qed

lemma from_existed_user_spec:
  assumes u: "ms_full ld u s" and f: "from_existed_user ld u s = Some (ms, s')"
  shows "ms_build s ms s'" and "ms_full ld ms s'" and "list_all2 same_area (areas u) (areas ms)"
    and "vkey v \<noteq> vkey trampoline_vpn \<Longrightarrow> page_view ms s' v = page_view u s v"
proof -
  obtain ms0 s0 ms1 s1 where n: "new_bare s = Some (ms0, s0)"
    and m: "map_trampoline ld ms0 s0 = Some (ms1, s1)"
    and l: "foldM (copy_area u) (areas u) (ms1, s1) = Some (ms, s')"
    using f by (auto simp: from_existed_user_def bind_eq_Some_conv)
  have inv: "mm_inv s" using u by (simp add: ms_full_def ms_ok_def pt_ok_def)
  note B = bare_full [OF inv n m]
  from copy_areas_spec [OF u l _ B(1,2)] B(3) have
    S: "ms_build s ms s'" "ms_full ld ms s'" "list_all2 same_area (areas u) (areas ms)"
      "\<And>a v. a \<in> set (areas u) \<Longrightarrow> v \<in> set (area_pages a) \<Longrightarrow> page_view ms s' v = page_view u s v"
    by auto
  then show "ms_build s ms s'" "ms_full ld ms s'" "list_all2 same_area (areas u) (areas ms)" by blast+
  have "map area_pages (areas ms) = map area_pages (areas u)"
    using S(3) by (induction rule: list_all2_induct) (auto simp: same_area_def area_pages_def)
  then have pg: "ms_pages ms = ms_pages u" by (simp add: ms_pages_def)
  assume v: "vkey v \<noteq> vkey trampoline_vpn"
  show "page_view ms s' v = page_view u s v"
  proof (cases "vkey v \<in> vkey ` set (ms_pages u)")
    case True
    then obtain w where w: "w \<in> set (ms_pages u)" "vkey v = vkey w" by blast
    then show ?thesis using S(4) page_view_key [of v w] by (auto simp: ms_page_area)
  next
    case False
    then show ?thesis using v u S(2) by (simp add: page_view_def ms_full_def pg)
  qed
qed

lemma from_existed_user_total:
  assumes u: "ms_full ld u s" and al: "pa_aligned (PhysAddr (strampoline ld))"
    and room: "3 + 3 * length (ms_pages u) \<le> mm_free s"
  shows "\<exists>ms s'. from_existed_user ld u s = Some (ms, s')"
proof -
  have inv: "mm_inv s" using u by (simp add: ms_full_def ms_ok_def pt_ok_def)
  obtain ms0 s0 where n: "new_bare s = Some (ms0, s0)" using new_bare_total [OF inv] room by auto
  note N = new_bare_spec [OF inv n]
  obtain ms1 s1 where m: "map_trampoline ld ms0 s0 = Some (ms1, s1)"
    using map_trampoline_total [of ms0 s0 ld] N al room by (auto simp: ms_build_def)
  note B = bare_full [OF inv n m]
  have "\<exists>ms s'. foldM (copy_area u) (areas u) (ms1, s1) = Some (ms, s')"
    using u B room by (intro copy_areas_total [OF u _ B(1,2)]) (auto simp: ms_full_def ms_pages_def)
  then show ?thesis using n m by (simp add: from_existed_user_def)
qed

end
