(* ===== verification/SpaceOps.thy ===== *)
theory SpaceOps
  imports Fork
begin

text \<open>
  Taking address spaces apart: dropping a memory set, \<open>recycle_data_pages\<close>, \<open>MemorySet::unmap\<close>
  and \<open>remove_area_with_start_vpn\<close>. Each gives back exactly the frames it should and leaves
  the contents of memory outside the page table alone.
\<close>

section \<open>Dropping\<close>

lemma drop_frames_append:
  "drop_frames (xs @ ys) s = do { s \<leftarrow> drop_frames xs s; drop_frames ys s }"
  by (simp add: drop_frames_def foldM_append)

lemma drop_areas_conv: "foldM drop_area as s = drop_frames (concat (map area_frames as)) s"
proof (induction "as" arbitrary: s)
  case Nil
  then show ?case by (simp add: drop_frames_def)
next
  case (Cons a as')
  then have "foldM drop_area as' = drop_frames (concat (map area_frames as'))"
    by (simp add: fun_eq_iff)
  moreover have "drop_area a = drop_frames (area_frames a)"
    by (simp add: fun_eq_iff drop_area_def area_frames_def)
  ultimately show ?case by (simp add: drop_frames_append)
qed

lemma drop_memory_set_conv: "drop_memory_set ms s = drop_frames (ms_frames ms) s"
  by (simp add: drop_memory_set_def ms_frames_def drop_frames_append drop_areas_conv)

lemma drop_memory_set_spec:
  assumes "ms_ok ms s"
  shows "\<exists>s'. drop_memory_set ms s = Some s' \<and> mm_live s' = mm_live s - set (ms_frames ms)
    \<and> mm_inv s' \<and> mem s' = mem s"
  unfolding drop_memory_set_conv
  by (rule drop_frames_ok) (use assms in \<open>auto simp: ms_ok_def pt_ok_def\<close>)

lemma recycle_data_pages_spec:
  assumes ok: "ms_ok ms s"
  shows "\<exists>s'. recycle_data_pages ms s = Some (ms\<lparr>areas := []\<rparr>, s')
    \<and> mm_live s' = mm_live s - set (concat (map area_frames (areas ms)))
    \<and> ms_ok (ms\<lparr>areas := []\<rparr>) s' \<and> mem s' = mem s"
proof -
  let ?fs = "concat (map area_frames (areas ms))"
  have d: "distinct ?fs" "set ?fs \<subseteq> mm_live s" "set (pt_frames (page_table ms)) \<inter> set ?fs = {}"
    "mm_inv s" using ok by (auto simp: ms_ok_def ms_frames_def pt_ok_def)
  obtain s' where s': "drop_frames ?fs s = Some s'" "mm_live s' = mm_live s - set ?fs" "mm_inv s'"
    "mem s' = mem s"
    using drop_frames_ok [OF d(4,1,2)] by blast
  then show ?thesis
    using ok d(3) by (auto simp: recycle_data_pages_def drop_areas_conv ms_ok_def ms_frames_def pt_ok_def)
qed

section \<open>MemorySet::unmap\<close>

lemma table_unmap_loop:
  "foldM unmap_step vs (pt, s) = Some b \<Longrightarrow> table_ok (pt, s) \<Longrightarrow>
    \<exists>s'. b = (pt, s') \<and> pt_ext pt s pt s' []"
proof (induction vs arbitrary: s)
  case Nil
  then show ?case by (auto simp: table_ok_def pt_ext_refl)
next
  case (Cons v vs)
  then obtain c where c: "unmap_step v (pt, s) = Some c" "foldM unmap_step vs c = Some b"
    by (auto simp: bind_eq_Some_conv)
  obtain s1 where s1: "c = (pt, s1)" "pt_ext pt s pt s1 []"
    using unmap_step_Some [OF Cons.prems(2) c(1)] by blast
  have "table_ok (pt, s1)" using table_unmapper.one_ok [OF Cons.prems(2) c(1)] s1(1) by simp
  from Cons.IH [OF c(2) [unfolded s1(1)] this] obtain s' where "b = (pt, s')" "pt_ext pt s1 pt s' []"
    by blast
  then show ?case using pt_ext_trans [OF s1(2)] by fastforce
qed

lemma ms_unmap_spec:
  assumes ok: "ms_ok ms s" and u: "ms_unmap l r ms s = Some (ms', s')"
  defines "vs \<equiv> range_list \<lparr>range_l = l, range_r = r\<rparr>"
  shows "ms' = ms" and "ms_ok ms s'" and "l \<le> r" and "mm_live s' = mm_live s"
    and "\<forall>v \<in> set vs. pt_entry (mem s) (page_table ms) v \<noteq> None"
    and "pt_entry (mem s') (page_table ms) w
       = (if vkey w \<in> vkey ` set vs then None else pt_entry (mem s) (page_table ms) w)"
    and "F \<inter> set (pt_frames (page_table ms)) = {} \<Longrightarrow> agree_on F (mem s) (mem s')"
proof -
  have pok: "table_ok (page_table ms, s)" using ok by (simp add: table_ok_def ms_ok_def)
  obtain pt' where lr: "l \<le> r" and f: "foldM unmap_step vs (page_table ms, s) = Some (pt', s')"
    and ms': "ms' = ms\<lparr>page_table := pt'\<rparr>"
    using u by (auto simp: ms_unmap_def range_new_Some vs_def bind_eq_Some_conv)
  from table_unmap_loop [OF f pok] have pt': "pt' = page_table ms"
    and e: "pt_ext (page_table ms) s (page_table ms) s' []" by auto
  show "l \<le> r" by (rule lr)
  show "ms' = ms" by (simp add: ms' pt')
  show live: "mm_live s' = mm_live s" using e by (simp add: pt_ext_def)
  show "ms_ok ms s'" using ok pt_ext_ok [OF e] live by (simp add: ms_ok_def)
  show "\<forall>v \<in> set vs. pt_entry (mem s) (page_table ms) v \<noteq> None"
    using table_unmapper.unmap_loop_iff [OF pok, of vs] f by (auto simp: table_look_def)
  show "pt_entry (mem s') (page_table ms) w
       = (if vkey w \<in> vkey ` set vs then None else pt_entry (mem s) (page_table ms) w)"
    using table_unmapper.loop_gone [OF f pok, of w] table_unmapper.loop_other [OF f pok, of w]
    by (simp add: table_look_def pt')
  show "F \<inter> set (pt_frames (page_table ms)) = {} \<Longrightarrow> agree_on F (mem s) (mem s')"
    by (rule pt_ext_same_agree [OF e])
qed

lemma ms_unmap_total:
  assumes ok: "ms_ok ms s" and "l \<le> r"
  defines "vs \<equiv> range_list \<lparr>range_l = l, range_r = r\<rparr>"
  assumes "distinct (map vkey vs)" and "\<forall>v \<in> set vs. pt_entry (mem s) (page_table ms) v \<noteq> None"
  shows "\<exists>s'. ms_unmap l r ms s = Some (ms, s')"
proof -
  have pok: "table_ok (page_table ms, s)" using ok by (simp add: table_ok_def ms_ok_def)
  obtain b where "foldM unmap_step vs (page_table ms, s) = Some b"
    using table_unmapper.unmap_loop_iff [OF pok, of vs] assms(4,5) by (auto simp: table_look_def)
  moreover from table_unmap_loop [OF this pok] obtain s' where "b = (page_table ms, s')" by blast
  ultimately show ?thesis using assms(2) by (simp add: ms_unmap_def range_new_def vs_def)
qed

section \<open>Removing an area\<close>

lemma unmap_one_facts:
  assumes ok: "area_own (area, pt, s)" and m: "unmap_one v (area, pt, s) = Some b"
  shows "\<exists>area' s'. b = (area', pt, s') \<and> vpn_range area' = vpn_range area
    \<and> map_type area' = map_type area
    \<and> set (area_frames area') \<subseteq> set (area_frames area)
    \<and> mm_live s' = mm_live s - (set (area_frames area) - set (area_frames area'))
    \<and> fst ` set (data_frames area') = fst ` set (data_frames area) - {v}
    \<and> agree_on (- set (pt_frames pt)) (mem s) (mem s')"
proof -
  obtain s1 s' where U:
    "b = ((if map_type area = Framed
           then area\<lparr>data_frames := btree_remove v (data_frames area)\<rparr> else area), pt, s')"
    "drop_opt (btree_get v (data_frames area)) s = Some s1" "mem s1 = mem s" "pt_ok pt s1"
    "pt_ext pt s1 pt s' []"
    using unmap_one_Some [OF ok m] by blast
  define area' where "area' = area\<lparr>data_frames := btree_remove v (data_frames area)\<rparr>"
  have A: "btree_wf (data_frames area)" "distinct (area_frames area)" "mm_inv s"
    "map_type area = Identical \<Longrightarrow> data_frames area = []"
    using ok by (auto simp: area_own_def pt_ok_def)
  have b: "b = (area', pt, s')"
  proof (cases "map_type area")
    case Identical
    then have "area' = area" using A(4) by (simp add: area'_def btree_remove_def)
    with Identical U(1) show ?thesis by simp
  next
    case Framed
    with U(1) show ?thesis by (simp add: area'_def)
  qed
  note R = area_frames_remove(1) [OF A(1,2), of v, folded area'_def]
  have opt: "set_option (btree_get v (data_frames area)) \<subseteq> set (area_frames area)"
    using A(1) area_frame_in by (auto simp: btree_get_Some)
  have "fst ` set (data_frames area') = fst ` set (data_frames area) - {v}"
    by (auto simp: area'_def btree_remove_def)
  moreover have "mm_live s' = mm_live s - (set (area_frames area) - set (area_frames area'))"
    using U(5) drop_opt_live(2) [OF A(3) U(2)] R opt by (auto simp: pt_ext_def)
  moreover have "agree_on (- set (pt_frames pt)) (mem s) (mem s')"
    using pt_ext_same_agree [OF U(5), of "- set (pt_frames pt)"] U(3) by simp
  ultimately show ?thesis using R by (simp add: b area'_def)
qed

lemma unmap_loop_facts:
  "foldM unmap_one vs (area, pt, s) = Some b \<Longrightarrow> area_own (area, pt, s) \<Longrightarrow>
    \<exists>area' s'. b = (area', pt, s') \<and> set (area_frames area') \<subseteq> set (area_frames area)
      \<and> mm_live s' = mm_live s - (set (area_frames area) - set (area_frames area'))
      \<and> fst ` set (data_frames area') = fst ` set (data_frames area) - set vs
      \<and> agree_on (- set (pt_frames pt)) (mem s) (mem s')"
proof (induction vs arbitrary: area s)
  case (Cons v vs)
  then obtain c where c: "unmap_one v (area, pt, s) = Some c" "foldM unmap_one vs c = Some b"
    by (auto simp: bind_eq_Some_conv)
  obtain area1 s1 where c1: "c = (area1, pt, s1)" "set (area_frames area1) \<subseteq> set (area_frames area)"
    "mm_live s1 = mm_live s - (set (area_frames area) - set (area_frames area1))"
    "fst ` set (data_frames area1) = fst ` set (data_frames area) - {v}"
    "agree_on (- set (pt_frames pt)) (mem s) (mem s1)"
    using unmap_one_facts [OF Cons.prems(2) c(1)] by blast
  have "area_own (area1, pt, s1)" using area_unmapper.one_ok [OF Cons.prems(2) c(1)] c1(1) by simp
  from Cons.IH [OF c(2) [unfolded c1(1)] this] obtain area' s' where I: "b = (area', pt, s')"
    "set (area_frames area') \<subseteq> set (area_frames area1)"
    "mm_live s' = mm_live s1 - (set (area_frames area1) - set (area_frames area'))"
    "fst ` set (data_frames area') = fst ` set (data_frames area1) - set vs"
    "agree_on (- set (pt_frames pt)) (mem s1) (mem s')" by blast
  have "mm_live s' = mm_live s - (set (area_frames area) - set (area_frames area'))"
    using c1(2,3) I(2,3) by blast
  moreover have "fst ` set (data_frames area') = fst ` set (data_frames area) - set (v # vs)"
    using c1(4) I(4) by auto
  ultimately show ?case
    using I(1,2) c1(2) agree_on_trans [OF c1(5) I(5)] by blast
qed auto

lemma distinct_ms_frames_area:
  assumes "distinct (ms_frames ms)" and "i < length (areas ms)"
  shows "distinct (pt_frames (page_table ms) @ area_frames (areas ms ! i)
      @ concat (map area_frames (remove_nth i (areas ms))))"
    and "set (ms_frames ms) = set (pt_frames (page_table ms)) \<union> set (area_frames (areas ms ! i))
      \<union> set (concat (map area_frames (remove_nth i (areas ms))))"
proof -
  have "mset (concat (map area_frames (areas ms)))
      = mset (area_frames (areas ms ! i)) + mset (concat (map area_frames (remove_nth i (areas ms))))"
    by (subst id_take_nth_drop [OF assms(2)]) (simp add: remove_nth_def)
  then have e: "mset (ms_frames ms) = mset (pt_frames (page_table ms) @ area_frames (areas ms ! i)
      @ concat (map area_frames (remove_nth i (areas ms))))"
    by (simp add: ms_frames_def)
  show "distinct (pt_frames (page_table ms) @ area_frames (areas ms ! i)
      @ concat (map area_frames (remove_nth i (areas ms))))"
    using mset_eq_imp_distinct_iff [OF e] assms(1) by simp
  show "set (ms_frames ms) = set (pt_frames (page_table ms)) \<union> set (area_frames (areas ms ! i))
      \<union> set (concat (map area_frames (remove_nth i (areas ms))))"
    using mset_eq_setD [OF e] by (simp add: Un_assoc)
qed

text \<open>
  \<open>remove_area_with_start_vpn\<close> on the first area that starts there: when all its pages are
  mapped it unmaps them and gives back exactly the frames of that area.
\<close>

lemma remove_area_spec:
  assumes ok: "ms_ok ms s"
    and i: "find_index (\<lambda>a. range_l (vpn_range a) = l) (areas ms) = Some i"
    and keys: "distinct (map vkey (area_pages (areas ms ! i)))"
    and mapped: "\<forall>v \<in> set (area_pages (areas ms ! i)). pt_entry (mem s) (page_table ms) v \<noteq> None"
  shows "\<exists>s'. remove_area_with_start_vpn l ms s = Some (ms\<lparr>areas := remove_nth i (areas ms)\<rparr>, s')
    \<and> ms_ok (ms\<lparr>areas := remove_nth i (areas ms)\<rparr>) s'
    \<and> mm_live s' = mm_live s - set (area_frames (areas ms ! i))
    \<and> agree_on (- set (pt_frames (page_table ms))) (mem s) (mem s')
    \<and> (\<forall>w. pt_entry (mem s') (page_table ms) w =
         (if vkey w \<in> vkey ` set (area_pages (areas ms ! i)) then None
          else pt_entry (mem s) (page_table ms) w))"
proof -
  let ?a = "areas ms ! i" and ?pt = "page_table ms"
  have il: "i < length (areas ms)" using i by (simp add: find_index_Some)
  have dm: "distinct (ms_frames ms)" using ok by (simp add: ms_ok_def)
  note DM = distinct_ms_frames_area [OF dm il]
  have sh: "area_shape ?a" using ok il by (simp add: ms_ok_def)
  have own: "area_own (?a, ?pt, s)"
    using ok sh DM by (auto simp: area_own_def ms_ok_def area_shape_def)
  obtain b where b: "foldM unmap_one (area_pages ?a) (?a, ?pt, s) = Some b"
    using area_unmapper.unmap_loop_iff [OF own, of "area_pages ?a"] keys mapped
    by (auto simp: area_look_def)
  obtain a' s1 where U: "b = (a', ?pt, s1)" "set (area_frames a') \<subseteq> set (area_frames ?a)"
    "mm_live s1 = mm_live s - (set (area_frames ?a) - set (area_frames a'))"
    "agree_on (- set (pt_frames ?pt)) (mem s) (mem s1)"
    using unmap_loop_facts [OF b own] by blast
  have own1: "area_own (a', ?pt, s1)" using area_unmapper.loop_ok [OF b own] U(1) by simp
  then have d: "distinct (area_frames a')" "set (area_frames a') \<subseteq> mm_live s1" "mm_inv s1"
    "set (pt_frames ?pt) \<inter> set (area_frames a') = {}"
    by (auto simp: area_own_def pt_ok_def)
  obtain s' where s': "drop_frames (area_frames a') s1 = Some s'"
    "mm_live s' = mm_live s1 - set (area_frames a')" "mm_inv s'" "mem s' = mem s1"
    using drop_frames_ok [OF d(3,1,2)] by blast
  have live: "mm_live s' = mm_live s - set (area_frames ?a)" using U(2,3) s'(2) by auto
  have look: "pt_entry (mem s') ?pt w = (if vkey w \<in> vkey ` set (area_pages ?a) then None
      else pt_entry (mem s) ?pt w)" for w
    using area_unmapper.loop_gone [OF b own, of w] area_unmapper.loop_other [OF b own, of w] s'(4)
    by (simp add: area_look_def U(1))
  have "pt_ok ?pt s'" using own1 d(4) s'(2-4) by (auto simp: area_own_def pt_ok_def)
  moreover have "set (pt_frames ?pt @ concat (map area_frames (remove_nth i (areas ms)))) \<subseteq> mm_live s'"
  proof -
    have "set (pt_frames ?pt @ concat (map area_frames (remove_nth i (areas ms))))
        \<subseteq> set (ms_frames ms) - set (area_frames ?a)"
      unfolding DM(2) using DM(1) by auto
    then show ?thesis using ok live unfolding ms_ok_def by blast
  qed
  ultimately have "ms_ok (ms\<lparr>areas := remove_nth i (areas ms)\<rparr>) s'"
    using ok DM(1) set_remove_nth [of i "areas ms"] by (auto simp: ms_ok_def ms_frames_def)
  moreover have "remove_area_with_start_vpn l ms s = Some (ms\<lparr>areas := remove_nth i (areas ms)\<rparr>, s')"
    using b s'(1) by (simp add: remove_area_with_start_vpn_def i maparea_unmap_def drop_area_def
        area_pages_def area_frames_def U(1))
  ultimately show ?thesis using live look U(4) s'(4) by simp
qed

end
