(* ===== verification/Pid.thy ===== *)
theory Pid
  imports SpaceOps
begin

text \<open>
  Process identifiers and kernel stacks: \<open>task/pid.rs\<close>. A \<open>PidHandle\<close> is its number; the
  kernel stack of a process lies in kernel space below the trampoline at a position that
  depends on the number only, each stack with a guard page below it.
\<close>

section \<open>The allocator\<close>

record PidAllocator =
  pid_current :: usize
  pid_recycled :: "usize list"

type_synonym PidHandle = usize

definition pid_allocator_new :: PidAllocator where
  "pid_allocator_new = \<lparr>pid_current = 0, pid_recycled = []\<rparr>"

definition pid_alloc :: "PidAllocator \<Rightarrow> PidHandle \<times> PidAllocator" where
  "pid_alloc a =
     (if pid_recycled a \<noteq> [] then (last (pid_recycled a), a\<lparr>pid_recycled := butlast (pid_recycled a)\<rparr>)
      else (let a = a\<lparr>pid_current := pid_current a + 1\<rparr> in (pid_current a - 1, a)))"

definition pid_dealloc :: "usize \<Rightarrow> PidAllocator \<Rightarrow> PidAllocator option" where
  "pid_dealloc pid a = do {
     rassert (pid < pid_current a);
     rassert (\<not> list_ex (\<lambda>ppid. ppid = pid) (pid_recycled a));
     Some (a\<lparr>pid_recycled := pid_recycled a @ [pid]\<rparr>) }"

section \<open>Kernel stacks\<close>

definition kernel_stack_position :: "usize \<Rightarrow> usize \<times> usize" where
  "kernel_stack_position app_id =
     (let top = TRAMPOLINE - app_id * (KERNEL_STACK_SIZE + PAGE_SIZE);
          bottom = top - KERNEL_STACK_SIZE
      in (bottom, top))"

record KernelStack =
  ks_pid :: usize

definition kernel_stack_new ::
  "PidHandle \<Rightarrow> MemorySet \<Rightarrow> mm \<Rightarrow> (KernelStack \<times> MemorySet \<times> mm) option" where
  "kernel_stack_new pid_handle kernel_space s = do {
     let (kernel_stack_bottom, kernel_stack_top) = kernel_stack_position pid_handle;
     (kernel_space, s) \<leftarrow> insert_framed_area (VirtAddr kernel_stack_bottom)
        (VirtAddr kernel_stack_top) (MapPermission_R OR MapPermission_W) kernel_space s;
     Some (\<lparr>ks_pid = pid_handle\<rparr>, kernel_space, s) }"

definition kernel_stack_get_top :: "KernelStack \<Rightarrow> usize" where
  "kernel_stack_get_top ks = snd (kernel_stack_position (ks_pid ks))"

definition kernel_stack_drop :: "KernelStack \<Rightarrow> MemorySet \<Rightarrow> mm \<Rightarrow> (MemorySet \<times> mm) option" where
  "kernel_stack_drop ks kernel_space s = do {
     let (kernel_stack_bottom, _) = kernel_stack_position (ks_pid ks);
     vpn \<leftarrow> vpn_of_va (VirtAddr kernel_stack_bottom);
     remove_area_with_start_vpn vpn kernel_space s }"

section \<open>The allocator keeps its contract\<close>

definition pid_inv :: "PidAllocator \<Rightarrow> bool" where
  "pid_inv a \<longleftrightarrow> distinct (pid_recycled a) \<and> (\<forall>p \<in> set (pid_recycled a). p < pid_current a)"

definition pid_live :: "PidAllocator \<Rightarrow> usize set" where
  "pid_live a = {p. p < pid_current a} - set (pid_recycled a)"

text \<open>The counter has not reached the largest \<open>usize\<close>.\<close>

definition pid_room :: "PidAllocator \<Rightarrow> bool" where
  "pid_room a \<longleftrightarrow> pid_current a < - 1"

lemma pid_dealloc_Some:
  "pid_dealloc p a = Some a' \<longleftrightarrow>
     p \<in> pid_live a \<and> a' = a\<lparr>pid_recycled := pid_recycled a @ [p]\<rparr>"
  by (auto simp: pid_dealloc_def pid_live_def list_ex_iff)

lemma pid_alloc_cases:
  assumes "pid_alloc a = (p, a')"
  obtains (recycled) rs where "pid_recycled a = rs @ [p]" "a' = a\<lparr>pid_recycled := rs\<rparr>"
  | (bump) "pid_recycled a = []" "p = pid_current a" "a' = a\<lparr>pid_current := pid_current a + 1\<rparr>"
proof (cases "pid_recycled a = []")
  case True
  with assms have "p = pid_current a" "a' = a\<lparr>pid_current := pid_current a + 1\<rparr>"
    by (auto simp: pid_alloc_def Let_def)
  with True show ?thesis by (rule bump)
next
  case False
  then have "pid_recycled a = butlast (pid_recycled a) @ [p]" "a' = a\<lparr>pid_recycled := butlast (pid_recycled a)\<rparr>"
    using assms by (auto simp: pid_alloc_def)
  then show ?thesis by (rule recycled)
qed

lemma pid_alloc_fresh: "pid_inv a \<Longrightarrow> pid_alloc a = (p, a') \<Longrightarrow> p \<notin> pid_live a"
  by (erule pid_alloc_cases) (auto simp: pid_live_def)

lemma pid_alloc_live:
  "pid_inv a \<Longrightarrow> pid_room a \<Longrightarrow> pid_alloc a = (p, a') \<Longrightarrow> pid_live a' = insert p (pid_live a)"
  by (erule pid_alloc_cases)
    (auto simp: pid_live_def pid_inv_def pid_room_def word_Suc_less)

lemma pid_alloc_inv: "pid_inv a \<Longrightarrow> pid_alloc a = (p, a') \<Longrightarrow> pid_inv a'"
  by (erule pid_alloc_cases) (auto simp: pid_inv_def)

interpretation pids: id_allocator "\<lambda>a. apfst Some (pid_alloc a)" pid_dealloc pid_inv pid_live pid_room
proof unfold_locales
  fix a p a'
  assume i: "pid_inv a" and r: "pid_room a" and "apfst Some (pid_alloc a) = (Some p, a')"
  then have "pid_alloc a = (p, a')" by (cases "pid_alloc a") simp
  then show "p \<notin> pid_live a" "pid_live a' = insert p (pid_live a)" "pid_inv a'"
    using i r pid_alloc_fresh pid_alloc_live pid_alloc_inv by blast+
next
  fix a a'
  assume "apfst Some (pid_alloc a) = (None, a')"
  then show "a' = a" by (cases "pid_alloc a") simp
qed (auto simp: pid_dealloc_Some pid_inv_def pid_live_def)

section \<open>Positions of the kernel stacks\<close>

text \<open>
  In page numbers: the stack of \<open>pid\<close> takes 20 pages and ends \<open>21 * pid\<close> pages below the
  trampoline's page. The bound keeps the subtraction from wrapping and the pages of all
  stacks apart in the 27 bits that the page table looks at.
\<close>

definition stack_range :: "usize \<Rightarrow> VPNRange" where
  "stack_range pid = (let (bottom, top) = kernel_stack_position pid
     in \<lparr>range_l = va_floor (VirtAddr bottom), range_r = va_ceil (VirtAddr top)\<rparr>)"

lemma unat_stack_offset:
  assumes "unat pid < 2 ^ 22"
  shows "unat (pid * (KERNEL_STACK_SIZE + PAGE_SIZE)) = unat pid * 86016"
proof -
  have "unat pid * 86016 < 2 ^ 64" using assms by simp
  then show ?thesis by (simp add: config_simps unat_mult_lem [THEN iffD1])
qed

lemma unat_kernel_stack:
  assumes "unat pid < 2 ^ 22"
  shows "unat (snd (kernel_stack_position pid)) = 2 ^ 64 - 4096 - unat pid * 86016"
    and "unat (fst (kernel_stack_position pid)) = 2 ^ 64 - 4096 - unat pid * 86016 - 81920"
proof -
  let ?o = "pid * (KERNEL_STACK_SIZE + PAGE_SIZE)"
  have o: "unat ?o = unat pid * 86016" by (rule unat_stack_offset [OF assms])
  have t: "unat TRAMPOLINE = 2 ^ 64 - 4096" by (simp add: config_simps)
  have le: "?o \<le> TRAMPOLINE" using o t assms by (simp add: word_le_nat_alt)
  then have top: "unat (TRAMPOLINE - ?o) = 2 ^ 64 - 4096 - unat pid * 86016"
    by (simp only: unat_sub o t)
  then show "unat (snd (kernel_stack_position pid)) = 2 ^ 64 - 4096 - unat pid * 86016"
    by (simp add: kernel_stack_position_def Let_def)
  have k: "unat KERNEL_STACK_SIZE = 81920" by (simp add: KERNEL_STACK_SIZE_def)
  have "KERNEL_STACK_SIZE \<le> TRAMPOLINE - ?o" using top k assms by (simp add: word_le_nat_alt)
  then have "unat (TRAMPOLINE - ?o - KERNEL_STACK_SIZE) = 2 ^ 64 - 4096 - unat pid * 86016 - 81920"
    by (simp only: unat_sub top k)
  then show "unat (fst (kernel_stack_position pid)) = 2 ^ 64 - 4096 - unat pid * 86016 - 81920"
    by (simp add: kernel_stack_position_def Let_def)
qed

lemma unat_stack_range:
  assumes "unat pid < 2 ^ 22"
  shows "unat (vpn0 (range_l (stack_range pid))) = 2 ^ 52 - 1 - 21 * unat pid - 20"
    and "unat (vpn0 (range_r (stack_range pid))) = 2 ^ 52 - 1 - 21 * unat pid"
    and "range_l (stack_range pid) \<le> range_r (stack_range pid)"
proof -
  note K = unat_kernel_stack [OF assms]
  have d: "(2 ^ 64 - 4096 - n * 86016 - 81920) div 4096 = 2 ^ 52 - 1 - 21 * n - (20::nat)"
    "(2 ^ 64 - 4096 - n * 86016 + 4095) div 4096 = 2 ^ 52 - 1 - 21 * (n::nat)"
    if "n < 2 ^ 22" for n
    using that by simp_all
  show l: "unat (vpn0 (range_l (stack_range pid))) = 2 ^ 52 - 1 - 21 * unat pid - 20"
    using K(2) d(1) [OF assms]
    by (simp add: stack_range_def split_beta unat_va_floor)
  have "unat (va0 (VirtAddr (snd (kernel_stack_position pid)))) + 4095 < 2 ^ 64"
    using K(1) assms by simp
  from unat_va_ceil [OF this] show r: "unat (vpn0 (range_r (stack_range pid))) = 2 ^ 52 - 1 - 21 * unat pid"
    using K(1) d(2) [OF assms] by (simp add: stack_range_def split_beta)
  show "range_l (stack_range pid) \<le> range_r (stack_range pid)"
    using l r by (simp add: less_eq_VirtPageNum_def word_le_nat_alt)
qed

lemma stack_page_key:
  assumes p: "unat pid < 2 ^ 22" and v: "v \<in> set (range_list (stack_range pid))"
  shows "\<exists>j. 1 \<le> j \<and> j \<le> 20 \<and> unat (vpn0 v) = 2 ^ 52 - 1 - 21 * unat pid - j
    \<and> vkey v = 2 ^ 27 - 1 - 21 * unat pid - j"
proof -
  note R = unat_stack_range [OF p]
  have b: "2 ^ 52 - 1 - 21 * unat pid - 20 \<le> unat (vpn0 v)" "unat (vpn0 v) < 2 ^ 52 - 1 - 21 * unat pid"
    using v R by (simp_all add: set_range_list less_eq_VirtPageNum_def less_VirtPageNum_def
        word_le_nat_alt word_less_nat_alt)
  define j where "j = 2 ^ 52 - 1 - 21 * unat pid - unat (vpn0 v)"
  have j: "1 \<le> j" "j \<le> 20" using b p by (auto simp: j_def)
  have u: "unat (vpn0 v) = 2 ^ 52 - 1 - 21 * unat pid - j" using b by (simp add: j_def)
  have "unat (vpn0 v) = (2 ^ 25 - 1) * 2 ^ 27 + (2 ^ 27 - 1 - 21 * unat pid - j)"
    using u p j by simp
  moreover have "2 ^ 27 - 1 - 21 * unat pid - j < 2 ^ 27" by simp
  ultimately have "vkey v = 2 ^ 27 - 1 - 21 * unat pid - j"
    unfolding vkey_def by (simp only: mod_mult_self3 mod_less)
  with j u show ?thesis by blast
qed

lemma distinct_stack_keys:
  assumes p: "unat pid < 2 ^ 22"
  shows "distinct (map vkey (range_list (stack_range pid)))"
proof -
  have "inj_on vkey (set (range_list (stack_range pid)))"
  proof (rule inj_onI)
    fix v w
    assume v: "v \<in> set (range_list (stack_range pid))" and w: "w \<in> set (range_list (stack_range pid))"
      and e: "vkey v = vkey w"
    obtain i where i: "1 \<le> i" "i \<le> 20" "unat (vpn0 v) = 2 ^ 52 - 1 - 21 * unat pid - i"
      "vkey v = 2 ^ 27 - 1 - 21 * unat pid - i" using stack_page_key [OF p v] by blast
    obtain j where j: "1 \<le> j" "j \<le> 20" "unat (vpn0 w) = 2 ^ 52 - 1 - 21 * unat pid - j"
      "vkey w = 2 ^ 27 - 1 - 21 * unat pid - j" using stack_page_key [OF p w] by blast
    have "i = j" using i(1,2,4) j(1,2,4) e p by simp
    with i(3) j(3) show "v = w" by (simp add: VirtPageNum.expand word_unat_eq_iff)
  qed
  then show ?thesis
    using distinct_range_list [OF unat_stack_range(3) [OF p]] by (simp add: distinct_map)
qed

lemma stack_keys_apart:
  assumes p: "unat p < 2 ^ 22" and q: "unat q < 2 ^ 22" and ne: "p \<noteq> q"
    and v: "v \<in> set (range_list (stack_range p))" and w: "w \<in> set (range_list (stack_range q))"
  shows "vkey v \<noteq> vkey w"
proof -
  obtain i where i: "1 \<le> i" "i \<le> 20" "vkey v = 2 ^ 27 - 1 - 21 * unat p - i"
    using stack_page_key [OF p v] by blast
  obtain j where j: "1 \<le> j" "j \<le> 20" "vkey w = 2 ^ 27 - 1 - 21 * unat q - j"
    using stack_page_key [OF q w] by blast
  have "unat p \<noteq> unat q" using ne by (simp add: word_unat_eq_iff)
  moreover have "21 * unat p + i < 2 ^ 27" "21 * unat q + j < 2 ^ 27" using p q i j by simp_all
  ultimately show ?thesis unfolding i(3) j(3) using i(1,2) j(1,2) by auto
qed

text \<open>
  C38. Kernel stacks do not meet. For two pids below 3195660 the stack of the larger one ends a guard page or more below
  the stack of the smaller one, both are page aligned, at most the trampoline's address, and in the upper half of the
  39-bit address space; no page of one has the page-table indices of a page of the other.
\<close>

theorem kernel_stacks_apart:
  assumes "p < q" and "q < 3195660"
  shows "unat (snd (kernel_stack_position q)) + unat PAGE_SIZE \<le> unat (fst (kernel_stack_position p))
    \<and> unat (fst (kernel_stack_position p)) + unat KERNEL_STACK_SIZE = unat (snd (kernel_stack_position p))
    \<and> unat (snd (kernel_stack_position p)) \<le> unat TRAMPOLINE
    \<and> unat PAGE_SIZE dvd unat (fst (kernel_stack_position p)) \<and> unat PAGE_SIZE dvd unat (fst (kernel_stack_position q))
    \<and> 2 ^ 64 - 2 ^ 38 \<le> unat (fst (kernel_stack_position q))
    \<and> (\<forall>v \<in> set (range_list (stack_range p)). \<forall>w \<in> set (range_list (stack_range q)). vkey v \<noteq> vkey w)"
proof -
  have n: "unat p < unat q" "unat q < 3195660" using assms by (simp_all add: word_less_nat_alt)
  then have b: "unat p < 2 ^ 22" "unat q < 2 ^ 22" by simp_all
  have d: "4096 dvd 2 ^ 64 - 4096 - k * 86016 - (81920::nat)" if "k < 2 ^ 22" for k
    by (intro dvd_diff_nat) simp_all
  have a: "18446744073709551616 - n * 86016 \<le> 18446744073709465600 - m * (86016::nat)"
    "18446743798831644672 \<le> 18446744073709465600 - n * (86016::nat)" if "m < n" "n < 3195660" for m n
    using that by arith+
  have "p \<noteq> q" using assms(1) by simp
  then show ?thesis
    using n a [OF n] d [OF b(1)] d [OF b(2)] stack_keys_apart [OF b] by (simp add: unat_kernel_stack [OF b(1)] unat_kernel_stack [OF b(2)] config_simps)
qed

theorem kernel_stacks_apart_witness:
  "unat (snd (kernel_stack_position 3)) + unat PAGE_SIZE \<le> unat (fst (kernel_stack_position 2)) \<and> kernel_stack_position 0 = (- 86016, - 4096)"
  using conjunct1 [OF kernel_stacks_apart [of 2 3]] by (simp add: kernel_stack_position_def config_simps)

end
