(* ===== verification/RiscvRegister.thy ===== *)
theory RiscvRegister
  imports Prelude
begin

text \<open>
  The supervisor registers as the \<open>riscv\<close> crate decodes them: \<open>register/scause.rs\<close>,
  \<open>sstatus.rs\<close>, \<open>satp.rs\<close>, \<open>stvec.rs\<close> and \<open>sie.rs\<close>. The accessors of the crate \<open>bit_field\<close> are a
  parameter, with their documented meaning as the hypothesis \<open>bit_field_ok\<close>.
\<close>

record bit_field =
  get_bit :: "usize \<Rightarrow> nat \<Rightarrow> bool"
  set_bit_to :: "usize \<Rightarrow> nat \<Rightarrow> bool \<Rightarrow> usize"
  get_bits :: "usize \<Rightarrow> nat \<Rightarrow> nat \<Rightarrow> usize"
  set_bits :: "usize \<Rightarrow> nat \<Rightarrow> nat \<Rightarrow> usize \<Rightarrow> usize"

text \<open>
  \<open>get_bits w lo hi\<close> is the field \<open>lo..hi\<close> of \<open>w\<close>; \<open>set_bits\<close> replaces it by a value that fits.
\<close>

definition bit_field_ok :: "bit_field \<Rightarrow> bool" where
  "bit_field_ok bf \<longleftrightarrow>
     (\<forall>w i. i < 64 \<longrightarrow> get_bit bf w i = bit w i)
     \<and> (\<forall>w i b. i < 64 \<longrightarrow> set_bit_to bf w i b = (if b then set_bit i w else unset_bit i w))
     \<and> (\<forall>w lo hi. lo < hi \<longrightarrow> hi \<le> 64 \<longrightarrow> get_bits bf w lo hi = take_bit (hi - lo) (drop_bit lo w))
     \<and> (\<forall>w lo hi v. lo < hi \<longrightarrow> hi \<le> 64 \<longrightarrow> unat v < 2 ^ (hi - lo) \<longrightarrow>
          set_bits bf w lo hi v = (w AND NOT (push_bit lo (mask (hi - lo)))) OR push_bit lo v)"

section \<open>scause\<close>

datatype Interrupt = UserSoft | VirtualSupervisorSoft | SupervisorSoft | UserTimer
  | VirtualSupervisorTimer | SupervisorTimer | UserExternal | VirtualSupervisorExternal
  | SupervisorExternal | UnknownInterrupt

datatype Exception = InstructionMisaligned | InstructionFault | IllegalInstruction | Breakpoint
  | LoadFault | StoreMisaligned | StoreFault | UserEnvCall | VirtualSupervisorEnvCall
  | InstructionPageFault | LoadPageFault | StorePageFault | InstructionGuestPageFault
  | LoadGuestPageFault | VirtualInstruction | StoreGuestPageFault | UnknownException

datatype Trap = Interrupt Interrupt | Exception Exception

definition Interrupt_from :: "usize \<Rightarrow> Interrupt" where
  "Interrupt_from nr =
     (if nr = 0 then UserSoft else if nr = 1 then SupervisorSoft
      else if nr = 2 then VirtualSupervisorSoft else if nr = 4 then UserTimer
      else if nr = 5 then SupervisorTimer else if nr = 6 then VirtualSupervisorTimer
      else if nr = 8 then UserExternal else if nr = 9 then SupervisorExternal
      else if nr = 10 then VirtualSupervisorExternal else UnknownInterrupt)"

definition Exception_from :: "usize \<Rightarrow> Exception" where
  "Exception_from nr =
     (if nr = 0 then InstructionMisaligned else if nr = 1 then InstructionFault
      else if nr = 2 then IllegalInstruction else if nr = 3 then Breakpoint
      else if nr = 5 then LoadFault else if nr = 6 then StoreMisaligned
      else if nr = 7 then StoreFault else if nr = 8 then UserEnvCall
      else if nr = 10 then VirtualSupervisorEnvCall else if nr = 12 then InstructionPageFault
      else if nr = 13 then LoadPageFault else if nr = 15 then StorePageFault
      else if nr = 20 then InstructionGuestPageFault else if nr = 21 then LoadGuestPageFault
      else if nr = 22 then VirtualInstruction else if nr = 23 then StoreGuestPageFault
      else UnknownException)"

definition scause_code :: "usize \<Rightarrow> usize" where
  "scause_code w = (let b = push_bit (8 * 8 - 1) 1 in w AND NOT b)"

definition scause_is_interrupt :: "bit_field \<Rightarrow> usize \<Rightarrow> bool" where
  "scause_is_interrupt bf w = get_bit bf w (8 * 8 - 1)"

definition scause_is_exception :: "bit_field \<Rightarrow> usize \<Rightarrow> bool" where
  "scause_is_exception bf w \<longleftrightarrow> \<not> scause_is_interrupt bf w"

definition scause_cause :: "bit_field \<Rightarrow> usize \<Rightarrow> Trap" where
  "scause_cause bf w =
     (if scause_is_interrupt bf w then Interrupt (Interrupt_from (scause_code w))
      else Exception (Exception_from (scause_code w)))"

section \<open>sstatus\<close>

datatype SPP = Supervisor | User

definition sstatus_spp :: "bit_field \<Rightarrow> usize \<Rightarrow> SPP" where
  "sstatus_spp bf w = (if get_bit bf w 8 then Supervisor else User)"

definition sstatus_set_spp :: "bit_field \<Rightarrow> SPP \<Rightarrow> usize \<Rightarrow> usize" where
  "sstatus_set_spp bf v w = set_bit_to bf w 8 (v = Supervisor)"

section \<open>satp\<close>

datatype Mode = Bare | Sv39 | Sv48 | Sv57 | Sv64

definition satp_mode :: "bit_field \<Rightarrow> usize \<Rightarrow> Mode option" where
  "satp_mode bf w = (let v = get_bits bf w 60 64
     in if v = 0 then Some Bare else if v = 8 then Some Sv39 else if v = 9 then Some Sv48
        else if v = 10 then Some Sv57 else if v = 11 then Some Sv64 else None)"

definition satp_asid :: "bit_field \<Rightarrow> usize \<Rightarrow> usize" where
  "satp_asid bf w = get_bits bf w 44 60"

definition satp_ppn :: "bit_field \<Rightarrow> usize \<Rightarrow> usize" where
  "satp_ppn bf w = get_bits bf w 0 44"

definition Mode_usize :: "Mode \<Rightarrow> usize" where
  "Mode_usize m = (case m of Bare \<Rightarrow> 0 | Sv39 \<Rightarrow> 8 | Sv48 \<Rightarrow> 9 | Sv57 \<Rightarrow> 10 | Sv64 \<Rightarrow> 11)"

definition satp_set :: "bit_field \<Rightarrow> Mode \<Rightarrow> usize \<Rightarrow> usize \<Rightarrow> usize" where
  "satp_set bf mode asid ppn =
     (let bits = 0;
          bits = set_bits bf bits 60 64 (Mode_usize mode);
          bits = set_bits bf bits 44 60 asid
      in set_bits bf bits 0 44 ppn)"

section \<open>stvec and sie\<close>

datatype TrapMode = Direct | Vectored

definition stvec_address :: "usize \<Rightarrow> usize" where
  "stvec_address w = w - (w AND 3)"

definition stvec_trap_mode :: "usize \<Rightarrow> TrapMode option" where
  "stvec_trap_mode w = (let mode = w AND 3
     in if mode = 0 then Some Direct else if mode = 1 then Some Vectored else None)"

definition stvec_write :: "usize \<Rightarrow> TrapMode \<Rightarrow> usize" where
  "stvec_write addr mode = addr + (case mode of Direct \<Rightarrow> 0 | Vectored \<Rightarrow> 1)"

definition sie_set_stimer :: "usize \<Rightarrow> usize" where
  "sie_set_stimer w = w OR push_bit 5 1"

section \<open>Decoding\<close>

text \<open>A concrete \<open>bit_field\<close>, for the witnesses.\<close>

definition word_bit_field :: bit_field where
  "word_bit_field = \<lparr>get_bit = bit, set_bit_to = (\<lambda>w i b. if b then set_bit i w else unset_bit i w),
     get_bits = (\<lambda>w lo hi. take_bit (hi - lo) (drop_bit lo w)),
     set_bits = (\<lambda>w lo hi v. (w AND NOT (push_bit lo (mask (hi - lo)))) OR push_bit lo v)\<rparr>"

lemma word_bit_field_ok: "bit_field_ok word_bit_field"
  by (simp add: bit_field_ok_def word_bit_field_def)

lemma get_bit_eq: "bit_field_ok bf \<Longrightarrow> i < 64 \<Longrightarrow> get_bit bf w i = bit w i"
  by (simp add: bit_field_ok_def)

lemma get_bits_eq:
  "bit_field_ok bf \<Longrightarrow> lo < hi \<Longrightarrow> hi \<le> 64 \<Longrightarrow> get_bits bf w lo hi = take_bit (hi - lo) (drop_bit lo w)"
  by (simp add: bit_field_ok_def)

lemma sstatus_spp_set:
  "bit_field_ok bf \<Longrightarrow> sstatus_spp bf (sstatus_set_spp bf p w) = p"
  by (cases p) (simp_all add: bit_field_ok_def sstatus_spp_def sstatus_set_spp_def bit_simps)

lemma sstatus_set_spp_other:
  "bit_field_ok bf \<Longrightarrow> i \<noteq> 8 \<Longrightarrow> bit (sstatus_set_spp bf p w) i = bit w i"
  by (cases p) (auto simp: bit_field_ok_def sstatus_set_spp_def bit_simps dest: bit_imp_le_length)

end
