(* ===== verification/Context.thy ===== *)
theory Context
  imports Pid RiscvRegister
begin

text \<open>
  Saved contexts: \<open>trap/context.rs\<close> and \<open>task/context.rs\<close>. A \<open>TrapContext\<close> is \<open>repr(C)\<close> and
  consists of 37 words of 64 bits (\<open>Sstatus\<close> is one); the kernel accesses it in place in the
  frame that the process has at \<open>TRAP_CONTEXT\<close>.
\<close>

record TrapContext =
  cx_x :: "usize list"
  cx_sstatus :: usize
  cx_sepc :: usize
  cx_kernel_satp :: usize
  cx_kernel_sp :: usize
  cx_trap_handler :: usize

definition cx_set_sp :: "usize \<Rightarrow> TrapContext \<Rightarrow> TrapContext" where
  "cx_set_sp sp cx = cx\<lparr>cx_x := (cx_x cx)[2 := sp]\<rparr>"

text \<open>\<open>sstatus::read()\<close> is the argument \<open>csr\<close>.\<close>

definition app_init_context ::
  "bit_field \<Rightarrow> usize \<Rightarrow> usize \<Rightarrow> usize \<Rightarrow> usize \<Rightarrow> usize \<Rightarrow> usize \<Rightarrow> TrapContext" where
  "app_init_context bf csr entry sp kernel_satp kernel_sp trap_handler =
     (let sstatus = sstatus_set_spp bf User csr;
          cx = \<lparr>cx_x = replicate 32 0, cx_sstatus = sstatus, cx_sepc = entry,
                cx_kernel_satp = kernel_satp, cx_kernel_sp = kernel_sp, cx_trap_handler = trap_handler\<rparr>
      in cx_set_sp sp cx)"

definition cx_words :: "TrapContext \<Rightarrow> usize list" where
  "cx_words cx =
     cx_x cx @ [cx_sstatus cx, cx_sepc cx, cx_kernel_satp cx, cx_kernel_sp cx, cx_trap_handler cx]"

text \<open>Word \<open>i\<close> of the context at address \<open>a\<close>: registers 0 to 31, then the five fields.\<close>

definition cx_slot :: "usize \<Rightarrow> nat \<Rightarrow> usize" where
  "cx_slot a i = a + of_nat (8 * i)"

definition slot_sstatus :: nat where "slot_sstatus = 32"
definition slot_sepc :: nat where "slot_sepc = 33"
definition slot_kernel_satp :: nat where "slot_kernel_satp = 34"
definition slot_kernel_sp :: nat where "slot_kernel_sp = 35"
definition slot_trap_handler :: nat where "slot_trap_handler = 36"

lemmas slot_defs = slot_sstatus_def slot_sepc_def slot_kernel_satp_def slot_kernel_sp_def
  slot_trap_handler_def

definition cx_get :: "usize \<Rightarrow> nat \<Rightarrow> mm \<Rightarrow> usize" where
  "cx_get a i s = read_u64 (mem s) (cx_slot a i)"

definition cx_put :: "usize \<Rightarrow> nat \<Rightarrow> usize \<Rightarrow> mm \<Rightarrow> mm" where
  "cx_put a i w s = s\<lparr>mem := write_u64 (mem s) (cx_slot a i) w\<rparr>"

text \<open>\<open>*trap_cx = cx\<close>\<close>

definition cx_write :: "usize \<Rightarrow> TrapContext \<Rightarrow> mm \<Rightarrow> mm" where
  "cx_write a cx s = s\<lparr>mem := write_bytes (mem s) a (concat (map (le_encode 8) (cx_words cx)))\<rparr>"

record TaskContext =
  tc_ra :: usize
  tc_sp :: usize
  tc_s :: "usize list"

definition zero_init :: TaskContext where
  "zero_init = \<lparr>tc_ra = 0, tc_sp = 0, tc_s = replicate 12 0\<rparr>"

definition goto_trap_return :: "usize \<Rightarrow> usize \<Rightarrow> TaskContext" where
  "goto_trap_return trap_return kstack_ptr =
     \<lparr>tc_ra = trap_return, tc_sp = kstack_ptr, tc_s = replicate 12 0\<rparr>"

section \<open>Reading back a context\<close>

lemma cx_slot_frame: "cx_slot (frame_base p) i = pte_addr p i"
  by (simp add: cx_slot_def pte_addr_def)

lemma cx_get_put:
  assumes "ppn_ok p" and "i < 512" and "j < 512"
  shows "cx_get (frame_base p) i (cx_put (frame_base p) j w s)
       = (if i = j then w else cx_get (frame_base p) i s)"
  using pte_bits_write_same [of "mem s" p j w] pte_bits_write_other [OF assms(1,1,3,2), of "mem s" w] assms
  by (auto simp: cx_get_def cx_put_def cx_slot_frame pte_bits_def)

lemma cx_put_agree:
  assumes "ppn_ok p" and "i < 512"
  shows "agree_on (- {p}) (mem s) (mem (cx_put (frame_base p) i w s))"
  by (rule agree_on_other [of p]) (simp_all add: cx_put_def cx_slot_frame write_u64_other_frame assms)

lemma cx_put_allocator [simp]: "frame_allocator (cx_put a i w s) = frame_allocator s"
  by (simp add: cx_put_def)

lemma cx_write_allocator [simp]: "frame_allocator (cx_write a cx s) = frame_allocator s"
  by (simp add: cx_write_def)

lemma nth_concat_le_encode:
  "i < length ws \<Longrightarrow> k < 8 \<Longrightarrow>
    concat (map (le_encode 8) ws) ! (8 * i + k) = le_encode 8 (ws ! i) ! k"
proof (induction ws arbitrary: i)
  case (Cons w ws)
  show ?case
  proof (cases i)
    case 0
    with Cons.prems show ?thesis by (simp add: nth_append)
  next
    case (Suc j)
    then have "concat (map (le_encode 8) (w # ws)) ! (8 * i + k)
        = concat (map (le_encode 8) ws) ! (8 * j + k)"
      by (simp add: nth_append)
    with Suc Cons show ?thesis by simp
  qed
qed simp

lemma length_concat_le_encode: "length (concat (map (le_encode 8) ws)) = 8 * length ws"
  by (induction ws) simp_all

lemma cx_get_write:
  assumes l: "length (cx_x cx) = 32" and i: "i < 37"
  shows "cx_get a i (cx_write a cx s) = cx_words cx ! i"
proof -
  let ?ws = "cx_words cx" let ?bs = "concat (map (le_encode 8) ?ws)"
  have lw: "length ?ws = 37" using l by (simp add: cx_words_def)
  have lb: "length ?bs = 296" by (simp add: length_concat_le_encode lw)
  have "write_bytes (mem s) a ?bs (cx_slot a i + of_nat k) = le_encode 8 (?ws ! i) ! k" if "k < 8" for k
  proof -
    have e: "cx_slot a i + of_nat k = a + of_nat (8 * i + k)" by (simp add: cx_slot_def)
    have "write_bytes (mem s) a ?bs (cx_slot a i + of_nat k) = ?bs ! (8 * i + k)"
      unfolding e by (rule write_bytes_same) (use i that lb in simp_all)
    then show ?thesis using nth_concat_le_encode [of i ?ws k] i lw that by simp
  qed
  then have "read_bytes (write_bytes (mem s) a ?bs) (cx_slot a i) 8 = le_encode 8 (?ws ! i)"
    by (intro nth_equalityI) (simp_all add: read_bytes_def)
  then show ?thesis by (simp add: cx_get_def cx_write_def read_u64_def le_decode_encode_full)
qed

lemma cx_write_agree:
  assumes "ppn_ok p" and "length (cx_x cx) = 32"
  shows "agree_on (- {p}) (mem s) (mem (cx_write (frame_base p) cx s))"
proof (rule agree_on_other [of p])
  fix x
  assume "\<not> in_frame p x"
  then show "mem (cx_write (frame_base p) cx s) x = mem s x"
    using write_bytes_other_frame [OF assms(1), of 0 "concat (map (le_encode 8) (cx_words cx))" x "mem s"]
      assms(2) by (simp add: cx_write_def length_concat_le_encode cx_words_def)
qed simp

end
