(* ===== verification/Utf8.thy ===== *)
theory Utf8
  imports Prelude
begin

text \<open>
  \<open>core::str::from_utf8\<close>: the bytes that Rust accepts as a \<open>str\<close>, that is well-formed UTF-8
  without surrogates and without overlong encodings. The kernel unwraps its result when it
  reads the names of the applications and when it prints a user buffer.
\<close>

definition utf8_cont :: "u8 \<Rightarrow> bool" where
  "utf8_cont b \<longleftrightarrow> 0x80 \<le> b \<and> b \<le> 0xBF"

text \<open>The admissible second byte after a leading byte of three or four.\<close>

definition utf8_second3 :: "u8 \<Rightarrow> u8 \<Rightarrow> bool" where
  "utf8_second3 a b =
     (if a = 0xE0 then 0xA0 \<le> b \<and> b \<le> 0xBF
      else if a = 0xED then 0x80 \<le> b \<and> b \<le> 0x9F else utf8_cont b)"

definition utf8_second4 :: "u8 \<Rightarrow> u8 \<Rightarrow> bool" where
  "utf8_second4 a b =
     (if a = 0xF0 then 0x90 \<le> b \<and> b \<le> 0xBF
      else if a = 0xF4 then 0x80 \<le> b \<and> b \<le> 0x8F else utf8_cont b)"

fun utf8_valid :: "u8 list \<Rightarrow> bool" where
  "utf8_valid [] = True"
| "utf8_valid (a # bs) =
     (if a < 0x80 then utf8_valid bs
      else if 0xC2 \<le> a \<and> a \<le> 0xDF then
        (case bs of b # r \<Rightarrow> utf8_cont b \<and> utf8_valid r | [] \<Rightarrow> False)
      else if 0xE0 \<le> a \<and> a \<le> 0xEF then
        (case bs of b # c # r \<Rightarrow> utf8_second3 a b \<and> utf8_cont c \<and> utf8_valid r | _ \<Rightarrow> False)
      else if 0xF0 \<le> a \<and> a \<le> 0xF4 then
        (case bs of b # c # d # r \<Rightarrow> utf8_second4 a b \<and> utf8_cont c \<and> utf8_cont d \<and> utf8_valid r
         | _ \<Rightarrow> False)
      else False)"

definition from_utf8_unwrap :: "u8 list \<Rightarrow> u8 list option" where
  "from_utf8_unwrap bs = (if utf8_valid bs then Some bs else None)"

text \<open>\<open>str::chars\<close>: the code points of well-formed UTF-8.\<close>

definition utf8_low :: "u8 \<Rightarrow> usize" where
  "utf8_low b = ucast (b AND 0x3F)"

fun utf8_chars :: "u8 list \<Rightarrow> usize list" where
  "utf8_chars [] = []"
| "utf8_chars (a # bs) =
     (if a < 0x80 then ucast a # utf8_chars bs
      else if a < 0xE0 then
        (case bs of b # r \<Rightarrow> (push_bit 6 (ucast (a AND 0x1F)) OR utf8_low b) # utf8_chars r | [] \<Rightarrow> [])
      else if a < 0xF0 then
        (case bs of b # c # r \<Rightarrow>
           (push_bit 12 (ucast (a AND 0x0F)) OR push_bit 6 (utf8_low b) OR utf8_low c) # utf8_chars r
         | _ \<Rightarrow> [])
      else
        (case bs of b # c # d # r \<Rightarrow>
           (push_bit 18 (ucast (a AND 0x07)) OR push_bit 12 (utf8_low b) OR push_bit 6 (utf8_low c)
              OR utf8_low d) # utf8_chars r
         | _ \<Rightarrow> []))"

lemma utf8_valid_ascii: "(\<forall>b \<in> set bs. b < 0x80) \<Longrightarrow> utf8_valid bs"
  by (induction bs) auto

lemma utf8_chars_ascii: "(\<forall>b \<in> set bs. b < 0x80) \<Longrightarrow> utf8_chars bs = map ucast bs"
  by (induction bs) auto

section \<open>Literals and numbers\<close>

text \<open>The bytes of a literal, and numbers in decimal.\<close>

definition str_bytes :: "string \<Rightarrow> u8 list" where
  "str_bytes cs = map of_char cs"

fun dec :: "nat \<Rightarrow> u8 list" where
  "dec n = (if n < 10 then [48 + of_nat n] else dec (n div 10) @ [48 + of_nat (n mod 10)])"

declare dec.simps [simp del]

end
