(* ===== verification/Sbi.thy ===== *)
theory Sbi
  imports Address Utf8
begin

text \<open>
  The firmware interface, the console and the timer: \<open>sbi.rs\<close>, \<open>console.rs\<close> and \<open>timer.rs\<close>. The
  calls into the firmware are recorded in order; the value that a call returns and the value
  of the \<open>time\<close> register are inputs.
\<close>

datatype sbi_function = S_SET_TIMER | S_CONSOLE_PUTCHAR | S_CONSOLE_GETCHAR | S_SHUTDOWN

fun sbi_number :: "sbi_function \<Rightarrow> usize" where
  "sbi_number S_SET_TIMER = 0"
| "sbi_number S_CONSOLE_PUTCHAR = 1"
| "sbi_number S_CONSOLE_GETCHAR = 2"
| "sbi_number S_SHUTDOWN = 8"

declare sbi_number.simps [simp del]

abbreviation SBI_SET_TIMER :: usize where "SBI_SET_TIMER \<equiv> sbi_number S_SET_TIMER"
abbreviation SBI_CONSOLE_PUTCHAR :: usize where "SBI_CONSOLE_PUTCHAR \<equiv> sbi_number S_CONSOLE_PUTCHAR"
abbreviation SBI_CONSOLE_GETCHAR :: usize where "SBI_CONSOLE_GETCHAR \<equiv> sbi_number S_CONSOLE_GETCHAR"
abbreviation SBI_SHUTDOWN :: usize where "SBI_SHUTDOWN \<equiv> sbi_number S_SHUTDOWN"

record sbi_ecall =
  sbi_which :: usize
  sbi_arg0 :: usize
  sbi_arg1 :: usize
  sbi_arg2 :: usize

type_synonym sbi_log = "sbi_ecall list"

definition sbi_call :: "usize \<Rightarrow> usize \<Rightarrow> usize \<Rightarrow> usize \<Rightarrow> sbi_log \<Rightarrow> sbi_log" where
  "sbi_call which arg0 arg1 arg2 l =
     l @ [\<lparr>sbi_which = which, sbi_arg0 = arg0, sbi_arg1 = arg1, sbi_arg2 = arg2\<rparr>]"

definition set_timer :: "usize \<Rightarrow> sbi_log \<Rightarrow> sbi_log" where
  "set_timer timer l = sbi_call SBI_SET_TIMER timer 0 0 l"

definition console_putchar :: "usize \<Rightarrow> sbi_log \<Rightarrow> sbi_log" where
  "console_putchar c l = sbi_call SBI_CONSOLE_PUTCHAR c 0 0 l"

text \<open>\<open>ret\<close> is what the firmware returns.\<close>

definition console_getchar :: "usize \<Rightarrow> sbi_log \<Rightarrow> usize \<times> sbi_log" where
  "console_getchar ret l = (ret, sbi_call SBI_CONSOLE_GETCHAR 0 0 0 l)"

text \<open>The firmware does not return from this call.\<close>

definition shutdown :: "sbi_log \<Rightarrow> sbi_log" where
  "shutdown l = sbi_call SBI_SHUTDOWN 0 0 0 l"

definition write_str :: "u8 list \<Rightarrow> sbi_log \<Rightarrow> sbi_log" where
  "write_str str l = fold console_putchar (utf8_chars str) l"

text \<open>
  The panic handler, \<open>lang_items.rs\<close>: the location, if known, and the message are printed, and the machine is shut down. Elsewhere a
  panic is the value \<open>None\<close>, without the text it prints.
\<close>

definition kernel_panic :: "(u8 list \<times> nat) option \<Rightarrow> u8 list \<Rightarrow> sbi_log \<Rightarrow> sbi_log" where
  "kernel_panic location message l = shutdown (write_str ((case location of
       Some (file, line) \<Rightarrow> str_bytes ''Panicked at '' @ file @ str_bytes '':'' @ dec line @ str_bytes '' '' @ message
     | None \<Rightarrow> str_bytes ''[kernel] Panicked: '' @ message) @ [0x0A]) l)"

section \<open>timer.rs\<close>

definition TICKS_PER_SEC :: usize where "TICKS_PER_SEC = 100"
definition MICRO_PER_SEC :: usize where "MICRO_PER_SEC = 1000000"

definition get_time :: "usize \<Rightarrow> usize" where
  "get_time csr = csr"

definition get_time_us :: "usize \<Rightarrow> usize" where
  "get_time_us csr = csr div (CLOCK_FREQ div MICRO_PER_SEC)"

definition set_next_trigger :: "usize \<Rightarrow> sbi_log \<Rightarrow> sbi_log" where
  "set_next_trigger csr l = set_timer (get_time csr + CLOCK_FREQ div TICKS_PER_SEC) l"

definition get_time_ms :: "usize \<Rightarrow> usize" where
  "get_time_ms csr = get_time_us csr div 1000"

section \<open>Facts\<close>

text \<open>The characters that have been put on the console.\<close>

definition console_output :: "sbi_log \<Rightarrow> usize list" where
  "console_output l = map sbi_arg0 (filter (\<lambda>c. sbi_which c = SBI_CONSOLE_PUTCHAR) l)"

lemma console_output_putchars:
  "console_output (fold console_putchar cs l) = console_output l @ cs"
  by (induction cs arbitrary: l)
    (simp_all add: console_output_def console_putchar_def sbi_call_def)

lemma console_output_write_str:
  "console_output (write_str str l) = console_output l @ utf8_chars str"
  by (simp add: write_str_def console_output_putchars)

lemma unat_get_time_us: "unat (get_time_us t) = unat t div 12"
  by (simp add: get_time_us_def CLOCK_FREQ_def MICRO_PER_SEC_def word_div_unat)

lemma unat_get_time_ms: "unat (get_time_ms t) = unat t div 12000"
  by (simp add: get_time_ms_def word_div_unat unat_get_time_us flip: div_mult2_eq)

end
