(* ===== verification/Loader.thy ===== *)
theory Loader
  imports MemorySet Sbi
begin

text \<open>
  The applications linked into the kernel image: \<open>loader.rs\<close>, and its \<open>println!\<close>. The table at \<open>_num_app\<close> (the
  number of applications, their start addresses and the end of the last) and the names at
  \<open>_app_names\<close> are read from memory; the addresses of the two symbols are parameters.
\<close>

record app_symbols =
  sym_num_app :: usize
  sym_app_names :: usize

definition get_num_app :: "app_symbols \<Rightarrow> mm \<Rightarrow> usize" where
  "get_num_app sy s = read_u64 (mem s) (sym_num_app sy)"

text \<open>\<open>app_start[i]\<close>: the slice has \<open>num_app + 1\<close> elements.\<close>

definition app_start :: "app_symbols \<Rightarrow> usize \<Rightarrow> mm \<Rightarrow> usize option" where
  "app_start sy i s = do {
     rassert (i < get_num_app sy s + 1);
     Some (read_u64 (mem s) (sym_num_app sy + 8 + 8 * i)) }"

definition get_app_data :: "app_symbols \<Rightarrow> usize \<Rightarrow> mm \<Rightarrow> u8 list option" where
  "get_app_data sy app_id s = do {
     rassert (app_id < get_num_app sy s);
     a \<leftarrow> app_start sy app_id s;
     b \<leftarrow> app_start sy (app_id + 1) s;
     Some (read_bytes (mem s) a (unat (b - a))) }"

text \<open>\<open>while end.read_volatile() != 0 { end = end.add(1) }\<close>\<close>

partial_function (option) find_nul :: "mm \<Rightarrow> usize \<Rightarrow> usize option" where
  "find_nul s end = (if mem s end \<noteq> 0 then find_nul s (end + 1) else Some end)"

fun app_names_loop :: "nat \<Rightarrow> usize \<Rightarrow> u8 list list \<Rightarrow> mm \<Rightarrow> u8 list list option" where
  "app_names_loop 0 start v s = Some v"
| "app_names_loop (Suc n) start v s = do {
     end \<leftarrow> find_nul s start;
     str \<leftarrow> from_utf8_unwrap (read_bytes (mem s) start (unat (end - start)));
     app_names_loop n (end + 1) (v @ [str]) s }"

definition APP_NAMES :: "app_symbols \<Rightarrow> mm \<Rightarrow> u8 list list option" where
  "APP_NAMES sy s = app_names_loop (unat (get_num_app sy s)) (sym_app_names sy) [] s"

fun find_app :: "u8 list list \<Rightarrow> u8 list \<Rightarrow> nat list \<Rightarrow> nat option option" where
  "find_app names name [] = Some None"
| "find_app names name (i # is) = do {
     n \<leftarrow> index_of names i;
     if n = name then Some (Some i) else find_app names name is }"

text \<open>
  \<open>(0..num_app).find(|&i| APP_NAMES[i] == name).map(get_app_data)\<close>. \<open>APP_NAMES\<close> is forced only
  when there is an application; it reads data that is never written, so its cached value is
  the value computed again.
\<close>

definition get_app_data_by_name ::
  "app_symbols \<Rightarrow> u8 list \<Rightarrow> mm \<Rightarrow> u8 list option option" where
  "get_app_data_by_name sy name s = do {
     let num_app = unat (get_num_app sy s);
     if num_app = 0 then Some None
     else do {
       names \<leftarrow> APP_NAMES sy s;
       r \<leftarrow> find_app names name [0..<num_app];
       (case r of
          None \<Rightarrow> Some None
        | Some i \<Rightarrow> map_option Some (get_app_data sy (of_nat i) s)) } }"

text \<open>\<open>println!\<close> of a literal, and of a string.\<close>

definition println :: "u8 list \<Rightarrow> sbi_log \<Rightarrow> sbi_log" where
  "println str l = write_str [0x0A] (write_str str l)"

definition list_apps :: "app_symbols \<Rightarrow> mm \<Rightarrow> sbi_log \<Rightarrow> sbi_log option" where
  "list_apps sy s l = do {
     let l = println (str_bytes ''/**** APPS ****'') l;
     names \<leftarrow> APP_NAMES sy s;
     let l = fold println names l;
     Some (println (str_bytes ''**************/'') l) }"

section \<open>The names\<close>

text \<open>A name in memory: nonzero bytes from \<open>a\<close> on, then a zero byte.\<close>

definition c_string :: "mm \<Rightarrow> usize \<Rightarrow> u8 list \<Rightarrow> bool" where
  "c_string s a bs \<longleftrightarrow> length bs < 2 ^ 64 \<and> read_bytes (mem s) a (length bs) = bs
     \<and> 0 \<notin> set bs \<and> mem s (a + of_nat (length bs)) = 0"

lemma read_bytes_Suc: "read_bytes m a (Suc n) = m a # read_bytes m (a + 1) n"
  by (simp add: read_bytes_def upt_rec [of 0] map_Suc_upt [symmetric] add.assoc del: upt_Suc)

lemma find_nul_c_string:
  "read_bytes (mem s) a (length bs) = bs \<Longrightarrow> 0 \<notin> set bs \<Longrightarrow> mem s (a + of_nat (length bs)) = 0 \<Longrightarrow>
    find_nul s a = Some (a + of_nat (length bs))"
proof (induction bs arbitrary: a)
  case Nil
  then show ?case by (subst find_nul.simps) simp
next
  case (Cons b bs)
  then have "mem s a = b" "read_bytes (mem s) (a + 1) (length bs) = bs"
    by (simp_all add: read_bytes_Suc)
  then show ?case using Cons by (subst find_nul.simps) (auto simp: add.assoc)
qed

text \<open>Consecutive names from \<open>a\<close> on.\<close>

fun c_strings :: "mm \<Rightarrow> usize \<Rightarrow> u8 list list \<Rightarrow> bool" where
  "c_strings s a [] = True"
| "c_strings s a (bs # rest) \<longleftrightarrow> c_string s a bs \<and> utf8_valid bs
     \<and> c_strings s (a + of_nat (length bs) + 1) rest"

lemma app_names_loop_eq:
  "c_strings s a names \<Longrightarrow> app_names_loop (length names) a v s = Some (v @ names)"
proof (induction names arbitrary: a v)
  case (Cons bs rest)
  then have c: "c_string s a bs" and u: "utf8_valid bs" by simp_all
  have e: "find_nul s a = Some (a + of_nat (length bs))"
    using c find_nul_c_string by (simp add: c_string_def)
  have "unat (a + of_nat (length bs) - a) = length bs"
    using c by (simp add: c_string_def unat_of_nat_less)
  then show ?case using Cons c u e by (simp add: from_utf8_unwrap_def c_string_def)
qed simp

lemma find_app_eq:
  "i \<le> j \<Longrightarrow> j \<le> length names \<Longrightarrow> find_app names name [i..<j]
      = Some (map_option ((+) i) (find_index (\<lambda>n. n = name) (take (j - i) (drop i names))))"
proof (induction "j - i" arbitrary: i)
  case (Suc m)
  then have i: "i < j" "i < length names" by simp_all
  have d: "take (j - i) (drop i names) = names ! i # take (j - Suc i) (drop (Suc i) names)"
    using i by (simp add: take_Cons' Suc_diff_Suc flip: Cons_nth_drop_Suc)
  have "find_app names name [Suc i..<j] = Some (map_option ((+) (Suc i))
      (find_index (\<lambda>n. n = name) (take (j - Suc i) (drop (Suc i) names))))"
    by (rule Suc.hyps(1)) (use Suc i in simp_all)
  then show ?case using i
    by (cases "find_index (\<lambda>n. n = name) (take (j - Suc i) (drop (Suc i) names))")
      (simp_all add: d upt_conv_Cons index_of_def)
qed simp

text \<open>Looking an application up by name finds the first one with that name.\<close>

lemma get_app_data_by_name_eq:
  assumes n: "unat (get_num_app sy s) = length names" and c: "c_strings s (sym_app_names sy) names"
  shows "get_app_data_by_name sy name s =
    (case find_index (\<lambda>n. n = name) names of
       None \<Rightarrow> Some None
     | Some i \<Rightarrow> map_option Some (get_app_data sy (of_nat i) s))"
proof -
  have "APP_NAMES sy s = Some names" using app_names_loop_eq [OF c, of "[]"] by (simp add: APP_NAMES_def n)
  moreover have "find_app names name [0..<length names] = Some (find_index (\<lambda>n. n = name) names)"
    using find_app_eq [of 0 "length names" names name]
    by (cases "find_index (\<lambda>n. n = name) names") simp_all
  ultimately show ?thesis by (auto simp: get_app_data_by_name_def n Let_def split: option.splits)
qed

end
