(* ===== verification/Task.thy ===== *)
theory Task
  imports Context Loader
begin

text \<open>
  Task control blocks and the kernel state: \<open>task/task.rs\<close>. An \<open>Arc<TaskControlBlock>\<close> is an
  address (\<open>tid\<close>) into a store of control blocks, so that aliasing and reference counts are
  explicit; the state of the kernel's statics (the frame allocator, \<open>KERNEL_SPACE\<close>,
  \<open>PID_ALLOCATOR\<close>, \<open>TASK_MANAGER\<close>, \<open>PROCESSOR\<close>, \<open>INITPROC\<close>) is one record. What is outside
  the repository is in the record \<open>platform\<close>: linker symbols, the ELF parser, the addresses of
  the trap entry points and the layout of \<open>TaskInfo\<close>, which is not \<open>repr(C)\<close>.
\<close>

section \<open>The state of the kernel\<close>

datatype TaskStatus = UnInit | Ready | Running | Zombie

type_synonym tid = nat

record TaskControlBlock =
  tcb_pid :: PidHandle
  kernel_stack :: KernelStack
  trap_cx_ppn :: PhysPageNum
  base_size :: usize
  task_cx :: TaskContext
  task_status :: TaskStatus
  memory_set :: MemorySet
  parent :: "tid option"
  children :: "tid list"
  exit_code :: i32
  pass :: usize
  priority :: usize
  syscall_times :: "u32 list"
  start_time :: "usize option"

record TaskInfo =
  ti_status :: TaskStatus
  ti_syscall_times :: "u32 list"
  ti_time :: usize

record platform =
  p_ld :: linker_symbols
  p_apps :: app_symbols
  p_elf :: "u8 list \<Rightarrow> ElfFile option"
  p_bf :: bit_field
  p_trap_handler :: usize
  p_trap_return :: usize
  p_trap_from_kernel :: usize
  p_task_info :: "TaskInfo \<Rightarrow> u8 list"

text \<open>
  Where a task that was switched out continues in the kernel when it is switched in again: it
  starts in \<open>trap_return\<close>, or it returns from \<open>__switch\<close> inside \<open>sys_yield\<close>, inside the loop of
  \<open>sys_read\<close>, or inside the timer branch of \<open>trap_handler\<close>. This is the control part of what
  \<open>__switch\<close> saves in \<open>task_cx\<close> and on the kernel stack.
\<close>

datatype kcont = K_trap_return | K_yield | K_read usize usize | K_timer

record TaskManager =
  ready_queue :: "tid list"

record Processor =
  proc_current :: "tid option"
  idle_task_cx :: TaskContext

record kernel =
  kmm :: mm
  kernel_space :: MemorySet
  pid_allocator :: PidAllocator
  tcbs :: "tid \<Rightarrow> TaskControlBlock option"
  next_tid :: tid
  INITPROC :: tid
  task_manager :: TaskManager
  processor :: Processor
  konts :: "tid \<Rightarrow> kcont"
  sbi_calls :: sbi_log
  csr_stvec :: usize
  csr_sie :: usize
  csr_satp :: usize

abbreviation queue :: "kernel \<Rightarrow> tid list" where
  "queue k \<equiv> ready_queue (task_manager k)"

abbreviation cur :: "kernel \<Rightarrow> tid option" where
  "cur k \<equiv> proc_current (processor k)"

section \<open>Access to control blocks\<close>

definition set_tcb :: "tid \<Rightarrow> TaskControlBlock \<Rightarrow> kernel \<Rightarrow> kernel" where
  "set_tcb t b k = k\<lparr>tcbs := (tcbs k)(t \<mapsto> b)\<rparr>"

text \<open>\<open>Arc::new\<close>\<close>

definition arc_new :: "TaskControlBlock \<Rightarrow> kernel \<Rightarrow> tid \<times> kernel" where
  "arc_new b k = (next_tid k,
     k\<lparr>tcbs := (tcbs k)(next_tid k \<mapsto> b), next_tid := Suc (next_tid k),
       konts := (konts k)(next_tid k := K_trap_return)\<rparr>)"

definition get_trap_cx :: "TaskControlBlock \<Rightarrow> usize option" where
  "get_trap_cx b = ppn_get_mut (trap_cx_ppn b)"

definition get_user_token :: "TaskControlBlock \<Rightarrow> usize" where
  "get_user_token b = ms_token (memory_set b)"

definition get_status :: "TaskControlBlock \<Rightarrow> TaskStatus" where
  "get_status b = task_status b"

definition is_zombie :: "TaskControlBlock \<Rightarrow> bool" where
  "is_zombie b \<longleftrightarrow> get_status b = Zombie"

definition getpid :: "TaskControlBlock \<Rightarrow> usize" where
  "getpid b = tcb_pid b"

text \<open>\<open>memory_set.translate(VirtAddr::from(TRAP_CONTEXT).into()).unwrap().ppn()\<close>\<close>

definition find_trap_cx :: "MemorySet \<Rightarrow> mm \<Rightarrow> PhysPageNum option" where
  "find_trap_cx ms s = do {
     vpn \<leftarrow> vpn_of_va (VirtAddr TRAP_CONTEXT);
     ms_translate_ppn vpn ms s }"

section \<open>Creating and changing tasks\<close>

definition task_new :: "platform \<Rightarrow> usize \<Rightarrow> u8 list \<Rightarrow> kernel \<Rightarrow> (TaskControlBlock \<times> kernel) option" where
  "task_new P sstatus elf_data k = do {
     (ms, user_sp, entry, s) \<leftarrow> from_elf (p_ld P) (p_elf P) elf_data (kmm k);
     cx_ppn \<leftarrow> find_trap_cx ms s;
     let (pid_handle, pa) = pid_alloc (pid_allocator k);
     (ks, kspace, s) \<leftarrow> kernel_stack_new pid_handle (kernel_space k) s;
     let kernel_stack_top = kernel_stack_get_top ks;
     let b = \<lparr>tcb_pid = pid_handle, kernel_stack = ks, trap_cx_ppn = cx_ppn, base_size = user_sp,
              task_cx = goto_trap_return (p_trap_return P) kernel_stack_top, task_status = Ready,
              memory_set = ms, parent = None, children = [], exit_code = 0, pass = 0, priority = 16,
              syscall_times = replicate MAX_SYSCALL_NUM 0, start_time = None\<rparr>;
     trap_cx \<leftarrow> get_trap_cx b;
     let s = cx_write trap_cx (app_init_context (p_bf P) sstatus entry user_sp (ms_token kspace)
               kernel_stack_top (p_trap_handler P)) s;
     Some (b, k\<lparr>kmm := s, kernel_space := kspace, pid_allocator := pa\<rparr>) }"

text \<open>\<open>exec\<close>: the assignment to \<open>inner.memory_set\<close> drops the old address space.\<close>

definition task_exec :: "platform \<Rightarrow> usize \<Rightarrow> tid \<Rightarrow> u8 list \<Rightarrow> kernel \<Rightarrow> kernel option" where
  "task_exec P sstatus t elf_data k = do {
     (ms, user_sp, entry, s) \<leftarrow> from_elf (p_ld P) (p_elf P) elf_data (kmm k);
     cx_ppn \<leftarrow> find_trap_cx ms s;
     b \<leftarrow> tcbs k t;
     s \<leftarrow> drop_memory_set (memory_set b) s;
     let b = b\<lparr>memory_set := ms, trap_cx_ppn := cx_ppn\<rparr>;
     trap_cx \<leftarrow> get_trap_cx b;
     let s = cx_write trap_cx (app_init_context (p_bf P) sstatus entry user_sp
               (ms_token (kernel_space k)) (kernel_stack_get_top (kernel_stack b)) (p_trap_handler P)) s;
     Some (set_tcb t b (k\<lparr>kmm := s\<rparr>)) }"

definition task_fork :: "platform \<Rightarrow> tid \<Rightarrow> kernel \<Rightarrow> (tid \<times> kernel) option" where
  "task_fork P t k = do {
     b \<leftarrow> tcbs k t;
     (ms, s) \<leftarrow> from_existed_user (p_ld P) (memory_set b) (kmm k);
     cx_ppn \<leftarrow> find_trap_cx ms s;
     let (pid_handle, pa) = pid_alloc (pid_allocator k);
     (ks, kspace, s) \<leftarrow> kernel_stack_new pid_handle (kernel_space k) s;
     let kernel_stack_top = kernel_stack_get_top ks;
     let c = \<lparr>tcb_pid = pid_handle, kernel_stack = ks, trap_cx_ppn = cx_ppn, base_size = base_size b,
              task_cx = goto_trap_return (p_trap_return P) kernel_stack_top, task_status = Ready,
              memory_set = ms, parent = Some t, children = [], exit_code = 0, pass = pass b,
              priority = priority b, syscall_times = syscall_times b, start_time = start_time b\<rparr>;
     let (ct, k) = arc_new c (k\<lparr>kmm := s, kernel_space := kspace, pid_allocator := pa\<rparr>);
     let k = set_tcb t (b\<lparr>children := children b @ [ct]\<rparr>) k;
     trap_cx \<leftarrow> get_trap_cx c;
     let k = k\<lparr>kmm := cx_put trap_cx slot_kernel_sp kernel_stack_top (kmm k)\<rparr>;
     Some (ct, k) }"

definition task_spawn :: "platform \<Rightarrow> usize \<Rightarrow> tid \<Rightarrow> u8 list \<Rightarrow> kernel \<Rightarrow> (tid \<times> kernel) option" where
  "task_spawn P sstatus t elf_data k = do {
     (ms, user_sp, entry, s) \<leftarrow> from_elf (p_ld P) (p_elf P) elf_data (kmm k);
     cx_ppn \<leftarrow> find_trap_cx ms s;
     b \<leftarrow> tcbs k t;
     let (pid_handle, pa) = pid_alloc (pid_allocator k);
     (ks, kspace, s) \<leftarrow> kernel_stack_new pid_handle (kernel_space k) s;
     let kernel_stack_top = kernel_stack_get_top ks;
     let c = \<lparr>tcb_pid = pid_handle, kernel_stack = ks, trap_cx_ppn = cx_ppn, base_size = base_size b,
              task_cx = goto_trap_return (p_trap_return P) kernel_stack_top, task_status = Ready,
              memory_set = ms, parent = Some t, children = [], exit_code = 0, pass = 0,
              priority = priority b, syscall_times = replicate MAX_SYSCALL_NUM 0, start_time = None\<rparr>;
     let (ct, k) = arc_new c (k\<lparr>kmm := s, kernel_space := kspace, pid_allocator := pa\<rparr>);
     let k = set_tcb t (b\<lparr>children := children b @ [ct]\<rparr>) k;
     trap_cx \<leftarrow> get_trap_cx c;
     let s = cx_write trap_cx (app_init_context (p_bf P) sstatus entry user_sp (ms_token kspace)
               kernel_stack_top (p_trap_handler P)) (kmm k);
     Some (ct, k\<lparr>kmm := s\<rparr>) }"

section \<open>Reference counts\<close>

text \<open>
  The strong references to a control block: the entries of the ready queue, \<open>PROCESSOR.current\<close>,
  the \<open>children\<close> vectors, and the static \<open>INITPROC\<close>.
\<close>

definition child_refs :: "tid \<Rightarrow> kernel \<Rightarrow> nat" where
  "child_refs t k =
     sum_list (map (\<lambda>u. case tcbs k u of None \<Rightarrow> 0 | Some b \<Rightarrow> count_list (children b) t)
       [0..<next_tid k])"

definition strong_count :: "tid \<Rightarrow> kernel \<Rightarrow> nat" where
  "strong_count t k = count_list (queue k) t + (if cur k = Some t then 1 else 0)
     + child_refs t k + (if INITPROC k = t then 1 else 0)"

text \<open>
  Dropping the last reference drops the fields in order: the pid, the kernel stack, and the
  address space. The \<open>children\<close> of a control block that is dropped are gone already: it is a
  zombie.
\<close>

definition drop_tcb :: "tid \<Rightarrow> kernel \<Rightarrow> kernel option" where
  "drop_tcb t k = do {
     b \<leftarrow> tcbs k t;
     pa \<leftarrow> pid_dealloc (tcb_pid b) (pid_allocator k);
     (kspace, s) \<leftarrow> kernel_stack_drop (kernel_stack b) (kernel_space k) (kmm k);
     s \<leftarrow> drop_memory_set (memory_set b) s;
     Some (k\<lparr>kmm := s, kernel_space := kspace, pid_allocator := pa, tcbs := (tcbs k)(t := None)\<rparr>) }"

end
