(* ===== verification/ProcSpec.thy ===== *)
theory ProcSpec
  imports Task
begin

text \<open>
  The specification of process management: what \<open>task\<close> and \<open>syscall\<close> promise about the set of
  processes, without memory, contexts and the choice of the scheduler. A state is the table of
  processes, the ready queue, the running process and the pid allocator; its steps are the
  events in the life of a process. The invariant is shown here by rule induction; the kernel
  refines these steps.
\<close>

section \<open>States and steps\<close>

record ptask =
  st :: TaskStatus
  kids :: "tid list"
  par :: "tid option"
  prio :: usize
  ppid :: PidHandle

record procs =
  tasks :: "tid \<Rightarrow> ptask option"
  ready :: "tid list"
  running :: "tid option"
  init_task :: tid
  fresh :: tid
  pids_of :: PidAllocator

text \<open>The table after \<open>t\<close> has exited: its children belong to the init process.\<close>

definition hand_over :: "tid \<Rightarrow> ptask \<Rightarrow> procs \<Rightarrow> tid \<Rightarrow> ptask option" where
  "hand_over t b p u =
     (if u = t then Some (b\<lparr>st := Zombie, kids := []\<rparr>)
      else if u \<in> set (kids b) then map_option (\<lambda>c. c\<lparr>par := Some (init_task p)\<rparr>) (tasks p u)
      else if u = init_task p then map_option (\<lambda>i. i\<lparr>kids := kids i @ kids b\<rparr>) (tasks p u)
      else tasks p u)"

inductive pstep :: "procs \<Rightarrow> procs \<Rightarrow> bool" where
  run: "running p = None \<Longrightarrow> t \<in> set (ready p) \<Longrightarrow> tasks p t = Some b \<Longrightarrow>
    pstep p (p\<lparr>ready := remove1 t (ready p), running := Some t,
      tasks := (tasks p)(t \<mapsto> b\<lparr>st := Running\<rparr>)\<rparr>)"
| suspend: "running p = Some t \<Longrightarrow> tasks p t = Some b \<Longrightarrow>
    pstep p (p\<lparr>ready := ready p @ [t], running := None, tasks := (tasks p)(t \<mapsto> b\<lparr>st := Ready\<rparr>)\<rparr>)"
| create: "running p = Some t \<Longrightarrow> tasks p t = Some b \<Longrightarrow> pid_alloc (pids_of p) = (i, a) \<Longrightarrow>
    pstep p (p\<lparr>ready := ready p @ [fresh p], fresh := Suc (fresh p), pids_of := a,
      tasks := (tasks p)(fresh p \<mapsto> \<lparr>st = Ready, kids = [], par = Some t, prio = prio b, ppid = i\<rparr>,
        t \<mapsto> b\<lparr>kids := kids b @ [fresh p]\<rparr>)\<rparr>)"
| exit: "running p = Some t \<Longrightarrow> tasks p t = Some b \<Longrightarrow> t \<noteq> init_task p \<Longrightarrow>
    pstep p (p\<lparr>running := None, tasks := hand_over t b p\<rparr>)"
| reap: "running p = Some t \<Longrightarrow> tasks p t = Some b \<Longrightarrow> c \<in> set (kids b) \<Longrightarrow> tasks p c = Some z \<Longrightarrow>
    st z = Zombie \<Longrightarrow> pid_dealloc (ppid z) (pids_of p) = Some a \<Longrightarrow>
    pstep p (p\<lparr>pids_of := a, tasks := (tasks p)(t \<mapsto> b\<lparr>kids := remove1 c (kids b)\<rparr>, c := None)\<rparr>)"
| reprioritise: "running p = Some t \<Longrightarrow> tasks p t = Some b \<Longrightarrow> 2 \<le> sint n \<Longrightarrow>
    pstep p (p\<lparr>tasks := (tasks p)(t \<mapsto> b\<lparr>prio := n\<rparr>)\<rparr>)"

section \<open>The invariant\<close>

text \<open>The ready queue holds the ready processes, each once; at most one process is running.\<close>

definition sched_ok :: "procs \<Rightarrow> bool" where
  "sched_ok p \<longleftrightarrow> distinct (ready p)
     \<and> (\<forall>t. t \<in> set (ready p) \<longleftrightarrow> map_option st (tasks p t) = Some Ready)
     \<and> (\<forall>t. running p = Some t \<longleftrightarrow> map_option st (tasks p t) = Some Running)"

text \<open>
  The processes form a tree with the init process at the root: a process other than the root is
  in the list of children of its parent, which is older; zombies have no children.
\<close>

definition kids_at :: "procs \<Rightarrow> tid \<Rightarrow> tid list" where
  "kids_at p t = (case tasks p t of None \<Rightarrow> [] | Some b \<Rightarrow> kids b)"

definition par_at :: "procs \<Rightarrow> tid \<Rightarrow> tid option" where
  "par_at p t = Option.bind (tasks p t) par"

definition task_ok :: "procs \<Rightarrow> tid \<Rightarrow> ptask \<Rightarrow> bool" where
  "task_ok p t b \<longleftrightarrow> t < fresh p \<and> init_task p \<le> t \<and> st b \<noteq> UnInit
     \<and> (st b = Zombie \<longrightarrow> kids b = [] \<and> t \<noteq> init_task p) \<and> (par b = None \<longleftrightarrow> t = init_task p)"

definition tree_ok :: "procs \<Rightarrow> bool" where
  "tree_ok p \<longleftrightarrow>
     (\<forall>t b. tasks p t = Some b \<longrightarrow> task_ok p t b)
     \<and> tasks p (init_task p) \<noteq> None
     \<and> (\<forall>t c. c \<in> set (kids_at p t) \<longleftrightarrow> par_at p c = Some t)
     \<and> (\<forall>t c. par_at p c = Some t \<longrightarrow> t < c)
     \<and> (\<forall>t. distinct (kids_at p t))"

definition pid_at :: "procs \<Rightarrow> tid \<Rightarrow> PidHandle option" where
  "pid_at p t = map_option ppid (tasks p t)"

text \<open>The pids of the processes are distinct, and are the ones that are allocated.\<close>

definition pid_ok :: "procs \<Rightarrow> bool" where
  "pid_ok p \<longleftrightarrow> pid_inv (pids_of p) \<and> unat (pid_current (pids_of p)) \<le> fresh p
     \<and> pid_live (pids_of p) = {i. \<exists>t. pid_at p t = Some i}
     \<and> (\<forall>t u i. pid_at p t = Some i \<longrightarrow> pid_at p u = Some i \<longrightarrow> t = u)"

definition prio_ok :: "procs \<Rightarrow> bool" where
  "prio_ok p \<longleftrightarrow> (\<forall>t b. tasks p t = Some b \<longrightarrow> 2 \<le> sint (prio b))"

definition pinv :: "procs \<Rightarrow> bool" where
  "pinv p \<longleftrightarrow> sched_ok p \<and> tree_ok p \<and> pid_ok p \<and> prio_ok p"

lemma pstep_prio: "pstep p p' \<Longrightarrow> prio_ok p \<Longrightarrow> prio_ok p'"
  by (induction rule: pstep.induct) (auto simp: prio_ok_def hand_over_def split: if_splits)

lemma pstep_fresh: "pstep p p' \<Longrightarrow> fresh p \<le> fresh p'"
  by (induction rule: pstep.induct) auto

lemma fresh_unused: "tree_ok p \<Longrightarrow> tasks p (fresh p) = None"
  by (cases "tasks p (fresh p)") (auto simp: tree_ok_def task_ok_def)

lemma hand_over_st:
  "t \<noteq> u \<Longrightarrow> map_option st (hand_over t b p u) = map_option st (tasks p u)"
  by (simp add: hand_over_def option.map_comp o_def)

lemma hand_over_self [simp]: "hand_over t b p t = Some (b\<lparr>st := Zombie, kids := []\<rparr>)"
  by (simp add: hand_over_def)

lemma pstep_sched: "pstep p p' \<Longrightarrow> sched_ok p \<Longrightarrow> tree_ok p \<Longrightarrow> sched_ok p'"
proof (induction rule: pstep.induct)
  case (run p t b)
  then show ?case by (auto simp: sched_ok_def)
next
  case (suspend p t b)
  then have "map_option st (tasks p t) = Some Running" unfolding sched_ok_def by blast
  then have "t \<notin> set (ready p)" using suspend by (auto simp: sched_ok_def)
  with suspend show ?case by (auto simp: sched_ok_def)
next
  case (create p t b i a)
  then have "tasks p (fresh p) = None" by (simp add: fresh_unused)
  then have "fresh p \<notin> set (ready p)" "fresh p \<noteq> t" using create by (auto simp: sched_ok_def)
  with create show ?case by (auto simp: sched_ok_def)
next
  case (exit p t b)
  have "map_option st (hand_over t b p u) = (if u = t then Some Zombie else map_option st (tasks p u))" for u
    by (simp add: hand_over_st)
  moreover have r: "map_option st (tasks p u) = Some Running \<longleftrightarrow> u = t" for u
    using exit unfolding sched_ok_def by (metis option.inject)
  moreover have "st b = Running" using r [of t] exit(2) by simp
  ultimately show ?case using exit by (auto simp: sched_ok_def)
next
  case (reap p t b c z a)
  then show ?case by (auto simp: sched_ok_def)
next
  case (reprioritise p t b n)
  then show ?case by (auto simp: sched_ok_def)
qed

lemma pid_current_alloc:
  "pid_alloc a = (i, a') \<Longrightarrow> unat (pid_current a') \<le> Suc (unat (pid_current a))"
  by (erule pid_alloc_cases) (auto simp: unat_word_ariths intro: mod_less_eq_dividend order_trans)

text \<open>The pids change only when a process is created or reaped.\<close>

lemma pid_ok_same:
  "pid_ok p \<Longrightarrow> pid_at p' = pid_at p \<Longrightarrow> pids_of p' = pids_of p \<Longrightarrow> fresh p' = fresh p \<Longrightarrow> pid_ok p'"
  by (simp add: pid_ok_def)

lemma pid_ok_create:
  assumes ok: "pid_ok p" and new: "pid_at p n = None" and n: "fresh p' = Suc (fresh p)" "fresh p' < 2 ^ 64"
    and a: "pid_alloc (pids_of p) = (i, pids_of p')" and at: "pid_at p' = (pid_at p)(n \<mapsto> i)"
  shows "pid_ok p'"
proof -
  have inv: "pid_inv (pids_of p)" using ok by (simp add: pid_ok_def)
  have "unat (pid_current (pids_of p)) < unat (- 1 :: usize)"
    using ok n by (simp add: pid_ok_def unsigned_minus_1_eq_mask mask_eq_exp_minus_1)
  then have room: "pid_room (pids_of p)" by (simp add: pid_room_def word_less_nat_alt)
  note A = pid_alloc_fresh [OF inv a] pid_alloc_live [OF inv room a] pid_alloc_inv [OF inv a]
    pid_current_alloc [OF a]
  have "\<forall>t u j. pid_at p' t = Some j \<longrightarrow> pid_at p' u = Some j \<longrightarrow> t = u"
  proof -
    have "pid_at p u \<noteq> Some i" for u using ok A(1) by (auto simp: pid_ok_def)
    then show ?thesis using ok by (auto simp: pid_ok_def at)
  qed
  moreover have "pid_live (pids_of p') = {j. \<exists>t. pid_at p' t = Some j}"
  proof -
    have l: "pid_live (pids_of p) = {j. \<exists>t. pid_at p t = Some j}" using ok by (simp add: pid_ok_def)
    have "\<exists>t. pid_at p' t = Some j" if "pid_at p u = Some j" for u j
      using that new by (intro exI [of _ u]) (auto simp: at)
    moreover have "pid_at p' n = Some i" by (simp add: at)
    moreover have "j = i \<or> pid_at p u = Some j" if "pid_at p' u = Some j" for u j
      using that by (auto simp: at split: if_splits)
    ultimately show ?thesis unfolding A(2) l by (intro set_eqI) (simp, metis)
  qed
  ultimately show ?thesis using A(3,4) n ok by (simp add: pid_ok_def)
qed

lemma pid_ok_reap:
  assumes ok: "pid_ok p" and c: "pid_at p c = Some i" and n: "fresh p' = fresh p"
    and a: "pid_dealloc i (pids_of p) = Some (pids_of p')" and at: "pid_at p' = (pid_at p)(c := None)"
  shows "pid_ok p'"
proof -
  have inv: "pid_inv (pids_of p)" using ok by (simp add: pid_ok_def)
  have l: "pid_live (pids_of p') = pid_live (pids_of p) - {i}" "pid_inv (pids_of p')"
    using pids.dealloc_removes [OF inv a] pids.dealloc_inv [OF inv a] by blast+
  have "pid_current (pids_of p') = pid_current (pids_of p)" using a by (auto simp: pid_dealloc_Some)
  moreover have "\<forall>t u j. pid_at p' t = Some j \<longrightarrow> pid_at p' u = Some j \<longrightarrow> t = u"
    using ok by (auto simp: pid_ok_def at split: if_splits)
  moreover have "pid_live (pids_of p') = {j. \<exists>t. pid_at p' t = Some j}"
  proof -
    have "pid_at p' u = Some j \<longleftrightarrow> pid_at p u = Some j \<and> j \<noteq> i" for u j
      using ok c by (auto simp: at pid_ok_def)
    then show ?thesis using ok l unfolding pid_ok_def by auto
  qed
  ultimately show ?thesis using l n ok by (simp add: pid_ok_def)
qed

lemma pstep_pid:
  "pstep p p' \<Longrightarrow> pid_ok p \<Longrightarrow> tree_ok p \<Longrightarrow> fresh p' < 2 ^ 64 \<Longrightarrow> pid_ok p'"
proof (induction rule: pstep.induct)
  case (create p t b i a)
  have un: "tasks p (fresh p) = None" using create by (simp add: fresh_unused)
  show ?case
    by (rule pid_ok_create [of p "fresh p" _ i]) (use create un in \<open>auto simp: pid_at_def fun_eq_iff\<close>)
next
  case (exit p t b)
  show ?case
    by (rule pid_ok_same [OF exit(4)])
      (use exit(2) in \<open>auto simp: pid_at_def hand_over_def option.map_comp o_def fun_eq_iff\<close>)
next
  case (reap p t b c z a)
  show ?case
    by (rule pid_ok_reap [of p c "ppid z"])
      (use reap in \<open>auto simp: pid_at_def fun_eq_iff\<close>)
next
  case (run p t b)
  show ?case by (rule pid_ok_same [OF run(4)]) (use run in \<open>auto simp: pid_at_def fun_eq_iff\<close>)
next
  case (suspend p t b)
  show ?case by (rule pid_ok_same [OF suspend(3)]) (use suspend in \<open>auto simp: pid_at_def fun_eq_iff\<close>)
next
  case (reprioritise p t b n)
  show ?case by (rule pid_ok_same [OF reprioritise(4)]) (use reprioritise in \<open>auto simp: pid_at_def fun_eq_iff\<close>)
qed

text \<open>
  The tree. \<open>run\<close>, \<open>suspend\<close> and \<open>reprioritise\<close> change neither parents nor children.
\<close>

lemma tree_okD:
  assumes "tree_ok p"
  shows "tasks p t = Some b \<Longrightarrow> t < fresh p" "tasks p t = Some b \<Longrightarrow> init_task p \<le> t"
    "tasks p t = Some b \<Longrightarrow> st b \<noteq> UnInit" "tasks p t = Some b \<Longrightarrow> st b = Zombie \<Longrightarrow> kids b = []"
    "tasks p t = Some b \<Longrightarrow> st b = Zombie \<Longrightarrow> t \<noteq> init_task p"
    "tasks p t = Some b \<Longrightarrow> par b = None \<longleftrightarrow> t = init_task p"
    "tasks p (init_task p) \<noteq> None" "c \<in> set (kids_at p u) \<longleftrightarrow> par_at p c = Some u"
    "par_at p c = Some u \<Longrightarrow> u < c" "distinct (kids_at p u)"
  using assms unfolding tree_ok_def task_ok_def by blast+

lemma tree_ok_taskD: "tree_ok p \<Longrightarrow> tasks p t = Some b \<Longrightarrow> task_ok p t b"
  by (simp add: tree_ok_def)

lemma init_no_par: "tree_ok p \<Longrightarrow> par_at p (init_task p) = None"
  by (cases "tasks p (init_task p)") (auto simp: par_at_def tree_ok_def task_ok_def)

lemma par_exists: "tree_ok p \<Longrightarrow> par_at p c = Some t \<Longrightarrow> tasks p t \<noteq> None"
  using tree_okD(8) [of p c t] by (cases "tasks p t") (simp_all add: kids_at_def)

lemma tree_ok_same:
  assumes ok: "tree_ok p" and same: "init_task p' = init_task p" "fresh p' = fresh p"
    and b: "tasks p t = Some b" "tasks p' = (tasks p)(t \<mapsto> b')" "kids b' = kids b" "par b' = par b"
      "st b' \<noteq> UnInit" "st b' \<noteq> Zombie"
  shows "tree_ok p'"
proof -
  have v: "kids_at p' = kids_at p" "par_at p' = par_at p"
    using b by (auto simp: kids_at_def par_at_def fun_eq_iff)
  show ?thesis
    using ok b unfolding tree_ok_def task_ok_def same v by (auto split: if_splits)
qed

lemma tree_ok_create:
  assumes ok: "tree_ok p" and b: "tasks p t = Some b"
    and p': "init_task p' = init_task p" "fresh p' = Suc (fresh p)"
    and ts: "tasks p' = (tasks p)(fresh p \<mapsto> c, t \<mapsto> b\<lparr>kids := kids b @ [fresh p]\<rparr>)"
    and c: "st c = Ready" "kids c = []" "par c = Some t" and z: "st b \<noteq> Zombie"
  shows "tree_ok p'"
proof -
  note D = tree_okD [OF ok]
  have t: "t < fresh p" by (rule D(1) [OF b])
  have f: "tasks p (fresh p) = None" by (rule fresh_unused [OF ok])
  have pa: "par_at p' = (par_at p)(fresh p \<mapsto> t)"
    using t b c by (auto simp: par_at_def ts fun_eq_iff)
  have ki: "kids_at p' = (kids_at p)(fresh p := [], t := kids_at p t @ [fresh p])"
    using t b c by (auto simp: kids_at_def ts fun_eq_iff)
  have pf: "par_at p (fresh p) = None" "kids_at p (fresh p) = []"
    by (simp_all add: par_at_def kids_at_def f)
  have nf: "fresh p \<notin> set (kids_at p u)" for u using D(8) pf by simp
  have npf: "par_at p u \<noteq> Some (fresh p)" for u using D(8) [of u "fresh p"] pf(2) by auto
  have "c \<in> set (kids_at p' u) \<longleftrightarrow> par_at p' c = Some u" for c u
    unfolding pa ki using D(8) t nf npf pf by auto
  moreover have "par_at p' c = Some u \<longrightarrow> u < c" for c u
    unfolding pa using D(9) t by auto
  moreover have "distinct (kids_at p' u)" for u
    unfolding ki using D(10) nf by auto
  moreover have "init_task p \<noteq> fresh p" using D(7) f by auto
  then have "task_ok p' x y"
    if "tasks p' x = Some y" for x y
  proof -
    consider "x = t" | "x = fresh p" "x \<noteq> t" | "x \<noteq> t" "x \<noteq> fresh p" by blast
    then show ?thesis
      using that tree_ok_taskD [OF ok b] tree_ok_taskD [OF ok, of x y] c z t D(2) [OF b]
        \<open>init_task p \<noteq> fresh p\<close>
      by cases (auto simp: ts p' task_ok_def)
  qed
  moreover have "tasks p' (init_task p') \<noteq> None" using D(7) by (simp add: ts p')
  ultimately show ?thesis unfolding tree_ok_def by blast
qed

lemma hand_over_views:
  assumes ok: "tree_ok p" and b: "tasks p t = Some b" and t: "t \<noteq> init_task p"
    and p': "tasks p' = hand_over t b p"
  shows "par_at p' u = (if u \<in> set (kids b) then Some (init_task p) else par_at p u)"
    and "kids_at p' u = (if u = t then [] else if u = init_task p then kids_at p u @ kids b else kids_at p u)"
proof -
  note D = tree_okD [OF ok]
  have kb: "c \<in> set (kids b) \<longleftrightarrow> par_at p c = Some t" for c
    using D(8) [of c t] by (simp add: kids_at_def b)
  have nt: "t \<notin> set (kids b)" using kb D(9) by blast
  have ni: "init_task p \<notin> set (kids b)" using kb init_no_par [OF ok] by simp
  have ex: "\<exists>c. tasks p u = Some c" if "u \<in> set (kids b)" for u
    using that kb by (auto simp: par_at_def bind_eq_Some_conv)
  show "par_at p' u = (if u \<in> set (kids b) then Some (init_task p) else par_at p u)"
    using nt ex [of u] b by (cases "tasks p u") (auto simp: par_at_def p' hand_over_def)
  show "kids_at p' u = (if u = t then [] else if u = init_task p then kids_at p u @ kids b else kids_at p u)"
    using ni ex [of u] D(7) t by (cases "tasks p u") (auto simp: kids_at_def p' hand_over_def)
qed

lemma tree_ok_exit:
  assumes ok: "tree_ok p" and b: "tasks p t = Some b" and t: "t \<noteq> init_task p"
    and p': "tasks p' = hand_over t b p" "init_task p' = init_task p" "fresh p' = fresh p"
  shows "tree_ok p'"
proof -
  note D = tree_okD [OF ok]
  note V = hand_over_views [OF ok b t p'(1)]
  have kb: "c \<in> set (kids b) \<longleftrightarrow> par_at p c = Some t" for c
    using D(8) [of c t] by (simp add: kids_at_def b)
  have db: "distinct (kids b)" using D(10) [of t] by (simp add: kids_at_def b)
  have it: "init_task p < t" using D(2) [OF b] t by simp
  have "c \<in> set (kids_at p' u) \<longleftrightarrow> par_at p' c = Some u" for c u
    unfolding V using D(8) kb t by auto
  moreover have "u < c" if "par_at p' c = Some u" for c u
    using that D(9) [of c] kb it unfolding V by (auto split: if_splits intro: less_trans)
  moreover have "distinct (kids_at p' u)" for u
    unfolding V using D(8,10) db kb t by auto
  moreover have "task_ok p' x y"
    if y: "tasks p' x = Some y" for x y
  proof -
    have k: "x \<noteq> init_task p" if "x \<in> set (kids b)"
      using that kb init_no_par [OF ok] by auto
    show ?thesis
      using y tree_ok_taskD [OF ok, of x] tree_ok_taskD [OF ok b] t k
      unfolding p' hand_over_def task_ok_def by (auto split: if_splits)
  qed
  moreover have "tasks p' (init_task p') \<noteq> None"
    using D(7) t by (auto simp: p' hand_over_def)
  ultimately show ?thesis unfolding tree_ok_def by blast
qed

lemma tree_ok_reap:
  assumes ok: "tree_ok p" and b: "tasks p t = Some b" and c: "c \<in> set (kids b)"
    and z: "tasks p c = Some z" "st z = Zombie"
    and p': "tasks p' = (tasks p)(t \<mapsto> b\<lparr>kids := remove1 c (kids b)\<rparr>, c := None)"
      "init_task p' = init_task p" "fresh p' = fresh p"
  shows "tree_ok p'"
proof -
  note D = tree_okD [OF ok]
  have kb: "u \<in> set (kids b) \<longleftrightarrow> par_at p u = Some t" for u
    using D(8) [of u t] by (simp add: kids_at_def b)
  have db: "distinct (kids b)" using D(10) [of t] by (simp add: kids_at_def b)
  have tc: "t < c" using kb c D(9) by blast
  have zk: "kids_at p c = []" using D(4) [OF z] z(1) by (simp add: kids_at_def)
  have pa: "par_at p' = (par_at p)(c := None)" using b tc by (auto simp: par_at_def p' fun_eq_iff)
  have ki: "kids_at p' = (kids_at p)(t := remove1 c (kids b))"
    using b tc zk by (auto simp: kids_at_def p' fun_eq_iff split: option.splits)
  have nc: "par_at p u \<noteq> Some c" for u using D(8) [of u c] zk by auto
  have "u \<in> set (kids_at p' v) \<longleftrightarrow> par_at p' u = Some v" for u v
    unfolding pa ki using D(8) kb db c by auto
  moreover have "v < u" if "par_at p' u = Some v" for u v
    using that D(9) unfolding pa by (auto split: if_splits)
  moreover have "distinct (kids_at p' u)" for u unfolding ki using D(10) db by auto
  moreover have "task_ok p' x y"
    if y: "tasks p' x = Some y" for x y
    using y tree_ok_taskD [OF ok, of x] tree_ok_taskD [OF ok b] D(4) [OF b] c
    unfolding p' task_ok_def by (auto split: if_splits)
  moreover have "tasks p' (init_task p') \<noteq> None"
    using D(7) D(5) [OF z] by (auto simp: p')
  ultimately show ?thesis unfolding tree_ok_def by blast
qed

lemma pstep_tree:
  "pstep p p' \<Longrightarrow> tree_ok p \<Longrightarrow> sched_ok p \<Longrightarrow> tree_ok p'"
proof (induction rule: pstep.induct)
  case (run p t b)
  show ?case by (rule tree_ok_same [OF run(4), of _ t b "b\<lparr>st := Running\<rparr>"]) (use run in simp_all)
next
  case (suspend p t b)
  show ?case by (rule tree_ok_same [OF suspend(3), of _ t b "b\<lparr>st := Ready\<rparr>"]) (use suspend in simp_all)
next
  case (create p t b i a)
  have "map_option st (tasks p t) = Some Running" using create unfolding sched_ok_def by blast
  then have "st b \<noteq> Zombie" using create(2) by simp
  then show ?case
    by (intro tree_ok_create [OF create(4,2),
          where c = "\<lparr>st = Ready, kids = [], par = Some t, prio = prio b, ppid = i\<rparr>"]) simp_all
next
  case (exit p t b)
  show ?case by (rule tree_ok_exit [OF exit(4,2,3)]) simp_all
next
  case (reap p t b c z a)
  show ?case by (rule tree_ok_reap [OF reap(7,2,3,4,5)]) simp_all
next
  case (reprioritise p t b n)
  have "map_option st (tasks p t) = Some Running" using reprioritise unfolding sched_ok_def by blast
  then show ?case
    by (intro tree_ok_same [OF reprioritise(4), of _ t b "b\<lparr>prio := n\<rparr>"])
      (use reprioritise in simp_all)
qed

lemma pstep_pinv: "pstep p p' \<Longrightarrow> pinv p \<Longrightarrow> fresh p' < 2 ^ 64 \<Longrightarrow> pinv p'"
  using pstep_sched pstep_tree pstep_pid pstep_prio by (simp add: pinv_def)

text \<open>Any number of steps.\<close>

lemma psteps_fresh: "pstep\<^sup>*\<^sup>* p p' \<Longrightarrow> fresh p \<le> fresh p'"
  by (induction rule: rtranclp_induct) (use pstep_fresh le_trans in blast)+

lemma psteps_pinv: "pstep\<^sup>*\<^sup>* p p' \<Longrightarrow> pinv p \<Longrightarrow> fresh p' < 2 ^ 64 \<Longrightarrow> pinv p'"
proof (induction rule: rtranclp_induct)
  case (step q r)
  then have "fresh q < 2 ^ 64" using pstep_fresh [OF step(2)] by simp
  with step show ?case using pstep_pinv by blast
qed

lemma psteps_sched_tree:
  "pstep\<^sup>*\<^sup>* p p' \<Longrightarrow> sched_ok p \<Longrightarrow> tree_ok p \<Longrightarrow> sched_ok p' \<and> tree_ok p'"
  by (induction rule: rtranclp_induct) (use pstep_sched pstep_tree in blast)+

section \<open>Consequences\<close>

text \<open>A child is referenced from exactly one place in the table.\<close>

lemma kids_unique:
  "tree_ok p \<Longrightarrow> c \<in> set (kids_at p t) \<Longrightarrow> c \<in> set (kids_at p u) \<Longrightarrow> t = u"
  using tree_okD(8) by force

text \<open>Every process descends from the init process.\<close>

lemma descends_from_init:
  assumes "tree_ok p" and "tasks p t \<noteq> None"
  shows "(\<lambda>a b. par_at p b = Some a)\<^sup>*\<^sup>* (init_task p) t"
  using assms(2)
proof (induction t rule: less_induct)
  case (less t)
  show ?case
  proof (cases "t = init_task p")
    case False
    obtain b where b: "tasks p t = Some b" using less.prems by blast
    then obtain u where u: "par_at p t = Some u"
      using tree_okD(6) [OF assms(1) b] False by (auto simp: par_at_def)
    have "u < t" by (rule tree_okD(9) [OF assms(1) u])
    moreover have "tasks p u \<noteq> None" by (rule par_exists [OF assms(1) u])
    ultimately have "(\<lambda>a b. par_at p b = Some a)\<^sup>*\<^sup>* (init_task p) u" by (rule less.IH)
    then show ?thesis using u by (rule rtranclp.rtrancl_into_rtrancl)
  qed simp
qed

end
