(* ===== verification/Manager.thy ===== *)
theory Manager
  imports Task
begin

text \<open>
  The ready queue and the stride scheduler: \<open>task/manager.rs\<close>. \<open>fetch\<close> scans the queue for the
  smallest \<open>pass\<close>, removes that task and advances its \<open>pass\<close> by \<open>BIG_STRIDE / priority\<close>.
\<close>

definition add_task :: "tid \<Rightarrow> kernel \<Rightarrow> kernel" where
  "add_task t k = k\<lparr>task_manager := \<lparr>ready_queue = queue k @ [t]\<rparr>\<rparr>"

text \<open>
  One round of the scan. Both control blocks are borrowed while they are compared, so comparing
  a task with itself would panic.
\<close>

definition fetch_compare :: "kernel \<Rightarrow> nat \<times> tid \<Rightarrow> nat \<Rightarrow> nat option" where
  "fetch_compare k = (\<lambda>(idx, task) task_pos. do {
     p \<leftarrow> index_of (queue k) task_pos;
     rassert (p \<noteq> task);
     a \<leftarrow> tcbs k p;
     b \<leftarrow> tcbs k task;
     Some (if pass a > pass b then idx else task_pos) })"

definition fetch_task :: "kernel \<Rightarrow> (tid option \<times> kernel) option" where
  "fetch_task k =
     (if queue k = [] then Some (None, k)
      else do {
        task_pos \<leftarrow> foldM (fetch_compare k) (drop 1 (enumerate 0 (queue k))) 0;
        task \<leftarrow> index_of (queue k) task_pos;
        b \<leftarrow> tcbs k task;
        rassert (priority b \<noteq> 0);
        let b = b\<lparr>pass := pass b + BIG_STRIDE div priority b\<rparr>;
        Some (Some task, set_tcb task b
          (k\<lparr>task_manager := \<lparr>ready_queue = remove_nth task_pos (queue k)\<rparr>\<rparr>)) })"

end
