(* ===== verification/Processor.thy ===== *)
theory Processor
  imports Manager
begin

text \<open>
  The processor and the operations on the running task: \<open>task/processor.rs\<close> and the switching
  functions of \<open>task/mod.rs\<close>. A switch to the idle control flow ends the operation; the
  continuation of the task is recorded in \<open>konts\<close>.
\<close>

section \<open>The running task\<close>

definition take_current_task :: "kernel \<Rightarrow> tid option \<times> kernel" where
  "take_current_task k = (cur k, k\<lparr>processor := (processor k)\<lparr>proc_current := None\<rparr>\<rparr>)"

definition current_task :: "kernel \<Rightarrow> tid option" where
  "current_task k = cur k"

text \<open>\<open>current_task().unwrap()\<close> and its control block.\<close>

definition current_tcb :: "kernel \<Rightarrow> (tid \<times> TaskControlBlock) option" where
  "current_tcb k = do {
     t \<leftarrow> current_task k;
     b \<leftarrow> tcbs k t;
     Some (t, b) }"

definition current_user_token :: "kernel \<Rightarrow> usize option" where
  "current_user_token k = do {
     (t, b) \<leftarrow> current_tcb k;
     Some (get_user_token b) }"

definition current_trap_cx :: "kernel \<Rightarrow> usize option" where
  "current_trap_cx k = do {
     (t, b) \<leftarrow> current_tcb k;
     get_trap_cx b }"

section \<open>mmap and munmap\<close>

fun all_unmapped :: "VirtPageNum list \<Rightarrow> MemorySet \<Rightarrow> mm \<Rightarrow> bool option" where
  "all_unmapped [] ms s = Some True"
| "all_unmapped (vpn # vpns) ms s = do {
     r \<leftarrow> ms_translate vpn ms s;
     (case r of
        Some pte \<Rightarrow> if pte_is_valid pte then Some False else all_unmapped vpns ms s
      | None \<Rightarrow> all_unmapped vpns ms s) }"

fun all_mapped :: "VirtPageNum list \<Rightarrow> MemorySet \<Rightarrow> mm \<Rightarrow> bool option" where
  "all_mapped [] ms s = Some True"
| "all_mapped (vpn # vpns) ms s = do {
     r \<leftarrow> ms_translate vpn ms s;
     (case r of
        Some pte \<Rightarrow> if \<not> pte_is_valid pte then Some False else all_mapped vpns ms s
      | None \<Rightarrow> Some False) }"

definition task_mmap :: "usize \<Rightarrow> usize \<Rightarrow> usize \<Rightarrow> kernel \<Rightarrow> (isize \<times> kernel) option" where
  "task_mmap start len port k = do {
     let start_va = VirtAddr start;
     let end_va = VirtAddr (start + len);
     if \<not> va_aligned start_va \<or> port AND NOT 0x7 \<noteq> 0 \<or> port AND 0x7 = 0 then Some (- 1, k)
     else do {
       (t, b) \<leftarrow> current_tcb k;
       let start_vpn = va_floor start_va;
       let end_vpn = va_ceil end_va;
       r \<leftarrow> range_new start_vpn end_vpn;
       free \<leftarrow> all_unmapped (range_list r) (memory_set b) (kmm k);
       if \<not> free then Some (- 1, k)
       else do {
         p \<leftarrow> MapPermission_from_bits (push_bit 1 (ucast port));
         (ms, s) \<leftarrow> insert_framed_area start_va end_va (p OR MapPermission_U) (memory_set b) (kmm k);
         Some (0, set_tcb t (b\<lparr>memory_set := ms\<rparr>) (k\<lparr>kmm := s\<rparr>)) } } }"

definition task_munmap :: "usize \<Rightarrow> usize \<Rightarrow> kernel \<Rightarrow> (isize \<times> kernel) option" where
  "task_munmap start len k = do {
     let start_va = VirtAddr start;
     let end_va = VirtAddr (start + len);
     if \<not> va_aligned start_va then Some (- 1, k)
     else do {
       (t, b) \<leftarrow> current_tcb k;
       let start_vpn = va_floor start_va;
       let end_vpn = va_ceil end_va;
       r \<leftarrow> range_new start_vpn end_vpn;
       all \<leftarrow> all_mapped (range_list r) (memory_set b) (kmm k);
       if \<not> all then Some (- 1, k)
       else do {
         (ms, s) \<leftarrow> ms_unmap start_vpn end_vpn (memory_set b) (kmm k);
         Some (0, set_tcb t (b\<lparr>memory_set := ms\<rparr>) (k\<lparr>kmm := s\<rparr>)) } } }"

section \<open>Statistics of the running task\<close>

definition count_syscall :: "usize \<Rightarrow> kernel \<Rightarrow> kernel option" where
  "count_syscall syscall_id k =
     (if unat syscall_id < MAX_SYSCALL_NUM then do {
        (t, b) \<leftarrow> current_tcb k;
        n \<leftarrow> index_of (syscall_times b) (unat syscall_id);
        Some (set_tcb t (b\<lparr>syscall_times := (syscall_times b)[unat syscall_id := n + 1]\<rparr>) k) }
      else Some k)"

definition current_task_status :: "kernel \<Rightarrow> TaskStatus option" where
  "current_task_status k = do { (t, b) \<leftarrow> current_tcb k; Some (task_status b) }"

definition current_syscall_times :: "kernel \<Rightarrow> u32 list option" where
  "current_syscall_times k = do { (t, b) \<leftarrow> current_tcb k; Some (syscall_times b) }"

definition current_run_time :: "usize \<Rightarrow> kernel \<Rightarrow> usize option" where
  "current_run_time time k = do {
     (t, b) \<leftarrow> current_tcb k;
     st \<leftarrow> start_time b;
     Some (get_time_ms time - st) }"

section \<open>Switching\<close>

text \<open>
  One iteration of the loop of \<open>run_tasks\<close> up to \<open>__switch\<close>: \<open>None\<close> when no task is ready, and
  otherwise the task that is switched to.
\<close>

definition run_tasks_round :: "usize \<Rightarrow> kernel \<Rightarrow> (tid option \<times> kernel) option" where
  "run_tasks_round time k = do {
     (r, k) \<leftarrow> fetch_task k;
     (case r of
        None \<Rightarrow> Some (None, k)
      | Some t \<Rightarrow> do {
          b \<leftarrow> tcbs k t;
          let b = (if start_time b = None then b\<lparr>start_time := Some (get_time_ms time)\<rparr> else b);
          let b = b\<lparr>task_status := Running\<rparr>;
          let k = set_tcb t b k;
          Some (Some t, k\<lparr>processor := (processor k)\<lparr>proc_current := Some t\<rparr>\<rparr>) }) }"

definition suspend_current_and_run_next :: "kcont \<Rightarrow> kernel \<Rightarrow> kernel option" where
  "suspend_current_and_run_next cont k = do {
     let (r, k) = take_current_task k;
     t \<leftarrow> r;
     b \<leftarrow> tcbs k t;
     let k = set_tcb t (b\<lparr>task_status := Ready\<rparr>) k;
     let k = add_task t k;
     Some (k\<lparr>konts := (konts k)(t := cont)\<rparr>) }"

text \<open>
  Moving one child to \<open>INITPROC\<close>. The exiting task \<open>t\<close> and \<open>INITPROC\<close> are borrowed during the
  loop, so a child that is one of them would panic.
\<close>

definition adopt_child :: "tid \<Rightarrow> tid \<Rightarrow> kernel \<Rightarrow> kernel option" where
  "adopt_child t child k = do {
     rassert (child \<noteq> t \<and> child \<noteq> INITPROC k);
     c \<leftarrow> tcbs k child;
     let k = set_tcb child (c\<lparr>parent := Some (INITPROC k)\<rparr>) k;
     i \<leftarrow> tcbs k (INITPROC k);
     Some (set_tcb (INITPROC k) (i\<lparr>children := children i @ [child]\<rparr>) k) }"

definition exit_current_and_run_next :: "i32 \<Rightarrow> kernel \<Rightarrow> kernel option" where
  "exit_current_and_run_next code k = do {
     let (r, k) = take_current_task k;
     t \<leftarrow> r;
     b \<leftarrow> tcbs k t;
     let k = set_tcb t (b\<lparr>task_status := Zombie, exit_code := code\<rparr>) k;
     rassert (t \<noteq> INITPROC k);
     k \<leftarrow> foldM (adopt_child t) (children b) k;
     b \<leftarrow> tcbs k t;
     (ms, s) \<leftarrow> recycle_data_pages (memory_set b) (kmm k);
     let k = set_tcb t (b\<lparr>children := [], memory_set := ms\<rparr>) (k\<lparr>kmm := s\<rparr>);
     if strong_count t k = 0 then drop_tcb t k else Some k }"

end
