(* ===== verification/Syscall.thy ===== *)
theory Syscall
  imports Processor
begin

text \<open>
  The system calls: \<open>syscall/mod.rs\<close>, \<open>syscall/process.rs\<close> and \<open>syscall/fs.rs\<close>. A call that
  returns gives \<open>Some (Some r, k)\<close>; one that switches to the idle control flow gives
  \<open>Some (None, k)\<close>, with the continuation of the task recorded; a panic is \<open>None\<close>. The values
  that come from the hardware during the call (the \<open>time\<close> and \<open>sstatus\<close> registers, the
  character that the firmware returns) are inputs.
\<close>

record inputs =
  in_time :: usize
  in_getchar :: usize
  in_sstatus :: usize

type_synonym sysres = "(isize option \<times> kernel) option"

definition returns :: "isize \<Rightarrow> kernel \<Rightarrow> sysres" where
  "returns r k = Some (Some r, k)"

definition switched :: "kernel option \<Rightarrow> sysres" where
  "switched r = map_option (\<lambda>k. (None, k)) r"

section \<open>syscall/process.rs\<close>

definition sys_exit :: "i32 \<Rightarrow> kernel \<Rightarrow> sysres" where
  "sys_exit code k = switched (exit_current_and_run_next code k)"

definition sys_yield :: "kernel \<Rightarrow> sysres" where
  "sys_yield k = switched (suspend_current_and_run_next K_yield k)"

definition sys_getpid :: "kernel \<Rightarrow> sysres" where
  "sys_getpid k = do { (t, b) \<leftarrow> current_tcb k; returns (tcb_pid b) k }"

definition sys_fork :: "platform \<Rightarrow> kernel \<Rightarrow> sysres" where
  "sys_fork P k = do {
     t \<leftarrow> current_task k;
     (new_task, k) \<leftarrow> task_fork P t k;
     c \<leftarrow> tcbs k new_task;
     let new_pid = tcb_pid c;
     trap_cx \<leftarrow> get_trap_cx c;
     let k = k\<lparr>kmm := cx_put trap_cx 10 0 (kmm k)\<rparr>;
     let k = add_task new_task k;
     returns new_pid k }"

definition sys_exec :: "platform \<Rightarrow> inputs \<Rightarrow> usize \<Rightarrow> kernel \<Rightarrow> sysres" where
  "sys_exec P inp path k = do {
     token \<leftarrow> current_user_token k;
     path \<leftarrow> translated_str token path (kmm k);
     r \<leftarrow> get_app_data_by_name (p_apps P) path (kmm k);
     (case r of
        Some data \<Rightarrow> do {
          t \<leftarrow> current_task k;
          k \<leftarrow> task_exec P (in_sstatus inp) t data k;
          returns 0 k }
      | None \<Rightarrow> returns (- 1) k) }"

definition wait_matches :: "isize \<Rightarrow> TaskControlBlock \<Rightarrow> bool" where
  "wait_matches pid p \<longleftrightarrow> pid = - 1 \<or> pid = getpid p"

text \<open>The two searches over \<open>inner.children\<close>; a missing control block cannot occur.\<close>

definition child_is :: "kernel \<Rightarrow> (TaskControlBlock \<Rightarrow> bool) \<Rightarrow> tid \<Rightarrow> bool" where
  "child_is k f c = (case tcbs k c of Some p \<Rightarrow> f p | None \<Rightarrow> False)"

definition sys_waitpid :: "isize \<Rightarrow> usize \<Rightarrow> kernel \<Rightarrow> sysres" where
  "sys_waitpid pid exit_code_ptr k = do {
     (t, inner) \<leftarrow> current_tcb k;
     if \<not> list_ex (child_is k (wait_matches pid)) (children inner) then returns (- 1) k
     else (case find_index (child_is k (\<lambda>p. is_zombie p \<and> wait_matches pid p)) (children inner) of
         Some idx \<Rightarrow> do {
           let child = children inner ! idx;
           let inner = inner\<lparr>children := remove_nth idx (children inner)\<rparr>;
           let k = set_tcb t inner k;
           rassert (strong_count child k + 1 = 1);
           c \<leftarrow> tcbs k child;
           let found_pid = getpid c;
           a \<leftarrow> translated_refmut (ms_token (memory_set inner)) exit_code_ptr (kmm k);
           let s = kmm k;
           let k = k\<lparr>kmm := s\<lparr>mem := write_bytes (mem s) a (le_encode 4 (exit_code c))\<rparr>\<rparr>;
           k \<leftarrow> drop_tcb child k;
           returns found_pid k }
       | None \<Rightarrow> returns (- 2) k) }"

definition sys_get_time :: "inputs \<Rightarrow> usize \<Rightarrow> usize \<Rightarrow> kernel \<Rightarrow> sysres" where
  "sys_get_time inp ts tz k = do {
     token \<leftarrow> current_user_token k;
     a \<leftarrow> translated_refmut token ts (kmm k);
     let us = get_time_us (in_time inp);
     let s = kmm k;
     let bytes = le_encode 8 (us div 1000000) @ le_encode 8 (us mod 1000000);
     returns 0 (k\<lparr>kmm := s\<lparr>mem := write_bytes (mem s) a bytes\<rparr>\<rparr>) }"

definition sys_task_info :: "platform \<Rightarrow> inputs \<Rightarrow> usize \<Rightarrow> kernel \<Rightarrow> sysres" where
  "sys_task_info P inp ti k = do {
     token \<leftarrow> current_user_token k;
     a \<leftarrow> translated_refmut token ti (kmm k);
     status \<leftarrow> current_task_status k;
     times \<leftarrow> current_syscall_times k;
     time \<leftarrow> current_run_time (in_time inp) k;
     let s = kmm k;
     let info = \<lparr>ti_status = status, ti_syscall_times = times, ti_time = time\<rparr>;
     returns 0 (k\<lparr>kmm := s\<lparr>mem := write_bytes (mem s) a (p_task_info P info)\<rparr>\<rparr>) }"

definition sys_set_priority :: "isize \<Rightarrow> kernel \<Rightarrow> sysres" where
  "sys_set_priority prio k =
     (if sint prio < 2 then returns (- 1) k
      else do {
        (t, b) \<leftarrow> current_tcb k;
        returns prio (set_tcb t (b\<lparr>priority := prio\<rparr>) k) })"

definition sys_mmap :: "usize \<Rightarrow> usize \<Rightarrow> usize \<Rightarrow> kernel \<Rightarrow> sysres" where
  "sys_mmap start len port k = do { (r, k) \<leftarrow> task_mmap start len port k; returns r k }"

definition sys_munmap :: "usize \<Rightarrow> usize \<Rightarrow> kernel \<Rightarrow> sysres" where
  "sys_munmap start len k = do { (r, k) \<leftarrow> task_munmap start len k; returns r k }"

definition sys_spawn :: "platform \<Rightarrow> inputs \<Rightarrow> usize \<Rightarrow> kernel \<Rightarrow> sysres" where
  "sys_spawn P inp path k = do {
     token \<leftarrow> current_user_token k;
     path \<leftarrow> translated_str token path (kmm k);
     r \<leftarrow> get_app_data_by_name (p_apps P) path (kmm k);
     (case r of
        Some data \<Rightarrow> do {
          t \<leftarrow> current_task k;
          (task, k) \<leftarrow> task_spawn P (in_sstatus inp) t data k;
          c \<leftarrow> tcbs k task;
          let new_pid = tcb_pid c;
          let k = add_task task k;
          returns new_pid k }
      | None \<Rightarrow> returns (- 1) k) }"

section \<open>syscall/fs.rs\<close>

definition FD_STDIN :: usize where "FD_STDIN = 0"
definition FD_STDOUT :: usize where "FD_STDOUT = 1"

definition print_buffer :: "usize \<times> nat \<Rightarrow> kernel \<Rightarrow> kernel option" where
  "print_buffer buffer k = do {
     str \<leftarrow> from_utf8_unwrap (read_bytes (mem (kmm k)) (fst buffer) (snd buffer));
     Some (k\<lparr>sbi_calls := write_str str (sbi_calls k)\<rparr>) }"

definition sys_write :: "usize \<Rightarrow> usize \<Rightarrow> usize \<Rightarrow> kernel \<Rightarrow> sysres" where
  "sys_write fd buf len k =
     (if fd = FD_STDOUT then do {
        token \<leftarrow> current_user_token k;
        buffers \<leftarrow> translated_byte_buffer token buf len (kmm k);
        k \<leftarrow> foldM print_buffer buffers k;
        returns len k }
      else None)"

text \<open>
  The loop of \<open>sys_read\<close> from the call of \<open>console_getchar\<close> on: on 0 the task is suspended and
  the loop continues when it is switched in again.
\<close>

definition sys_read_loop :: "inputs \<Rightarrow> usize \<Rightarrow> usize \<Rightarrow> kernel \<Rightarrow> sysres" where
  "sys_read_loop inp buf len k = do {
     let (c, l) = console_getchar (in_getchar inp) (sbi_calls k);
     let k = k\<lparr>sbi_calls := l\<rparr>;
     if c = 0 then switched (suspend_current_and_run_next (K_read buf len) k)
     else do {
       let ch = (ucast c :: u8);
       token \<leftarrow> current_user_token k;
       buffers \<leftarrow> translated_byte_buffer token buf len (kmm k);
       b \<leftarrow> index_of buffers 0;
       let s = kmm k;
       returns 1 (k\<lparr>kmm := s\<lparr>mem := write_bytes (mem s) (fst b) [ch]\<rparr>\<rparr>) } }"

definition sys_read :: "inputs \<Rightarrow> usize \<Rightarrow> usize \<Rightarrow> usize \<Rightarrow> kernel \<Rightarrow> sysres" where
  "sys_read inp fd buf len k =
     (if fd = FD_STDIN then do {
        rassert (len = 1);
        sys_read_loop inp buf len k }
      else None)"

section \<open>syscall/mod.rs\<close>

datatype kernel_syscall = K_READ | K_WRITE | K_EXIT | K_YIELD | K_GET_TIME | K_GETPID | K_FORK | K_EXEC
  | K_WAITPID | K_SPAWN | K_MUNMAP | K_MMAP | K_SET_PRIORITY | K_TASK_INFO

fun kernel_syscall_number :: "kernel_syscall \<Rightarrow> usize" where
  "kernel_syscall_number K_READ = 63"
| "kernel_syscall_number K_WRITE = 64"
| "kernel_syscall_number K_EXIT = 93"
| "kernel_syscall_number K_YIELD = 124"
| "kernel_syscall_number K_GET_TIME = 169"
| "kernel_syscall_number K_GETPID = 172"
| "kernel_syscall_number K_FORK = 220"
| "kernel_syscall_number K_EXEC = 221"
| "kernel_syscall_number K_WAITPID = 260"
| "kernel_syscall_number K_SPAWN = 400"
| "kernel_syscall_number K_MUNMAP = 215"
| "kernel_syscall_number K_MMAP = 222"
| "kernel_syscall_number K_SET_PRIORITY = 140"
| "kernel_syscall_number K_TASK_INFO = 410"

declare kernel_syscall_number.simps [simp del]

abbreviation SYSCALL_READ :: usize where "SYSCALL_READ \<equiv> kernel_syscall_number K_READ"
abbreviation SYSCALL_WRITE :: usize where "SYSCALL_WRITE \<equiv> kernel_syscall_number K_WRITE"
abbreviation SYSCALL_EXIT :: usize where "SYSCALL_EXIT \<equiv> kernel_syscall_number K_EXIT"
abbreviation SYSCALL_YIELD :: usize where "SYSCALL_YIELD \<equiv> kernel_syscall_number K_YIELD"
abbreviation SYSCALL_GET_TIME :: usize where "SYSCALL_GET_TIME \<equiv> kernel_syscall_number K_GET_TIME"
abbreviation SYSCALL_GETPID :: usize where "SYSCALL_GETPID \<equiv> kernel_syscall_number K_GETPID"
abbreviation SYSCALL_FORK :: usize where "SYSCALL_FORK \<equiv> kernel_syscall_number K_FORK"
abbreviation SYSCALL_EXEC :: usize where "SYSCALL_EXEC \<equiv> kernel_syscall_number K_EXEC"
abbreviation SYSCALL_WAITPID :: usize where "SYSCALL_WAITPID \<equiv> kernel_syscall_number K_WAITPID"
abbreviation SYSCALL_SPAWN :: usize where "SYSCALL_SPAWN \<equiv> kernel_syscall_number K_SPAWN"
abbreviation SYSCALL_MUNMAP :: usize where "SYSCALL_MUNMAP \<equiv> kernel_syscall_number K_MUNMAP"
abbreviation SYSCALL_MMAP :: usize where "SYSCALL_MMAP \<equiv> kernel_syscall_number K_MMAP"
abbreviation SYSCALL_SET_PRIORITY :: usize where "SYSCALL_SET_PRIORITY \<equiv> kernel_syscall_number K_SET_PRIORITY"
abbreviation SYSCALL_TASK_INFO :: usize where "SYSCALL_TASK_INFO \<equiv> kernel_syscall_number K_TASK_INFO"

lemmas SYSCALL_defs = kernel_syscall_number.simps

definition syscall ::
  "platform \<Rightarrow> inputs \<Rightarrow> usize \<Rightarrow> usize \<times> usize \<times> usize \<Rightarrow> kernel \<Rightarrow> sysres" where
  "syscall P inp syscall_id = (\<lambda>(a0, a1, a2) k. do {
     k \<leftarrow> count_syscall syscall_id k;
     if syscall_id = SYSCALL_READ then sys_read inp a0 a1 a2 k
     else if syscall_id = SYSCALL_WRITE then sys_write a0 a1 a2 k
     else if syscall_id = SYSCALL_EXIT then sys_exit (ucast a0) k
     else if syscall_id = SYSCALL_YIELD then sys_yield k
     else if syscall_id = SYSCALL_GETPID then sys_getpid k
     else if syscall_id = SYSCALL_FORK then sys_fork P k
     else if syscall_id = SYSCALL_EXEC then sys_exec P inp a0 k
     else if syscall_id = SYSCALL_WAITPID then sys_waitpid a0 a1 k
     else if syscall_id = SYSCALL_GET_TIME then sys_get_time inp a0 a1 k
     else if syscall_id = SYSCALL_MMAP then sys_mmap a0 a1 a2 k
     else if syscall_id = SYSCALL_MUNMAP then sys_munmap a0 a1 k
     else if syscall_id = SYSCALL_SET_PRIORITY then sys_set_priority a0 k
     else if syscall_id = SYSCALL_TASK_INFO then sys_task_info P inp a0 k
     else if syscall_id = SYSCALL_SPAWN then sys_spawn P inp a0 k
     else None })"

end
