(* ===== verification/Trap.thy ===== *)
theory Trap
  imports Syscall
begin

text \<open>
  Trap handling: \<open>trap/mod.rs\<close>, and the boot sequence of \<open>main.rs\<close>. A handler run ends in user
  mode (\<open>Some (True, k)\<close>), in the idle control flow (\<open>Some (False, k)\<close>), or in a panic
  (\<open>None\<close>).
\<close>

type_synonym runres = "(bool \<times> kernel) option"

definition set_kernel_trap_entry :: "platform \<Rightarrow> kernel \<Rightarrow> kernel" where
  "set_kernel_trap_entry P k = k\<lparr>csr_stvec := stvec_write (p_trap_from_kernel P) Direct\<rparr>"

definition set_user_trap_entry :: "kernel \<Rightarrow> kernel" where
  "set_user_trap_entry k = k\<lparr>csr_stvec := stvec_write TRAMPOLINE Direct\<rparr>"

definition enable_timer_interrupt :: "kernel \<Rightarrow> kernel" where
  "enable_timer_interrupt k = k\<lparr>csr_sie := sie_set_stimer (csr_sie k)\<rparr>"

definition trap_init :: "platform \<Rightarrow> kernel \<Rightarrow> kernel" where
  "trap_init P k = set_kernel_trap_entry P k"

text \<open>\<open>trap_return\<close>: \<open>__restore\<close> installs the token of the running task and returns to user mode.\<close>

definition trap_return :: "kernel \<Rightarrow> runres" where
  "trap_return k = do {
     let k = set_user_trap_entry k;
     user_satp \<leftarrow> current_user_token k;
     Some (True, k\<lparr>csr_satp := user_satp\<rparr>) }"

text \<open>\<open>cx = current_trap_cx(); cx.x[10] = result as usize\<close> and the return to user mode.\<close>

definition finish_syscall :: "sysres \<Rightarrow> runres" where
  "finish_syscall res = do {
     (r, k) \<leftarrow> res;
     (case r of
        None \<Rightarrow> Some (False, k)
      | Some result \<Rightarrow> do {
          cx \<leftarrow> current_trap_cx k;
          trap_return (k\<lparr>kmm := cx_put cx 10 result (kmm k)\<rparr>) }) }"

definition trap_handler :: "platform \<Rightarrow> inputs \<Rightarrow> usize \<Rightarrow> kernel \<Rightarrow> runres" where
  "trap_handler P inp scause k = do {
     let k = set_kernel_trap_entry P k;
     (case scause_cause (p_bf P) scause of
        Exception e \<Rightarrow>
          if e = UserEnvCall then do {
            cx \<leftarrow> current_trap_cx k;
            let k = k\<lparr>kmm := cx_put cx slot_sepc (cx_get cx slot_sepc (kmm k) + 4) (kmm k)\<rparr>;
            let s = kmm k;
            finish_syscall (syscall P inp (cx_get cx 17 s) (cx_get cx 10 s, cx_get cx 11 s, cx_get cx 12 s) k) }
          else if e \<in> {StoreFault, StorePageFault, InstructionFault, InstructionPageFault,
                       LoadFault, LoadPageFault} then do {
            cx \<leftarrow> current_trap_cx k;
            k \<leftarrow> exit_current_and_run_next (- 2) k;
            Some (False, k) }
          else if e = IllegalInstruction then do {
            k \<leftarrow> exit_current_and_run_next (- 3) k;
            Some (False, k) }
          else None
      | Interrupt i \<Rightarrow>
          if i = SupervisorTimer then do {
            let k = k\<lparr>sbi_calls := set_next_trigger (in_time inp) (sbi_calls k)\<rparr>;
            k \<leftarrow> suspend_current_and_run_next K_timer k;
            Some (False, k) }
          else None) }"

text \<open>A switched-in task continues where it was switched out.\<close>

definition resume :: "inputs \<Rightarrow> tid \<Rightarrow> kernel \<Rightarrow> runres" where
  "resume inp t k =
     (case konts k t of
        K_trap_return \<Rightarrow> trap_return k
      | K_yield \<Rightarrow> finish_syscall (returns 0 k)
      | K_read buf len \<Rightarrow> finish_syscall (sys_read_loop inp buf len k)
      | K_timer \<Rightarrow> trap_return k)"

text \<open>An iteration of \<open>run_tasks\<close>: the idle control flow switches to a ready task, if any.\<close>

definition run_tasks_iter :: "inputs \<Rightarrow> kernel \<Rightarrow> runres" where
  "run_tasks_iter inp k = do {
     (r, k) \<leftarrow> run_tasks_round (in_time inp) k;
     (case r of None \<Rightarrow> Some (False, k) | Some t \<Rightarrow> resume inp t k) }"

section \<open>Boot\<close>

text \<open>\<open>MemorySet::activate\<close>: the token goes to \<open>satp\<close>.\<close>

definition activate :: "MemorySet \<Rightarrow> kernel \<Rightarrow> kernel" where
  "activate ms k = k\<lparr>csr_satp := ms_token ms\<rparr>"

text \<open>\<open>slice.fill(0)\<close> over the bytes from \<open>sbss\<close> to \<open>ebss\<close>.\<close>

definition clear_bss :: "linker_symbols \<Rightarrow> mm \<Rightarrow> mm" where
  "clear_bss ld s = s\<lparr>mem := write_bytes (mem s) (sbss ld) (replicate (unat (ebss ld - sbss ld)) 0)\<rparr>"

text \<open>The statics before the first task, after \<open>mm::init\<close> has built the kernel's address space.\<close>

definition boot_kernel :: "MemorySet \<Rightarrow> mm \<Rightarrow> sbi_log \<Rightarrow> kernel" where
  "boot_kernel kspace s l = \<lparr>kmm = s, kernel_space = kspace, pid_allocator = pid_allocator_new,
     tcbs = (\<lambda>_. None), next_tid = 0, INITPROC = 0, task_manager = \<lparr>ready_queue = []\<rparr>,
     processor = \<lparr>proc_current = None, idle_task_cx = zero_init\<rparr>, konts = (\<lambda>_. K_trap_return),
     sbi_calls = l, csr_stvec = 0, csr_sie = 0, csr_satp = 0\<rparr>"

text \<open>\<open>mm::init\<close>; \<open>init_heap\<close> sets up the allocator of the kernel's own heap, an external crate.\<close>

definition mm_init :: "linker_symbols \<Rightarrow> mm \<Rightarrow> sbi_log \<Rightarrow> kernel option" where
  "mm_init ld s l = do {
     let s = init_frame_allocator (ekernel ld) s;
     (kspace, s) \<leftarrow> new_kernel ld s;
     Some (activate kspace (boot_kernel kspace s l)) }"

text \<open>\<open>add_initproc\<close>, which forces \<open>INITPROC\<close>.\<close>

definition add_initproc :: "platform \<Rightarrow> inputs \<Rightarrow> kernel \<Rightarrow> kernel option" where
  "add_initproc P inp k = do {
     r \<leftarrow> get_app_data_by_name (p_apps P) (str_bytes ''ch5b_initproc'') (kmm k);
     data \<leftarrow> r;
     (b, k) \<leftarrow> task_new P (in_sstatus inp) data k;
     let (t, k) = arc_new b k;
     Some (add_task t (k\<lparr>INITPROC := t\<rparr>)) }"

text \<open>
  \<open>rust_main\<close> up to the call of \<open>run_tasks\<close>. The messages of the \<open>log\<close> macros are not modelled.
\<close>

definition rust_main :: "platform \<Rightarrow> inputs \<Rightarrow> mm \<Rightarrow> kernel option" where
  "rust_main P inp s = do {
     let s = clear_bss (p_ld P) s;
     let l = println (str_bytes ''[kernel] Hello, world!'') [];
     k \<leftarrow> mm_init (p_ld P) s l;
     remap_test (p_ld P) (kernel_space k) (kmm k);
     k \<leftarrow> add_initproc P inp k;
     let k = enable_timer_interrupt (trap_init P k);
     let k = k\<lparr>sbi_calls := set_next_trigger (in_time inp) (sbi_calls k)\<rparr>;
     l \<leftarrow> list_apps (p_apps P) (kmm k) (sbi_calls k);
     Some (k\<lparr>sbi_calls := l\<rparr>) }"

end
