(* ===== verification/ProcRefine.thy ===== *)
theory ProcRefine
  imports ProcSpec Trap
begin

text \<open>
  The kernel refines the specification of process management: every operation of \<open>task\<close> and
  \<open>syscall\<close>, and so every trap and every round of the idle loop, performs steps of \<open>pstep\<close> on the
  processes (\<open>procs_of\<close>). From this the invariant holds in every state the kernel reaches after
  boot, and with it the assertions in \<open>fetch\<close>, \<open>sys_waitpid\<close> and \<open>exit_current_and_run_next\<close>.
\<close>

lemma if_else_None: "(if c then x else None) = Some y \<longleftrightarrow> c \<and> x = Some y"
  by simp

lemma set_tcb_simps [simp]:
  "INITPROC (set_tcb t b k) = INITPROC k" "queue (set_tcb t b k) = queue k"
  "cur (set_tcb t b k) = cur k" "next_tid (set_tcb t b k) = next_tid k"
  "pid_allocator (set_tcb t b k) = pid_allocator k" "kmm (set_tcb t b k) = kmm k"
  "tcbs (set_tcb t b k) = (tcbs k)(t \<mapsto> b)"
  by (simp_all add: set_tcb_def)

section \<open>The processes of a kernel state\<close>

definition ptask_of :: "TaskControlBlock \<Rightarrow> ptask" where
  "ptask_of b = \<lparr>st = task_status b, kids = children b, par = parent b, prio = priority b,
     ppid = tcb_pid b\<rparr>"

definition procs_of :: "kernel \<Rightarrow> procs" where
  "procs_of k = \<lparr>tasks = (\<lambda>t. map_option ptask_of (tcbs k t)), ready = queue k, running = cur k,
     init_task = INITPROC k, fresh = next_tid k, pids_of = pid_allocator k\<rparr>"

lemma procs_of_simps [simp]:
  "tasks (procs_of k) t = map_option ptask_of (tcbs k t)" "ready (procs_of k) = queue k"
  "running (procs_of k) = cur k" "init_task (procs_of k) = INITPROC k"
  "fresh (procs_of k) = next_tid k" "pids_of (procs_of k) = pid_allocator k"
  by (simp_all add: procs_of_def)

lemma ptask_of_simps [simp]:
  "st (ptask_of b) = task_status b" "kids (ptask_of b) = children b" "par (ptask_of b) = parent b"
  "prio (ptask_of b) = priority b" "ppid (ptask_of b) = tcb_pid b"
  by (simp_all add: ptask_of_def)

text \<open>What is not part of the specification.\<close>

lemma procs_of_other [simp]:
  "procs_of (k\<lparr>kmm := s\<rparr>) = procs_of k" "procs_of (k\<lparr>kernel_space := ms\<rparr>) = procs_of k"
  "procs_of (k\<lparr>konts := c\<rparr>) = procs_of k" "procs_of (k\<lparr>sbi_calls := l\<rparr>) = procs_of k"
  "procs_of (k\<lparr>csr_stvec := w\<rparr>) = procs_of k" "procs_of (k\<lparr>csr_sie := w\<rparr>) = procs_of k"
  "procs_of (k\<lparr>csr_satp := w\<rparr>) = procs_of k"
  by (simp_all add: procs_of_def)

lemma procs_of_set_tcb:
  "procs_of (set_tcb t b k) = (procs_of k)\<lparr>tasks := (tasks (procs_of k))(t \<mapsto> ptask_of b)\<rparr>"
  by (simp add: procs_of_def set_tcb_def fun_eq_iff)

lemma procs_of_same:
  "tcbs k t = Some b \<Longrightarrow> ptask_of b' = ptask_of b \<Longrightarrow> procs_of (set_tcb t b' k) = procs_of k"
  by (simp add: procs_of_def set_tcb_def fun_eq_iff)

abbreviation psteps :: "kernel \<Rightarrow> kernel \<Rightarrow> bool" where
  "psteps k k' \<equiv> pstep\<^sup>*\<^sup>* (procs_of k) (procs_of k')"

section \<open>Operations that leave the processes alone\<close>

lemma current_tcb_Some: "current_tcb k = Some (t, b) \<longleftrightarrow> cur k = Some t \<and> tcbs k t = Some b"
  by (auto simp: current_tcb_def current_task_def bind_eq_Some_conv)

lemma count_syscall_procs: "count_syscall i k = Some k' \<Longrightarrow> procs_of k' = procs_of k"
  by (auto simp: count_syscall_def current_tcb_Some bind_eq_Some_conv ptask_of_def
      intro: procs_of_same split: if_splits)

lemma task_mmap_procs: "task_mmap start len port k = Some (r, k') \<Longrightarrow> procs_of k' = procs_of k"
  by (auto simp: task_mmap_def current_tcb_Some bind_eq_Some_conv Let_def ptask_of_def
      intro!: procs_of_same [THEN trans] split: if_splits)

lemma task_munmap_procs: "task_munmap start len k = Some (r, k') \<Longrightarrow> procs_of k' = procs_of k"
  by (auto simp: task_munmap_def current_tcb_Some bind_eq_Some_conv Let_def ptask_of_def
      intro!: procs_of_same [THEN trans] split: if_splits)

lemma task_exec_procs: "task_exec P ss t data k = Some k' \<Longrightarrow> procs_of k' = procs_of k"
  by (auto simp: task_exec_def bind_eq_Some_conv Let_def ptask_of_def
      intro!: procs_of_same [THEN trans] split: prod.splits)

lemma print_buffers_procs: "foldM print_buffer bs k = Some k' \<Longrightarrow> procs_of k' = procs_of k"
  by (rule foldM_invariant [where P = "\<lambda>x. procs_of x = procs_of k"])
    (auto simp: print_buffer_def bind_eq_Some_conv)

section \<open>Switching\<close>

lemma suspend_step:
  assumes "suspend_current_and_run_next c k = Some k'"
  shows "pstep (procs_of k) (procs_of k')"
proof -
  obtain t b where t: "cur k = Some t" "tcbs k t = Some b"
    and k': "procs_of k' = (procs_of k)\<lparr>ready := queue k @ [t], running := None,
      tasks := (tasks (procs_of k))(t \<mapsto> (ptask_of b)\<lparr>st := Ready\<rparr>)\<rparr>"
    using assms by (auto simp: suspend_current_and_run_next_def take_current_task_def add_task_def
        set_tcb_def procs_of_def ptask_of_def bind_eq_Some_conv fun_eq_iff)
  show ?thesis unfolding k' using suspend [of "procs_of k" t "ptask_of b"] t by simp
qed

lemma run_step:
  assumes "run_tasks_round time k = Some (Some t, k')" and idle: "cur k = None" and "distinct (queue k)"
  shows "pstep (procs_of k) (procs_of k')"
proof -
  obtain i b where i: "i < length (queue k)" "t = queue k ! i" "tcbs k t = Some b"
    and k': "procs_of k' = (procs_of k)\<lparr>ready := remove_nth i (queue k), running := Some t,
      tasks := (tasks (procs_of k))(t \<mapsto> (ptask_of b)\<lparr>st := Running\<rparr>)\<rparr>"
    using assms(1) by (auto simp: run_tasks_round_def fetch_task_def set_tcb_def procs_of_def
        ptask_of_def bind_eq_Some_conv fun_eq_iff Let_def split: if_splits)
  show ?thesis
    unfolding k' using run [of "procs_of k" t "ptask_of b"] i idle remove_nth_remove1 [OF assms(3) i(1)]
    by simp
qed

lemma run_none: "run_tasks_round time k = Some (None, k') \<Longrightarrow> k' = k"
  by (auto simp: run_tasks_round_def fetch_task_def bind_eq_Some_conv Let_def
      split: if_splits option.splits)

section \<open>Creating processes\<close>

text \<open>What \<open>fork\<close> and \<open>spawn\<close> do to the table; the new process is not queued yet.\<close>

definition forked :: "tid \<Rightarrow> TaskControlBlock \<Rightarrow> kernel \<Rightarrow> PidHandle \<Rightarrow> PidAllocator \<Rightarrow> procs" where
  "forked t b k i a = (procs_of k)\<lparr>fresh := Suc (next_tid k), pids_of := a,
     tasks := (tasks (procs_of k))
       (next_tid k \<mapsto> \<lparr>st = Ready, kids = [], par = Some t, prio = priority b, ppid = i\<rparr>,
        t \<mapsto> (ptask_of b)\<lparr>kids := children b @ [next_tid k]\<rparr>)\<rparr>"

lemma task_fork_procs:
  assumes "task_fork P t k = Some (n, k')" and t: "tcbs k t = Some b"
  shows "n = next_tid k"
    and "\<exists>i a. pid_alloc (pid_allocator k) = (i, a) \<and> procs_of k' = forked t b k i a"
proof -
  obtain i a where pa: "pid_alloc (pid_allocator k) = (i, a)" by fastforce
  then show "n = next_tid k"
    and "\<exists>i a. pid_alloc (pid_allocator k) = (i, a) \<and> procs_of k' = forked t b k i a"
    using assms by (auto simp: task_fork_def arc_new_def bind_eq_Some_conv Let_def procs_of_def
        set_tcb_def forked_def ptask_of_def fun_eq_iff)
qed

lemma task_spawn_procs:
  assumes "task_spawn P ss t data k = Some (n, k')" and t: "tcbs k t = Some b"
  shows "n = next_tid k"
    and "\<exists>i a. pid_alloc (pid_allocator k) = (i, a) \<and> procs_of k' = forked t b k i a"
proof -
  obtain i a where pa: "pid_alloc (pid_allocator k) = (i, a)" by fastforce
  then show "n = next_tid k"
    and "\<exists>i a. pid_alloc (pid_allocator k) = (i, a) \<and> procs_of k' = forked t b k i a"
    using assms by (auto simp: task_spawn_def arc_new_def bind_eq_Some_conv Let_def procs_of_def
        set_tcb_def forked_def ptask_of_def fun_eq_iff)
qed

lemma create_step:
  assumes "cur k = Some t" and "tcbs k t = Some b" and "pid_alloc (pid_allocator k) = (i, a)"
    and "procs_of k' = forked t b k i a"
  shows "pstep (procs_of k) (procs_of (add_task (next_tid k) k'))"
proof -
  have q: "queue k' = queue k"
    using arg_cong [OF assms(4), of ready] by (simp add: forked_def)
  have "procs_of (add_task n k') = (procs_of k')\<lparr>ready := queue k' @ [n]\<rparr>" for n
    by (simp add: procs_of_def add_task_def)
  then have "procs_of (add_task (next_tid k) k') = (procs_of k)\<lparr>ready := queue k @ [next_tid k],
      fresh := Suc (next_tid k), pids_of := a, tasks := tasks (forked t b k i a)\<rparr>"
    unfolding assms(4) q by (intro procs.equality) (simp_all add: forked_def)
  then show ?thesis
    using create [of "procs_of k" t "ptask_of b" i a] assms by (simp add: forked_def)
qed

lemma sys_fork_steps:
  assumes "sys_fork P k = Some (r, k')"
  shows "psteps k k'"
proof -
  obtain t n k1 c cx where t: "cur k = Some t" and f: "task_fork P t k = Some (n, k1)"
    and k': "k' = add_task n (k1\<lparr>kmm := cx_put cx 10 0 (kmm k1)\<rparr>)"
    using assms by (auto simp: sys_fork_def current_task_def returns_def bind_eq_Some_conv Let_def)
  obtain b where b: "tcbs k t = Some b" using f by (auto simp: task_fork_def bind_eq_Some_conv)
  note F = task_fork_procs [OF f b]
  show ?thesis using F create_step [OF t b, of _ _ "k1\<lparr>kmm := cx_put cx 10 0 (kmm k1)\<rparr>"] k' by auto
qed

lemma sys_spawn_steps:
  assumes "sys_spawn P inp path k = Some (r, k')"
  shows "psteps k k'"
proof -
  consider "k' = k" | t n k1 data where "cur k = Some t"
      "task_spawn P (in_sstatus inp) t data k = Some (n, k1)" "k' = add_task n k1"
    using assms
    by (auto simp: sys_spawn_def current_task_def returns_def bind_eq_Some_conv Let_def split: option.splits)
  then show ?thesis
  proof cases
    case 2
    obtain b where b: "tcbs k t = Some b" using 2(2) by (auto simp: task_spawn_def bind_eq_Some_conv)
    show ?thesis using task_spawn_procs [OF 2(2) b] create_step [OF 2(1) b] 2(3) by auto
  qed simp
qed

section \<open>Exit\<close>

text \<open>The loop over the children.\<close>

lemma adopt_children:
  assumes "foldM (adopt_child t) cs k = Some k'" and "distinct cs"
  shows "INITPROC k' = INITPROC k \<and> queue k' = queue k \<and> cur k' = cur k \<and> next_tid k' = next_tid k
    \<and> pid_allocator k' = pid_allocator k \<and> kmm k' = kmm k \<and> t \<notin> set cs \<and> INITPROC k \<notin> set cs
    \<and> (\<forall>u. tcbs k' u = (if u \<in> set cs then map_option (\<lambda>c. c\<lparr>parent := Some (INITPROC k)\<rparr>) (tcbs k u)
         else if u = INITPROC k then map_option (\<lambda>i. i\<lparr>children := children i @ cs\<rparr>) (tcbs k u)
         else tcbs k u))"
  using assms
proof (induction cs arbitrary: k)
  case Nil
  then show ?case by (auto simp: option.map_ident)
next
  case (Cons c cs)
  obtain k1 where k1: "adopt_child t c k = Some k1" and r: "foldM (adopt_child t) cs k1 = Some k'"
    using Cons.prems(1) by (auto simp: bind_eq_Some_conv)
  obtain b i where c: "c \<noteq> t" "c \<noteq> INITPROC k" "tcbs k c = Some b" "tcbs k (INITPROC k) = Some i"
    "k1 = set_tcb (INITPROC k) (i\<lparr>children := children i @ [c]\<rparr>)
        (set_tcb c (b\<lparr>parent := Some (INITPROC k)\<rparr>) k)"
    using k1 by (auto simp: adopt_child_def set_tcb_def bind_eq_Some_conv Let_def split: if_splits)
  from Cons.IH [OF r] Cons.prems(2) c show ?case
    by (auto simp: set_tcb_def fun_upd_apply option.map_comp o_def split: if_splits)
qed

text \<open>Reference counts in terms of the tree.\<close>

lemma count_list_distinct: "distinct xs \<Longrightarrow> count_list xs x = (if x \<in> set xs then 1 else 0)"
  by (induction xs) auto

lemma child_refs_kids:
  "child_refs c k = sum_list (map (\<lambda>u. count_list (kids_at (procs_of k) u) c) [0..<next_tid k])"
  unfolding child_refs_def by (intro arg_cong [where f = sum_list] map_cong)
    (auto simp: kids_at_def split: option.splits)

lemma child_refs_tree:
  assumes ok: "tree_ok (procs_of k)"
  shows "child_refs c k = (if par_at (procs_of k) c = None then 0 else 1)"
proof -
  note D = tree_okD [OF ok]
  have c: "count_list (kids_at (procs_of k) u) c = (if par_at (procs_of k) c = Some u then 1 else 0)" for u
    using count_list_distinct [OF D(10)] D(8) by simp
  have "u < next_tid k" if "par_at (procs_of k) c = Some u" for u
    using par_exists [OF ok that] D(1) [of u] by auto
  then show ?thesis
    unfolding child_refs_kids c by (cases "par_at (procs_of k) c")
      (simp_all add: interv_sum_list_conv_sum_set_nat)
qed

lemma strong_count_0:
  assumes "pinv (procs_of k)" and "tcbs k t = None \<or> (\<exists>b. tcbs k t = Some b \<and> task_status b = Zombie)"
  shows "strong_count t k = (if par_at (procs_of k) t = None then 0 else 1)"
proof -
  have s: "sched_ok (procs_of k)" and ok: "tree_ok (procs_of k)" using assms(1) by (simp_all add: pinv_def)
  have "INITPROC k \<noteq> t"
  proof (cases "tcbs k t")
    case None
    then show ?thesis using tree_okD(7) [OF ok] by auto
  next
    case (Some b)
    then show ?thesis using tree_okD(5) [OF ok, of t "ptask_of b"] assms(2) by auto
  qed
  moreover have "t \<notin> set (queue k)" "cur k \<noteq> Some t"
    using s assms(2) by (auto simp: sched_ok_def)
  ultimately show ?thesis by (simp add: strong_count_def child_refs_tree [OF ok] count_list_0_iff)
qed

lemma exit_step:
  assumes e: "exit_current_and_run_next code k = Some k'"
    and s: "sched_ok (procs_of k)" and ok: "tree_ok (procs_of k)"
  shows "pstep (procs_of k) (procs_of k')"
proof -
  obtain t b k2 b2 ms s2 where t: "cur k = Some t" "tcbs k t = Some b" "t \<noteq> INITPROC k"
    and f: "foldM (adopt_child t) (children b) (set_tcb t (b\<lparr>task_status := Zombie, exit_code := code\<rparr>)
        (k\<lparr>processor := (processor k)\<lparr>proc_current := None\<rparr>\<rparr>)) = Some k2"
    and b2: "tcbs k2 t = Some b2" "recycle_data_pages (memory_set b2) (kmm k2) = Some (ms, s2)"
    and k': "(if strong_count t (set_tcb t (b2\<lparr>children := [], memory_set := ms\<rparr>) (k2\<lparr>kmm := s2\<rparr>)) = 0
      then drop_tcb t (set_tcb t (b2\<lparr>children := [], memory_set := ms\<rparr>) (k2\<lparr>kmm := s2\<rparr>))
      else Some (set_tcb t (b2\<lparr>children := [], memory_set := ms\<rparr>) (k2\<lparr>kmm := s2\<rparr>))) = Some k'"
    using e by (auto simp: exit_current_and_run_next_def take_current_task_def bind_eq_Some_conv Let_def
        if_else_None)
  define k3 where "k3 = set_tcb t (b2\<lparr>children := [], memory_set := ms\<rparr>) (k2\<lparr>kmm := s2\<rparr>)"
  have "distinct (children b)" using tree_okD(10) [OF ok, of t] t(2) by (simp add: kids_at_def)
  note A = adopt_children [OF f this]
  have p3: "procs_of k3 = (procs_of k)\<lparr>running := None, tasks := hand_over t (ptask_of b) (procs_of k)\<rparr>"
  proof (intro procs.equality)
    show "tasks (procs_of k3) = tasks ((procs_of k)\<lparr>running := None,
        tasks := hand_over t (ptask_of b) (procs_of k)\<rparr>)"
      using A b2(1) t by (auto simp: fun_eq_iff k3_def set_tcb_def hand_over_def ptask_of_def
          option.map_comp o_def)
  qed (use A in \<open>simp_all add: k3_def set_tcb_def\<close>)
  have st: "pstep (procs_of k) (procs_of k3)"
    unfolding p3 using exit [of "procs_of k" t "ptask_of b"] t by simp
  have ok3: "tree_ok (procs_of k3)" by (rule pstep_tree [OF st ok s])
  have x: "tasks (procs_of k3) t = Some ((ptask_of b)\<lparr>st := Zombie, kids := []\<rparr>)"
    "init_task (procs_of k3) = INITPROC k" unfolding p3 by simp_all
  have "par_at (procs_of k3) t \<noteq> None"
    using tree_okD(6) [OF ok3 x(1)] t(3) x(2) unfolding par_at_def x(1) by simp
  then have "strong_count t k3 \<noteq> 0" by (auto simp: strong_count_def child_refs_tree [OF ok3])
  then have "k' = k3" using k' by (simp add: k3_def)
  with st show ?thesis by simp
qed

section \<open>System calls and traps\<close>

text \<open>\<open>drop_tcb\<close> takes a process out of the table and gives its pid back.\<close>

lemma drop_tcb_procs:
  assumes "drop_tcb t k = Some k'" and "tcbs k t = Some b"
  shows "\<exists>a. pid_dealloc (tcb_pid b) (pid_allocator k) = Some a
    \<and> procs_of k' = (procs_of k)\<lparr>pids_of := a, tasks := (tasks (procs_of k))(t := None)\<rparr>"
  using assms by (auto simp: drop_tcb_def bind_eq_Some_conv procs_of_def fun_eq_iff)

lemma waitpid_steps:
  assumes w: "sys_waitpid pid ptr k = Some (r, k')"
    and ok: "tree_ok (procs_of k)"
  shows "psteps k k'"
proof -
  obtain t b where t: "cur k = Some t" "tcbs k t = Some b"
    using w by (auto simp: sys_waitpid_def current_tcb_Some bind_eq_Some_conv)
  have dk: "distinct (children b)" using tree_okD(10) [OF ok, of t] t(2) by (simp add: kids_at_def)
  consider "k' = k" | i c s k1 where
      "find_index (child_is k (\<lambda>p. is_zombie p \<and> wait_matches pid p)) (children b) = Some i"
      "tcbs (set_tcb t (b\<lparr>children := remove_nth i (children b)\<rparr>) k) (children b ! i) = Some c"
      "k1 = (set_tcb t (b\<lparr>children := remove_nth i (children b)\<rparr>) k)\<lparr>kmm := s\<rparr>"
      "drop_tcb (children b ! i) k1 = Some k'"
    using w t by (auto simp: sys_waitpid_def current_tcb_Some bind_eq_Some_conv returns_def Let_def
        if_else_None split: if_splits option.splits)
  then show ?thesis
  proof cases
    case 2
    let ?c = "children b ! i"
    have i: "i < length (children b)" "child_is k (\<lambda>p. is_zombie p \<and> wait_matches pid p) ?c"
      using 2(1) by (simp_all add: find_index_Some)
    have "?c \<in> set (kids_at (procs_of k) t)" using i(1) t(2) by (simp add: kids_at_def)
    then have "t < ?c" using tree_okD(8,9) [OF ok] by blast
    then have c: "tcbs k ?c = Some c" "t \<noteq> ?c" using 2(2) by auto
    have z: "task_status c = Zombie"
      using i(2) c(1) by (simp add: child_is_def is_zombie_def get_status_def)
    have "tcbs k1 ?c = Some c" using c by (simp add: 2(3))
    from drop_tcb_procs [OF 2(4) this] obtain a where
      a: "pid_dealloc (tcb_pid c) (pid_allocator k) = Some a"
      and k': "procs_of k' = (procs_of k1)\<lparr>pids_of := a, tasks := (tasks (procs_of k1))(?c := None)\<rparr>"
      by (auto simp: 2(3))
    have "procs_of k' = (procs_of k)\<lparr>pids_of := a, tasks := (tasks (procs_of k))
        (t \<mapsto> (ptask_of b)\<lparr>kids := remove1 ?c (children b)\<rparr>, ?c := None)\<rparr>"
      unfolding k' by (intro procs.equality)
        (simp_all add: 2(3) procs_of_set_tcb remove_nth_remove1 [OF dk i(1)] ptask_of_def fun_eq_iff)
    then have "pstep (procs_of k) (procs_of k')"
      using reap [of "procs_of k" t "ptask_of b" ?c "ptask_of c" a] t c(1) z a i(1) by simp
    then show ?thesis by blast
  qed simp
qed

lemma set_priority_steps: "sys_set_priority p k = Some (r, k') \<Longrightarrow> psteps k k'"
proof -
  assume "sys_set_priority p k = Some (r, k')"
  then consider "k' = k" | t b where "cur k = Some t" "tcbs k t = Some b" "2 \<le> sint p"
      "k' = set_tcb t (b\<lparr>priority := p\<rparr>) k"
    by (auto simp: sys_set_priority_def current_tcb_Some bind_eq_Some_conv returns_def split: if_splits)
  then show "psteps k k'"
  proof cases
    case 2
    then have "pstep (procs_of k) (procs_of k')"
      using reprioritise [of "procs_of k" t "ptask_of b" p]
      by (simp add: procs_of_set_tcb ptask_of_def)
    then show ?thesis by blast
  qed simp
qed

lemma sys_read_loop_steps: "sys_read_loop inp buf len k = Some (r, k') \<Longrightarrow> psteps k k'"
proof -
  assume "sys_read_loop inp buf len k = Some (r, k')"
  then consider l where "suspend_current_and_run_next (K_read buf len) (k\<lparr>sbi_calls := l\<rparr>) = Some k'"
    | "procs_of k' = procs_of k"
    by (auto simp: sys_read_loop_def console_getchar_def switched_def returns_def bind_eq_Some_conv Let_def
        split: if_splits)
  then show "psteps k k'"
  proof cases
    case 1
    then show ?thesis using suspend_step by fastforce
  qed simp
qed

lemma syscall_steps:
  assumes s: "syscall P inp i args k = Some (r, k')"
    and sok: "sched_ok (procs_of k)" and ok: "tree_ok (procs_of k)"
  shows "psteps k k'"
proof -
  obtain a0 a1 a2 where args: "args = (a0, a1, a2)" by (cases args)
  obtain k1 where k1: "count_syscall i k = Some k1" using s by (auto simp: syscall_def args bind_eq_Some_conv)
  have e: "procs_of k1 = procs_of k" by (rule count_syscall_procs [OF k1])
  have oks: "sched_ok (procs_of k1)" "tree_ok (procs_of k1)" using sok ok e by simp_all
  note s' = s [unfolded syscall_def args k1 prod.case bind.bind_lunit]
  have "psteps k1 k'" if "sys_exit c k1 = Some (r, k')" for c
    using that exit_step [OF _ oks] by (auto simp: sys_exit_def switched_def)
  moreover have "psteps k1 k'" if "sys_yield k1 = Some (r, k')"
    using that suspend_step by (auto simp: sys_yield_def switched_def)
  moreover have "psteps k1 k'" if "sys_getpid k1 = Some (r, k')"
    using that by (auto simp: sys_getpid_def returns_def bind_eq_Some_conv)
  moreover have "psteps k1 k'" if "sys_exec P inp a0 k1 = Some (r, k')"
    using that task_exec_procs by (auto simp: sys_exec_def returns_def bind_eq_Some_conv split: option.splits)
  moreover have "psteps k1 k'" if "sys_get_time inp a0 a1 k1 = Some (r, k')"
    using that by (auto simp: sys_get_time_def returns_def bind_eq_Some_conv Let_def)
  moreover have "psteps k1 k'" if "sys_task_info P inp a0 k1 = Some (r, k')"
    using that by (auto simp: sys_task_info_def returns_def bind_eq_Some_conv Let_def)
  moreover have "psteps k1 k'" if "sys_mmap a0 a1 a2 k1 = Some (r, k')"
    using that task_mmap_procs by (auto simp: sys_mmap_def returns_def bind_eq_Some_conv)
  moreover have "psteps k1 k'" if "sys_munmap a0 a1 k1 = Some (r, k')"
    using that task_munmap_procs by (auto simp: sys_munmap_def returns_def bind_eq_Some_conv)
  moreover have "psteps k1 k'" if "sys_write a0 a1 a2 k1 = Some (r, k')"
    using that print_buffers_procs by (auto simp: sys_write_def returns_def bind_eq_Some_conv if_else_None)
  moreover have "psteps k1 k'" if "sys_read inp a0 a1 a2 k1 = Some (r, k')"
    using that sys_read_loop_steps by (auto simp: sys_read_def if_else_None)
  ultimately have "psteps k1 k'"
    using s' sys_fork_steps sys_spawn_steps waitpid_steps [OF _ oks(2)] set_priority_steps
    by (auto split: if_splits)
  then show ?thesis by (simp add: e)
qed

lemma trap_return_procs: "trap_return k = Some (u, k') \<Longrightarrow> procs_of k' = procs_of k"
  by (auto simp: trap_return_def set_user_trap_entry_def bind_eq_Some_conv Let_def)

lemma finish_syscall_procs:
  "finish_syscall res = Some (u, k') \<Longrightarrow> \<exists>r k. res = Some (r, k) \<and> procs_of k' = procs_of k"
  using trap_return_procs
  by (fastforce simp: finish_syscall_def bind_eq_Some_conv split: option.splits)

lemma trap_handler_steps:
  assumes h: "trap_handler P inp scause k = Some (u, k')"
    and sok: "sched_ok (procs_of k)" and ok: "tree_ok (procs_of k)"
  shows "psteps k k'"
proof -
  define k0 where "k0 = set_kernel_trap_entry P k"
  have e: "procs_of k0 = procs_of k" by (simp add: k0_def set_kernel_trap_entry_def)
  have oks: "sched_ok (procs_of k0)" "tree_ok (procs_of k0)" using sok ok e by simp_all
  consider s i args where "finish_syscall (syscall P inp i args (k0\<lparr>kmm := s\<rparr>)) = Some (u, k')"
    | code where "exit_current_and_run_next code k0 = Some k'"
    | l where "suspend_current_and_run_next K_timer (k0\<lparr>sbi_calls := l\<rparr>) = Some k'"
    using h by (auto simp: trap_handler_def bind_eq_Some_conv Let_def simp flip: k0_def
        split: if_splits Trap.splits)
  then have "psteps k0 k'"
  proof cases
    case 1
    from finish_syscall_procs [OF this] obtain r k1
      where k1: "syscall P inp i args (k0\<lparr>kmm := s\<rparr>) = Some (r, k1)" "procs_of k' = procs_of k1" by blast
    then show ?thesis using syscall_steps [OF k1(1)] oks by simp
  next
    case 2
    then show ?thesis using exit_step [OF _ oks] by blast
  next
    case 3
    then show ?thesis using suspend_step by fastforce
  qed
  then show ?thesis by (simp add: e)
qed

lemma resume_steps: "resume inp t k = Some (u, k') \<Longrightarrow> psteps k k'"
proof (cases "konts k t")
  case (K_read buf len)
  moreover assume "resume inp t k = Some (u, k')"
  ultimately have "finish_syscall (sys_read_loop inp buf len k) = Some (u, k')" by (simp add: resume_def)
  from finish_syscall_procs [OF this] show ?thesis using sys_read_loop_steps by fastforce
next
  case K_yield
  moreover assume "resume inp t k = Some (u, k')"
  ultimately have "finish_syscall (returns 0 k) = Some (u, k')" by (simp add: resume_def)
  from finish_syscall_procs [OF this] show ?thesis by (auto simp: returns_def)
qed (auto simp: resume_def dest: trap_return_procs)

lemma run_tasks_iter_steps:
  assumes r: "run_tasks_iter inp k = Some (u, k')" and idle: "cur k = None"
    and sok: "sched_ok (procs_of k)"
  shows "psteps k k'"
proof -
  have d: "distinct (queue k)" using sok by (simp add: sched_ok_def)
  obtain o1 k1 where o: "run_tasks_round (in_time inp) k = Some (o1, k1)"
    and k': "(case o1 of None \<Rightarrow> Some (False, k1) | Some t \<Rightarrow> resume inp t k1) = Some (u, k')"
    using r by (auto simp: run_tasks_iter_def bind_eq_Some_conv)
  show ?thesis
  proof (cases o1)
    case None
    then show ?thesis using o k' run_none by auto
  next
    case (Some t)
    then have "pstep (procs_of k) (procs_of k1)" "psteps k1 k'"
      using o k' run_step [OF _ idle d] resume_steps by auto
    then show ?thesis by (rule converse_rtranclp_into_rtranclp)
  qed
qed

section \<open>The kernel as a transition system\<close>

text \<open>
  A step of the machine: the running task traps, the idle loop makes a round, or user code (or a
  device) changes memory.
\<close>

inductive kstep :: "platform \<Rightarrow> kernel \<Rightarrow> kernel \<Rightarrow> bool" for P where
  trap: "cur k \<noteq> None \<Longrightarrow> trap_handler P inp scause k = Some (u, k') \<Longrightarrow> kstep P k k'"
| idle: "cur k = None \<Longrightarrow> run_tasks_iter inp k = Some (u, k') \<Longrightarrow> kstep P k k'"
| user: "kstep P k (k\<lparr>kmm := (kmm k)\<lparr>mem := m\<rparr>\<rparr>)"

lemma kstep_psteps: "kstep P k k' \<Longrightarrow> sched_ok (procs_of k) \<Longrightarrow> tree_ok (procs_of k) \<Longrightarrow> psteps k k'"
  by (induction rule: kstep.induct) (auto simp: trap_handler_steps run_tasks_iter_steps)

lemma ksteps_psteps:
  "(kstep P)\<^sup>*\<^sup>* k k' \<Longrightarrow> sched_ok (procs_of k) \<Longrightarrow> tree_ok (procs_of k) \<Longrightarrow> psteps k k'"
proof (induction rule: rtranclp_induct)
  case (step q r)
  then have p: "psteps k q" by blast
  then have "psteps q r" using psteps_sched_tree [OF p] step kstep_psteps by blast
  with p show ?case by (rule rtranclp_trans)
qed simp

end
