(* ===== verification/SpaceProps.thy ===== *)
theory SpaceProps
  imports SpaceOps
begin

text \<open>
  The properties of address spaces: inserting and removing an area, the copy that \<open>fork\<close> makes,
  and giving the frames back.
\<close>

section \<open>Inserting an area\<close>

lemma insert_framed_area_conv:
  "insert_framed_area a b p ms s = (if va_floor a \<le> va_ceil b
     then ms_push \<lparr>vpn_range = \<lparr>range_l = va_floor a, range_r = va_ceil b\<rparr>, data_frames = [],
       map_type = Framed, map_perm = p\<rparr> None ms s else None)"
  by (simp add: insert_framed_area_def maparea_new_def range_new_def)

lemma page_bytes_zero:
  assumes "ppn_ok p" and "\<And>x. in_frame p x \<Longrightarrow> m x = 0"
  shows "page_bytes m p = replicate 4096 0"
  using page_bytes_cong [of p m "\<lambda>_. 0"] assms
  by (simp add: page_bytes_def read_bytes_def map_replicate_const)

text \<open>What a page of an inserted area looks like.\<close>

lemma area_pushed_page:
  assumes ok: "ms_ok ms' s'" and A: "area_pushed area ms s a' ms' s'" and ty: "map_type area = Framed"
    and v: "v \<in> set (range_list (vpn_range area))" and w: "vkey w = vkey v"
  shows "\<exists>f. pt_entry (mem s') (page_table ms') w = Some (pte_new f (map_perm area OR PTE_V))
    \<and> f \<notin> mm_live s \<and> ppn_ok f \<and> page_bytes (mem s') f = replicate 4096 0"
proof -
  note D = area_pushedD [OF A]
  have a': "a' \<in> set (areas ms')" using D(1) by simp
  then have sh: "area_shape a'" using ok by (simp add: ms_ok_def)
  obtain f where f: "(v, f) \<in> set (data_frames a')" using D(5) ty v by force
  have fa: "f \<in> set (area_frames a')" "ppn_ok f"
    using area_frame_in [OF f] ms_ok_frame_ok [OF ok area_frame_in_ms [OF a' f]] by simp_all
  then have "page_bytes (mem s') f = replicate 4096 0" "f \<notin> mm_live s"
    using D(10,11) page_bytes_zero by auto
  moreover have "area_entry (a', page_table ms', s') v = pte_new f (map_perm area OR PTE_V)"
    using area_entry_framed [OF sh _ f] D(3,4) ty by simp
  ultimately show ?thesis using D(8) [OF v w] fa(2) by auto
qed

section \<open>A sample address space\<close>

definition sample_ld :: linker_symbols where
  "sample_ld = \<lparr>stext = 0x80200000, etext = 0x80210000, srodata = 0x80210000, erodata = 0x80214000,
     sdata = 0x80214000, edata = 0x80300000, sbss_with_stack = 0x80300000, sbss = 0x80310000,
     ebss = 0x80400000, ekernel = 0x80400000, strampoline = 0x80201000\<rparr>"

definition sample_range :: VPNRange where
  "sample_range = \<lparr>range_l = VirtPageNum 1, range_r = VirtPageNum 3\<rparr>"

lemma sample_range_list [simp]: "range_list sample_range = [VirtPageNum 1, VirtPageNum 2]"
  by (simp add: range_list_eq sample_range_def less_eq_VirtPageNum_def upt_rec)

lemma sample_floor_ceil [simp]:
  "va_floor (VirtAddr 0x1000) = VirtPageNum 1" "va_ceil (VirtAddr 0x3000) = VirtPageNum 3"
  by (simp_all add: va_floor_def va_ceil_def PAGE_SIZE_def)

lemma vkey_trampoline: "vkey trampoline_vpn = 2 ^ 27 - 1"
  by (simp add: vkey_def trampoline_vpn_def va_floor_def config_simps)

lemma sample_bare:
  "\<exists>ms s. ms_build sample_mm ms s \<and> ms_full sample_ld ms s \<and> areas ms = [] \<and> 31000 \<le> mm_free s"
proof -
  obtain ms0 s0 where n: "new_bare sample_mm = Some (ms0, s0)"
    using new_bare_total [OF sample_inv] by auto
  note N = new_bare_spec [OF sample_inv n]
  have al: "pa_aligned (PhysAddr (strampoline sample_ld))"
    by (simp add: pa_aligned_def pa_page_offset_def PAGE_SIZE_def sample_ld_def)
  have "ms_ok ms0 s0" "2 \<le> mm_free s0" using N(1,4) by (simp_all add: ms_build_def)
  then obtain ms s where m: "map_trampoline sample_ld ms0 s0 = Some (ms, s)"
    using map_trampoline_total [OF _ al _ N(3)] by blast
  note B = bare_full [OF sample_inv n m]
  have "31000 \<le> mm_free s" using B(4) by simp
  with B(1-3) show ?thesis by blast
qed

text \<open>Pages 1 and 2, readable and writable by the user.\<close>

lemma sample_space:
  "\<exists>ms s. ms_full sample_ld ms s \<and> mm_free s \<ge> 30000 \<and> ms_pages ms = [VirtPageNum 1, VirtPageNum 2]
    \<and> length (areas ms) = 1 \<and> vpn_range (areas ms ! 0) = sample_range"
proof -
  obtain ms0 s0 where B: "ms_full sample_ld ms0 s0" "areas ms0 = []" "31000 \<le> mm_free s0"
    using sample_bare by blast
  let ?a = "\<lparr>vpn_range = sample_range, data_frames = [], map_type = Framed,
      map_perm = MapPermission_R OR MapPermission_W OR MapPermission_U\<rparr>"
  have ok: "ms_ok ms0 s0" using B(1) by (simp add: ms_full_def)
  have none: "pt_entry (mem s0) (page_table ms0) v = None" if "v \<in> {VirtPageNum 1, VirtPageNum 2}" for v
    using B(1,2) that vkey_trampoline by (auto simp: ms_full_def ms_pages_def vkey_def)
  have "distinct (map vkey (range_list (vpn_range ?a)))" by (simp add: vkey_def)
  then obtain ms s where p: "ms_push ?a None ms0 s0 = Some (ms, s)"
    using ms_push_total [OF ok, of ?a] none B(3) by auto
  have r: "range_l (vpn_range ?a) \<le> range_r (vpn_range ?a)"
    by (simp add: sample_range_def less_eq_VirtPageNum_def)
  have "ms_full sample_ld ms s" by (rule ms_push_full [OF B(1) _ _ r p]) simp_all
  moreover have "30000 \<le> mm_free s" using ms_push_room [OF ok _ p] B(3) by simp
  moreover obtain a' where "area_pushed ?a ms0 s0 a' ms s"
    using ms_push_spec(1) [OF ok _ r p] by auto
  ultimately show ?thesis
    using area_pushedD(1,2) B(2) by (fastforce simp: ms_pages_def area_pages_def)
qed

lemma insert_framed_area_spec:
  assumes ok: "ms_ok ms s" and lr: "va_floor a \<le> va_ceil b"
    and vs: "vs = range_list \<lparr>range_l = va_floor a, range_r = va_ceil b\<rparr>"
    and keys: "distinct (map vkey vs)"
    and unmapped: "\<And>v. v \<in> set vs \<Longrightarrow> pt_entry (mem s) (page_table ms) v = None"
    and room: "3 * length vs \<le> mm_free s"
  shows "\<exists>ms' s'. insert_framed_area a b p ms s = Some (ms', s') \<and> ms_ok ms' s'
    \<and> ms_token ms' = ms_token ms
    \<and> (\<forall>w. if vkey w \<in> vkey ` set vs
           then \<exists>f. pt_entry (mem s') (page_table ms') w = Some (pte_new f (p OR PTE_V))
             \<and> f \<notin> mm_live s \<and> page_bytes (mem s') f = replicate 4096 0
           else pt_entry (mem s') (page_table ms') w = pt_entry (mem s) (page_table ms) w)
    \<and> agree_on (mm_live s - set (pt_frames (page_table ms))) (mem s) (mem s')"
proof -
  let ?a = "\<lparr>vpn_range = \<lparr>range_l = va_floor a, range_r = va_ceil b\<rparr>, data_frames = [],
       map_type = Framed, map_perm = p\<rparr>"
  have df: "data_frames ?a = []" and r: "range_l (vpn_range ?a) \<le> range_r (vpn_range ?a)"
    using lr by simp_all
  obtain ms' s' where m: "ms_push ?a None ms s = Some (ms', s')"
    using ms_push_total [OF ok df] keys unmapped room vs by auto
  note S = ms_push_spec [OF ok df r m]
  obtain a' where A: "area_pushed ?a ms s a' ms' s'" using S(1) by blast
  have "\<exists>f. pt_entry (mem s') (page_table ms') w = Some (pte_new f (p OR PTE_V))
      \<and> f \<notin> mm_live s \<and> page_bytes (mem s') f = replicate 4096 0"
    if "vkey w \<in> vkey ` set vs" for w
    using area_pushed_page [OF S(2) A] that vs by fastforce
  moreover have "ms_token ms' = ms_token ms" using S(3) by (simp add: ms_grow_def ms_token_def pt_token_def)
  ultimately show ?thesis
    using m lr S(2) area_pushedD(9,12) [OF A] vs by (simp add: insert_framed_area_conv)
qed

section \<open>Properties\<close>



text \<open>
  C14. \<open>insert_framed_area\<close> on a range of pages that are not mapped succeeds when there are three free
  frames for each page: every page of the range gets the requested permissions and a frame that
  was free and is zeroed, every other page keeps its entry, and no frame in use outside the page
  table changes.
\<close>

theorem insert_framed_area_maps:
  assumes ok: "ms_ok ms s" and lr: "va_floor a \<le> va_ceil b"
    and vs: "vs = range_list \<lparr>range_l = va_floor a, range_r = va_ceil b\<rparr>"
    and keys: "distinct (map vkey vs)"
    and unmapped: "\<And>v. v \<in> set vs \<Longrightarrow> pt_entry (mem s) (page_table ms) v = None"
    and room: "3 * length vs \<le> mm_free s"
  shows "\<exists>ms' s'. insert_framed_area a b p ms s = Some (ms', s') \<and> ms_ok ms' s'
    \<and> ms_token ms' = ms_token ms
    \<and> (\<forall>w. if vkey w \<in> vkey ` set vs
           then \<exists>f. pt_entry (mem s') (page_table ms') w = Some (pte_new f (p OR PTE_V))
             \<and> f \<notin> mm_live s \<and> page_bytes (mem s') f = replicate 4096 0
           else pt_entry (mem s') (page_table ms') w = pt_entry (mem s) (page_table ms) w)
    \<and> agree_on (mm_live s - set (pt_frames (page_table ms))) (mem s) (mem s')"
  using insert_framed_area_spec [OF assms] .

theorem insert_framed_area_maps_witness:
  "\<exists>ms s ms' s' f. insert_framed_area (VirtAddr 0x1000) (VirtAddr 0x3000) MapPermission_R ms s = Some (ms', s')
    \<and> pt_entry (mem s') (page_table ms') (VirtPageNum 2) = Some (pte_new f (MapPermission_R OR PTE_V))
    \<and> page_bytes (mem s') f = replicate 4096 0"
proof -
  obtain ms s where B: "ms_full sample_ld ms s" "areas ms = []" "31000 \<le> mm_free s"
    using sample_bare by blast
  have ok: "ms_ok ms s" using B(1) by (simp add: ms_full_def)
  have none: "pt_entry (mem s) (page_table ms) v = None" if "v \<in> {VirtPageNum 1, VirtPageNum 2}" for v
    using B(1,2) that vkey_trampoline by (auto simp: ms_full_def ms_pages_def vkey_def)
  have vs: "[VirtPageNum 1, VirtPageNum 2]
      = range_list \<lparr>range_l = va_floor (VirtAddr 0x1000), range_r = va_ceil (VirtAddr 0x3000)\<rparr>"
    using sample_range_list by (simp add: sample_range_def)
  have lr: "va_floor (VirtAddr 0x1000) \<le> va_ceil (VirtAddr 0x3000)" by (simp add: less_eq_VirtPageNum_def)
  have d: "distinct (map vkey [VirtPageNum 1, VirtPageNum 2])" by (simp add: vkey_def)
  have room: "3 * length [VirtPageNum 1, VirtPageNum 2] \<le> mm_free s" using B(3) by simp
  have u: "pt_entry (mem s) (page_table ms) v = None" if "v \<in> set [VirtPageNum 1, VirtPageNum 2]" for v
    using none that by simp
  obtain ms' s' where i: "insert_framed_area (VirtAddr 0x1000) (VirtAddr 0x3000) MapPermission_R ms s = Some (ms', s')"
    and e: "\<forall>w. if vkey w \<in> vkey ` set [VirtPageNum 1, VirtPageNum 2]
           then \<exists>f. pt_entry (mem s') (page_table ms') w = Some (pte_new f (MapPermission_R OR PTE_V))
             \<and> f \<notin> mm_live s \<and> page_bytes (mem s') f = replicate 4096 0
           else pt_entry (mem s') (page_table ms') w = pt_entry (mem s) (page_table ms) w"
    using insert_framed_area_maps [OF ok lr vs d u room, of MapPermission_R] by blast
  obtain f where "pt_entry (mem s') (page_table ms') (VirtPageNum 2) = Some (pte_new f (MapPermission_R OR PTE_V))"
    "page_bytes (mem s') f = replicate 4096 0"
    using e [rule_format, of "VirtPageNum 2"] by auto
  with i show ?thesis by blast
qed





end
