(* ===== verification/Sched.thy ===== *)
theory Sched
  imports ProcRefine SpaceProps
begin

text \<open>
  The stride scheduler: \<open>fetch\<close> of \<open>task/manager.rs\<close> takes the first task with the smallest
  \<open>pass\<close>. In a state that satisfies the process invariant it does not panic, and the spread of
  the \<open>pass\<close> values stays bounded as long as the counters do not wrap.
\<close>

section \<open>The scan\<close>

definition queue_pass :: "kernel \<Rightarrow> nat \<Rightarrow> usize" where
  "queue_pass k i = pass (the (tcbs k (queue k ! i)))"

text \<open>The position of the first minimum among the first \<open>n\<close>.\<close>

definition first_min :: "kernel \<Rightarrow> nat \<Rightarrow> nat \<Rightarrow> bool" where
  "first_min k n i \<longleftrightarrow> i < n \<and> (\<forall>j < n. queue_pass k i \<le> queue_pass k j)
     \<and> (\<forall>j < i. queue_pass k i < queue_pass k j)"

lemma first_min_unique: "first_min k n i \<Longrightarrow> first_min k n j \<Longrightarrow> i = j"
  unfolding first_min_def by (metis linorder_neqE_nat not_less)

lemma drop_enumerate: "0 < n \<Longrightarrow> n \<le> length q \<Longrightarrow>
    take (n - 1) (drop 1 (enumerate 0 q)) = map (\<lambda>i. (i, q ! i)) [1..<n]"
  by (rule nth_equalityI) (auto simp: nth_enumerate_eq)

lemma scan_prefix:
  assumes d: "distinct (queue k)" and t: "\<forall>t \<in> set (queue k). tcbs k t \<noteq> None"
  shows "0 < n \<Longrightarrow> n \<le> length (queue k) \<Longrightarrow>
    \<exists>i. foldM (fetch_compare k) (map (\<lambda>i. (i, queue k ! i)) [1..<n]) 0 = Some i \<and> first_min k n i"
proof (induction n)
  case (Suc n)
  show ?case
  proof (cases "n = 0")
    case True
    then show ?thesis by (simp add: first_min_def)
  next
    case False
    then obtain i where i: "foldM (fetch_compare k) (map (\<lambda>i. (i, queue k ! i)) [1..<n]) 0 = Some i"
      "first_min k n i" using Suc by auto
    have il: "i < n" "i < length (queue k)" "n < length (queue k)"
      using i(2) Suc.prems by (auto simp: first_min_def)
    obtain a b where ab: "tcbs k (queue k ! i) = Some a" "tcbs k (queue k ! n) = Some b"
      using t il by (meson nth_mem option.exhaust)
    have ne: "queue k ! i \<noteq> queue k ! n" using d il by (simp add: nth_eq_iff_index_eq)
    have "fetch_compare k (n, queue k ! n) i = Some (if pass b < pass a then n else i)"
      using ab ne il by (simp add: fetch_compare_def index_of_def)
    then have "foldM (fetch_compare k) (map (\<lambda>i. (i, queue k ! i)) [1..<Suc n]) 0
        = Some (if pass b < pass a then n else i)"
      using i(1) False by (simp add: foldM_append)
    moreover have "first_min k (Suc n) (if pass b < pass a then n else i)"
      using i(2) ab by (auto simp: first_min_def queue_pass_def less_Suc_eq)
    ultimately show ?thesis by blast
  qed
qed simp

text \<open>\<open>fetch\<close>, on a queue of distinct tasks with positive priorities.\<close>

lemma fetch_task_first_min:
  assumes d: "distinct (queue k)" and q: "queue k \<noteq> []"
    and t: "\<forall>t \<in> set (queue k). \<exists>b. tcbs k t = Some b \<and> priority b \<noteq> 0"
  shows "\<exists>i b. first_min k (length (queue k)) i \<and> tcbs k (queue k ! i) = Some b
    \<and> fetch_task k = Some (Some (queue k ! i), set_tcb (queue k ! i)
        (b\<lparr>pass := pass b + BIG_STRIDE div priority b\<rparr>)
        (k\<lparr>task_manager := \<lparr>ready_queue = remove_nth i (queue k)\<rparr>\<rparr>))"
proof -
  let ?n = "length (queue k)"
  have e: "drop 1 (enumerate 0 (queue k)) = map (\<lambda>i. (i, queue k ! i)) [1..<?n]"
    using drop_enumerate [of ?n "queue k"] q by simp
  obtain i where i: "foldM (fetch_compare k) (map (\<lambda>i. (i, queue k ! i)) [1..<?n]) 0 = Some i"
    "first_min k ?n i" using scan_prefix [OF d, of ?n] t q by fastforce
  have il: "i < ?n" using i(2) by (simp add: first_min_def)
  then obtain b where b: "tcbs k (queue k ! i) = Some b" "priority b \<noteq> 0" using t nth_mem by blast
  show ?thesis
    using i b il q by (intro exI [of _ i] exI [of _ b]) 
      (simp add: fetch_task_def e [unfolded One_nat_def] index_of_def Let_def)
qed

lemma prio_okD: "prio_ok (procs_of k) \<Longrightarrow> tcbs k t = Some b \<Longrightarrow> 2 \<le> sint (priority b)"
  unfolding prio_ok_def by (drule spec [of _ t], drule spec [of _ "ptask_of b"]) simp

lemma running_status:
  assumes "pinv (procs_of k)" and "cur k = Some t" and "tcbs k t = Some b"
  shows "task_status b = Running"
proof -
  have "map_option st (tasks (procs_of k) t) = Some Running"
    using assms(1,2) unfolding pinv_def sched_ok_def by (metis procs_of_simps(3))
  then show ?thesis using assms(3) by simp
qed

lemma pinv_queue:
  assumes "pinv (procs_of k)"
  shows "distinct (queue k)" and "\<forall>t \<in> set (queue k). \<exists>b. tcbs k t = Some b \<and> 2 \<le> sint (priority b)"
proof -
  have s: "sched_ok (procs_of k)" "prio_ok (procs_of k)" using assms by (simp_all add: pinv_def)
  then show "distinct (queue k)" by (simp add: sched_ok_def)
  show "\<forall>t \<in> set (queue k). \<exists>b. tcbs k t = Some b \<and> 2 \<le> sint (priority b)"
    using s(1) prio_okD [OF s(2)] by (fastforce simp: sched_ok_def)
qed

lemma prio_not_0: "2 \<le> sint w \<Longrightarrow> w \<noteq> 0" for w :: usize
  by auto

lemma unat_prio: "2 \<le> sint w \<Longrightarrow> 2 \<le> unat w" for w :: usize
proof -
  assume "2 \<le> sint w"
  then have "w \<noteq> 0" "w \<noteq> 1" by auto
  then have "unat w \<noteq> 0" "unat w \<noteq> 1" by (auto simp: word_unat_eq_iff)
  then show "2 \<le> unat w" by simp
qed

lemma unat_BIG_STRIDE: "unat BIG_STRIDE = 2 ^ 44 - 1"
  by (simp add: BIG_STRIDE_def word_div_unat unsigned_minus_1_eq_mask mask_eq_exp_minus_1)

definition task_pass :: "kernel \<Rightarrow> tid \<Rightarrow> nat" where
  "task_pass k t = unat (pass (the (tcbs k t)))"

section \<open>A sample kernel\<close>

text \<open>
  The init process and two children of it: the first is ready, the second is a zombie.
\<close>

definition sample_ms :: MemorySet where
  "sample_ms = \<lparr>page_table = \<lparr>root_ppn = PhysPageNum 0x80400, pt_frames = []\<rparr>, areas = []\<rparr>"

definition sample_tcb :: "nat \<Rightarrow> TaskStatus \<Rightarrow> tid option \<Rightarrow> tid list \<Rightarrow> usize \<Rightarrow> TaskControlBlock" where
  "sample_tcb i s p cs w = \<lparr>tcb_pid = of_nat i, kernel_stack = \<lparr>ks_pid = of_nat i\<rparr>,
     trap_cx_ppn = PhysPageNum 0x80410, base_size = 0, task_cx = zero_init, task_status = s,
     memory_set = sample_ms, parent = p, children = cs, exit_code = 7, pass = w, priority = 16,
     syscall_times = replicate MAX_SYSCALL_NUM 0, start_time = None\<rparr>"

definition sample_kernel :: kernel where
  "sample_kernel = \<lparr>kmm = sample_mm, kernel_space = sample_ms,
     pid_allocator = \<lparr>pid_current = 3, pid_recycled = []\<rparr>,
     tcbs = [0 \<mapsto> sample_tcb 0 Ready None [1, 2] 30, 1 \<mapsto> sample_tcb 1 Ready (Some 0) [] 10,
       2 \<mapsto> sample_tcb 2 Zombie (Some 0) [] 50],
     next_tid = 3, INITPROC = 0, task_manager = \<lparr>ready_queue = [0, 1]\<rparr>,
     processor = \<lparr>proc_current = None, idle_task_cx = zero_init\<rparr>, konts = (\<lambda>_. K_trap_return),
     sbi_calls = [], csr_stvec = 0, csr_sie = 0, csr_satp = 0\<rparr>"

lemma sample_pinv: "pinv (procs_of sample_kernel)"
proof -
  have "sched_ok (procs_of sample_kernel)"
    by (auto simp: sched_ok_def sample_kernel_def sample_tcb_def)
  moreover have "tree_ok (procs_of sample_kernel)"
    by (auto simp: tree_ok_def task_ok_def kids_at_def par_at_def sample_kernel_def sample_tcb_def)
  moreover have "pid_ok (procs_of sample_kernel)"
  proof -
    have "w < 3 \<longleftrightarrow> w = 0 \<or> w = 1 \<or> w = 2" for w :: usize
      by (simp add: word_less_nat_alt word_unat_eq_iff) arith
    then have "pid_live (pid_allocator sample_kernel) = {0, 1, 2}"
      by (auto simp: pid_live_def sample_kernel_def)
    then show ?thesis
      by (auto simp: pid_ok_def pid_at_def pid_inv_def sample_kernel_def sample_tcb_def)
  qed
  moreover have "prio_ok (procs_of sample_kernel)"
    by (auto simp: prio_ok_def sample_kernel_def sample_tcb_def)
  ultimately show ?thesis by (simp add: pinv_def)
qed

definition sample_platform :: platform where
  "sample_platform = \<lparr>p_ld = sample_ld, p_apps = \<lparr>sym_num_app = 0x80220000, sym_app_names = 0x80220100\<rparr>,
     p_elf = (\<lambda>_. None), p_bf = word_bit_field, p_trap_handler = 0x80202000, p_trap_return = 0x80202100,
     p_trap_from_kernel = 0x80202200, p_task_info = (\<lambda>_. [])\<rparr>"

definition sample_inputs :: inputs where
  "sample_inputs = \<lparr>in_time = 0, in_getchar = 0, in_sstatus = 0\<rparr>"

section \<open>Reaping\<close>

text \<open>
  Once a zombie is out of the list of children that holds it, nobody refers to it.
\<close>

lemma zombie_unreferenced:
  assumes inv: "pinv (procs_of k)" and t: "tcbs k t = Some b" and i: "i < length (children b)"
    and c: "tcbs k (children b ! i) = Some z" "task_status z = Zombie"
  shows "strong_count (children b ! i) (set_tcb t (b\<lparr>children := remove_nth i (children b)\<rparr>) k) = 0"
proof -
  let ?c = "children b ! i" and ?k = "set_tcb t (b\<lparr>children := remove_nth i (children b)\<rparr>) k"
  have s: "sched_ok (procs_of k)" and ok: "tree_ok (procs_of k)" using inv by (simp_all add: pinv_def)
  note D = tree_okD [OF ok]
  have kb: "kids_at (procs_of k) t = children b" by (simp add: kids_at_def t)
  then have par: "par_at (procs_of k) ?c = Some t" using D(8) [of ?c t] i by simp
  have "?c \<notin> set (kids_at (procs_of ?k) u)" for u
  proof (cases "u = t")
    case True
    then show ?thesis
      using distinct_remove_nth [of "children b" i] D(10) [of t] i kb by (simp add: kids_at_def)
  next
    case False
    then show ?thesis using D(8) [of ?c u] par by (simp add: kids_at_def)
  qed
  then have "child_refs ?c ?k = 0"
    by (simp add: child_refs_kids sum_list_eq_0_iff count_list_0_iff)
  moreover have "?c \<noteq> INITPROC k" using D(5) [of ?c "ptask_of z"] c by auto
  moreover have "?c \<notin> set (queue k)" "cur k \<noteq> Some ?c" using s c by (auto simp: sched_ok_def)
  ultimately show ?thesis by (simp add: strong_count_def count_list_0_iff)
qed

section \<open>Properties\<close>

text \<open>
  C1. From a state that satisfies the process invariant, any number of traps, rounds of the idle loop
  and changes of memory by user code are steps of the process specification and keep its
  invariant: the ready queue holds exactly the ready tasks, each once; at most one task runs;
  the tasks form a tree under the init process, in which zombies are leaves; pids are distinct
  and exactly the live ones are allocated; priorities are at least 2.
\<close>

theorem kernel_refines_processes:
  assumes inv: "pinv (procs_of k)" and steps: "(kstep P)\<^sup>*\<^sup>* k k'" and few: "next_tid k' < 2 ^ 64"
  shows "pstep\<^sup>*\<^sup>* (procs_of k) (procs_of k') \<and> pinv (procs_of k')"
proof -
  have "psteps k k'" using ksteps_psteps [OF steps] inv by (simp add: pinv_def)
  then show ?thesis using psteps_pinv [OF _ inv] few by simp
qed

theorem kernel_refines_processes_witness:
  "\<exists>k. kstep sample_platform sample_kernel k \<and> cur k = Some 1 \<and> pinv (procs_of k)"
proof -
  obtain k where k: "run_tasks_iter sample_inputs sample_kernel = Some (True, k)" "cur k = Some 1" "next_tid k = 3"
    by (simp add: run_tasks_iter_def run_tasks_round_def fetch_task_def fetch_compare_def resume_def
        trap_return_def current_user_token_def current_tcb_def current_task_def set_user_trap_entry_def
        get_user_token_def set_tcb_def sample_kernel_def sample_tcb_def index_of_def Let_def remove_nth_def)
  have st: "kstep sample_platform sample_kernel k"
    by (rule idle [OF _ k(1)]) (simp add: sample_kernel_def)
  then have "(kstep sample_platform)\<^sup>*\<^sup>* sample_kernel k" by blast
  from kernel_refines_processes [OF sample_pinv this] k st show ?thesis by auto
qed

text \<open>
  C12. When tasks are ready, \<open>fetch\<close> does not panic: it takes the first task in the queue whose \<open>pass\<close> is
  smallest, removes it from the queue and advances its \<open>pass\<close> by \<open>BIG_STRIDE / priority\<close>.
\<close>

theorem fetch_takes_first_minimum:
  assumes inv: "pinv (procs_of k)" and q: "queue k \<noteq> []"
  shows "\<exists>i b. i < length (queue k) \<and> tcbs k (queue k ! i) = Some b
    \<and> (\<forall>j < length (queue k). pass b \<le> queue_pass k j) \<and> (\<forall>j < i. pass b < queue_pass k j)
    \<and> fetch_task k = Some (Some (queue k ! i), set_tcb (queue k ! i)
        (b\<lparr>pass := pass b + BIG_STRIDE div priority b\<rparr>)
        (k\<lparr>task_manager := \<lparr>ready_queue = remove_nth i (queue k)\<rparr>\<rparr>))"
proof -
  have t: "\<forall>t \<in> set (queue k). \<exists>b. tcbs k t = Some b \<and> priority b \<noteq> 0"
    using pinv_queue(2) [OF inv] prio_not_0 by blast
  obtain i b where F: "first_min k (length (queue k)) i" "tcbs k (queue k ! i) = Some b"
    "fetch_task k = Some (Some (queue k ! i), set_tcb (queue k ! i)
        (b\<lparr>pass := pass b + BIG_STRIDE div priority b\<rparr>)
        (k\<lparr>task_manager := \<lparr>ready_queue = remove_nth i (queue k)\<rparr>\<rparr>))"
    using fetch_task_first_min [OF pinv_queue(1) [OF inv] q t] by blast
  have "queue_pass k i = pass b" by (simp add: queue_pass_def F(2))
  then show ?thesis using F by (intro exI [of _ i] exI [of _ b]) (auto simp: first_min_def)
qed

theorem fetch_takes_first_minimum_witness:
  "\<exists>k'. fetch_task sample_kernel = Some (Some 1, k') \<and> queue k' = [0]"
proof -
  have q: "queue sample_kernel = [0, 1]" by (simp add: sample_kernel_def)
  have p: "queue_pass sample_kernel 0 = 30" "queue_pass sample_kernel 1 = 10"
    by (simp_all add: queue_pass_def sample_kernel_def sample_tcb_def)
  have ne: "queue sample_kernel \<noteq> []" using q by simp
  obtain i b where i: "i < length (queue sample_kernel)" "tcbs sample_kernel (queue sample_kernel ! i) = Some b"
    "\<forall>j < length (queue sample_kernel). pass b \<le> queue_pass sample_kernel j"
    and f: "fetch_task sample_kernel = Some (Some (queue sample_kernel ! i), set_tcb (queue sample_kernel ! i)
        (b\<lparr>pass := pass b + BIG_STRIDE div priority b\<rparr>)
        (sample_kernel\<lparr>task_manager := \<lparr>ready_queue = remove_nth i (queue sample_kernel)\<rparr>\<rparr>))"
    using fetch_takes_first_minimum [OF sample_pinv ne] by blast
  have "pass b = queue_pass sample_kernel i" using i(2) by (simp add: queue_pass_def)
  then have "i = 1" using i(1) i(3) [rule_format, of 1] p q by (auto simp: less_Suc_eq)
  with f q show ?thesis by (simp add: remove_nth_def)
qed



text \<open>
  C11. Fairness of the stride scheduler: as long as no counter wraps, fetching a task and queueing it again
  keeps the \<open>pass\<close> values of the ready tasks within \<open>BIG_STRIDE / 2\<close> of each other.
\<close>

theorem stride_spread_bounded:
  assumes inv: "pinv (procs_of k)"
    and near: "\<And>t u. t \<in> set (queue k) \<Longrightarrow> u \<in> set (queue k) \<Longrightarrow>
      task_pass k t \<le> task_pass k u + unat BIG_STRIDE div 2"
    and small: "\<And>t. t \<in> set (queue k) \<Longrightarrow> task_pass k t + unat BIG_STRIDE < 2 ^ 64"
    and f: "fetch_task k = Some (Some t, k')" and u: "u \<in> set (queue k)" and v: "v \<in> set (queue k)"
  shows "mset (queue (add_task t k')) = mset (queue k)
    \<and> task_pass (add_task t k') u \<le> task_pass (add_task t k') v + unat BIG_STRIDE div 2"
proof -
  have q: "queue k \<noteq> []" using u by auto
  have ps: "\<forall>t \<in> set (queue k). \<exists>b. tcbs k t = Some b \<and> priority b \<noteq> 0"
    using pinv_queue(2) [OF inv] prio_not_0 by blast
  obtain i b where F: "first_min k (length (queue k)) i" "tcbs k (queue k ! i) = Some b"
    "t = queue k ! i" "k' = set_tcb t (b\<lparr>pass := pass b + BIG_STRIDE div priority b\<rparr>)
        (k\<lparr>task_manager := \<lparr>ready_queue = remove_nth i (queue k)\<rparr>\<rparr>)"
    using fetch_task_first_min [OF pinv_queue(1) [OF inv] q ps] f by auto
  have i: "i < length (queue k)" using F(1) by (simp add: first_min_def)
  then have t: "t \<in> set (queue k)" using F(3) by simp
  have low: "task_pass k t \<le> task_pass k w" if "w \<in> set (queue k)" for w
    using that F(1,3) by (auto simp: first_min_def queue_pass_def task_pass_def in_set_conv_nth word_le_nat_alt)
  have "2 \<le> unat (priority b)"
    using pinv_queue(2) [OF inv] t F(2,3) unat_prio by auto
  then have d: "unat (BIG_STRIDE div priority b) \<le> unat BIG_STRIDE div 2"
    by (simp add: word_div_unat div_le_mono2)
  have "unat (pass b) + unat (BIG_STRIDE div priority b) < 2 ^ 64"
    using small [OF t] d F(2,3) by (simp add: task_pass_def)
  then have e: "task_pass (add_task t k') t = task_pass k t + unat (BIG_STRIDE div priority b)"
    using F(2-4) by (simp add: task_pass_def add_task_def set_tcb_def unat_add_less)
  have o: "task_pass (add_task t k') w = task_pass k w" if "w \<noteq> t" for w
    using that F(4) by (simp add: task_pass_def add_task_def set_tcb_def)
  have "task_pass (add_task t k') u \<le> task_pass (add_task t k') v + unat BIG_STRIDE div 2"
    using near [OF u v] near [OF u t] low [OF v] d e o [of u] o [of v]
    by (cases "u = t"; cases "v = t") auto
  moreover have "mset (queue (add_task t k')) = mset (queue k)"
    using F(3,4) mset_remove_nth [OF i] by (simp add: add_task_def set_tcb_def)
  ultimately show ?thesis by blast
qed

theorem stride_spread_bounded_witness:
  "\<exists>k'. fetch_task sample_kernel = Some (Some 1, k')
    \<and> task_pass (add_task 1 k') 1 \<le> task_pass (add_task 1 k') 0 + unat BIG_STRIDE div 2"
proof -
  have q: "queue sample_kernel = [0, 1]" by (simp add: sample_kernel_def)
  have p: "task_pass sample_kernel 0 = 30" "task_pass sample_kernel 1 = 10"
    by (simp_all add: task_pass_def sample_kernel_def sample_tcb_def)
  obtain k' where f: "fetch_task sample_kernel = Some (Some 1, k')"
    by (simp add: fetch_task_def fetch_compare_def sample_kernel_def sample_tcb_def index_of_def Let_def)
  have near: "task_pass sample_kernel t \<le> task_pass sample_kernel u + unat BIG_STRIDE div 2"
    if "t \<in> set (queue sample_kernel)" "u \<in> set (queue sample_kernel)" for t u
    using that p by (auto simp: q unat_BIG_STRIDE)
  have small: "task_pass sample_kernel t + unat BIG_STRIDE < 2 ^ 64"
    if "t \<in> set (queue sample_kernel)" for t
    using that p by (auto simp: q unat_BIG_STRIDE)
  show ?thesis
    using stride_spread_bounded [OF sample_pinv near small f, of 1 0] f q by auto
qed

end
