(* ===== verification/MmapProps.thy ===== *)
theory MmapProps
  imports Sched
begin

text \<open>
  \<open>mmap\<close> and \<open>munmap\<close> of \<open>task/processor.rs\<close>: which arguments they refuse, which pages they map and
  unmap, and when they panic.
\<close>

section \<open>The two scans\<close>

lemma pt_translate_entry_cases:
  "\<exists>r. pt_translate v pt s = Some r
    \<and> pt_entry (mem s) pt v = Option.bind r (\<lambda>e. if pte_is_valid e then Some e else None)"
  by (cases "node (mem s) (root_ppn pt) [idx0 v, idx1 v]")
    (simp_all add: pt_translate_eq pt_entry_def Let_def)

lemma all_unmapped_eq:
  "all_unmapped vs ms s = Some (\<forall>v \<in> set vs. pt_entry (mem s) (page_table ms) v = None)"
proof (induction vs)
  case (Cons v vs)
  obtain r where "ms_translate v ms s = Some r"
    "pt_entry (mem s) (page_table ms) v = Option.bind r (\<lambda>e. if pte_is_valid e then Some e else None)"
    using pt_translate_entry_cases by (force simp: ms_translate_def)
  then show ?case using Cons by (cases r) auto
qed simp

lemma all_mapped_eq:
  "all_mapped vs ms s = Some (\<forall>v \<in> set vs. pt_entry (mem s) (page_table ms) v \<noteq> None)"
proof (induction vs)
  case (Cons v vs)
  obtain r where "ms_translate v ms s = Some r"
    "pt_entry (mem s) (page_table ms) v = Option.bind r (\<lambda>e. if pte_is_valid e then Some e else None)"
    using pt_translate_entry_cases by (force simp: ms_translate_def)
  then show ?case using Cons by (cases r) auto
qed simp

section \<open>The arguments\<close>

definition mmap_refused :: "usize \<Rightarrow> usize \<Rightarrow> bool" where
  "mmap_refused start port \<longleftrightarrow> \<not> va_aligned (VirtAddr start) \<or> port AND NOT 0x7 \<noteq> 0 \<or> port AND 0x7 = 0"

definition mmap_perm :: "usize \<Rightarrow> u8" where
  "mmap_perm port = push_bit 1 (ucast port) OR MapPermission_U"

lemma mmap_perm_bits:
  fixes port :: usize
  assumes "port AND NOT 0x7 = 0"
  shows "MapPermission_from_bits (push_bit 1 (ucast port)) = Some (push_bit 1 (ucast port))"
proof -
  have b3: "n < 3" if b: "bit port n" for n
  proof -
    from b have "\<not> bit (port AND NOT 0x7) n" using assms by simp
    then have "bit (0x7 :: usize) n" using b bit_imp_le_length [OF b] by (auto simp: bit_simps)
    moreover have "(0x7 :: usize) = mask 3" by (simp add: mask_eq_exp_minus_1)
    ultimately show ?thesis by (simp only: bit_mask_iff)
  qed
  have al: "MapPermission_all = push_bit 1 (mask 4)"
    by (simp add: MapPermission_all_def MapPermission_defs mask_eq_exp_minus_1 push_bit_eq_mult)
  have "push_bit 1 (ucast port) AND NOT MapPermission_all = 0"
    unfolding al by (rule bit_word_eqI, unfold bit_and_iff bit_not_iff bit_push_bit_iff bit_mask_iff
        bit_unsigned_iff bit_0_eq) (auto dest!: b3)
  then show ?thesis by (simp add: MapPermission_from_bits_def)
qed

abbreviation map_range :: "usize \<Rightarrow> usize \<Rightarrow> VPNRange" where
  "map_range start len \<equiv> \<lparr>range_l = va_floor (VirtAddr start), range_r = va_ceil (VirtAddr (start + len))\<rparr>"

lemma task_mmap_eq:
  assumes t: "cur k = Some t" "tcbs k t = Some b"
  shows "task_mmap start len port k =
    (if mmap_refused start port then Some (- 1, k)
     else if \<not> va_floor (VirtAddr start) \<le> va_ceil (VirtAddr (start + len)) then None
     else if \<exists>v \<in> set (range_list (map_range start len)). pt_entry (mem (kmm k)) (page_table (memory_set b)) v \<noteq> None
     then Some (- 1, k)
     else map_option (\<lambda>(ms, s). (0, set_tcb t (b\<lparr>memory_set := ms\<rparr>) (k\<lparr>kmm := s\<rparr>)))
       (insert_framed_area (VirtAddr start) (VirtAddr (start + len)) (mmap_perm port) (memory_set b) (kmm k)))"
  using t mmap_perm_bits [of port]
  by (auto simp: task_mmap_def mmap_refused_def mmap_perm_def current_tcb_def current_task_def range_new_def
      all_unmapped_eq Let_def map_option_case split: option.splits)

lemma task_munmap_eq:
  assumes t: "cur k = Some t" "tcbs k t = Some b"
  shows "task_munmap start len k =
    (if \<not> va_aligned (VirtAddr start) then Some (- 1, k)
     else if \<not> va_floor (VirtAddr start) \<le> va_ceil (VirtAddr (start + len)) then None
     else if \<exists>v \<in> set (range_list (map_range start len)). pt_entry (mem (kmm k)) (page_table (memory_set b)) v = None
     then Some (- 1, k)
     else map_option (\<lambda>(ms, s). (0, set_tcb t (b\<lparr>memory_set := ms\<rparr>) (k\<lparr>kmm := s\<rparr>)))
       (ms_unmap (va_floor (VirtAddr start)) (va_ceil (VirtAddr (start + len))) (memory_set b) (kmm k)))"
  using t
  by (auto simp: task_munmap_def current_tcb_def current_task_def range_new_def all_mapped_eq Let_def
      map_option_case split: option.splits)

section \<open>Samples\<close>

text \<open>The init process alone, running in the address space \<open>ms\<close>.\<close>

definition running_in :: "MemorySet \<Rightarrow> mm \<Rightarrow> kernel" where
  "running_in ms s = sample_kernel\<lparr>kmm := s, tcbs := [0 \<mapsto> (sample_tcb 0 Running None [] 0)\<lparr>memory_set := ms\<rparr>],
     task_manager := \<lparr>ready_queue = []\<rparr>, next_tid := 1, pid_allocator := \<lparr>pid_current = 1, pid_recycled = []\<rparr>,
     processor := \<lparr>proc_current = Some 0, idle_task_cx = zero_init\<rparr>\<rparr>"

lemma running_in_simps [simp]:
  "cur (running_in ms s) = Some 0" "kmm (running_in ms s) = s"
  "tcbs (running_in ms s) 0 = Some ((sample_tcb 0 Running None [] 0)\<lparr>memory_set := ms\<rparr>)"
  by (simp_all add: running_in_def)

lemma sample_aligned [simp]: "va_aligned (VirtAddr 0x1000)"
  by (simp add: va_aligned_def va_page_offset_def PAGE_SIZE_def)

lemma sample_map_range: "map_range 0x1000 0x2000 = sample_range"
  by (simp add: sample_range_def)

section \<open>Properties\<close>





end
