(* ===== verification/FsCache.thy ===== *)
theory FsCache
  imports Prelude
begin

text \<open>
  The block layer of \<open>easy-fs\<close>: \<open>src/easy-fs/src/block_dev.rs\<close> and \<open>block_cache.rs\<close>. A block device is a
  trait object, so it is a table of the two methods and the identity of the object. All blocks
  are reached through one global cache of 16 blocks. A cached block is referenced and locked for
  as long as the closure given to \<open>read\<close> or \<open>modify\<close> runs, and closures nest; \<open>locked\<close> holds the
  blocks in use. \<open>None\<close> is a panic, or a lock that is taken twice and never acquired.
\<close>

section \<open>Devices and the state of the block layer\<close>

definition BLOCK_SZ :: usize where
  "BLOCK_SZ = 512"

definition BLOCK_CACHE_SIZE :: nat where
  "BLOCK_CACHE_SIZE = 16"

record 'd BlockDevice =
  read_block :: "usize \<Rightarrow> 'd \<Rightarrow> u8 list option"
  write_block :: "usize \<Rightarrow> u8 list \<Rightarrow> 'd \<Rightarrow> 'd option"

text \<open>\<open>Arc<dyn BlockDevice>\<close>\<close>

record 'd dyn_device =
  vtable :: "'d BlockDevice"
  object :: nat

record 'd BlockCache =
  cache :: "u8 list"
  cache_block_id :: usize
  block_device :: "'d dyn_device"
  modified :: bool

record 'd io =
  devices :: "nat \<Rightarrow> 'd"
  cache_queue :: "(usize \<times> 'd BlockCache) list"
  locked :: "usize list"

section \<open>One cached block\<close>

definition block_cache_new :: "usize \<Rightarrow> 'd dyn_device \<Rightarrow> 'd io \<Rightarrow> 'd BlockCache option" where
  "block_cache_new block_id dev s = do {
     bs \<leftarrow> read_block (vtable dev) block_id (devices s (object dev));
     Some \<lparr>cache = bs, cache_block_id = block_id, block_device = dev, modified = False\<rparr> }"

definition cache_sync :: "'d BlockCache \<Rightarrow> 'd io \<Rightarrow> ('d BlockCache \<times> 'd io) option" where
  "cache_sync c s =
     (if modified c then do {
        let c = c\<lparr>modified := False\<rparr>;
        let obj = object (block_device c);
        d \<leftarrow> write_block (vtable (block_device c)) (cache_block_id c) (cache c) (devices s obj);
        Some (c, s\<lparr>devices := (devices s)(obj := d)\<rparr>) }
      else Some (c, s))"

definition cache_drop :: "'d BlockCache \<Rightarrow> 'd io \<Rightarrow> 'd io option" where
  "cache_drop c s = do { (c, s) \<leftarrow> cache_sync c s; Some s }"

text \<open>
  A reference to a value of type \<open>'t\<close> inside the block: the size of the type and how its value is
  read from and written to memory.
\<close>

record 't mem_layout =
  size_of :: usize
  from_mem :: "u8 list \<Rightarrow> 't"
  to_mem :: "'t \<Rightarrow> u8 list"

definition get_ref :: "'t mem_layout \<Rightarrow> usize \<Rightarrow> 'd BlockCache \<Rightarrow> 't option" where
  "get_ref L offset c = do {
     rassert (offset + size_of L \<le> BLOCK_SZ);
     b \<leftarrow> index_of (cache c) (unat offset);
     Some (from_mem L (take (unat (size_of L)) (drop (unat offset) (cache c)))) }"

definition get_mut :: "'t mem_layout \<Rightarrow> usize \<Rightarrow> 'd BlockCache \<Rightarrow> ('t \<times> 'd BlockCache) option" where
  "get_mut L offset c = do { v \<leftarrow> get_ref L offset c; Some (v, c\<lparr>modified := True\<rparr>) }"

text \<open>What the referenced value is when the reference ends is what the block holds.\<close>

definition put_mut :: "'t mem_layout \<Rightarrow> usize \<Rightarrow> 't \<Rightarrow> 'd BlockCache \<Rightarrow> 'd BlockCache" where
  "put_mut L offset v c = c\<lparr>cache := put_at (unat offset) (to_mem L v) (cache c)\<rparr>"

section \<open>The cache manager\<close>

text \<open>
  The queue owns one reference to each cached block, and each user who holds its lock owns
  another.
\<close>

definition cache_strong_count :: "'d io \<Rightarrow> usize \<Rightarrow> nat" where
  "cache_strong_count s block_id = 1 + count_list (locked s) block_id"

definition evict_one :: "'d io \<Rightarrow> 'd io option" where
  "evict_one s = do {
     idx \<leftarrow> find_index (\<lambda>p. cache_strong_count s (fst p) = 1) (cache_queue s);
     cache_drop (snd (cache_queue s ! idx)) (s\<lparr>cache_queue := remove_nth idx (cache_queue s)\<rparr>) }"

definition get_block_cache :: "usize \<Rightarrow> 'd dyn_device \<Rightarrow> 'd io \<Rightarrow> 'd io option" where
  "get_block_cache block_id dev s =
     (case find_index (\<lambda>p. fst p = block_id) (cache_queue s) of
        Some i \<Rightarrow> Some s
      | None \<Rightarrow> do {
          s \<leftarrow> (if length (cache_queue s) = BLOCK_CACHE_SIZE then evict_one s else Some s);
          c \<leftarrow> block_cache_new block_id dev s;
          Some (s\<lparr>cache_queue := cache_queue s @ [(block_id, c)]\<rparr>) })"

section \<open>Locking\<close>

definition lock_cache :: "usize \<Rightarrow> 'd io \<Rightarrow> ('d BlockCache \<times> 'd io) option" where
  "lock_cache block_id s = do {
     rassert (block_id \<notin> set (locked s));
     i \<leftarrow> find_index (\<lambda>p. fst p = block_id) (cache_queue s);
     Some (snd (cache_queue s ! i), s\<lparr>locked := block_id # locked s\<rparr>) }"

definition set_cache :: "usize \<Rightarrow> 'd BlockCache \<Rightarrow> 'd io \<Rightarrow> 'd io option" where
  "set_cache block_id c s = do {
     i \<leftarrow> find_index (\<lambda>p. fst p = block_id) (cache_queue s);
     Some (s\<lparr>cache_queue := (cache_queue s)[i := (block_id, c)]\<rparr>) }"

definition unlock_cache :: "usize \<Rightarrow> 'd io \<Rightarrow> 'd io" where
  "unlock_cache block_id s = s\<lparr>locked := remove1 block_id (locked s)\<rparr>"

text \<open>
  \<open>get_block_cache(id, dev).lock().read(offset, f)\<close> and \<open>.modify(offset, f)\<close>. The closure may use the
  block layer itself; the block it was given stays locked, so it is the same block afterwards.
\<close>

definition cache_read ::
  "'t mem_layout \<Rightarrow> usize \<Rightarrow> 'd dyn_device \<Rightarrow> usize \<Rightarrow> ('t \<Rightarrow> 'd io \<Rightarrow> ('v \<times> 'd io) option) \<Rightarrow>
    'd io \<Rightarrow> ('v \<times> 'd io) option" where
  "cache_read L block_id dev offset f s = do {
     s \<leftarrow> get_block_cache block_id dev s;
     (c, s) \<leftarrow> lock_cache block_id s;
     v \<leftarrow> get_ref L offset c;
     (r, s) \<leftarrow> f v s;
     Some (r, unlock_cache block_id s) }"

definition cache_modify ::
  "'t mem_layout \<Rightarrow> usize \<Rightarrow> 'd dyn_device \<Rightarrow> usize \<Rightarrow> ('t \<Rightarrow> 'd io \<Rightarrow> (('v \<times> 't) \<times> 'd io) option) \<Rightarrow>
    'd io \<Rightarrow> ('v \<times> 'd io) option" where
  "cache_modify L block_id dev offset f s = do {
     s \<leftarrow> get_block_cache block_id dev s;
     (c, s) \<leftarrow> lock_cache block_id s;
     (v, c) \<leftarrow> get_mut L offset c;
     ((r, v), s) \<leftarrow> f v s;
     s \<leftarrow> set_cache block_id (put_mut L offset v c) s;
     Some (r, unlock_cache block_id s) }"

definition sync_entry :: "nat \<Rightarrow> 'd io \<Rightarrow> 'd io option" where
  "sync_entry i s = do {
     (block_id, c) \<leftarrow> index_of (cache_queue s) i;
     rassert (block_id \<notin> set (locked s));
     (c, s) \<leftarrow> cache_sync c s;
     Some (s\<lparr>cache_queue := (cache_queue s)[i := (block_id, c)]\<rparr>) }"

definition block_cache_sync_all :: "'d io \<Rightarrow> 'd io option" where
  "block_cache_sync_all s = foldM sync_entry [0..<length (cache_queue s)] s"

section \<open>Values in blocks\<close>

text \<open>\<open>[u8; BLOCK_SZ]\<close>, and arrays of little-endian integers.\<close>

definition DataBlock :: "u8 list mem_layout" where
  "DataBlock = \<lparr>size_of = BLOCK_SZ, from_mem = id, to_mem = id\<rparr>"

definition words_of_bytes :: "nat \<Rightarrow> nat \<Rightarrow> u8 list \<Rightarrow> 'a::len word list" where
  "words_of_bytes n k bs = map (\<lambda>i. le_decode (take n (drop (n * i) bs))) [0..<k]"

definition bytes_of_words :: "nat \<Rightarrow> 'a::len word list \<Rightarrow> u8 list" where
  "bytes_of_words n ws = concat (map (le_encode n) ws)"

end
