(* ===== verification/FsBitmap.thy ===== *)
theory FsBitmap
  imports FsCache
begin

text \<open>
  The bitmaps of \<open>easy-fs\<close>, \<open>src/easy-fs/src/bitmap.rs\<close>: an allocator of block and inode numbers whose
  state is on the disk, one bit for each number.
\<close>

text \<open>\<open>[u64; 64]\<close>\<close>

definition BitmapBlock :: "u64 list mem_layout" where
  "BitmapBlock = \<lparr>size_of = 512, from_mem = words_of_bytes 8 64, to_mem = bytes_of_words 8\<rparr>"

definition BLOCK_BITS :: usize where
  "BLOCK_BITS = BLOCK_SZ * 8"

record Bitmap =
  start_block_id :: usize
  bitmap_blocks :: usize

definition decomposition :: "usize \<Rightarrow> usize \<times> usize \<times> usize" where
  "decomposition n = (let block_pos = n div BLOCK_BITS; n = n mod BLOCK_BITS in
     (block_pos, n div 64, n mod 64))"

definition bitmap_new :: "usize \<Rightarrow> usize \<Rightarrow> Bitmap" where
  "bitmap_new start blocks = \<lparr>start_block_id = start, bitmap_blocks = blocks\<rparr>"

definition trailing_ones :: "u64 \<Rightarrow> nat" where
  "trailing_ones w = length (takeWhile (bit w) [0..<64])"

text \<open>The closure of \<open>alloc\<close>: the lowest clear bit of the first word that is not full.\<close>

definition bitmap_block_alloc ::
  "usize \<Rightarrow> u64 list \<Rightarrow> 'd io \<Rightarrow> ((usize option \<times> u64 list) \<times> 'd io) option" where
  "bitmap_block_alloc block_id bitmap_block s =
     (case find_index (\<lambda>bits64. bits64 \<noteq> - 1) bitmap_block of
        Some bits64_pos \<Rightarrow> do {
          let inner_pos = trailing_ones (bitmap_block ! bits64_pos);
          let bits = bitmap_block ! bits64_pos OR push_bit inner_pos 1;
          Some ((Some (block_id * BLOCK_BITS + of_nat bits64_pos * 64 + of_nat inner_pos),
            bitmap_block[bits64_pos := bits]), s) }
      | None \<Rightarrow> Some ((None, bitmap_block), s))"

fun bitmap_alloc_loop ::
  "Bitmap \<Rightarrow> 'd dyn_device \<Rightarrow> usize list \<Rightarrow> 'd io \<Rightarrow> (usize option \<times> 'd io) option" where
  "bitmap_alloc_loop bm dev [] s = Some (None, s)"
| "bitmap_alloc_loop bm dev (block_id # ids) s = do {
     (pos, s) \<leftarrow> cache_modify BitmapBlock (block_id + start_block_id bm) dev 0 (bitmap_block_alloc block_id) s;
     if pos \<noteq> None then Some (pos, s) else bitmap_alloc_loop bm dev ids s }"

definition bitmap_alloc :: "Bitmap \<Rightarrow> 'd dyn_device \<Rightarrow> 'd io \<Rightarrow> (usize option \<times> 'd io) option" where
  "bitmap_alloc bm dev s = bitmap_alloc_loop bm dev (map of_nat [0..<unat (bitmap_blocks bm)]) s"

definition bitmap_dealloc :: "Bitmap \<Rightarrow> 'd dyn_device \<Rightarrow> usize \<Rightarrow> 'd io \<Rightarrow> 'd io option" where
  "bitmap_dealloc bm dev n s = do {
     let (block_pos, bits64_pos, inner_pos) = decomposition n;
     (u, s) \<leftarrow> cache_modify BitmapBlock (block_pos + start_block_id bm) dev 0 (\<lambda>bitmap_block s. do {
        bits \<leftarrow> index_of bitmap_block (unat bits64_pos);
        rassert (bits AND push_bit (unat inner_pos) 1 > 0);
        Some (((), bitmap_block[unat bits64_pos := bits - push_bit (unat inner_pos) 1]), s) }) s;
     Some s }"

definition bitmap_maximum :: "Bitmap \<Rightarrow> usize" where
  "bitmap_maximum bm = bitmap_blocks bm * BLOCK_BITS"

end
