(* ===== verification/FsLayout.thy ===== *)
theory FsLayout
  imports FsCache Utf8
begin

text \<open>
  The structures of \<open>easy-fs\<close> on the disk, \<open>src/easy-fs/src/layout.rs\<close>: the super block, disk inodes with
  their direct and indirect blocks, and directory entries. Integers are little-endian and the
  fields have the offsets that \<open>repr(C)\<close> gives them.
\<close>

section \<open>Constants\<close>

definition EFS_MAGIC :: u32 where
  "EFS_MAGIC = 0x3b800001"

definition INODE_DIRECT_COUNT :: usize where
  "INODE_DIRECT_COUNT = 28"

definition NAME_LENGTH_LIMIT :: usize where
  "NAME_LENGTH_LIMIT = 27"

definition INODE_INDIRECT1_COUNT :: usize where
  "INODE_INDIRECT1_COUNT = BLOCK_SZ div 4"

definition INODE_INDIRECT2_COUNT :: usize where
  "INODE_INDIRECT2_COUNT = INODE_INDIRECT1_COUNT * INODE_INDIRECT1_COUNT"

definition DIRECT_BOUND :: usize where
  "DIRECT_BOUND = INODE_DIRECT_COUNT"

definition INDIRECT1_BOUND :: usize where
  "INDIRECT1_BOUND = DIRECT_BOUND + INODE_INDIRECT1_COUNT"

definition INDIRECT2_BOUND :: usize where
  "INDIRECT2_BOUND = INDIRECT1_BOUND + INODE_INDIRECT2_COUNT"

definition DIRENT_SZ :: usize where
  "DIRENT_SZ = 32"

named_theorems fs_consts \<open>the constants of layout.rs as numerals\<close>

lemma fs_const_values [fs_consts]:
  "BLOCK_SZ = 512" "INODE_DIRECT_COUNT = 28" "NAME_LENGTH_LIMIT = 27" "INODE_INDIRECT1_COUNT = 128"
  "INODE_INDIRECT2_COUNT = 16384" "DIRECT_BOUND = 28" "INDIRECT1_BOUND = 156"
  "INDIRECT2_BOUND = 16540" "DIRENT_SZ = 32"
  by (simp_all add: BLOCK_SZ_def INODE_DIRECT_COUNT_def NAME_LENGTH_LIMIT_def INODE_INDIRECT1_COUNT_def
      INODE_INDIRECT2_COUNT_def DIRECT_BOUND_def INDIRECT1_BOUND_def INDIRECT2_BOUND_def DIRENT_SZ_def)

section \<open>The super block\<close>

record SuperBlock =
  magic :: u32
  sb_total_blocks :: u32
  inode_bitmap_blocks :: u32
  inode_area_blocks :: u32
  data_bitmap_blocks :: u32
  data_area_blocks :: u32

definition super_block_layout :: "SuperBlock mem_layout" where
  "super_block_layout = \<lparr>size_of = 24,
     from_mem = (\<lambda>bs. let w = words_of_bytes 4 6 bs in
       \<lparr>magic = w ! 0, sb_total_blocks = w ! 1, inode_bitmap_blocks = w ! 2, inode_area_blocks = w ! 3,
        data_bitmap_blocks = w ! 4, data_area_blocks = w ! 5\<rparr>),
     to_mem = (\<lambda>b. bytes_of_words 4 [magic b, sb_total_blocks b, inode_bitmap_blocks b,
       inode_area_blocks b, data_bitmap_blocks b, data_area_blocks b])\<rparr>"

definition super_block_initialize :: "u32 \<Rightarrow> u32 \<Rightarrow> u32 \<Rightarrow> u32 \<Rightarrow> u32 \<Rightarrow> SuperBlock" where
  "super_block_initialize tot ibb iab dbb dab =
     \<lparr>magic = EFS_MAGIC, sb_total_blocks = tot, inode_bitmap_blocks = ibb, inode_area_blocks = iab,
      data_bitmap_blocks = dbb, data_area_blocks = dab\<rparr>"

definition super_block_is_valid :: "SuperBlock \<Rightarrow> bool" where
  "super_block_is_valid b \<longleftrightarrow> magic b = EFS_MAGIC"

section \<open>Disk inodes\<close>

datatype DiskInodeType = File | Directory

text \<open>\<open>[u32; BLOCK_SZ / 4]\<close>\<close>

definition IndirectBlock :: "u32 list mem_layout" where
  "IndirectBlock = \<lparr>size_of = 512, from_mem = words_of_bytes 4 128, to_mem = bytes_of_words 4\<rparr>"

record DiskInode =
  di_size :: u32
  direct :: "u32 list"
  indirect1 :: u32
  indirect2 :: u32
  di_type :: DiskInodeType

text \<open>
  31 words, one byte for the type, and three bytes of padding that are not written. The two
  variants of the type are the bytes 0 and 1.
\<close>

definition disk_inode_layout :: "DiskInode mem_layout" where
  "disk_inode_layout = \<lparr>size_of = 128,
     from_mem = (\<lambda>bs. let w = words_of_bytes 4 31 bs in
       \<lparr>di_size = w ! 0, direct = take 28 (drop 1 w), indirect1 = w ! 29, indirect2 = w ! 30,
        di_type = (if bs ! 124 = 1 then Directory else File)\<rparr>),
     to_mem = (\<lambda>d. bytes_of_words 4 (di_size d # direct d @ [indirect1 d, indirect2 d])
       @ [if di_type d = Directory then 1 else 0])\<rparr>"

definition disk_inode_initialize :: "DiskInodeType \<Rightarrow> DiskInode \<Rightarrow> DiskInode" where
  "disk_inode_initialize t d =
     d\<lparr>di_size := 0, direct := map (\<lambda>v. 0) (direct d), indirect1 := 0, indirect2 := 0, di_type := t\<rparr>"

definition is_dir :: "DiskInode \<Rightarrow> bool" where
  "is_dir d \<longleftrightarrow> di_type d = Directory"

definition is_file :: "DiskInode \<Rightarrow> bool" where
  "is_file d \<longleftrightarrow> di_type d = File"

definition data_blocks_of :: "u32 \<Rightarrow> u32" where
  "data_blocks_of n = (n + ucast BLOCK_SZ - 1) div ucast BLOCK_SZ"

definition data_blocks :: "DiskInode \<Rightarrow> u32" where
  "data_blocks d = data_blocks_of (di_size d)"

definition total_blocks :: "u32 \<Rightarrow> u32" where
  "total_blocks n = (let db = ucast (data_blocks_of n) :: usize;
       tot = db;
       tot = (if db > INODE_DIRECT_COUNT then tot + 1 else tot);
       tot = (if db > INDIRECT1_BOUND
         then tot + 1 + (db - INDIRECT1_BOUND + INODE_INDIRECT1_COUNT - 1) div INODE_INDIRECT1_COUNT
         else tot)
     in ucast tot)"

definition blocks_num_needed :: "DiskInode \<Rightarrow> u32 \<Rightarrow> u32 option" where
  "blocks_num_needed d new_size = do {
     rassert (new_size \<ge> di_size d);
     Some (total_blocks new_size - total_blocks (di_size d)) }"

text \<open>Reading one number of an indirect block.\<close>

definition read_indirect :: "u32 \<Rightarrow> usize \<Rightarrow> 'd dyn_device \<Rightarrow> 'd io \<Rightarrow> (u32 \<times> 'd io) option" where
  "read_indirect block_id i dev =
     cache_read IndirectBlock (ucast block_id) dev 0 (\<lambda>b s. do { x \<leftarrow> index_of b (unat i); Some (x, s) })"

definition get_block_id :: "DiskInode \<Rightarrow> u32 \<Rightarrow> 'd dyn_device \<Rightarrow> 'd io \<Rightarrow> (u32 \<times> 'd io) option" where
  "get_block_id d inner dev s =
     (let inner_id = ucast inner :: usize in
      if inner_id < INODE_DIRECT_COUNT then do { x \<leftarrow> index_of (direct d) (unat inner_id); Some (x, s) }
      else if inner_id < INDIRECT1_BOUND
      then read_indirect (indirect1 d) (inner_id - INODE_DIRECT_COUNT) dev s
      else do {
        let last = inner_id - INDIRECT1_BOUND;
        (ind1, s) \<leftarrow> read_indirect (indirect2 d) (last div INODE_INDIRECT1_COUNT) dev s;
        read_indirect ind1 (last mod INODE_INDIRECT1_COUNT) dev s })"

section \<open>Growing an inode\<close>

text \<open>\<open>new_blocks.next().unwrap()\<close>\<close>

definition next_block :: "u32 list \<Rightarrow> (u32 \<times> u32 list) option" where
  "next_block nb = (case nb of [] \<Rightarrow> None | x # nb \<Rightarrow> Some (x, nb))"

text \<open>Filling an array from the position \<open>cur\<close> up to \<open>lim\<close> with the next new blocks.\<close>

fun fill_blocks :: "u32 \<Rightarrow> u32 \<Rightarrow> u32 list \<Rightarrow> u32 list \<Rightarrow> (u32 \<times> u32 list \<times> u32 list) option" where
  "fill_blocks cur lim arr nb =
     (if cur < lim then
        (case nb of [] \<Rightarrow> None
         | x # nb \<Rightarrow> do { arr \<leftarrow> index_set arr (unat cur) x; fill_blocks (cur + 1) lim arr nb })
      else Some (cur, arr, nb))"

declare fill_blocks.simps [simp del]

text \<open>Filling the blocks below \<open>indirect2\<close>, from \<open>(a0, b0)\<close> up to \<open>(a1, b1)\<close>.\<close>

function fill_indirect2 ::
  "usize \<Rightarrow> usize \<Rightarrow> usize \<Rightarrow> usize \<Rightarrow> u32 list \<Rightarrow> u32 list \<Rightarrow> 'd dyn_device \<Rightarrow> 'd io \<Rightarrow>
    (u32 list \<times> 'd io) option" where
  "fill_indirect2 a0 b0 a1 b1 ind2 nb dev s =
     (if a0 < a1 \<or> a0 = a1 \<and> b0 < b1 then do {
        (ind2, nb) \<leftarrow> (if b0 = 0 then do {
            (x, nb) \<leftarrow> next_block nb;
            ind2 \<leftarrow> index_set ind2 (unat a0) x;
            Some (ind2, nb) }
          else Some (ind2, nb));
        block_id \<leftarrow> index_of ind2 (unat a0);
        (x, nb) \<leftarrow> next_block nb;
        (u, s) \<leftarrow> cache_modify IndirectBlock (ucast block_id) dev 0
          (\<lambda>ind1 s. do { ind1 \<leftarrow> index_set ind1 (unat b0) x; Some (((), ind1), s) }) s;
        let b0 = b0 + 1;
        if b0 = INODE_INDIRECT1_COUNT then fill_indirect2 (a0 + 1) 0 a1 b1 ind2 nb dev s
        else fill_indirect2 a0 b0 a1 b1 ind2 nb dev s }
      else Some (ind2, s))"
  by pat_completeness auto
termination
  by (relation "measure (\<lambda>(a0, b0, a1, b1, ind2, nb, dev, s). length nb)")
    (auto simp: next_block_def bind_eq_Some_conv split: if_splits list.splits)

declare fill_indirect2.simps [simp del]

definition disk_inode_increase_size ::
  "u32 \<Rightarrow> u32 list \<Rightarrow> 'd dyn_device \<Rightarrow> DiskInode \<Rightarrow> 'd io \<Rightarrow> (DiskInode \<times> 'd io) option" where
  "disk_inode_increase_size new_size new_blocks dev d s = do {
     let cur = data_blocks d;
     let d = d\<lparr>di_size := new_size\<rparr>;
     let tot = data_blocks d;
     (cur, dir, nb) \<leftarrow> fill_blocks cur (min tot (ucast INODE_DIRECT_COUNT)) (direct d) new_blocks;
     let d = d\<lparr>direct := dir\<rparr>;
     if tot > ucast INODE_DIRECT_COUNT then do {
       (d, nb) \<leftarrow> (if cur = ucast INODE_DIRECT_COUNT
         then do { (x, nb) \<leftarrow> next_block nb; Some (d\<lparr>indirect1 := x\<rparr>, nb) } else Some (d, nb));
       let cur = cur - ucast INODE_DIRECT_COUNT;
       let tot = tot - ucast INODE_DIRECT_COUNT;
       ((cur, nb), s) \<leftarrow> cache_modify IndirectBlock (ucast (indirect1 d)) dev 0 (\<lambda>ind1 s. do {
          (cur, ind1, nb) \<leftarrow> fill_blocks cur (min tot (ucast INODE_INDIRECT1_COUNT)) ind1 nb;
          Some (((cur, nb), ind1), s) }) s;
       if tot > ucast INODE_INDIRECT1_COUNT then do {
         (d, nb) \<leftarrow> (if cur = ucast INODE_INDIRECT1_COUNT
           then do { (x, nb) \<leftarrow> next_block nb; Some (d\<lparr>indirect2 := x\<rparr>, nb) } else Some (d, nb));
         let cur = cur - ucast INODE_INDIRECT1_COUNT;
         let tot = tot - ucast INODE_INDIRECT1_COUNT;
         let a0 = ucast cur div INODE_INDIRECT1_COUNT;
         let b0 = ucast cur mod INODE_INDIRECT1_COUNT;
         let a1 = ucast tot div INODE_INDIRECT1_COUNT;
         let b1 = ucast tot mod INODE_INDIRECT1_COUNT;
         (u, s) \<leftarrow> cache_modify IndirectBlock (ucast (indirect2 d)) dev 0 (\<lambda>ind2 s. do {
            (ind2, s) \<leftarrow> fill_indirect2 a0 b0 a1 b1 ind2 nb dev s;
            Some (((), ind2), s) }) s;
         Some (d, s) }
       else Some (d, s) }
     else Some (d, s) }"

section \<open>Emptying an inode\<close>

definition clear_direct_step :: "nat \<Rightarrow> u32 list \<times> u32 list \<Rightarrow> (u32 list \<times> u32 list) option" where
  "clear_direct_step i = (\<lambda>(v, dir). do { x \<leftarrow> index_of dir i; Some (v @ [x], dir[i := 0]) })"

text \<open>Appending the first \<open>n\<close> numbers of an indirect block to \<open>v\<close>.\<close>

definition collect_blocks :: "nat \<Rightarrow> u32 list \<Rightarrow> u32 list \<Rightarrow> u32 list option" where
  "collect_blocks n arr v = foldM (\<lambda>i v. do { x \<leftarrow> index_of arr i; Some (v @ [x]) }) [0..<n] v"

definition collect_indirect ::
  "nat \<Rightarrow> u32 list \<Rightarrow> 'd dyn_device \<Rightarrow> nat \<Rightarrow> u32 list \<times> 'd io \<Rightarrow> (u32 list \<times> 'd io) option" where
  "collect_indirect n ind2 dev i = (\<lambda>(v, s). do {
     block_id \<leftarrow> index_of ind2 i;
     let v = v @ [block_id];
     cache_modify IndirectBlock (ucast block_id) dev 0 (\<lambda>ind1 s. do {
       v \<leftarrow> collect_blocks n ind1 v;
       Some ((v, ind1), s) }) s })"

definition clear_size ::
  "'d dyn_device \<Rightarrow> DiskInode \<Rightarrow> 'd io \<Rightarrow> ((u32 list \<times> DiskInode) \<times> 'd io) option" where
  "clear_size dev d s = do {
     let blocks = (ucast (data_blocks d) :: usize);
     let d = d\<lparr>di_size := 0\<rparr>;
     (v, dir) \<leftarrow> foldM clear_direct_step [0..<unat (min blocks INODE_DIRECT_COUNT)] ([], direct d);
     let d = d\<lparr>direct := dir\<rparr>;
     if blocks > INODE_DIRECT_COUNT then do {
       let v = v @ [indirect1 d];
       let blocks = blocks - INODE_DIRECT_COUNT;
       (v, s) \<leftarrow> cache_modify IndirectBlock (ucast (indirect1 d)) dev 0 (\<lambda>ind1 s. do {
         v \<leftarrow> collect_blocks (unat (min blocks INODE_INDIRECT1_COUNT)) ind1 v;
         Some ((v, ind1), s) }) s;
       let d = d\<lparr>indirect1 := 0\<rparr>;
       if blocks > INODE_INDIRECT1_COUNT then do {
         let v = v @ [indirect2 d];
         let blocks = blocks - INODE_INDIRECT1_COUNT;
         rassert (blocks \<le> INODE_INDIRECT2_COUNT);
         let a1 = blocks div INODE_INDIRECT1_COUNT;
         let b1 = blocks mod INODE_INDIRECT1_COUNT;
         (v, s) \<leftarrow> cache_modify IndirectBlock (ucast (indirect2 d)) dev 0 (\<lambda>ind2 s. do {
           (v, s) \<leftarrow> foldM (collect_indirect (unat INODE_INDIRECT1_COUNT) ind2 dev) [0..<unat a1] (v, s);
           (v, s) \<leftarrow> (if b1 > 0 then collect_indirect (unat b1) ind2 dev (unat a1) (v, s) else Some (v, s));
           Some ((v, ind2), s) }) s;
         Some ((v, d\<lparr>indirect2 := 0\<rparr>), s) }
       else Some ((v, d), s) }
     else Some ((v, d), s) }"

section \<open>Reading and writing data\<close>

definition block_end :: "usize \<Rightarrow> usize \<Rightarrow> usize" where
  "block_end start end = min ((start div BLOCK_SZ + 1) * BLOCK_SZ) end"

partial_function (option) read_at_loop ::
  "DiskInode \<Rightarrow> 'd dyn_device \<Rightarrow> usize \<Rightarrow> usize \<Rightarrow> usize \<Rightarrow> usize \<Rightarrow> u8 list \<Rightarrow> 'd io \<Rightarrow>
    ((usize \<times> u8 list) \<times> 'd io) option" where
  "read_at_loop d dev start end start_block read_size buf s = do {
     let end_current_block = block_end start end;
     let block_read_size = end_current_block - start;
     dst \<leftarrow> slice buf read_size (read_size + block_read_size);
     (block_id, s) \<leftarrow> get_block_id d (ucast start_block) dev s;
     (src, s) \<leftarrow> cache_read DataBlock (ucast block_id) dev 0 (\<lambda>data_block s. do {
       src \<leftarrow> slice data_block (start mod BLOCK_SZ) (start mod BLOCK_SZ + block_read_size);
       Some (src, s) }) s;
     rassert (length dst = length src);
     let buf = put_at (unat read_size) src buf;
     let read_size = read_size + block_read_size;
     if end_current_block = end then Some ((read_size, buf), s)
     else read_at_loop d dev end_current_block end (start_block + 1) read_size buf s }"

definition disk_inode_read_at ::
  "DiskInode \<Rightarrow> usize \<Rightarrow> u8 list \<Rightarrow> 'd dyn_device \<Rightarrow> 'd io \<Rightarrow> ((usize \<times> u8 list) \<times> 'd io) option" where
  "disk_inode_read_at d offset buf dev s =
     (let start = offset; end = min (offset + of_nat (length buf)) (ucast (di_size d)) in
      if start \<ge> end then Some ((0, buf), s)
      else read_at_loop d dev start end (start div BLOCK_SZ) 0 buf s)"

partial_function (option) write_at_loop ::
  "DiskInode \<Rightarrow> 'd dyn_device \<Rightarrow> usize \<Rightarrow> usize \<Rightarrow> usize \<Rightarrow> usize \<Rightarrow> u8 list \<Rightarrow> 'd io \<Rightarrow>
    (usize \<times> 'd io) option" where
  "write_at_loop d dev start end start_block write_size buf s = do {
     let end_current_block = block_end start end;
     let block_write_size = end_current_block - start;
     (block_id, s) \<leftarrow> get_block_id d (ucast start_block) dev s;
     (u, s) \<leftarrow> cache_modify DataBlock (ucast block_id) dev 0 (\<lambda>data_block s. do {
       src \<leftarrow> slice buf write_size (write_size + block_write_size);
       dst \<leftarrow> slice data_block (start mod BLOCK_SZ) (start mod BLOCK_SZ + block_write_size);
       rassert (length dst = length src);
       Some (((), put_at (unat (start mod BLOCK_SZ)) src data_block), s) }) s;
     let write_size = write_size + block_write_size;
     if end_current_block = end then Some (write_size, s)
     else write_at_loop d dev end_current_block end (start_block + 1) write_size buf s }"

definition disk_inode_write_at ::
  "DiskInode \<Rightarrow> usize \<Rightarrow> u8 list \<Rightarrow> 'd dyn_device \<Rightarrow> 'd io \<Rightarrow> (usize \<times> 'd io) option" where
  "disk_inode_write_at d offset buf dev s =
     (let start = offset; end = min (offset + of_nat (length buf)) (ucast (di_size d)) in do {
        rassert (start \<le> end);
        write_at_loop d dev start end (start div BLOCK_SZ) 0 buf s })"

section \<open>Directory entries\<close>

record DirEntry =
  de_name :: "u8 list"
  de_inode_number :: u32

definition dir_entry_empty :: DirEntry where
  "dir_entry_empty = \<lparr>de_name = replicate 28 0, de_inode_number = 0\<rparr>"

text \<open>\<open>bytes[..name.len()]\<close> panics when the name is longer than the array.\<close>

definition dir_entry_new :: "u8 list \<Rightarrow> u32 \<Rightarrow> DirEntry option" where
  "dir_entry_new name inode_number = do {
     let bytes = replicate (unat (NAME_LENGTH_LIMIT + 1)) 0;
     rassert (length name \<le> length bytes);
     Some \<lparr>de_name = put_at 0 name bytes, de_inode_number = inode_number\<rparr> }"

definition as_bytes :: "DirEntry \<Rightarrow> u8 list" where
  "as_bytes e = de_name e @ le_encode 4 (de_inode_number e)"

text \<open>The entry after its bytes were written through \<open>as_bytes_mut\<close>.\<close>

definition as_bytes_mut :: "u8 list \<Rightarrow> DirEntry" where
  "as_bytes_mut bs = \<lparr>de_name = take 28 bs, de_inode_number = le_decode (take 4 (drop 28 bs))\<rparr>"

definition entry_name :: "DirEntry \<Rightarrow> u8 list option" where
  "entry_name e = do {
     len \<leftarrow> find_index (\<lambda>b. b = 0) (de_name e);
     from_utf8_unwrap (take len (de_name e)) }"

definition inode_number :: "DirEntry \<Rightarrow> u32" where
  "inode_number e = de_inode_number e"

end
