(* ===== verification/FsVfs.thy ===== *)
theory FsVfs
  imports FsBitmap FsLayout
begin

text \<open>
  The file system of \<open>easy-fs\<close>: \<open>src/easy-fs/src/efs.rs\<close> places the bitmaps and areas on the device
  and allocates from them, and \<open>vfs.rs\<close> offers inodes with their directory and file operations. The
  fields of \<open>EasyFileSystem\<close> do not change after it is built, so the shared and locked value is
  passed by value; every operation takes its lock once.
\<close>

section \<open>efs.rs\<close>

record 'd EasyFileSystem =
  efs_block_device :: "'d dyn_device"
  inode_bitmap :: Bitmap
  data_bitmap :: Bitmap
  inode_area_start_block :: u32
  data_area_start_block :: u32

definition get_disk_inode_pos :: "'d EasyFileSystem \<Rightarrow> u32 \<Rightarrow> u32 \<times> usize" where
  "get_disk_inode_pos efs inode_id =
     (let inode_size = size_of disk_inode_layout;
          inodes_per_block = ucast (BLOCK_SZ div inode_size) :: u32;
          block_id = inode_area_start_block efs + inode_id div inodes_per_block
      in (block_id, ucast (inode_id mod inodes_per_block) * inode_size))"

definition get_data_block_id :: "'d EasyFileSystem \<Rightarrow> u32 \<Rightarrow> u32" where
  "get_data_block_id efs data_block_id = data_area_start_block efs + data_block_id"

definition alloc_inode :: "'d EasyFileSystem \<Rightarrow> 'd io \<Rightarrow> (u32 \<times> 'd io) option" where
  "alloc_inode efs s = do {
     (r, s) \<leftarrow> bitmap_alloc (inode_bitmap efs) (efs_block_device efs) s;
     n \<leftarrow> r;
     Some (ucast n, s) }"

definition alloc_data :: "'d EasyFileSystem \<Rightarrow> 'd io \<Rightarrow> (u32 \<times> 'd io) option" where
  "alloc_data efs s = do {
     (r, s) \<leftarrow> bitmap_alloc (data_bitmap efs) (efs_block_device efs) s;
     n \<leftarrow> r;
     Some (ucast n + data_area_start_block efs, s) }"

text \<open>Setting every byte of a data block to 0.\<close>

definition zero_block :: "u8 list \<Rightarrow> 'd io \<Rightarrow> ((unit \<times> u8 list) \<times> 'd io) option" where
  "zero_block data_block s = Some (((), map (\<lambda>b. 0) data_block), s)"

definition dealloc_data :: "'d EasyFileSystem \<Rightarrow> u32 \<Rightarrow> 'd io \<Rightarrow> 'd io option" where
  "dealloc_data efs block_id s = do {
     (u, s) \<leftarrow> cache_modify DataBlock (ucast block_id) (efs_block_device efs) 0 zero_block s;
     bitmap_dealloc (data_bitmap efs) (efs_block_device efs)
       (ucast (block_id - data_area_start_block efs)) s }"

text \<open>The sizes of the areas, and the file system with these areas.\<close>

definition efs_areas :: "u32 \<Rightarrow> u32 \<Rightarrow> u32 \<times> u32 \<times> u32" where
  "efs_areas tot ibb =
     (let inode_num = bitmap_maximum (bitmap_new 1 (ucast ibb));
          iab = ucast ((inode_num * size_of disk_inode_layout + BLOCK_SZ - 1) div BLOCK_SZ);
          inode_total_blocks = ibb + iab;
          data_total_blocks = tot - 1 - inode_total_blocks;
          dbb = (data_total_blocks + 4096) div 4097
      in (iab, dbb, data_total_blocks - dbb))"

definition efs_of_areas :: "'d dyn_device \<Rightarrow> u32 \<Rightarrow> u32 \<Rightarrow> u32 \<Rightarrow> 'd EasyFileSystem" where
  "efs_of_areas dev ibb iab dbb =
     (let inode_total_blocks = ibb + iab in
      \<lparr>efs_block_device = dev,
       inode_bitmap = bitmap_new 1 (ucast ibb),
       data_bitmap = bitmap_new (ucast (1 + inode_total_blocks)) (ucast dbb),
       inode_area_start_block = 1 + ibb,
       data_area_start_block = 1 + inode_total_blocks + dbb\<rparr>)"

definition clear_block :: "'d dyn_device \<Rightarrow> u32 \<Rightarrow> 'd io \<Rightarrow> 'd io option" where
  "clear_block dev i s = do {
     (u, s) \<leftarrow> cache_modify DataBlock (ucast i) dev 0 zero_block s;
     Some s }"

definition efs_create ::
  "'d dyn_device \<Rightarrow> u32 \<Rightarrow> u32 \<Rightarrow> 'd io \<Rightarrow> ('d EasyFileSystem \<times> 'd io) option" where
  "efs_create dev tot ibb s = do {
     let (iab, dbb, dab)
       = efs_areas tot ibb;
     let efs = efs_of_areas dev ibb iab dbb;
     s \<leftarrow> foldM (clear_block dev) (map of_nat [0..<unat tot]) s;
     (u, s) \<leftarrow> cache_modify super_block_layout 0 dev 0 (\<lambda>b s. Some (((),
        super_block_initialize tot ibb iab dbb dab), s)) s;
     (root, s) \<leftarrow> alloc_inode efs s;
     rassert (root = 0);
     let (root_inode_block_id, root_inode_offset) = get_disk_inode_pos efs 0;
     (u, s) \<leftarrow> cache_modify disk_inode_layout (ucast root_inode_block_id) dev root_inode_offset
       (\<lambda>disk_inode s. Some (((), disk_inode_initialize Directory disk_inode), s)) s;
     s \<leftarrow> block_cache_sync_all s;
     Some (efs, s) }"

definition efs_open :: "'d dyn_device \<Rightarrow> 'd io \<Rightarrow> ('d EasyFileSystem \<times> 'd io) option" where
  "efs_open dev s = cache_read super_block_layout 0 dev 0 (\<lambda>super_block s. do {
     rassert (super_block_is_valid super_block);
     Some (efs_of_areas dev (inode_bitmap_blocks super_block) (inode_area_blocks super_block)
       (data_bitmap_blocks super_block), s) }) s"

section \<open>vfs.rs\<close>

record 'd Inode =
  ino_block_id :: usize
  ino_block_offset :: usize
  ino_fs :: "'d EasyFileSystem"
  ino_block_device :: "'d dyn_device"

definition inode_new :: "u32 \<Rightarrow> usize \<Rightarrow> 'd EasyFileSystem \<Rightarrow> 'd dyn_device \<Rightarrow> 'd Inode" where
  "inode_new block_id block_offset fs dev =
     \<lparr>ino_block_id = ucast block_id, ino_block_offset = block_offset, ino_fs = fs, ino_block_device = dev\<rparr>"

definition root_inode :: "'d EasyFileSystem \<Rightarrow> 'd Inode" where
  "root_inode efs = (let dev = efs_block_device efs;
       (block_id, block_offset) = get_disk_inode_pos efs 0
     in inode_new block_id block_offset efs dev)"

definition read_disk_inode ::
  "'d Inode \<Rightarrow> (DiskInode \<Rightarrow> 'd io \<Rightarrow> ('v \<times> 'd io) option) \<Rightarrow> 'd io \<Rightarrow> ('v \<times> 'd io) option" where
  "read_disk_inode ino f = cache_read disk_inode_layout (ino_block_id ino) (ino_block_device ino) (ino_block_offset ino) f"

definition modify_disk_inode ::
  "'d Inode \<Rightarrow> (DiskInode \<Rightarrow> 'd io \<Rightarrow> (('v \<times> DiskInode) \<times> 'd io) option) \<Rightarrow> 'd io \<Rightarrow> ('v \<times> 'd io) option" where
  "modify_disk_inode ino f = cache_modify disk_inode_layout (ino_block_id ino) (ino_block_device ino) (ino_block_offset ino) f"

text \<open>Reading the \<open>i\<close>-th entry of a directory.\<close>

definition read_dirent :: "'d dyn_device \<Rightarrow> DiskInode \<Rightarrow> usize \<Rightarrow> DirEntry \<Rightarrow> 'd io \<Rightarrow> (DirEntry \<times> 'd io) option" where
  "read_dirent dev disk_inode i dirent s = do {
     ((n, bs), s) \<leftarrow> disk_inode_read_at disk_inode (DIRENT_SZ * i) (as_bytes dirent) dev s;
     rassert (n = DIRENT_SZ);
     Some (as_bytes_mut bs, s) }"

fun find_inode_id_loop ::
  "'d dyn_device \<Rightarrow> u8 list \<Rightarrow> DiskInode \<Rightarrow> usize list \<Rightarrow> DirEntry \<Rightarrow> 'd io \<Rightarrow> (u32 option \<times> 'd io) option" where
  "find_inode_id_loop dev name disk_inode [] dirent s = Some (None, s)"
| "find_inode_id_loop dev name disk_inode (i # is) dirent s = do {
     (dirent, s) \<leftarrow> read_dirent dev disk_inode i dirent s;
     nm \<leftarrow> entry_name dirent;
     if nm = name then Some (Some (inode_number dirent), s)
     else find_inode_id_loop dev name disk_inode is dirent s }"

definition file_count :: "DiskInode \<Rightarrow> usize" where
  "file_count d = ucast (di_size d) div DIRENT_SZ"

definition find_inode_id :: "'d Inode \<Rightarrow> u8 list \<Rightarrow> DiskInode \<Rightarrow> 'd io \<Rightarrow> (u32 option \<times> 'd io) option" where
  "find_inode_id ino name disk_inode s = do {
     rassert (is_dir disk_inode);
     find_inode_id_loop (ino_block_device ino) name disk_inode
       (map of_nat [0..<unat (file_count disk_inode)]) dir_entry_empty s }"

definition inode_find :: "'d Inode \<Rightarrow> u8 list \<Rightarrow> 'd io \<Rightarrow> ('d Inode option \<times> 'd io) option" where
  "inode_find ino name s = read_disk_inode ino (\<lambda>disk_inode s. do {
     (r, s) \<leftarrow> find_inode_id ino name disk_inode s;
     Some (map_option (\<lambda>inode_id. let (block_id, block_offset) = get_disk_inode_pos (ino_fs ino) inode_id
       in inode_new block_id block_offset (ino_fs ino) (ino_block_device ino)) r, s) }) s"

definition alloc_data_push :: "'d EasyFileSystem \<Rightarrow> nat \<Rightarrow> u32 list \<times> 'd io \<Rightarrow> (u32 list \<times> 'd io) option" where
  "alloc_data_push fs i = (\<lambda>(v, s). do { (b, s) \<leftarrow> alloc_data fs s; Some (v @ [b], s) })"

definition inode_increase_size ::
  "'d Inode \<Rightarrow> u32 \<Rightarrow> DiskInode \<Rightarrow> 'd io \<Rightarrow> (DiskInode \<times> 'd io) option" where
  "inode_increase_size ino new_size disk_inode s =
     (if new_size < di_size disk_inode then Some (disk_inode, s)
      else do {
        blocks_needed \<leftarrow> blocks_num_needed disk_inode new_size;
        (v, s) \<leftarrow> foldM (alloc_data_push (ino_fs ino)) [0..<unat blocks_needed] ([], s);
        disk_inode_increase_size new_size v (ino_block_device ino) disk_inode s })"

text \<open>Appending an entry to a directory.\<close>

definition append_dirent :: "'d Inode \<Rightarrow> u8 list \<Rightarrow> u32 \<Rightarrow> DiskInode \<Rightarrow> 'd io \<Rightarrow> ((unit \<times> DiskInode) \<times> 'd io) option" where
  "append_dirent ino name new_inode_id root s = do {
     let count = file_count root;
     let new_size = (count + 1) * DIRENT_SZ;
     (root, s) \<leftarrow> inode_increase_size ino (ucast new_size) root s;
     dirent \<leftarrow> dir_entry_new name new_inode_id;
     (n, s) \<leftarrow> disk_inode_write_at root (count * DIRENT_SZ) (as_bytes dirent) (ino_block_device ino) s;
     Some (((), root), s) }"

definition inode_create :: "'d Inode \<Rightarrow> u8 list \<Rightarrow> 'd io \<Rightarrow> ('d Inode option \<times> 'd io) option" where
  "inode_create ino name s = do {
     (r, s) \<leftarrow> modify_disk_inode ino (\<lambda>root s. do {
        rassert (is_dir root);
        (r, s) \<leftarrow> find_inode_id ino name root s;
        Some ((r, root), s) }) s;
     if r \<noteq> None then Some (None, s)
     else do {
       (new_inode_id, s) \<leftarrow> alloc_inode (ino_fs ino) s;
       let (block_id, block_offset) = get_disk_inode_pos (ino_fs ino) new_inode_id;
       (u, s) \<leftarrow> cache_modify disk_inode_layout (ucast block_id) (ino_block_device ino) block_offset
         (\<lambda>new_inode s. Some (((), disk_inode_initialize File new_inode), s)) s;
       (u, s) \<leftarrow> modify_disk_inode ino (append_dirent ino name new_inode_id) s;
       s \<leftarrow> block_cache_sync_all s;
       Some (Some (inode_new block_id block_offset (ino_fs ino) (ino_block_device ino)), s) } }"

definition ls_step ::
  "'d dyn_device \<Rightarrow> DiskInode \<Rightarrow> usize \<Rightarrow> u8 list list \<times> 'd io \<Rightarrow> (u8 list list \<times> 'd io) option" where
  "ls_step dev disk_inode i = (\<lambda>(v, s). do {
     (dirent, s) \<leftarrow> read_dirent dev disk_inode i dir_entry_empty s;
     nm \<leftarrow> entry_name dirent;
     Some (v @ [nm], s) })"

definition inode_ls :: "'d Inode \<Rightarrow> 'd io \<Rightarrow> (u8 list list \<times> 'd io) option" where
  "inode_ls ino s = read_disk_inode ino (\<lambda>disk_inode s.
     foldM (ls_step (ino_block_device ino) disk_inode)
       (map of_nat [0..<unat (file_count disk_inode)]) ([], s)) s"

definition inode_read_at :: "'d Inode \<Rightarrow> usize \<Rightarrow> u8 list \<Rightarrow> 'd io \<Rightarrow> ((usize \<times> u8 list) \<times> 'd io) option" where
  "inode_read_at ino offset buf s = read_disk_inode ino (\<lambda>disk_inode s.
     disk_inode_read_at disk_inode offset buf (ino_block_device ino) s) s"

definition inode_write_at :: "'d Inode \<Rightarrow> usize \<Rightarrow> u8 list \<Rightarrow> 'd io \<Rightarrow> (usize \<times> 'd io) option" where
  "inode_write_at ino offset buf s = do {
     (n, s) \<leftarrow> modify_disk_inode ino (\<lambda>disk_inode s. do {
        (disk_inode, s) \<leftarrow> inode_increase_size ino (ucast (offset + of_nat (length buf))) disk_inode s;
        (n, s) \<leftarrow> disk_inode_write_at disk_inode offset buf (ino_block_device ino) s;
        Some ((n, disk_inode), s) }) s;
     s \<leftarrow> block_cache_sync_all s;
     Some (n, s) }"

definition inode_clear :: "'d Inode \<Rightarrow> 'd io \<Rightarrow> 'd io option" where
  "inode_clear ino s = do {
     (u, s) \<leftarrow> modify_disk_inode ino (\<lambda>disk_inode s. do {
        let sz = di_size disk_inode;
        ((v, disk_inode), s) \<leftarrow> clear_size (ino_block_device ino) disk_inode s;
        rassert (length v = unat (total_blocks sz));
        s \<leftarrow> foldM (dealloc_data (ino_fs ino)) v s;
        Some (((), disk_inode), s) }) s;
     block_cache_sync_all s }"

end
