(* ===== verification/FsWords.thy ===== *)
theory FsWords
  imports FsLayout FsBitmap
begin

text \<open>
  The encodings of the values in blocks are inverse to each other: arrays of integers, the super
  block, disk inodes and directory entries.
\<close>

section \<open>Integers\<close>

lemma bit_le_decode:
  "bit (le_decode bs :: 'a::len word) i \<longleftrightarrow> i < LENGTH('a) \<and> i div 8 < length bs \<and> bit (bs ! (i div 8)) (i mod 8)"
proof (induction bs arbitrary: i)
  case (Cons b bs)
  show ?case
  proof (cases "i < 8")
    case False
    then have "i div 8 = Suc ((i - 8) div 8)" "i mod 8 = (i - 8) mod 8" by (simp_all add: le_div_geq le_mod_geq)
    then show ?thesis using False Cons.IH [of "i - 8"]
      by (auto simp: bit_or_iff bit_push_bit_iff bit_unsigned_iff dest: bit_imp_le_length)
  qed (auto simp: bit_or_iff bit_push_bit_iff bit_unsigned_iff)
qed simp

lemma le_encode_decode:
  assumes "8 * length bs \<le> LENGTH('a)"
  shows "le_encode (length bs) (le_decode bs :: 'a::len word) = bs"
proof (rule nth_equalityI)
  fix i assume "i < length (le_encode (length bs) (le_decode bs :: 'a word))"
  then have i: "i < length bs" by simp
  show "le_encode (length bs) (le_decode bs :: 'a word) ! i = bs ! i"
  proof (rule bit_word_eqI)
    fix j assume "j < LENGTH(8)"
    then have j: "j < 8" by simp
    then have "(8 * i + j) div 8 = i" "(8 * i + j) mod 8 = j" "8 * i + j < LENGTH('a)" using i assms by auto
    then show "bit (le_encode (length bs) (le_decode bs :: 'a word) ! i) j \<longleftrightarrow> bit (bs ! i) j"
      using i j by (simp add: le_encode_def bit_unsigned_iff bit_drop_bit_eq bit_le_decode)
  qed
qed simp

section \<open>Arrays of integers\<close>

lemma length_words_of_bytes [simp]: "length (words_of_bytes n k bs) = k"
  by (simp add: words_of_bytes_def)

lemma length_bytes_of_words [simp]: "length (bytes_of_words n ws) = n * length ws"
  by (induction ws) (auto simp: bytes_of_words_def)

lemma chunk_bytes_of_words:
  "i < length ws \<Longrightarrow> take n (drop (n * i) (bytes_of_words n ws)) = le_encode n (ws ! i)"
proof (induction ws arbitrary: i)
  case (Cons w ws)
  then show ?case by (cases i) (auto simp: bytes_of_words_def)
qed simp

lemma words_of_bytes_of_words:
  "LENGTH('a) \<le> 8 * n \<Longrightarrow> words_of_bytes n (length ws) (bytes_of_words n ws) = ws" for ws :: "'a::len word list"
  by (rule nth_equalityI) (simp_all add: words_of_bytes_def chunk_bytes_of_words le_decode_encode_full)

lemma concat_chunks: "length bs = n * k \<Longrightarrow> concat (map (\<lambda>i. take n (drop (n * i) bs)) [0..<k]) = bs"
proof (induction k arbitrary: bs)
  case (Suc k)
  have e: "concat (map (\<lambda>i. take n (drop (n * i) bs)) [0..<Suc k])
      = take n bs @ concat (map (\<lambda>i. take n (drop (n * i) (drop n bs))) [0..<k])"
    by (simp add: upt_conv_Cons map_Suc_upt [symmetric] o_def add.commute del: upt_Suc)
  have "concat (map (\<lambda>i. take n (drop (n * i) (drop n bs))) [0..<k]) = drop n bs"
    by (rule Suc.IH) (use Suc.prems in simp)
  then show ?case unfolding e by simp
qed simp

lemma bytes_of_words_of_bytes:
  assumes "length bs = n * k" and "8 * n \<le> LENGTH('a)"
  shows "bytes_of_words n (words_of_bytes n k bs :: 'a::len word list) = bs"
proof -
  have "le_encode n (le_decode (take n (drop (n * i) bs)) :: 'a word) = take n (drop (n * i) bs)" if "i < k" for i
  proof -
    have "n * Suc i \<le> n * k" using that by (intro mult_le_mono2) simp
    then have "length (take n (drop (n * i) bs)) = n" using assms(1) by simp
    then show ?thesis using le_encode_decode [of "take n (drop (n * i) bs)", where 'a='a] assms(2) by simp
  qed
  then have "map (le_encode n) (words_of_bytes n k bs :: 'a word list) = map (\<lambda>i. take n (drop (n * i) bs)) [0..<k]"
    by (simp add: words_of_bytes_def)
  then show ?thesis using concat_chunks [OF assms(1)] by (simp add: bytes_of_words_def)
qed

lemma bitmap_block_codec:
  "length ws = 64 \<Longrightarrow> from_mem BitmapBlock (to_mem BitmapBlock ws) = ws"
  "length bs = 512 \<Longrightarrow> to_mem BitmapBlock (from_mem BitmapBlock bs) = bs"
  using words_of_bytes_of_words [where 'a=64, of 8 ws] bytes_of_words_of_bytes [where 'a=64, of bs 8 64]
  by (simp_all add: BitmapBlock_def)

lemma indirect_block_codec:
  "length ws = 128 \<Longrightarrow> from_mem IndirectBlock (to_mem IndirectBlock ws) = ws"
  "length bs = 512 \<Longrightarrow> to_mem IndirectBlock (from_mem IndirectBlock bs) = bs"
  using words_of_bytes_of_words [where 'a=32, of 4 ws] bytes_of_words_of_bytes [where 'a=32, of bs 4 128]
  by (simp_all add: IndirectBlock_def)

section \<open>Structures\<close>

lemma super_block_codec: "from_mem super_block_layout (to_mem super_block_layout b) = b"
  using words_of_bytes_of_words [where 'a=32, of 4 "[magic b, sb_total_blocks b, inode_bitmap_blocks b,
    inode_area_blocks b, data_bitmap_blocks b, data_area_blocks b]"]
  by (simp add: super_block_layout_def Let_def numeral_eq_Suc)

lemma disk_inode_codec:
  assumes "length (direct d) = 28"
  shows "from_mem disk_inode_layout (to_mem disk_inode_layout d @ pad) = d"
proof -
  let ?ws = "di_size d # direct d @ [indirect1 d, indirect2 d]"
  have len: "length ?ws = 31" "length (bytes_of_words 4 ?ws) = 124" using assms by simp_all
  have w: "words_of_bytes 4 31 (bytes_of_words 4 ?ws @ [t] @ pad) = ?ws" for t
  proof (rule nth_equalityI)
    fix i assume "i < length (words_of_bytes 4 31 (bytes_of_words 4 ?ws @ [t] @ pad) :: u32 list)"
    then have i: "i < 31" by simp
    then have "take 4 (drop (4 * i) (bytes_of_words 4 ?ws @ [t] @ pad)) = le_encode 4 (?ws ! i)"
      using chunk_bytes_of_words [of i ?ws 4] len by simp
    then show "(words_of_bytes 4 31 (bytes_of_words 4 ?ws @ [t] @ pad) :: u32 list) ! i = ?ws ! i"
      using i by (simp add: words_of_bytes_def le_decode_encode_full)
  qed (use len in simp)
  have "(bytes_of_words 4 ?ws @ [t] @ pad) ! 124 = t" for t using len(2) by (metis append_Cons nth_append_length)
  moreover have "?ws ! 29 = indirect1 d" "?ws ! 30 = indirect2 d" using assms by (simp_all add: nth_append)
  ultimately show ?thesis using assms
    by (cases "di_type d") (simp_all add: disk_inode_layout_def Let_def w del: append_Cons)
qed

lemma length_super_block: "length (to_mem super_block_layout b) = 24"
  by (simp add: super_block_layout_def)

lemma length_disk_inode: "length (direct d) = 28 \<Longrightarrow> length (to_mem disk_inode_layout d) = 125"
  by (simp add: disk_inode_layout_def)

lemma length_direct_from_mem: "length (direct (from_mem disk_inode_layout bs)) = 28"
  by (simp add: disk_inode_layout_def Let_def)

lemma dir_entry_codec: "length (de_name e) = 28 \<Longrightarrow> as_bytes_mut (as_bytes e) = e"
  by (simp add: as_bytes_mut_def as_bytes_def le_decode_encode_full)

lemma length_as_bytes: "length (de_name e) = 28 \<Longrightarrow> length (as_bytes e) = 32"
  by (simp add: as_bytes_def)

end
