(* ===== verification/FsView.thy ===== *)
theory FsView
  imports FsCache
begin

text \<open>
  The block cache is transparent. \<open>view\<close> is the device as its users see it, a map from block numbers
  to blocks; loading, evicting and writing back do not change it. A program on the block layer is
  described by \<open>does\<close>: run with the blocks \<open>Ls\<close> locked and the view \<open>V\<close>, it returns \<open>r\<close> and leaves
  the view \<open>V'\<close>. The rules of \<open>does\<close> follow the structure of the program, so that the file system
  above is verified against a plain map of blocks.
\<close>

section \<open>The view and the invariant of the cache\<close>

definition view :: "('d \<Rightarrow> usize \<Rightarrow> u8 list option) \<Rightarrow> 'd dyn_device \<Rightarrow> 'd io \<Rightarrow> usize \<Rightarrow> u8 list option" where
  "view content dev s b = (case map_of (cache_queue s) b of Some c \<Rightarrow> Some (cache c)
     | None \<Rightarrow> content (devices s (object dev)) b)"

definition entry_ok :: "('d \<Rightarrow> usize \<Rightarrow> u8 list option) \<Rightarrow> 'd dyn_device \<Rightarrow> 'd \<Rightarrow> usize \<Rightarrow> 'd BlockCache \<Rightarrow> bool" where
  "entry_ok content dev d b c \<longleftrightarrow> cache_block_id c = b \<and> block_device c = dev \<and> length (cache c) = 512
     \<and> content d b \<noteq> None \<and> (\<not> modified c \<longrightarrow> content d b = Some (cache c))"

definition cache_ok :: "('d \<Rightarrow> usize \<Rightarrow> u8 list option) \<Rightarrow> 'd dyn_device \<Rightarrow> 'd io \<Rightarrow> bool" where
  "cache_ok content dev s \<longleftrightarrow> distinct (map fst (cache_queue s)) \<and> length (cache_queue s) \<le> BLOCK_CACHE_SIZE
     \<and> distinct (locked s) \<and> set (locked s) \<subseteq> fst ` set (cache_queue s)
     \<and> (\<forall>b c. map_of (cache_queue s) b = Some c \<longrightarrow> entry_ok content dev (devices s (object dev)) b c)"

definition does ::
  "('d \<Rightarrow> usize \<Rightarrow> u8 list option) \<Rightarrow> 'd dyn_device \<Rightarrow> ('d io \<Rightarrow> ('a \<times> 'd io) option) \<Rightarrow> usize list \<Rightarrow>
    (usize \<Rightarrow> u8 list option) \<Rightarrow> 'a \<Rightarrow> (usize \<Rightarrow> u8 list option) \<Rightarrow> bool" where
  "does content dev p Ls V r V' \<longleftrightarrow> (\<forall>s. cache_ok content dev s \<and> locked s = Ls \<and> view content dev s = V \<longrightarrow>
     (\<exists>s'. p s = Some (r, s') \<and> cache_ok content dev s' \<and> locked s' = Ls \<and> view content dev s' = V'))"

lemma view_locked [simp]: "view content dev (s\<lparr>locked := l\<rparr>) = view content dev s"
  by (simp add: view_def fun_eq_iff split: option.split)

section \<open>Association lists with distinct keys\<close>

lemma distinct_fst_nth: "distinct (map fst (p # q)) \<Longrightarrow> i < length q \<Longrightarrow> fst (q ! i) \<noteq> fst p"
  using nth_mem [of i "map fst q"] by (metis distinct.simps(2) length_map list.simps(9) nth_map)

lemma map_of_nth_distinct:
  "distinct (map fst q) \<Longrightarrow> i < length q \<Longrightarrow> map_of q (fst (q ! i)) = Some (snd (q ! i))"
  by (metis map_of_eq_Some_iff nth_mem prod.collapse)

lemma map_of_remove_nth:
  assumes "distinct (map fst q)" and "i < length q"
  shows "map_of (remove_nth i q) = (map_of q)(fst (q ! i) := None)"
  using assms
proof (induction q arbitrary: i)
  case (Cons p q)
  show ?case
  proof (cases i)
    case 0
    have "map_of q (fst p) = None" using Cons.prems(1) by (simp add: map_of_eq_None_iff)
    then show ?thesis using 0 by (auto simp: remove_nth_def fun_eq_iff)
  next
    case (Suc j)
    then have "fst (q ! j) \<noteq> fst p" using Cons.prems distinct_fst_nth [of p q j] by simp
    then show ?thesis using Suc Cons.IH [of j] Cons.prems by (auto simp: remove_nth_def fun_eq_iff)
  qed
qed simp

lemma map_of_update_nth:
  assumes "distinct (map fst q)" and "i < length q" and "fst (q ! i) = b"
  shows "map_of (q[i := (b, c)]) = (map_of q)(b \<mapsto> c)"
  using assms
proof (induction q arbitrary: i)
  case (Cons p q)
  then show ?case using distinct_fst_nth [of p q "i - 1"] by (cases i) (auto simp: fun_eq_iff)
qed simp

lemma map_fst_update_nth: "fst (q ! i) = b \<Longrightarrow> map fst (q[i := (b, c)]) = map fst q"
  by (metis fst_conv list_update_id map_update)

lemma find_index_key:
  "b \<in> fst ` set q \<Longrightarrow> \<exists>i. find_index (\<lambda>p. fst p = b) q = Some i \<and> i < length q \<and> fst (q ! i) = b"
  using find_index_None [of "\<lambda>p. fst p = b" q]
  by (cases "find_index (\<lambda>p. fst p = b) q") (auto simp: find_index_Some)

section \<open>Devices\<close>

text \<open>
  What \<open>easy-fs\<close> relies on: a device has a fixed set of blocks of 512 bytes, a block that is read is
  what was last written, and a write changes one block.
\<close>

locale block_store =
  fixes dev :: "'d dyn_device" and content :: "'d \<Rightarrow> usize \<Rightarrow> u8 list option"
  assumes read_content: "content d b = Some bs \<Longrightarrow> read_block (vtable dev) b d = Some bs"
    and content_length: "content d b = Some bs \<Longrightarrow> length bs = 512"
    and write_content: "content d b \<noteq> None \<Longrightarrow> length bs = 512 \<Longrightarrow>
      \<exists>d'. write_block (vtable dev) b bs d = Some d' \<and> content d' = (content d)(b \<mapsto> bs)"
begin

lemma view_length: "cache_ok content dev s \<Longrightarrow> view content dev s b = Some bs \<Longrightarrow> length bs = 512"
  by (auto simp: view_def cache_ok_def entry_ok_def content_length split: option.splits)

text \<open>Writing back a block: the device then holds it.\<close>

lemma cache_sync_content:
  assumes "entry_ok content dev (devices s (object dev)) b c"
  shows "\<exists>d. cache_sync c s = Some (c\<lparr>modified := False\<rparr>, s\<lparr>devices := (devices s)(object dev := d)\<rparr>)
    \<and> content d = (content (devices s (object dev)))(b \<mapsto> cache c)"
proof (cases "modified c")
  case True
  then obtain d' where "write_block (vtable dev) b (cache c) (devices s (object dev)) = Some d'"
    "content d' = (content (devices s (object dev)))(b \<mapsto> cache c)"
    using write_content assms unfolding entry_ok_def by blast
  then show ?thesis using True assms by (auto simp: cache_sync_def entry_ok_def Let_def)
next
  case False
  then have "content (devices s (object dev)) = (content (devices s (object dev)))(b \<mapsto> cache c)"
    using assms by (auto simp: entry_ok_def)
  moreover have "c\<lparr>modified := False\<rparr> = c" using False by simp
  moreover have "s = s\<lparr>devices := (devices s)(object dev := devices s (object dev))\<rparr>" by simp
  ultimately show ?thesis using False
    by (intro exI [of _ "devices s (object dev)"]) (simp add: cache_sync_def)
qed

lemma evict_one_view:
  assumes ok: "cache_ok content dev s" and full: "length (cache_queue s) = BLOCK_CACHE_SIZE"
    and few: "length (locked s) < BLOCK_CACHE_SIZE"
  shows "\<exists>s'. evict_one s = Some s' \<and> cache_ok content dev s' \<and> view content dev s' = view content dev s
    \<and> locked s' = locked s \<and> length (cache_queue s') < BLOCK_CACHE_SIZE
    \<and> fst ` set (cache_queue s') \<subseteq> fst ` set (cache_queue s)"
proof -
  let ?q = "cache_queue s" and ?d = "devices s (object dev)"
  have dq: "distinct (map fst ?q)" using ok by (simp add: cache_ok_def)
  have "card (set (locked s)) < card (fst ` set ?q)"
    using ok full few distinct_card [of "locked s"] distinct_card [OF dq] by (simp add: cache_ok_def)
  then have "\<not> fst ` set ?q \<subseteq> set (locked s)" by (meson card_mono finite_set leD)
  then have "find_index (\<lambda>p. cache_strong_count s (fst p) = 1) ?q \<noteq> None"
    by (auto simp: find_index_None cache_strong_count_def count_list_0_iff)
  then obtain i where i: "find_index (\<lambda>p. cache_strong_count s (fst p) = 1) ?q = Some i" by blast
  then have il: "i < length ?q" and un: "fst (?q ! i) \<notin> set (locked s)"
    by (auto simp: find_index_Some cache_strong_count_def count_list_0_iff)
  obtain b c where bc: "?q ! i = (b, c)" by fastforce
  have m: "map_of ?q b = Some c" using map_of_nth_distinct [OF dq il] bc by simp
  then have e: "entry_ok content dev ?d b c" using ok by (simp add: cache_ok_def)
  let ?s1 = "s\<lparr>cache_queue := remove_nth i ?q\<rparr>"
  obtain d where d: "cache_sync c ?s1 = Some (c\<lparr>modified := False\<rparr>, ?s1\<lparr>devices := (devices s)(object dev := d)\<rparr>)"
    "content d = (content ?d)(b \<mapsto> cache c)"
    using cache_sync_content [of ?s1 b c] e by auto
  let ?s' = "?s1\<lparr>devices := (devices s)(object dev := d)\<rparr>"
  have ev: "evict_one s = Some ?s'" using i d(1) by (simp add: evict_one_def cache_drop_def bc)
  have mo: "map_of (remove_nth i ?q) = (map_of ?q)(b := None)"
    using map_of_remove_nth [OF dq il] bc by simp
  have "view content dev ?s' = view content dev s"
    unfolding fun_eq_iff by (auto simp: view_def mo d(2) m split: option.split)
  moreover have "entry_ok content dev d x y" if "map_of (remove_nth i ?q) x = Some y" for x y
    using that mo ok by (auto simp: cache_ok_def entry_ok_def d(2) split: if_splits)
  moreover have keys: "fst ` set (remove_nth i ?q) = fst ` set ?q - {b}"
    using arg_cong [OF mo, of dom] by (simp add: dom_map_of_conv_image_fst)
  moreover have "distinct (map fst (remove_nth i ?q))"
    using distinct_remove_nth(1) [OF dq, of i] il by (simp add: remove_nth_def take_map drop_map)
  ultimately have "cache_ok content dev ?s'" "view content dev ?s' = view content dev s"
    using ok un length_remove_nth [OF il] full bc by (auto simp: cache_ok_def)
  then show ?thesis using ev keys length_remove_nth [OF il] full
    by (intro exI [of _ ?s']) (auto simp: BLOCK_CACHE_SIZE_def)
qed

lemma load_view:
  assumes ok: "cache_ok content dev s" and room: "length (cache_queue s) < BLOCK_CACHE_SIZE"
    and new: "b \<notin> fst ` set (cache_queue s)" and v: "view content dev s b = Some bs"
  shows "\<exists>c. block_cache_new b dev s = Some c \<and> (let s' = s\<lparr>cache_queue := cache_queue s @ [(b, c)]\<rparr> in
    cache_ok content dev s' \<and> view content dev s' = view content dev s)"
proof -
  have m: "map_of (cache_queue s) b = None" using new by (simp add: map_of_eq_None_iff)
  then have bs: "content (devices s (object dev)) b = Some bs" using v by (simp add: view_def)
  let ?c = "\<lparr>cache = bs, cache_block_id = b, block_device = dev, modified = False\<rparr>"
  have mo: "map_of (cache_queue s @ [(b, ?c)]) = (map_of (cache_queue s))(b \<mapsto> ?c)"
    using m by (auto simp: fun_eq_iff map_add_def split: option.splits)
  have "block_cache_new b dev s = Some ?c" using read_content [OF bs] by (simp add: block_cache_new_def)
  moreover have "view content dev (s\<lparr>cache_queue := cache_queue s @ [(b, ?c)]\<rparr>) = view content dev s"
    using m bs unfolding fun_eq_iff by (auto simp: view_def map_add_def split: option.split)
  moreover have "cache_ok content dev (s\<lparr>cache_queue := cache_queue s @ [(b, ?c)]\<rparr>)"
    using ok room new bs content_length [OF bs] mo by (auto simp: cache_ok_def entry_ok_def)
  ultimately show ?thesis by (simp add: Let_def)
qed

lemma get_block_cache_view:
  assumes ok: "cache_ok content dev s" and few: "length (locked s) < BLOCK_CACHE_SIZE"
    and v: "view content dev s b = Some bs"
  shows "\<exists>s'. get_block_cache b dev s = Some s' \<and> cache_ok content dev s' \<and> locked s' = locked s
    \<and> view content dev s' = view content dev s \<and> b \<in> fst ` set (cache_queue s')"
proof (cases "b \<in> fst ` set (cache_queue s)")
  case True
  then have "get_block_cache b dev s = Some s"
    using find_index_key [OF True] by (auto simp: get_block_cache_def)
  then show ?thesis using ok True by blast
next
  case False
  then have n: "find_index (\<lambda>p. fst p = b) (cache_queue s) = None" by (auto simp: find_index_None)
  obtain s1 where s1: "(if length (cache_queue s) = BLOCK_CACHE_SIZE then evict_one s else Some s) = Some s1"
    "cache_ok content dev s1" "view content dev s1 = view content dev s" "locked s1 = locked s"
    "length (cache_queue s1) < BLOCK_CACHE_SIZE" "fst ` set (cache_queue s1) \<subseteq> fst ` set (cache_queue s)"
  proof (cases "length (cache_queue s) = BLOCK_CACHE_SIZE")
    case True
    then show ?thesis using evict_one_view [OF ok True few] that by auto
  next
    case False
    then have "length (cache_queue s) < BLOCK_CACHE_SIZE" using ok by (simp add: cache_ok_def)
    then show ?thesis using that [of s] ok False by simp
  qed
  obtain c where c: "block_cache_new b dev s1 = Some c"
    "cache_ok content dev (s1\<lparr>cache_queue := cache_queue s1 @ [(b, c)]\<rparr>)"
    "view content dev (s1\<lparr>cache_queue := cache_queue s1 @ [(b, c)]\<rparr>) = view content dev s1"
    using load_view [OF s1(2,5), of b bs] s1(3,6) v False by (auto simp: Let_def)
  have "get_block_cache b dev s = Some (s1\<lparr>cache_queue := cache_queue s1 @ [(b, c)]\<rparr>)"
    unfolding get_block_cache_def n s1(1) option.case by (simp add: c(1))
  then show ?thesis using s1(3,4) c(2,3) by simp
qed

text \<open>Locking and unlocking a cached block.\<close>

lemma lock_cache_view:
  assumes ok: "cache_ok content dev s" and b: "b \<in> fst ` set (cache_queue s)" "b \<notin> set (locked s)"
    and v: "view content dev s b = Some bs"
  shows "\<exists>c. lock_cache b s = Some (c, s\<lparr>locked := b # locked s\<rparr>) \<and> cache c = bs
    \<and> map_of (cache_queue s) b = Some c
    \<and> cache_ok content dev (s\<lparr>locked := b # locked s\<rparr>)
    \<and> view content dev (s\<lparr>locked := b # locked s\<rparr>) = view content dev s"
proof -
  obtain i where i: "find_index (\<lambda>p. fst p = b) (cache_queue s) = Some i" "i < length (cache_queue s)"
    "fst (cache_queue s ! i) = b" using find_index_key [OF b(1)] by blast
  have "map_of (cache_queue s) b = Some (snd (cache_queue s ! i))"
    using map_of_nth_distinct [of "cache_queue s" i] i ok by (simp add: cache_ok_def)
  moreover from this have "cache (snd (cache_queue s ! i)) = bs" using v by (simp add: view_def)
  moreover have "cache_ok content dev (s\<lparr>locked := b # locked s\<rparr>)" using ok b by (simp add: cache_ok_def)
  ultimately show ?thesis using i b by (simp add: lock_cache_def)
qed

lemma unlock_cache_view:
  assumes "cache_ok content dev s" and "locked s = b # Ls"
  shows "cache_ok content dev (unlock_cache b s)" and "locked (unlock_cache b s) = Ls"
    and "view content dev (unlock_cache b s) = view content dev s"
  using assms by (auto simp: unlock_cache_def cache_ok_def)

lemma set_cache_view:
  assumes ok: "cache_ok content dev s" and b: "b \<in> fst ` set (cache_queue s)"
    and c: "cache_block_id c = b" "block_device c = dev" "length (cache c) = 512" "modified c"
  shows "\<exists>s'. set_cache b c s = Some s' \<and> cache_ok content dev s' \<and> locked s' = locked s
    \<and> view content dev s' = (view content dev s)(b \<mapsto> cache c)"
proof -
  let ?q = "cache_queue s"
  obtain i where i: "find_index (\<lambda>p. fst p = b) ?q = Some i" "i < length ?q" "fst (?q ! i) = b"
    using find_index_key [OF b(1)] by blast
  have dq: "distinct (map fst ?q)" using ok by (simp add: cache_ok_def)
  have mo: "map_of (?q[i := (b, c)]) = (map_of ?q)(b \<mapsto> c)" by (rule map_of_update_nth [OF dq i(2,3)])
  have k: "map fst (?q[i := (b, c)]) = map fst ?q" by (rule map_fst_update_nth [OF i(3)])
  have "entry_ok content dev (devices s (object dev)) b (snd (?q ! i))"
    using map_of_nth_distinct [OF dq i(2)] i(3) ok by (simp add: cache_ok_def)
  then have "entry_ok content dev (devices s (object dev)) b c" using c by (simp add: entry_ok_def)
  moreover have "fst ` set (?q[i := (b, c)]) = fst ` set ?q" using k by (metis set_map)
  ultimately have "cache_ok content dev (s\<lparr>cache_queue := ?q[i := (b, c)]\<rparr>)"
    using ok k mo by (simp add: cache_ok_def)
  moreover have "view content dev (s\<lparr>cache_queue := ?q[i := (b, c)]\<rparr>) = (view content dev s)(b \<mapsto> cache c)"
    by (auto simp: view_def mo fun_eq_iff split: option.split)
  ultimately show ?thesis using i by (simp add: set_cache_def)
qed

section \<open>Programs on the block layer\<close>

lemma does_return: "does content dev (\<lambda>s. Some (r, s)) Ls V r V"
  by (simp add: does_def)

lemma does_bind:
  assumes "does content dev p Ls V x V1" and "does content dev (q x) Ls V1 y V2"
  shows "does content dev (\<lambda>s. Option.bind (p s) (\<lambda>(x, s). q x s)) Ls V y V2"
  using assms unfolding does_def by fastforce

lemma does_unit:
  assumes "does content dev p Ls V x V'"
  shows "does content dev (\<lambda>s. map_option (Pair ()) (Option.bind (p s) (\<lambda>(x, s). Some s))) Ls V () V'"
  using assms unfolding does_def by fastforce

lemma does_read:
  assumes "V b = Some bs" and "b \<notin> set Ls" and "length Ls < BLOCK_CACHE_SIZE"
    and off: "offset + size_of L \<le> BLOCK_SZ" "unat offset < 512"
    and f: "does content dev (f (from_mem L (take (unat (size_of L)) (drop (unat offset) bs)))) (b # Ls) V r V'"
  shows "does content dev (cache_read L b dev offset f) Ls V r V'"
  unfolding does_def
proof (intro allI impI, elim conjE)
  fix s assume s: "cache_ok content dev s" "locked s = Ls" "view content dev s = V"
  obtain s1 where s1: "get_block_cache b dev s = Some s1" "cache_ok content dev s1" "locked s1 = Ls"
    "view content dev s1 = V" "b \<in> fst ` set (cache_queue s1)"
    using get_block_cache_view [of s b bs] s assms(1,3) by auto
  obtain c where c: "lock_cache b s1 = Some (c, s1\<lparr>locked := b # Ls\<rparr>)" "cache c = bs"
    "cache_ok content dev (s1\<lparr>locked := b # Ls\<rparr>)"
    using lock_cache_view [of s1 b bs] s1 assms(1,2) by auto
  obtain s2 where s2: "f (from_mem L (take (unat (size_of L)) (drop (unat offset) bs))) (s1\<lparr>locked := b # Ls\<rparr>) = Some (r, s2)"
    "cache_ok content dev s2" "locked s2 = b # Ls" "view content dev s2 = V'"
    using f c(3) s1(4) unfolding does_def by fastforce
  have "length bs = 512" using view_length [OF s1(2)] s1(4) assms(1) by simp
  then have "get_ref L offset c = Some (from_mem L (take (unat (size_of L)) (drop (unat offset) bs)))"
    using off c(2) by (simp add: get_ref_def index_of_def)
  then have "cache_read L b dev offset f s = Some (r, unlock_cache b s2)"
    using s1(1) c(1) s2(1) by (simp add: cache_read_def)
  then show "\<exists>s'. cache_read L b dev offset f s = Some (r, s') \<and> cache_ok content dev s' \<and> locked s' = Ls
      \<and> view content dev s' = V'"
    using unlock_cache_view [OF s2(2,3)] s2(4) by blast
qed

lemma does_modify:
  assumes "V b = Some bs" and "b \<notin> set Ls" and "length Ls < BLOCK_CACHE_SIZE"
    and off: "offset + size_of L \<le> BLOCK_SZ" "unat offset < 512"
    and f: "does content dev (f (from_mem L (take (unat (size_of L)) (drop (unat offset) bs)))) (b # Ls) V (r, v) V'"
    and fit: "unat offset + length (to_mem L v) \<le> 512"
  shows "does content dev (cache_modify L b dev offset f) Ls V r (V'(b \<mapsto> put_at (unat offset) (to_mem L v) bs))"
  unfolding does_def
proof (intro allI impI, elim conjE)
  fix s assume s: "cache_ok content dev s" "locked s = Ls" "view content dev s = V"
  obtain s1 where s1: "get_block_cache b dev s = Some s1" "cache_ok content dev s1" "locked s1 = Ls"
    "view content dev s1 = V" "b \<in> fst ` set (cache_queue s1)"
    using get_block_cache_view [of s b bs] s assms(1,3) by auto
  obtain c where c: "lock_cache b s1 = Some (c, s1\<lparr>locked := b # Ls\<rparr>)" "cache c = bs"
    "map_of (cache_queue s1) b = Some c" "cache_ok content dev (s1\<lparr>locked := b # Ls\<rparr>)"
    using lock_cache_view [of s1 b bs] s1 assms(1,2) by auto
  obtain s2 where s2: "f (from_mem L (take (unat (size_of L)) (drop (unat offset) bs))) (s1\<lparr>locked := b # Ls\<rparr>) = Some ((r, v), s2)"
    "cache_ok content dev s2" "locked s2 = b # Ls" "view content dev s2 = V'"
    using f c(4) s1(4) unfolding does_def by fastforce
  have len: "length bs = 512" using view_length [OF s1(2)] s1(4) assms(1) by simp
  then have g: "get_mut L offset c = Some (from_mem L (take (unat (size_of L)) (drop (unat offset) bs)), c\<lparr>modified := True\<rparr>)"
    using off c(2) by (simp add: get_mut_def get_ref_def index_of_def)
  let ?c = "put_mut L offset v (c\<lparr>modified := True\<rparr>)"
  have "entry_ok content dev (devices s1 (object dev)) b c" using s1(2) c(3) by (simp add: cache_ok_def)
  then have e: "cache_block_id ?c = b" "block_device ?c = dev" "length (cache ?c) = 512" "modified ?c"
    using fit len c(2) by (simp_all add: put_mut_def entry_ok_def)
  have "b \<in> fst ` set (cache_queue s2)" using s2(2,3) by (auto simp: cache_ok_def)
  then obtain s3 where s3: "set_cache b ?c s2 = Some s3" "cache_ok content dev s3" "locked s3 = b # Ls"
    "view content dev s3 = V'(b \<mapsto> cache ?c)"
    using set_cache_view [OF s2(2) _ e] s2(3,4) by auto
  have "cache_modify L b dev offset f s = Some (r, unlock_cache b s3)"
    using s1(1) c(1) g s2(1) s3(1) by (simp add: cache_modify_def)
  moreover have "cache ?c = put_at (unat offset) (to_mem L v) bs" using c(2) by (simp add: put_mut_def)
  ultimately show "\<exists>s'. cache_modify L b dev offset f s = Some (r, s') \<and> cache_ok content dev s' \<and> locked s' = Ls
      \<and> view content dev s' = V'(b \<mapsto> put_at (unat offset) (to_mem L v) bs)"
    using unlock_cache_view [OF s3(2,3)] s3(4) by metis
qed

text \<open>A closure that panics makes the whole call panic.\<close>

lemma modify_fails:
  assumes ok: "cache_ok content dev s" and v: "view content dev s b = Some bs"
    and l: "length (locked s) < BLOCK_CACHE_SIZE" "b \<notin> set (locked s)"
    and f: "\<And>s. f (from_mem L (take (unat (size_of L)) (drop (unat offset) bs))) s = None"
  shows "cache_modify L b dev offset f s = None"
proof -
  obtain s1 where s1: "get_block_cache b dev s = Some s1" "cache_ok content dev s1" "locked s1 = locked s"
    "view content dev s1 = view content dev s" "b \<in> fst ` set (cache_queue s1)"
    using get_block_cache_view [OF ok l(1) v] by metis
  then obtain c where c: "lock_cache b s1 = Some (c, s1\<lparr>locked := b # locked s1\<rparr>)" "cache c = bs"
    using lock_cache_view [of s1 b bs] l v by auto
  show ?thesis using s1(1) c f by (simp add: cache_modify_def get_mut_def get_ref_def index_of_def)
qed

text \<open>Loops: \<open>A i\<close> and \<open>W i\<close> are the accumulator and the view before round \<open>i\<close>.\<close>

lemma does_foldM:
  assumes "\<And>i. i < length xs \<Longrightarrow> does content dev (\<lambda>s. f (xs ! i) (A i, s)) Ls (W i) (A (Suc i)) (W (Suc i))"
  shows "does content dev (\<lambda>s. foldM f xs (A 0, s)) Ls (W 0) (A (length xs)) (W (length xs))"
  using assms
proof (induction xs arbitrary: A W)
  case Nil
  then show ?case by (simp add: does_def)
next
  case (Cons x xs)
  have h: "does content dev (\<lambda>s. f x (A 0, s)) Ls (W 0) (A 1) (W 1)" using Cons.prems [of 0] by simp
  have "does content dev (\<lambda>s. foldM f xs (A (Suc 0), s)) Ls (W (Suc 0)) (A (Suc (length xs))) (W (Suc (length xs)))"
    by (rule Cons.IH [of "\<lambda>i. A (Suc i)" "\<lambda>i. W (Suc i)"]) (use Cons.prems [of "Suc _"] in simp)
  with h show ?case unfolding does_def by fastforce
qed

lemma does_foldM_unit:
  assumes "\<And>i. i < length xs \<Longrightarrow> does content dev (\<lambda>s. map_option (Pair ()) (f (xs ! i) s)) Ls (W i) () (W (Suc i))"
  shows "does content dev (\<lambda>s. map_option (Pair ()) (foldM f xs s)) Ls (W 0) () (W (length xs))"
  using assms
proof (induction xs arbitrary: W)
  case Nil
  then show ?case by (simp add: does_def)
next
  case (Cons x xs)
  have h: "does content dev (\<lambda>s. map_option (Pair ()) (f x s)) Ls (W 0) () (W 1)" using Cons.prems [of 0] by simp
  have "does content dev (\<lambda>s. map_option (Pair ()) (foldM f xs s)) Ls (W (Suc 0)) () (W (Suc (length xs)))"
    by (rule Cons.IH [of "\<lambda>i. W (Suc i)"]) (use Cons.prems [of "Suc _"] in simp)
  with h show ?case unfolding does_def by fastforce
qed

section \<open>Synchronisation\<close>

lemma sync_entry_view:
  assumes ok: "cache_ok content dev s" "locked s = []" and i: "i < length (cache_queue s)"
  shows "\<exists>s'. sync_entry i s = Some s' \<and> cache_ok content dev s' \<and> locked s' = [] \<and> view content dev s' = view content dev s
    \<and> cache_queue s' = (cache_queue s)[i := (fst (cache_queue s ! i), (snd (cache_queue s ! i))\<lparr>modified := False\<rparr>)]"
proof -
  let ?q = "cache_queue s" and ?d = "devices s (object dev)"
  have dq: "distinct (map fst ?q)" using ok by (simp add: cache_ok_def)
  obtain b c where bc: "?q ! i = (b, c)" by fastforce
  have m: "map_of ?q b = Some c" using map_of_nth_distinct [OF dq i] bc by simp
  then have e: "entry_ok content dev ?d b c" using ok by (simp add: cache_ok_def)
  obtain d where d: "cache_sync c s = Some (c\<lparr>modified := False\<rparr>, s\<lparr>devices := (devices s)(object dev := d)\<rparr>)"
    "content d = (content ?d)(b \<mapsto> cache c)" using cache_sync_content [OF e] by blast
  let ?q' = "?q[i := (b, c\<lparr>modified := False\<rparr>)]"
  let ?s' = "s\<lparr>devices := (devices s)(object dev := d), cache_queue := ?q'\<rparr>"
  have mo: "map_of ?q' = (map_of ?q)(b \<mapsto> c\<lparr>modified := False\<rparr>)"
    by (rule map_of_update_nth [OF dq i]) (simp add: bc)
  have k: "map fst ?q' = map fst ?q" by (rule map_fst_update_nth) (simp add: bc)
  have "entry_ok content dev d x y" if "map_of ?q' x = Some y" for x y
    using that e ok(1) by (auto simp: mo cache_ok_def entry_ok_def d(2) split: if_splits)
  then have "cache_ok content dev ?s'" using ok k by (simp add: cache_ok_def)
  moreover have "view content dev ?s' = view content dev s"
    by (auto simp: view_def mo m d(2) fun_eq_iff split: option.split)
  moreover have "sync_entry i s = Some ?s'" using i bc d(1) ok(2) by (simp add: sync_entry_def index_of_def)
  ultimately show ?thesis using ok(2) by (simp add: bc)
qed

lemma sync_entries_view:
  assumes "cache_ok content dev s" "locked s = []" and "n \<le> length (cache_queue s)"
  shows "\<exists>s'. foldM sync_entry [0..<n] s = Some s' \<and> cache_ok content dev s' \<and> locked s' = []
    \<and> view content dev s' = view content dev s \<and> length (cache_queue s') = length (cache_queue s)
    \<and> (\<forall>j < n. \<not> modified (snd (cache_queue s' ! j)))"
  using assms(3)
proof (induction n)
  case 0
  then show ?case using assms by simp
next
  case (Suc n)
  then obtain t where t: "foldM sync_entry [0..<n] s = Some t" "cache_ok content dev t" "locked t = []"
    "view content dev t = view content dev s" "length (cache_queue t) = length (cache_queue s)"
    "\<forall>j < n. \<not> modified (snd (cache_queue t ! j))" by auto
  obtain u where u: "sync_entry n t = Some u" "cache_ok content dev u" "locked u = []" "view content dev u = view content dev t"
    "cache_queue u = (cache_queue t)[n := (fst (cache_queue t ! n), (snd (cache_queue t ! n))\<lparr>modified := False\<rparr>)]"
    using sync_entry_view [OF t(2,3), of n] t(5) Suc.prems by auto
  have "foldM sync_entry [0..<Suc n] s = Some u" using t(1) u(1) by (simp add: foldM_append)
  moreover have "\<forall>j < Suc n. \<not> modified (snd (cache_queue u ! j))"
    using t(5,6) u(5) Suc.prems by (simp add: less_Suc_eq nth_list_update)
  ultimately show ?case using t u by simp
qed

text \<open>After a synchronisation the device holds what its users see.\<close>

lemma sync_all_view:
  assumes "cache_ok content dev s" "locked s = []"
  shows "\<exists>s'. block_cache_sync_all s = Some s' \<and> cache_ok content dev s' \<and> locked s' = []
    \<and> view content dev s' = view content dev s \<and> content (devices s' (object dev)) = view content dev s"
proof -
  obtain s' where s': "block_cache_sync_all s = Some s'" "cache_ok content dev s'" "locked s' = []"
    "view content dev s' = view content dev s" "\<forall>j < length (cache_queue s'). \<not> modified (snd (cache_queue s' ! j))"
    using sync_entries_view [OF assms order_refl] by (auto simp: block_cache_sync_all_def)
  have "\<not> modified c" if "map_of (cache_queue s') b = Some c" for b c
    using s'(5) map_of_SomeD [OF that] by (metis in_set_conv_nth snd_conv)
  then have "content (devices s' (object dev)) b = view content dev s' b" for b
    using s'(2) by (auto simp: view_def cache_ok_def entry_ok_def split: option.split)
  then show ?thesis using s' by auto
qed

lemma does_sync_all: "does content dev (\<lambda>s. map_option (Pair ()) (block_cache_sync_all s)) [] V () V"
  unfolding does_def using sync_all_view by fastforce

end

end
