(* ===== verification/FsBitmapProps.thy ===== *)
theory FsBitmapProps
  imports FsWords FsView
begin

text \<open>
  A bitmap on the disk as a set of used numbers: \<open>alloc\<close> takes the least number that is not used, and
  \<open>dealloc\<close> gives one back.
\<close>

section \<open>Bits\<close>

definition bitmap_words :: "Bitmap \<Rightarrow> (usize \<Rightarrow> u8 list option) \<Rightarrow> nat \<Rightarrow> u64 list" where
  "bitmap_words bm V i = from_mem BitmapBlock (the (V (of_nat i + start_block_id bm)))"

definition bitmap_used :: "Bitmap \<Rightarrow> (usize \<Rightarrow> u8 list option) \<Rightarrow> nat \<Rightarrow> bool" where
  "bitmap_used bm V n = bit (bitmap_words bm V (n div 4096) ! (n mod 4096 div 64)) (n mod 64)"

text \<open>The view with one word of the bitmap changed.\<close>

definition bitmap_put :: "Bitmap \<Rightarrow> nat \<Rightarrow> u64 \<Rightarrow> (usize \<Rightarrow> u8 list option) \<Rightarrow> usize \<Rightarrow> u8 list option" where
  "bitmap_put bm n w V = V(of_nat (n div 4096) + start_block_id bm
     \<mapsto> to_mem BitmapBlock ((bitmap_words bm V (n div 4096))[n mod 4096 div 64 := w]))"

definition bitmap_word :: "Bitmap \<Rightarrow> (usize \<Rightarrow> u8 list option) \<Rightarrow> nat \<Rightarrow> u64" where
  "bitmap_word bm V n = bitmap_words bm V (n div 4096) ! (n mod 4096 div 64)"

definition bitmap_set :: "Bitmap \<Rightarrow> nat \<Rightarrow> (usize \<Rightarrow> u8 list option) \<Rightarrow> usize \<Rightarrow> u8 list option" where
  "bitmap_set bm n V = bitmap_put bm n (bitmap_word bm V n OR push_bit (n mod 64) 1) V"

definition bitmap_unset :: "Bitmap \<Rightarrow> nat \<Rightarrow> (usize \<Rightarrow> u8 list option) \<Rightarrow> usize \<Rightarrow> u8 list option" where
  "bitmap_unset bm n V = bitmap_put bm n (bitmap_word bm V n - push_bit (n mod 64) 1) V"

definition bitmap_bits :: "Bitmap \<Rightarrow> nat" where
  "bitmap_bits bm = unat (bitmap_blocks bm) * 4096"

definition bitmap_ok :: "Bitmap \<Rightarrow> usize list \<Rightarrow> (usize \<Rightarrow> u8 list option) \<Rightarrow> bool" where
  "bitmap_ok bm Ls V \<longleftrightarrow> bitmap_bits bm < 2 ^ 64 \<and> length Ls < BLOCK_CACHE_SIZE
     \<and> (\<forall>i < unat (bitmap_blocks bm). (\<exists>bs. V (of_nat i + start_block_id bm) = Some bs \<and> length bs = 512)
         \<and> of_nat i + start_block_id bm \<notin> set Ls)"

lemma length_bitmap_words [simp]: "length (bitmap_words bm V i) = 64"
  by (simp add: bitmap_words_def BitmapBlock_def)

lemma bitmap_block_inj:
  assumes "bitmap_ok bm Ls V" and "i < unat (bitmap_blocks bm)" and "j < unat (bitmap_blocks bm)"
  shows "of_nat i + start_block_id bm = of_nat j + start_block_id bm \<longleftrightarrow> i = j"
proof -
  have "(of_nat i :: usize) = of_nat j \<longleftrightarrow> i = j"
    using unat_of_nat_below [OF assms(2)] unat_of_nat_below [OF assms(3)] by metis
  then show ?thesis by simp
qed

lemma bitmap_div: "n < bitmap_bits bm \<Longrightarrow> n div 4096 < unat (bitmap_blocks bm)"
  by (simp add: bitmap_bits_def less_mult_imp_div_less)

lemma bitmap_words_put:
  assumes "bitmap_ok bm Ls V" and "n < bitmap_bits bm" and "i < unat (bitmap_blocks bm)"
  shows "bitmap_words bm (bitmap_put bm n w V) i
    = (if i = n div 4096 then (bitmap_words bm V i)[n mod 4096 div 64 := w] else bitmap_words bm V i)"
proof -
  have "from_mem BitmapBlock (to_mem BitmapBlock ((bitmap_words bm V (n div 4096))[n mod 4096 div 64 := w]))
      = (bitmap_words bm V (n div 4096))[n mod 4096 div 64 := w]"
    by (rule bitmap_block_codec(1)) simp
  moreover have "bitmap_put bm n w V (of_nat i + start_block_id bm) = (if i = n div 4096
      then Some (to_mem BitmapBlock ((bitmap_words bm V (n div 4096))[n mod 4096 div 64 := w]))
      else V (of_nat i + start_block_id bm))"
    using bitmap_block_inj [OF assms(1,3) bitmap_div [OF assms(2)]] by (simp add: bitmap_put_def)
  ultimately show ?thesis by (simp add: bitmap_words_def [of bm "bitmap_put bm n w V"] bitmap_words_def [of bm V i])
qed

lemma word_pos_less: "n mod 4096 div 64 < (64 :: nat)"
  by (simp add: less_mult_imp_div_less)

lemma same_pos: "m div k = n div k \<and> m mod k = n mod k \<longleftrightarrow> m = n" for k m n :: nat
  by (metis div_mult_mod_eq)

lemma same_word:
  "m div 4096 = n div 4096 \<and> m mod 4096 div 64 = n mod 4096 div 64 \<longleftrightarrow> m div 64 = n div 64" for m n :: nat
proof -
  have "x mod 4096 div 64 = x div 64 mod 64" "x div 4096 = x div 64 div 64" for x :: nat
    using mod_mult2_eq [of x 64 64] div_mult2_eq [of x 64 64] by simp_all
  then show ?thesis by (simp add: same_pos)
qed

lemma bitmap_used_put:
  assumes "bitmap_ok bm Ls V" and "n < bitmap_bits bm" and "m < bitmap_bits bm"
  shows "bitmap_used bm (bitmap_put bm n w V) m
    = (if m div 64 = n div 64 then bit w (m mod 64) else bitmap_used bm V m)"
  using bitmap_words_put [OF assms(1,2) bitmap_div [OF assms(3)]] word_pos_less [of n] word_pos_less [of m]
  unfolding same_word [of m n, symmetric] bitmap_used_def by (simp add: nth_list_update)

lemma bitmap_used_set:
  assumes "bitmap_ok bm Ls V" and "n < bitmap_bits bm" and "m < bitmap_bits bm"
  shows "bitmap_used bm (bitmap_set bm n V) m \<longleftrightarrow> m = n \<or> bitmap_used bm V m"
proof -
  have "m div 64 = n div 64 \<Longrightarrow> m mod 64 = n mod 64 \<longleftrightarrow> m = n" using same_pos [of m 64 n] by blast
  moreover have "m div 64 = n div 64 \<Longrightarrow> bitmap_word bm V m = bitmap_word bm V n"
    using same_word [of m n] by (auto simp: bitmap_word_def)
  moreover have "bitmap_used bm V m = bit (bitmap_word bm V m) (m mod 64)" for m
    by (simp add: bitmap_used_def bitmap_word_def)
  ultimately show ?thesis unfolding bitmap_set_def bitmap_used_put [OF assms]
    by (auto simp: bit_or_iff bit_exp_iff)
qed

lemma word_sub_bit:
  fixes w :: "'a::len word"
  assumes "bit w i"
  shows "w - 2 ^ i = w AND NOT (2 ^ i)"
proof -
  have "w = (w AND NOT (2 ^ i)) OR 2 ^ i"
    by (rule bit_word_eqI) (use assms in \<open>auto simp: bit_simps bit_exp_iff\<close>)
  also have "\<dots> = (w AND NOT (2 ^ i)) + 2 ^ i"
    by (rule disjunctive_add [symmetric]) (auto simp: bit_simps bit_exp_iff)
  finally show ?thesis by (metis add_diff_cancel_right')
qed

lemma bitmap_used_unset:
  assumes "bitmap_ok bm Ls V" and "n < bitmap_bits bm" and "m < bitmap_bits bm" and "bitmap_used bm V n"
  shows "bitmap_used bm (bitmap_unset bm n V) m \<longleftrightarrow> m \<noteq> n \<and> bitmap_used bm V m"
proof -
  have "m div 64 = n div 64 \<Longrightarrow> m mod 64 = n mod 64 \<longleftrightarrow> m = n" using same_pos [of m 64 n] by blast
  moreover have "m div 64 = n div 64 \<Longrightarrow> bitmap_word bm V m = bitmap_word bm V n"
    using same_word [of m n] by (auto simp: bitmap_word_def)
  moreover have "bitmap_used bm V m = bit (bitmap_word bm V m) (m mod 64)" for m
    by (simp add: bitmap_used_def bitmap_word_def)
  moreover have "bit (bitmap_word bm V n) (n mod 64)" using assms(4) by (simp add: bitmap_used_def bitmap_word_def)
  ultimately show ?thesis unfolding bitmap_unset_def bitmap_used_put [OF assms(1-3)]
    by (auto simp: word_sub_bit bit_and_iff bit_not_iff bit_exp_iff)
qed

lemma bitmap_put_other: "b \<noteq> of_nat (n div 4096) + start_block_id bm \<Longrightarrow> bitmap_put bm n w V b = V b"
  by (simp add: bitmap_put_def)

lemma bitmap_ok_put:
  "bitmap_ok bm Ls V \<Longrightarrow> bitmap_ok bm Ls (bitmap_put bm n w V)"
  by (auto simp: bitmap_ok_def bitmap_put_def BitmapBlock_def)

section \<open>The first clear bit of a block\<close>

lemma trailing_ones_spec:
  assumes "w \<noteq> - 1"
  shows "trailing_ones w < 64" and "\<not> bit w (trailing_ones w)" and "i < trailing_ones w \<Longrightarrow> bit w i"
proof -
  have "\<exists>j < 64. \<not> bit w j"
  proof (rule ccontr)
    assume "\<not> (\<exists>j < 64. \<not> bit w j)"
    then have "w = - 1" by (intro bit_word_eqI) simp
    with assms show False by simp
  qed
  then have e: "takeWhile (bit w) [0..<64] \<noteq> [0..<64]" by (auto simp: takeWhile_eq_all_conv)
  have "length (takeWhile (bit w) [0..<64]) \<le> length [0..<64]" by (rule length_takeWhile_le)
  moreover have "length (takeWhile (bit w) [0..<64]) \<noteq> length [0..<64]"
    using e by (metis takeWhile_eq_take take_all order_refl)
  ultimately have l: "length (takeWhile (bit w) [0..<64]) < length [0..<64]" by simp
  then show t: "trailing_ones w < 64" by (simp add: trailing_ones_def)
  show "\<not> bit w (trailing_ones w)"
    using nth_length_takeWhile [OF l] t by (simp add: trailing_ones_def)
  show "bit w i" if "i < trailing_ones w"
    using that t takeWhile_nth [of i "bit w" "[0..<64]"] set_takeWhileD [OF nth_mem, of i "bit w" "[0..<64]"]
    by (simp add: trailing_ones_def)
qed

text \<open>A number splits into the word that holds its bit and the position in the word.\<close>

lemma pos_split: "j < 64 \<Longrightarrow> t < 64 \<Longrightarrow> n = i * 4096 + j * 64 + t \<Longrightarrow>
    n div 4096 = i \<and> n mod 4096 div 64 = j \<and> n mod 64 = t" for i j t n :: nat
proof -
  assume a: "j < 64" "t < 64" "n = i * 4096 + j * 64 + t"
  then have n: "n = t + (i * 64 + j) * 64" by simp
  have "n mod 64 = t" using a(2) by (simp only: n mod_mult_self1 mod_less)
  moreover have "n div 64 = i * 64 + j" using a(2) unfolding n by (subst div_mult_self1) simp_all
  moreover from this a(1) have "n div 64 div 64 = i" "n div 64 mod 64 = j" by simp_all
  moreover have "n mod 4096 div 64 = n div 64 mod 64" "n div 4096 = n div 64 div 64"
    using mod_mult2_eq [of n 64 64] div_mult2_eq [of n 64 64] by simp_all
  ultimately show ?thesis by simp
qed

lemma pos_join: "n = n div 4096 * 4096 + n mod 4096 div 64 * 64 + n mod 64" for n :: nat
proof -
  have "n mod 4096 = 64 * (n div 64 mod 64) + n mod 64" using mod_mult2_eq [of n 64 64] by simp
  moreover from this have "n mod 4096 div 64 = n div 64 mod 64" by simp
  ultimately show ?thesis using div_mult_mod_eq [of n 4096] by linarith
qed

text \<open>What the closure of \<open>alloc\<close> does with block \<open>i\<close>.\<close>

lemma block_alloc_full:
  assumes "\<And>n. n div 4096 = i \<Longrightarrow> bitmap_used bm V n"
  shows "bitmap_block_alloc b (bitmap_words bm V i) s = Some ((None, bitmap_words bm V i), s)"
proof -
  have "bitmap_words bm V i ! j = - 1" if "j < 64" for j
  proof (rule bit_word_eqI)
    fix t assume "t < LENGTH(64)"
    then show "bit (bitmap_words bm V i ! j) t = bit (- 1 :: u64) t"
      using assms [of "i * 4096 + j * 64 + t"] pos_split [of j t "i * 4096 + j * 64 + t" i] that
      by (simp add: bitmap_used_def)
  qed
  then have "find_index (\<lambda>w. w \<noteq> - 1) (bitmap_words bm V i) = None"
    by (auto simp: find_index_None in_set_conv_nth)
  then show ?thesis by (simp add: bitmap_block_alloc_def)
qed

lemma block_alloc_free:
  assumes m: "m div 4096 = i" "\<not> bitmap_used bm V m" and below: "\<And>n. n < m \<Longrightarrow> n div 4096 = i \<Longrightarrow> bitmap_used bm V n"
    and b: "b = of_nat i"
  shows "bitmap_block_alloc b (bitmap_words bm V i) s = Some ((Some (of_nat m),
    (bitmap_words bm V i)[m mod 4096 div 64 := bitmap_word bm V m OR push_bit (m mod 64) 1]), s)"
proof -
  let ?ws = "bitmap_words bm V i" and ?j = "m mod 4096 div 64"
  have j: "?j < 64" by (rule word_pos_less)
  have w: "?ws ! ?j = bitmap_word bm V m" using m(1) by (simp add: bitmap_word_def)
  have nb: "\<not> bit (bitmap_word bm V m) (m mod 64)" using m by (simp add: bitmap_used_def bitmap_word_def)
  then have ne: "bitmap_word bm V m \<noteq> - 1" by auto
  have lt: "i * 4096 + k * 64 + t < m" if "k < 64" "t < 64" "k < ?j \<or> k = ?j \<and> t < m mod 64" for k t
    using pos_join [of m] m(1) that by auto
  have full: "?ws ! k = - 1" if "k < ?j" for k
  proof (rule bit_word_eqI)
    fix t assume "t < LENGTH(64)"
    then show "bit (?ws ! k) t = bit (- 1 :: u64) t"
      using below [of "i * 4096 + k * 64 + t"] lt [of k t] pos_split [of k t "i * 4096 + k * 64 + t" i] that j
      by (simp add: bitmap_used_def)
  qed
  then have f: "find_index (\<lambda>w. w \<noteq> - 1) ?ws = Some ?j" using j ne w by (simp add: find_index_Some)
  have t: "trailing_ones (bitmap_word bm V m) = m mod 64"
  proof (rule linorder_cases [of "trailing_ones (bitmap_word bm V m)" "m mod 64"])
    assume a: "trailing_ones (bitmap_word bm V m) < m mod 64"
    let ?t = "trailing_ones (bitmap_word bm V m)"
    have "bitmap_used bm V (i * 4096 + ?j * 64 + ?t)"
      using below [of "i * 4096 + ?j * 64 + ?t"] lt [of ?j ?t] a j trailing_ones_spec(1) [OF ne]
        pos_split [of ?j ?t "i * 4096 + ?j * 64 + ?t" i] by simp
    then show ?thesis
      using trailing_ones_spec(2) [OF ne] pos_split [of ?j ?t "i * 4096 + ?j * 64 + ?t" i] j trailing_ones_spec(1) [OF ne] w
      by (simp add: bitmap_used_def)
  next
    assume "m mod 64 < trailing_ones (bitmap_word bm V m)"
    then show ?thesis using trailing_ones_spec(3) [OF ne] nb by blast
  qed simp
  have "b * BLOCK_BITS + of_nat ?j * 64 + of_nat (m mod 64) = of_nat (i * 4096 + ?j * 64 + m mod 64)"
    by (simp add: b BLOCK_BITS_def BLOCK_SZ_def)
  also have "i * 4096 + ?j * 64 + m mod 64 = m" using pos_join [of m] m(1) by simp
  finally show ?thesis using f t w by (simp add: bitmap_block_alloc_def Let_def)
qed

section \<open>Allocation and deallocation\<close>

lemma put_at_all: "length ys = length xs \<Longrightarrow> put_at 0 ys xs = ys"
  by (simp add: put_at_def)

lemma length_bitmap_mem: "length ws = 64 \<Longrightarrow> length (to_mem BitmapBlock ws) = 512"
  by (simp add: BitmapBlock_def)

lemma alloc_loop_fun:
  "bitmap_alloc_loop bm dev [] = (\<lambda>s. Some (None, s))"
  "bitmap_alloc_loop bm dev (b # ids) = (\<lambda>s. Option.bind
     (cache_modify BitmapBlock (b + start_block_id bm) dev 0 (bitmap_block_alloc b) s)
     (\<lambda>(pos, s). if pos \<noteq> None then Some (pos, s) else bitmap_alloc_loop bm dev ids s))"
  by (simp_all add: fun_eq_iff)

lemma bit_used_mask: "bitmap_used bm V n \<Longrightarrow> bitmap_word bm V n AND push_bit (n mod 64) 1 > 0"
  by (simp add: bitmap_used_def bitmap_word_def word_gt_0 and_exp_eq_0_iff_not_bit)

lemma decomposition_of_nat:
  assumes "bitmap_ok bm Ls V" and "n < bitmap_bits bm"
  shows "decomposition (of_nat n) = (of_nat (n div 4096), of_nat (n mod 4096 div 64), of_nat (n mod 64))"
proof -
  have n: "unat (of_nat n :: usize) = n" using assms by (simp add: bitmap_ok_def unat_of_nat_less)
  have "unat (of_nat n div 4096 :: usize) = n div 4096" "unat (of_nat n mod 4096 :: usize) = n mod 4096"
    using n by (simp_all add: word_div_unat word_mod_unat)
  moreover from this have "unat (of_nat n mod 4096 div 64 :: usize) = n mod 4096 div 64"
    "unat (of_nat n mod 4096 mod 64 :: usize) = n mod 64"
    by (simp_all add: word_div_unat word_mod_unat mod_mod_cancel)
  moreover have "unat (of_nat (n div 4096) :: usize) = n div 4096"
    "unat (of_nat (n mod 4096 div 64) :: usize) = n mod 4096 div 64" "unat (of_nat (n mod 64) :: usize) = n mod 64"
    using assms word_pos_less [of n] by (simp_all add: bitmap_ok_def unat_of_nat_less less_imp_diff_less
        order_le_less_trans [OF div_le_dividend])
  ultimately show ?thesis
    by (simp add: decomposition_def Let_def BLOCK_BITS_def BLOCK_SZ_def word_unat_eq_iff)
qed

text \<open>The closure of \<open>dealloc\<close>, with the position of the bit as numbers.\<close>

definition block_dealloc :: "nat \<Rightarrow> u64 list \<Rightarrow> 'd io \<Rightarrow> ((unit \<times> u64 list) \<times> 'd io) option" where
  "block_dealloc n ws s = do {
     w \<leftarrow> index_of ws (n mod 4096 div 64);
     rassert (w AND push_bit (n mod 64) 1 > 0);
     Some (((), ws[n mod 4096 div 64 := w - push_bit (n mod 64) 1]), s) }"

lemma bitmap_dealloc_eq:
  assumes "bitmap_ok bm Ls V" and "n < bitmap_bits bm"
  shows "bitmap_dealloc bm dev (of_nat n) s = Option.bind
    (cache_modify BitmapBlock (of_nat (n div 4096) + start_block_id bm) dev 0 (block_dealloc n) s) (\<lambda>(u, s). Some s)"
proof -
  have "unat (of_nat (n mod 4096 div 64) :: usize) = n mod 4096 div 64" "unat (of_nat (n mod 64) :: usize) = n mod 64"
    using word_pos_less [of n] by (simp_all add: unat_of_nat_less)
  then show ?thesis
    unfolding bitmap_dealloc_def decomposition_of_nat [OF assms] Let_def prod.case block_dealloc_def [abs_def] by simp
qed

context block_store
begin

lemma does_bitmap_block:
  assumes ok: "bitmap_ok bm Ls V" and i: "i < unat (bitmap_blocks bm)"
    and f: "\<And>s. f (bitmap_words bm V i) s = Some ((r, ws), s)" and ws: "length ws = 64"
  shows "does content dev (cache_modify BitmapBlock (of_nat i + start_block_id bm) dev 0 f) Ls V r
    (V(of_nat i + start_block_id bm \<mapsto> to_mem BitmapBlock ws))"
proof -
  obtain bs where bs: "V (of_nat i + start_block_id bm) = Some bs" "length bs = 512"
    and n: "of_nat i + start_block_id bm \<notin> set Ls" and l: "length Ls < BLOCK_CACHE_SIZE"
    using ok i by (auto simp: bitmap_ok_def)
  have m: "from_mem BitmapBlock (take (unat (size_of BitmapBlock)) (drop (unat (0 :: usize)) bs)) = bitmap_words bm V i"
    using bs by (simp add: bitmap_words_def BitmapBlock_def)
  have "does content dev (cache_modify BitmapBlock (of_nat i + start_block_id bm) dev 0 f) Ls V r
      (V(of_nat i + start_block_id bm \<mapsto> put_at (unat (0 :: usize)) (to_mem BitmapBlock ws) bs))"
  proof (rule does_modify [where bs = bs and V' = V and v = ws])
    show "does content dev (f (from_mem BitmapBlock (take (unat (size_of BitmapBlock)) (drop (unat (0 :: usize)) bs))))
        ((of_nat i + start_block_id bm) # Ls) V (r, ws) V"
      unfolding m does_def by (simp add: f)
  qed (use bs n l ws in \<open>simp_all add: length_bitmap_mem BitmapBlock_def BLOCK_SZ_def\<close>)
  then show ?thesis using ws bs(2) by (simp add: put_at_all length_bitmap_mem)
qed

lemma does_block_full:
  assumes ok: "bitmap_ok bm Ls V" and i: "i < unat (bitmap_blocks bm)"
    and "\<And>n. n div 4096 = i \<Longrightarrow> bitmap_used bm V n"
  shows "does content dev (cache_modify BitmapBlock (of_nat i + start_block_id bm) dev 0 (bitmap_block_alloc (of_nat i))) Ls V None V"
proof -
  obtain bs where bs: "V (of_nat i + start_block_id bm) = Some bs" "length bs = 512"
    using ok i by (auto simp: bitmap_ok_def)
  then have "V(of_nat i + start_block_id bm \<mapsto> to_mem BitmapBlock (bitmap_words bm V i)) = V"
    by (simp add: bitmap_words_def bitmap_block_codec(2) fun_upd_idem)
  moreover have "bitmap_block_alloc (of_nat i) (bitmap_words bm V i) s = Some ((None, bitmap_words bm V i), s)"
    for s :: "'d io" by (rule block_alloc_full [OF assms(3)])
  ultimately show ?thesis
    using does_bitmap_block [OF ok i, of "bitmap_block_alloc (of_nat i)" None "bitmap_words bm V i"] by simp
qed

lemma does_alloc_loop:
  assumes ok: "bitmap_ok bm Ls V" and k: "k \<le> unat (bitmap_blocks bm)"
    and below: "\<And>n. n < k * 4096 \<Longrightarrow> bitmap_used bm V n"
  shows "if \<exists>n < bitmap_bits bm. \<not> bitmap_used bm V n
    then does content dev (bitmap_alloc_loop bm dev (map of_nat [k..<unat (bitmap_blocks bm)])) Ls V
      (Some (of_nat (LEAST n. \<not> bitmap_used bm V n))) (bitmap_set bm (LEAST n. \<not> bitmap_used bm V n) V)
    else does content dev (bitmap_alloc_loop bm dev (map of_nat [k..<unat (bitmap_blocks bm)])) Ls V None V"
  using k below
proof (induction "unat (bitmap_blocks bm) - k" arbitrary: k)
  case 0
  then have "\<not> (\<exists>n < bitmap_bits bm. \<not> bitmap_used bm V n)" by (auto simp: bitmap_bits_def)
  then show ?case using 0 by (auto simp: alloc_loop_fun does_return)
next
  case (Suc d)
  let ?m = "LEAST n. \<not> bitmap_used bm V n" and ?n = "unat (bitmap_blocks bm)"
  have k: "k < ?n" and u: "[k..<?n] = k # [Suc k..<?n]" using Suc.hyps(2) by (auto simp: upt_conv_Cons)
  show ?case
  proof (cases "\<forall>n. n div 4096 = k \<longrightarrow> bitmap_used bm V n")
    case True
    have below: "bitmap_used bm V n" if "n < Suc k * 4096" for n
      using Suc.prems(2) [of n] True that by (cases "n < k * 4096") (auto simp: not_less div_nat_eqI)
    have IH: "if \<exists>n < bitmap_bits bm. \<not> bitmap_used bm V n
      then does content dev (bitmap_alloc_loop bm dev (map of_nat [Suc k..<?n])) Ls V (Some (of_nat ?m)) (bitmap_set bm ?m V)
      else does content dev (bitmap_alloc_loop bm dev (map of_nat [Suc k..<?n])) Ls V None V"
      by (rule Suc.hyps(1)) (use Suc.hyps(2) k below in simp_all)
    have "does content dev (bitmap_alloc_loop bm dev (map of_nat [k..<?n])) Ls V r V'"
      if "does content dev (bitmap_alloc_loop bm dev (map of_nat [Suc k..<?n])) Ls V r V'" for r V'
      using does_bind [OF does_block_full [OF ok k], of "\<lambda>pos s. if pos \<noteq> None then Some (pos, s)
          else bitmap_alloc_loop bm dev (map of_nat [Suc k..<?n]) s" r V'] that True
      by (simp add: u alloc_loop_fun)
    then show ?thesis using IH by (auto split: if_splits)
  next
    case False
    then obtain n where n: "n div 4096 = k" "\<not> bitmap_used bm V n" by blast
    have nm: "\<not> bitmap_used bm V ?m" using n(2) by (rule LeastI)
    have le: "?m \<le> n" using n(2) by (rule Least_le)
    have "k * 4096 \<le> ?m" using nm Suc.prems(2) [of ?m] not_less by blast
    then have mk: "?m div 4096 = k" using n(1) le div_le_mono [OF le, of 4096] div_le_mono [of "k * 4096" ?m 4096] by simp
    have m: "?m < bitmap_bits bm" using k mk by (auto simp: bitmap_bits_def dividend_less_times_div less_mult_imp_div_less
          div_less_iff_less_mult [symmetric])
    have e: "bitmap_block_alloc (of_nat k) (bitmap_words bm V k) s = Some ((Some (of_nat ?m),
        (bitmap_words bm V k)[?m mod 4096 div 64 := bitmap_word bm V ?m OR push_bit (?m mod 64) 1]), s)" for s :: "'d io"
      by (rule block_alloc_free [OF mk nm _ refl]) (metis not_less_Least)
    have "does content dev (cache_modify BitmapBlock (of_nat k + start_block_id bm) dev 0 (bitmap_block_alloc (of_nat k)))
        Ls V (Some (of_nat ?m)) (bitmap_set bm ?m V)"
      using does_bitmap_block [where f = "bitmap_block_alloc (of_nat k)", OF ok k e] by (simp add: bitmap_set_def bitmap_put_def mk)
    from does_bind [OF this, of "\<lambda>pos s. if pos \<noteq> None then Some (pos, s)
          else bitmap_alloc_loop bm dev (map of_nat [Suc k..<?n]) s" "Some (of_nat ?m)"] m nm
    show ?thesis by (auto simp: u alloc_loop_fun does_return)
  qed
qed

lemma does_bitmap_alloc:
  assumes "bitmap_ok bm Ls V"
  shows "if \<exists>n < bitmap_bits bm. \<not> bitmap_used bm V n
    then does content dev (bitmap_alloc bm dev) Ls V
      (Some (of_nat (LEAST n. \<not> bitmap_used bm V n))) (bitmap_set bm (LEAST n. \<not> bitmap_used bm V n) V)
    else does content dev (bitmap_alloc bm dev) Ls V None V"
  using does_alloc_loop [OF assms, of 0] by (simp add: bitmap_alloc_def [abs_def])

lemma does_bitmap_dealloc:
  assumes ok: "bitmap_ok bm Ls V" and n: "n < bitmap_bits bm" and u: "bitmap_used bm V n"
  shows "does content dev (\<lambda>s. map_option (Pair ()) (bitmap_dealloc bm dev (of_nat n) s)) Ls V () (bitmap_unset bm n V)"
proof -
  have f: "block_dealloc n (bitmap_words bm V (n div 4096)) s = Some (((), (bitmap_words bm V (n div 4096))
      [n mod 4096 div 64 := bitmap_word bm V n - push_bit (n mod 64) 1]), s)" for s :: "'d io"
    using word_pos_less [of n] bit_used_mask [OF u] unfolding block_dealloc_def bitmap_word_def index_of_def
    by (simp only: length_bitmap_words if_True bind.bind_lunit bind_rassert)
  show ?thesis
    using does_unit [OF does_bitmap_block [where f = "block_dealloc n", OF ok bitmap_div [OF n] f]]
    by (simp add: bitmap_unset_def bitmap_put_def bitmap_dealloc_eq [OF ok n])
qed

lemma bitmap_dealloc_unused:
  assumes c: "cache_ok content dev s" and ok: "bitmap_ok bm (locked s) (view content dev s)"
    and n: "n < bitmap_bits bm" and u: "\<not> bitmap_used bm (view content dev s) n"
  shows "bitmap_dealloc bm dev (of_nat n) s = None"
proof -
  let ?b = "of_nat (n div 4096) + start_block_id bm"
  obtain bs where bs: "view content dev s ?b = Some bs" "length bs = 512" "?b \<notin> set (locked s)" "length (locked s) < BLOCK_CACHE_SIZE"
    using ok bitmap_div [OF n] by (auto simp: bitmap_ok_def)
  have "take (unat (size_of BitmapBlock)) (drop (unat (0 :: usize)) bs) = bs" using bs(2) by (simp add: BitmapBlock_def)
  moreover have "from_mem BitmapBlock bs = bitmap_words bm (view content dev s) (n div 4096)"
    using bs(1) by (simp add: bitmap_words_def)
  moreover have "\<not> bitmap_words bm (view content dev s) (n div 4096) ! (n mod 4096 div 64) AND push_bit (n mod 64) 1 > 0"
    using u by (simp add: bitmap_used_def word_gt_0 and_exp_eq_0_iff_not_bit)
  ultimately show ?thesis
    unfolding bitmap_dealloc_eq [OF ok n]
    by (subst modify_fails [OF c bs(1,4,3)]) (simp_all add: block_dealloc_def index_of_def)
qed

end

end
