(* ===== verification/FsInode.thy ===== *)
theory FsInode
  imports FsWords FsView
begin

text \<open>
  A disk inode as a sequence of blocks. \<open>block_no\<close> is the number of the \<open>i\<close>-th data block, read through the
  indirect blocks; the data of a file is the concatenation of its data blocks. \<open>read_at\<close> and \<open>write_at\<close>
  are reading and replacing a segment of that data.
\<close>

section \<open>Words as numbers\<close>

lemma of_nat_sub: "b \<le> a \<Longrightarrow> (of_nat a :: 'a::len word) - of_nat b = of_nat (a - b)"
  by (simp add: of_nat_diff)

lemma of_nat_less_iff_word: "a < 2 ^ LENGTH('a) \<Longrightarrow> b < 2 ^ LENGTH('a) \<Longrightarrow> (of_nat a :: 'a::len word) < of_nat b \<longleftrightarrow> a < b"
  by (simp add: word_less_nat_alt unat_of_nat_less)

lemma of_nat_le_iff_word: "a < 2 ^ LENGTH('a) \<Longrightarrow> b < 2 ^ LENGTH('a) \<Longrightarrow> (of_nat a :: 'a::len word) \<le> of_nat b \<longleftrightarrow> a \<le> b"
  by (simp add: word_le_nat_alt unat_of_nat_less)

lemma of_nat_eq_iff_word: "a < 2 ^ LENGTH('a) \<Longrightarrow> b < 2 ^ LENGTH('a) \<Longrightarrow> (of_nat a :: 'a::len word) = of_nat b \<longleftrightarrow> a = b"
  by (metis unat_of_nat_less)

lemma of_nat_div_word: "a < 2 ^ LENGTH('a) \<Longrightarrow> b < 2 ^ LENGTH('a) \<Longrightarrow> (of_nat a :: 'a::len word) div of_nat b = of_nat (a div b)"
  by (simp add: word_unat_eq_iff unat_div unat_of_nat_less order_le_less_trans [OF div_le_dividend])

lemma of_nat_mod_word: "a < 2 ^ LENGTH('a) \<Longrightarrow> b < 2 ^ LENGTH('a) \<Longrightarrow> (of_nat a :: 'a::len word) mod of_nat b = of_nat (a mod b)"
  by (simp add: word_unat_eq_iff unat_mod unat_of_nat_less order_le_less_trans [OF mod_less_eq_dividend])

lemma ucast_of_nat_small: "n < 2 ^ LENGTH('a) \<Longrightarrow> n < 2 ^ LENGTH('b) \<Longrightarrow> ucast (of_nat n :: 'a::len word) = (of_nat n :: 'b::len word)"
  by (simp add: word_unat_eq_iff unsigned_ucast_eq unat_of_nat_less take_bit_nat_eq_self)

lemma min_of_nat_word: "a < 2 ^ LENGTH('a) \<Longrightarrow> b < 2 ^ LENGTH('a) \<Longrightarrow> min (of_nat a :: 'a::len word) (of_nat b) = of_nat (min a b)"
  by (auto simp: min_def of_nat_le_iff_word)

lemma slice_of_nat:
  "lo \<le> hi \<Longrightarrow> hi \<le> length xs \<Longrightarrow> hi < 2 ^ 64 \<Longrightarrow> slice xs (of_nat lo) (of_nat hi) = Some (take (hi - lo) (drop lo xs))"
  by (simp add: slice_def of_nat_le_iff_word unat_of_nat_less)

section \<open>The blocks of an inode\<close>

definition ind :: "(usize \<Rightarrow> u8 list option) \<Rightarrow> u32 \<Rightarrow> nat \<Rightarrow> u32" where
  "ind V b i = from_mem IndirectBlock (the (V (ucast b))) ! i"

definition block_no :: "DiskInode \<Rightarrow> (usize \<Rightarrow> u8 list option) \<Rightarrow> nat \<Rightarrow> u32" where
  "block_no d V i = (if i < 28 then direct d ! i else if i < 156 then ind V (indirect1 d) (i - 28)
     else ind V (ind V (indirect2 d) ((i - 156) div 128)) ((i - 156) mod 128))"

text \<open>The indirect blocks that the first \<open>n\<close> data blocks need.\<close>

definition meta_blocks :: "DiskInode \<Rightarrow> (usize \<Rightarrow> u8 list option) \<Rightarrow> nat \<Rightarrow> u32 set" where
  "meta_blocks d V n = (if n > 28 then {indirect1 d} else {})
     \<union> (if n > 156 then insert (indirect2 d) ((\<lambda>i. ind V (indirect2 d) ((i - 156) div 128)) ` {156..<n}) else {})"

definition n_blocks :: "DiskInode \<Rightarrow> nat" where
  "n_blocks d = (unat (di_size d) + 511) div 512"

text \<open>A block that can be read while the blocks \<open>Ls\<close> are locked.\<close>

definition block_here :: "usize list \<Rightarrow> (usize \<Rightarrow> u8 list option) \<Rightarrow> u32 \<Rightarrow> bool" where
  "block_here Ls V b \<longleftrightarrow> ucast b \<notin> set Ls \<and> (\<exists>bs. V (ucast b) = Some bs \<and> length bs = 512)"

definition inode_ok :: "DiskInode \<Rightarrow> usize list \<Rightarrow> (usize \<Rightarrow> u8 list option) \<Rightarrow> bool" where
  "inode_ok d Ls V \<longleftrightarrow> length (direct d) = 28 \<and> unat (di_size d) \<le> 16540 * 512 \<and> length Ls < BLOCK_CACHE_SIZE
     \<and> (\<forall>b \<in> meta_blocks d V (n_blocks d). block_here Ls V b)
     \<and> (\<forall>i < n_blocks d. block_here Ls V (block_no d V i) \<and> block_no d V i \<notin> meta_blocks d V (n_blocks d))
     \<and> inj_on (block_no d V) {..<n_blocks d}"

definition file_data :: "DiskInode \<Rightarrow> (usize \<Rightarrow> u8 list option) \<Rightarrow> u8 list" where
  "file_data d V = concat (map (\<lambda>i. the (V (ucast (block_no d V i)))) [0..<n_blocks d])"

lemma n_blocks_le: "inode_ok d Ls V \<Longrightarrow> n_blocks d \<le> 16540"
  by (auto simp: inode_ok_def n_blocks_def)

lemma concat_blocks:
  assumes "\<And>i. i < n \<Longrightarrow> length (f i) = 512"
  shows "length (concat (map f [0..<n])) = n * 512"
    and "i < n \<Longrightarrow> off + k \<le> 512 \<Longrightarrow> take k (drop (i * 512 + off) (concat (map f [0..<n]))) = take k (drop off (f i))"
proof -
  show l: "length (concat (map f [0..<n])) = n * 512"
    using assms by (induction n) simp_all
  show "take k (drop (i * 512 + off) (concat (map f [0..<n]))) = take k (drop off (f i))"
    if "i < n" "off + k \<le> 512"
  proof -
    have u: "[0..<n] = [0..<i] @ i # [Suc i..<n]" using that(1) upt_add_eq_append [of 0 i "n - i"] upt_conv_Cons [of i n] by simp
    have li: "length (concat (map f [0..<i])) = i * 512"
      using assms that(1) by (induction i) simp_all
    have "drop (i * 512 + off) (concat (map f [0..<n])) = drop off (f i @ concat (map f [Suc i..<n]))"
      using li by (simp add: u)
    then show ?thesis using assms [OF that(1)] that(2) by simp
  qed
qed

lemma file_data_length: "inode_ok d Ls V \<Longrightarrow> length (file_data d V) = n_blocks d * 512"
  unfolding file_data_def by (rule concat_blocks(1)) (auto simp: inode_ok_def block_here_def)

lemma file_data_block:
  assumes "inode_ok d Ls V" and "i < n_blocks d" and "off + k \<le> 512"
  shows "take k (drop (i * 512 + off) (file_data d V)) = take k (drop off (the (V (ucast (block_no d V i)))))"
  unfolding file_data_def by (rule concat_blocks(2)) (use assms in \<open>auto simp: inode_ok_def block_here_def\<close>)

section \<open>Finding a block\<close>

lemma length_indirect [simp]: "length (from_mem IndirectBlock bs) = 128"
  by (simp add: IndirectBlock_def)

lemma meta_here: "inode_ok d Ls V \<Longrightarrow> b \<in> meta_blocks d V (n_blocks d) \<Longrightarrow> block_here Ls V b"
  by (simp add: inode_ok_def)

lemma meta_members:
  "28 < n \<Longrightarrow> indirect1 d \<in> meta_blocks d V n" "156 < n \<Longrightarrow> indirect2 d \<in> meta_blocks d V n"
  "156 \<le> i \<Longrightarrow> i < n \<Longrightarrow> ind V (indirect2 d) ((i - 156) div 128) \<in> meta_blocks d V n"
  by (simp_all add: meta_blocks_def)

lemma get_block_id_eq:
  assumes "i < 16540"
  shows "get_block_id d (of_nat i) dev s = (if i < 28 then do { x \<leftarrow> index_of (direct d) i; Some (x, s) }
    else if i < 156 then read_indirect (indirect1 d) (of_nat (i - 28)) dev s
    else do { (ind1, s) \<leftarrow> read_indirect (indirect2 d) (of_nat ((i - 156) div 128)) dev s;
      read_indirect ind1 (of_nat ((i - 156) mod 128)) dev s })"
proof -
  have e: "ucast (of_nat i :: u32) = (of_nat i :: usize)" using assms by (simp add: ucast_of_nat_small)
  have u: "unat (of_nat i :: usize) = i" using assms by (simp add: unat_of_nat_less)
  have "of_nat i - 28 = (of_nat (i - 28) :: usize)" if "28 \<le> i" using of_nat_sub [OF that, where 'a=64] by simp
  moreover have "(of_nat i - 156 :: usize) div 128 = of_nat ((i - 156) div 128)"
    "(of_nat i - 156 :: usize) mod 128 = of_nat ((i - 156) mod 128)" if "156 \<le> i"
    using assms of_nat_sub [OF that, where 'a=64] of_nat_div_word [of "i - 156" 128, where 'a=64]
      of_nat_mod_word [of "i - 156" 128, where 'a=64] by simp_all
  ultimately show ?thesis by (simp add: get_block_id_def Let_def e fs_consts word_less_nat_alt u)
qed

context block_store
begin

lemma does_read_indirect:
  assumes "block_here Ls V b" and "i < 128" and "length Ls < BLOCK_CACHE_SIZE"
  shows "does content dev (read_indirect b (of_nat i) dev) Ls V (ind V b i) V"
proof -
  obtain bs where bs: "V (ucast b) = Some bs" "length bs = 512" "ucast b \<notin> set Ls"
    using assms(1) by (auto simp: block_here_def)
  have m: "take (unat (size_of IndirectBlock)) (drop (unat (0 :: usize)) bs) = bs" using bs(2) by (simp add: IndirectBlock_def)
  have "unat (of_nat i :: usize) = i" using assms(2) by (simp add: unat_of_nat_less)
  then have "does content dev (\<lambda>s. do { x \<leftarrow> index_of (from_mem IndirectBlock (take (unat (size_of IndirectBlock))
      (drop (unat (0 :: usize)) bs))) (unat (of_nat i :: usize)); Some (x, s) }) (ucast b # Ls) V (ind V b i) V"
    unfolding m using assms(2) bs(1) by (simp add: does_def index_of_def ind_def)
  then show ?thesis
    unfolding read_indirect_def using bs assms(3)
    by (intro does_read [where bs = bs]) (simp_all add: IndirectBlock_def BLOCK_SZ_def)
qed

lemma does_get_block_id:
  assumes ok: "inode_ok d Ls V" and i: "i < n_blocks d"
  shows "does content dev (get_block_id d (of_nat i) dev) Ls V (block_no d V i) V"
proof -
  have b: "i < 16540" using n_blocks_le [OF ok] i by simp
  have l: "length Ls < BLOCK_CACHE_SIZE" using ok by (simp add: inode_ok_def)
  consider "i < 28" | "28 \<le> i" "i < 156" | "156 \<le> i" by linarith
  then show ?thesis
  proof cases
    case 1
    then show ?thesis using ok by (simp add: does_def get_block_id_eq index_of_def block_no_def inode_ok_def)
  next
    case 2
    have "block_here Ls V (indirect1 d)" by (rule meta_here [OF ok meta_members(1)]) (use 2 i in simp)
    from does_read_indirect [OF this _ l, of "i - 28"] 2 show ?thesis
      by (simp add: get_block_id_eq [OF b, abs_def] block_no_def)
  next
    case 3
    have h: "block_here Ls V (indirect2 d)" by (rule meta_here [OF ok meta_members(2)]) (use 3 i in simp)
    have h': "block_here Ls V (ind V (indirect2 d) ((i - 156) div 128))" by (rule meta_here [OF ok meta_members(3) [OF 3 i]])
    have j: "(i - 156) div 128 < 128" using b by (simp add: less_mult_imp_div_less)
    have "does content dev (read_indirect (ind V (indirect2 d) ((i - 156) div 128)) (of_nat ((i - 156) mod 128)) dev) Ls V
        (block_no d V i) V"
      using does_read_indirect [OF h' _ l, of "(i - 156) mod 128"] 3 by (simp add: block_no_def)
    from does_bind [where q = "\<lambda>ind1 s. read_indirect ind1 (of_nat ((i - 156) mod 128)) dev s",
        OF does_read_indirect [OF h j l] this] 3
    show ?thesis by (simp add: get_block_id_eq [OF b, abs_def])
  qed
qed

end

section \<open>Changing a data block\<close>

lemma unat_ucast_u32: "unat (ucast (a :: u32) :: usize) = unat a"
proof -
  have "unat a < 2 ^ 64" using unat_less_exp [of a] by simp
  then show ?thesis by (simp add: unsigned_ucast_eq take_bit_nat_eq_self)
qed

lemma ucast_u32_eq [simp]: "(ucast (a :: u32) :: usize) = ucast b \<longleftrightarrow> a = b"
  by (metis unat_ucast_u32 word_unat_eq_iff)

lemma ind_upd: "c \<noteq> b \<Longrightarrow> ind (V(ucast c \<mapsto> bs)) b = ind V b"
  by (simp add: ind_def fun_eq_iff)

lemma blocks_upd:
  assumes "c \<notin> meta_blocks d V n"
  shows "meta_blocks d (V(ucast c \<mapsto> bs)) n = meta_blocks d V n"
    and "i < n \<Longrightarrow> block_no d (V(ucast c \<mapsto> bs)) i = block_no d V i"
proof -
  have i2: "ind (V(ucast c \<mapsto> bs)) (indirect2 d) = ind V (indirect2 d)" if "156 < n"
    using assms meta_members(2) [OF that] by (intro ind_upd) metis
  have i1: "ind (V(ucast c \<mapsto> bs)) (indirect1 d) = ind V (indirect1 d)" if "28 < n"
    using assms meta_members(1) [OF that] by (intro ind_upd) metis
  show "meta_blocks d (V(ucast c \<mapsto> bs)) n = meta_blocks d V n"
    using i2 by (simp add: meta_blocks_def)
  assume i: "i < n"
  have "ind (V(ucast c \<mapsto> bs)) (ind V (indirect2 d) ((i - 156) div 128)) = ind V (ind V (indirect2 d) ((i - 156) div 128))"
    if "156 \<le> i" using assms meta_members(3) [OF that i] by (intro ind_upd) metis
  then show "block_no d (V(ucast c \<mapsto> bs)) i = block_no d V i"
    using i i1 i2 by (simp add: block_no_def)
qed

lemma put_at_concat:
  assumes f: "\<And>i. i < n \<Longrightarrow> length (f i) = 512" and i: "i < n" and off: "off + length ys \<le> 512"
  shows "concat (map (f(i := put_at off ys (f i))) [0..<n]) = put_at (i * 512 + off) ys (concat (map f [0..<n]))"
proof -
  have u: "[0..<n] = [0..<i] @ i # [Suc i..<n]" using i upt_add_eq_append [of 0 i "n - i"] upt_conv_Cons [of i n] by simp
  have li: "length (concat (map f [0..<i])) = i * 512" by (rule concat_blocks(1)) (use f i in simp)
  have "map (f(i := g)) [0..<i] = map f [0..<i]" "map (f(i := g)) [Suc i..<n] = map f [Suc i..<n]" for g by simp_all
  then show ?thesis using li off f [OF i] by (simp add: u put_at_def)
qed

lemma inode_ok_write:
  assumes ok: "inode_ok d Ls V" and i: "i < n_blocks d" and off: "off + length ys \<le> 512"
  defines "V' \<equiv> V(ucast (block_no d V i) \<mapsto> put_at off ys (the (V (ucast (block_no d V i)))))"
  shows "inode_ok d Ls V'" and "file_data d V' = put_at (i * 512 + off) ys (file_data d V)"
    and "\<And>j. j < n_blocks d \<Longrightarrow> block_no d V' j = block_no d V j"
proof -
  let ?n = "n_blocks d"
  have nm: "block_no d V i \<notin> meta_blocks d V ?n" using ok i by (simp add: inode_ok_def)
  have m: "meta_blocks d V' ?n = meta_blocks d V ?n" unfolding V'_def by (rule blocks_upd(1) [OF nm])
  show b: "block_no d V' j = block_no d V j" if "j < ?n" for j unfolding V'_def by (rule blocks_upd(2) [OF nm that])
  have len: "length (the (V (ucast (block_no d V j)))) = 512" if "j < ?n" for j
    using ok that by (auto simp: inode_ok_def block_here_def)
  have here: "block_here Ls V' c" if "block_here Ls V c" for c
    using that len [OF i] off by (auto simp: V'_def block_here_def)
  have "inj_on (block_no d V') {..<?n}" using ok b by (simp add: inode_ok_def inj_on_def)
  then show "inode_ok d Ls V'" using ok here m b by (simp add: inode_ok_def)
  let ?f = "\<lambda>j. the (V (ucast (block_no d V j)))"
  have "the (V' (ucast (block_no d V j))) = (?f(i := put_at off ys (?f i))) j" if "j < ?n" for j
    using ok i that by (auto simp: V'_def inode_ok_def inj_on_def)
  then have "file_data d V' = concat (map (?f(i := put_at off ys (?f i))) [0..<?n])"
    unfolding file_data_def using b by (intro arg_cong [where f = concat] map_cong) auto
  then show "file_data d V' = put_at (i * 512 + off) ys (file_data d V)"
    using put_at_concat [OF len i off] by (simp add: file_data_def)
qed

section \<open>Reading and writing\<close>

lemma put_at_put_at:
  "r + length xs + length ys \<le> length buf \<Longrightarrow> put_at (r + length xs) ys (put_at r xs buf) = put_at r (xs @ ys) buf"
  by (simp add: put_at_def ac_simps)

lemma block_end_of_nat:
  assumes "a < 2 ^ 40" and "e < 2 ^ 64"
  shows "block_end (of_nat a) (of_nat e) = of_nat (min ((a div 512 + 1) * 512) e)"
proof -
  have "(of_nat a :: usize) div 512 = of_nat (a div 512)" using assms of_nat_div_word [of a 512, where 'a=64] by simp
  then have b: "((of_nat a :: usize) div 512 + 1) * 512 = of_nat ((a div 512 + 1) * 512)" by simp
  have "(a div 512 + 1) * 512 < 2 ^ 64" using assms(1) by simp
  then show ?thesis unfolding block_end_def BLOCK_SZ_def b using assms(2) by (intro min_of_nat_word) simp_all
qed

text \<open>One round of the loops covers the bytes from \<open>a\<close> to the end of their block.\<close>

lemma round_bounds:
  fixes a e :: nat
  assumes "a < e"
  defines "e1 \<equiv> min ((a div 512 + 1) * 512) e"
  shows "a < e1" "e1 \<le> e" "a mod 512 + (e1 - a) \<le> 512" "e1 \<noteq> e \<Longrightarrow> e1 div 512 = a div 512 + 1" "a = a div 512 * 512 + a mod 512"
proof -
  have a: "a = a div 512 * 512 + a mod 512" "a mod 512 < 512" by simp_all
  show "a = a div 512 * 512 + a mod 512" by (rule a(1))
  have "a < (a div 512 + 1) * 512" using dividend_less_div_times [of 512 a] by simp
  then show "a < e1" using assms(1) unfolding e1_def by simp
  show "e1 \<le> e" by (simp add: e1_def)
  have "e1 \<le> a div 512 * 512 + 512" by (simp add: e1_def min_def)
  then show "a mod 512 + (e1 - a) \<le> 512" using a by linarith
  show "e1 div 512 = a div 512 + 1" if "e1 \<noteq> e"
  proof -
    have "e1 = (a div 512 + 1) * 512" using that by (simp add: e1_def min_def split: if_splits)
    then show ?thesis by simp
  qed
qed

lemma round_words:
  fixes a e :: nat
  assumes "a < e" and "e \<le> 16540 * 512"
  defines "e1 \<equiv> min ((a div 512 + 1) * 512) e"
  shows "block_end (of_nat a) (of_nat e) = of_nat e1" "block_end (of_nat a) (of_nat e) - of_nat a = of_nat (e1 - a)"
    "ucast (of_nat (a div 512) :: usize) = (of_nat (a div 512) :: u32)"
    "of_nat e1 = (of_nat e :: usize) \<longleftrightarrow> e1 = e" "(of_nat a :: usize) mod BLOCK_SZ = of_nat (a mod 512)"
proof -
  note R = round_bounds [OF assms(1), folded e1_def]
  show eb: "block_end (of_nat a) (of_nat e) = of_nat e1"
    unfolding e1_def by (rule block_end_of_nat) (use assms in simp_all)
  show "block_end (of_nat a) (of_nat e) - of_nat a = of_nat (e1 - a)"
    unfolding eb by (rule of_nat_sub) (use R(1) in simp)
  show "ucast (of_nat (a div 512) :: usize) = (of_nat (a div 512) :: u32)"
    using assms by (intro ucast_of_nat_small) simp_all
  show "of_nat e1 = (of_nat e :: usize) \<longleftrightarrow> e1 = e"
    by (rule of_nat_eq_iff_word) (use assms R(2) in simp_all)
  show "(of_nat a :: usize) mod BLOCK_SZ = of_nat (a mod 512)"
    using assms of_nat_mod_word [of a 512, where 'a=64] by (simp add: BLOCK_SZ_def)
qed

lemma block_index_less: "a < e \<Longrightarrow> e \<le> unat (di_size d) \<Longrightarrow> a div 512 < n_blocks d"
  by (auto simp: n_blocks_def less_eq_div_iff_mult_less_eq Suc_le_eq [symmetric])

lemma file_data_covers: "inode_ok d Ls V \<Longrightarrow> unat (di_size d) \<le> length (file_data d V)"
  by (simp add: file_data_length n_blocks_def)

lemma segment_append:
  "a \<le> e1 \<Longrightarrow> e1 \<le> e \<Longrightarrow> take (e1 - a) (drop a xs) @ take (e - e1) (drop e1 xs) = take (e - a) (drop a xs)"
  using take_add [of "e1 - a" "e - e1" "drop a xs"] by simp

context block_store
begin

lemma does_read_data:
  assumes ok: "inode_ok d Ls V" and i: "i < n_blocks d" and k: "off + k \<le> 512"
  shows "does content dev (cache_read DataBlock (ucast (block_no d V i)) dev 0 (\<lambda>data_block s. do {
       src \<leftarrow> slice data_block (of_nat off) (of_nat off + of_nat k); Some (src, s) })) Ls V
     (take k (drop (i * 512 + off) (file_data d V))) V"
proof -
  have "block_here Ls V (block_no d V i)" using ok i by (simp add: inode_ok_def)
  then obtain bs where bs: "V (ucast (block_no d V i)) = Some bs" "length bs = 512" "ucast (block_no d V i) \<notin> set Ls"
    by (auto simp: block_here_def)
  have m: "from_mem DataBlock (take (unat (size_of DataBlock)) (drop (unat (0 :: usize)) bs)) = bs"
    using bs(2) by (simp add: DataBlock_def BLOCK_SZ_def)
  have "slice bs (of_nat off) (of_nat off + of_nat k) = Some (take k (drop (i * 512 + off) (file_data d V)))"
    using slice_of_nat [of off "off + k" bs] k bs file_data_block [OF ok i k] by simp
  then show ?thesis using bs ok m
    by (intro does_read [where bs = bs]) (simp_all add: inode_ok_def does_def DataBlock_def BLOCK_SZ_def)
qed

lemma does_write_data:
  assumes ok: "inode_ok d Ls V" and i: "i < n_blocks d" and k: "off + k \<le> 512" and w: "w + k \<le> length buf" "length buf < 2 ^ 64"
  shows "does content dev (cache_modify DataBlock (ucast (block_no d V i)) dev 0 (\<lambda>data_block s. do {
       src \<leftarrow> slice buf (of_nat w) (of_nat w + of_nat k);
       dst \<leftarrow> slice data_block (of_nat off) (of_nat off + of_nat k);
       rassert (length dst = length src);
       Some (((), put_at (unat (of_nat off :: usize)) src data_block), s) })) Ls V ()
     (V(ucast (block_no d V i) \<mapsto> put_at off (take k (drop w buf)) (the (V (ucast (block_no d V i))))))"
proof -
  have "block_here Ls V (block_no d V i)" using ok i by (simp add: inode_ok_def)
  then obtain bs where bs: "V (ucast (block_no d V i)) = Some bs" "length bs = 512" "ucast (block_no d V i) \<notin> set Ls"
    by (auto simp: block_here_def)
  let ?v = "put_at off (take k (drop w buf)) bs"
  have m: "from_mem DataBlock (take (unat (size_of DataBlock)) (drop (unat (0 :: usize)) bs)) = bs"
    using bs(2) by (simp add: DataBlock_def BLOCK_SZ_def)
  have l: "length ?v = 512" using k w bs(2) by simp
  have "slice buf (of_nat w) (of_nat w + of_nat k) = Some (take k (drop w buf))"
    using slice_of_nat [of w "w + k" buf] w by simp
  moreover have "slice bs (of_nat off) (of_nat off + of_nat k) = Some (take k (drop off bs))"
    using slice_of_nat [of off "off + k" bs] k bs by simp
  moreover have "unat (of_nat off :: usize) = off" using k by (simp add: unat_of_nat_less)
  ultimately have "does content dev (cache_modify DataBlock (ucast (block_no d V i)) dev 0 (\<lambda>data_block s. do {
       src \<leftarrow> slice buf (of_nat w) (of_nat w + of_nat k);
       dst \<leftarrow> slice data_block (of_nat off) (of_nat off + of_nat k);
       rassert (length dst = length src);
       Some (((), put_at (unat (of_nat off :: usize)) src data_block), s) })) Ls V ()
     (V(ucast (block_no d V i) \<mapsto> put_at (unat (0 :: usize)) (to_mem DataBlock ?v) bs))"
    using bs ok m l k w
    by (intro does_modify [where bs = bs and V' = V]) (simp_all add: inode_ok_def does_def DataBlock_def BLOCK_SZ_def)
  moreover have "put_at (unat (0 :: usize)) (to_mem DataBlock ?v) bs = ?v"
    using l bs(2) by (simp add: DataBlock_def put_at_def)
  ultimately show ?thesis using bs(1) by simp
qed

lemma read_round:
  assumes ok: "inode_ok d Ls V" and ae: "a < e" and e: "e \<le> unat (di_size d)" and r: "r + (e - a) \<le> length buf"
    and buf: "length buf < 2 ^ 64" and s: "cache_ok content dev s" "locked s = Ls" "view content dev s = V"
  defines "e1 \<equiv> min ((a div 512 + 1) * 512) e"
  defines "buf' \<equiv> put_at r (take (e1 - a) (drop a (file_data d V))) buf"
  shows "\<exists>s2. cache_ok content dev s2 \<and> locked s2 = Ls \<and> view content dev s2 = V
    \<and> read_at_loop d dev (of_nat a) (of_nat e) (of_nat (a div 512)) (of_nat r) buf s =
      (if e1 = e then Some ((of_nat (r + (e1 - a)), buf'), s2)
       else read_at_loop d dev (of_nat e1) (of_nat e) (of_nat (a div 512) + 1) (of_nat (r + (e1 - a))) buf' s2)"
proof -
  define k where "k = e1 - a"
  note R = round_bounds [OF ae, folded e1_def, folded k_def]
  have e': "e \<le> 16540 * 512" using ok e by (simp add: inode_ok_def)
  note W = round_words [OF ae e', folded e1_def, folded k_def]
  note i = block_index_less [OF ae e]
  define src where "src = take k (drop a (file_data d V))"
  have kb: "r + k \<le> length buf" using r R(1,2) unfolding k_def by linarith
  have sl: "slice buf (of_nat r) (of_nat r + of_nat k) = Some (take k (drop r buf))"
    using slice_of_nat [of r "r + k" buf] buf kb by simp
  have ls: "length src = k" using file_data_covers [OF ok] e R(1,2) by (simp add: k_def src_def)
  have lr: "min (length buf - r) k = k" "unat (of_nat r :: usize) = r" using kb buf by (simp_all add: unat_of_nat_less)
  obtain s1 where s1: "get_block_id d (of_nat (a div 512)) dev s = Some (block_no d V (a div 512), s1)" "cache_ok content dev s1"
    "locked s1 = Ls" "view content dev s1 = V"
    using does_get_block_id [OF ok i] s unfolding does_def by blast
  obtain s2 where s2: "cache_read DataBlock (ucast (block_no d V (a div 512))) dev 0 (\<lambda>data_block s. do {
     src \<leftarrow> slice data_block (of_nat (a mod 512)) (of_nat (a mod 512) + of_nat k); Some (src, s) }) s1 = Some (src, s2)"
    "cache_ok content dev s2" "locked s2 = Ls" "view content dev s2 = V"
    using does_read_data [OF ok i R(3)] s1 unfolding does_def R(5) [symmetric] src_def [symmetric] by blast
  have "read_at_loop d dev (of_nat a) (of_nat e) (of_nat (a div 512)) (of_nat r) buf s =
    (if e1 = e then Some ((of_nat (r + k), put_at r src buf), s2)
     else read_at_loop d dev (of_nat e1) (of_nat e) (of_nat (a div 512) + 1) (of_nat (r + k)) (put_at r src buf) s2)"
    by (subst read_at_loop.simps, unfold Let_def W(2), unfold W) (simp add: sl s1(1) s2(1) ls W(4) lr)
  then show ?thesis using s2 by (auto simp: buf'_def src_def k_def)
qed

lemma does_read_at_loop:
  assumes ok: "inode_ok d Ls V" and "a < e" and e: "e \<le> unat (di_size d)" and "r + (e - a) \<le> length buf"
    and "length buf < 2 ^ 64"
  shows "does content dev (read_at_loop d dev (of_nat a) (of_nat e) (of_nat (a div 512)) (of_nat r) buf) Ls V
     (of_nat (r + (e - a)), put_at r (take (e - a) (drop a (file_data d V))) buf) V"
  using assms(2,4,5)
proof (induction "e - a" arbitrary: a r buf rule: less_induct)
  case less
  let ?D = "file_data d V"
  define e1 where "e1 = min ((a div 512 + 1) * 512) e"
  note R = round_bounds [OF less.prems(1), folded e1_def]
  let ?src = "take (e1 - a) (drop a ?D)"
  have ls: "length ?src = e1 - a" using file_data_covers [OF ok] e R(2) by simp
  show ?case unfolding does_def
  proof (intro allI impI, elim conjE)
    fix s assume s: "cache_ok content dev s" "locked s = Ls" "view content dev s = V"
    obtain s2 where s2: "cache_ok content dev s2" "locked s2 = Ls" "view content dev s2 = V"
      and step: "read_at_loop d dev (of_nat a) (of_nat e) (of_nat (a div 512)) (of_nat r) buf s =
        (if e1 = e then Some ((of_nat (r + (e1 - a)), put_at r ?src buf), s2)
         else read_at_loop d dev (of_nat e1) (of_nat e) (of_nat (a div 512) + 1) (of_nat (r + (e1 - a))) (put_at r ?src buf) s2)"
      using read_round [OF ok less.prems(1) e less.prems(2,3) s, folded e1_def] by blast
    show "\<exists>s'. read_at_loop d dev (of_nat a) (of_nat e) (of_nat (a div 512)) (of_nat r) buf s
        = Some ((of_nat (r + (e - a)), put_at r (take (e - a) (drop a ?D)) buf), s')
      \<and> cache_ok content dev s' \<and> locked s' = Ls \<and> view content dev s' = V"
    proof (cases "e1 = e")
      case False
      have lt: "e1 < e" using False R(2) by simp
      have "does content dev (read_at_loop d dev (of_nat e1) (of_nat e) (of_nat (e1 div 512)) (of_nat (r + (e1 - a))) (put_at r ?src buf)) Ls V
        (of_nat (r + (e1 - a) + (e - e1)), put_at (r + (e1 - a)) (take (e - e1) (drop e1 ?D)) (put_at r ?src buf)) V"
        by (rule less.hyps) (use lt R(1) less.prems ls in auto)
      moreover have "put_at (r + (e1 - a)) (take (e - e1) (drop e1 ?D)) (put_at r ?src buf) = put_at r (take (e - a) (drop a ?D)) buf"
        using put_at_put_at [of r ?src "take (e - e1) (drop e1 ?D)" buf] ls less.prems(2) R(1) lt segment_append [of a e1 e ?D]
        by simp
      moreover have "r + (e1 - a) + (e - e1) = r + (e - a)" using R(1,2) by simp
      moreover have "of_nat (e1 div 512) = (of_nat (a div 512) + 1 :: usize)" using R(4) [OF False] by simp
      ultimately show ?thesis using step False s2 unfolding does_def by simp
    qed (use step s2 in simp)
  qed
qed

text \<open>\<open>read_at\<close> copies the part of the file that the buffer asks for, up to the end of the file.\<close>

lemma does_read_at:
  assumes ok: "inode_ok d Ls V" and buf: "off + length buf < 2 ^ 64"
  defines "k \<equiv> min (length buf) (unat (di_size d) - off)"
  shows "does content dev (disk_inode_read_at d (of_nat off) buf dev) Ls V
    (of_nat k, put_at 0 (take k (drop off (file_data d V))) buf) V"
proof -
  let ?sz = "unat (di_size d)"
  have sz: "ucast (di_size d) = (of_nat ?sz :: usize)" by (simp add: word_unat_eq_iff unat_ucast_u32 unat_of_nat)
  have e: "min (of_nat off + of_nat (length buf) :: usize) (of_nat ?sz) = of_nat (min (off + length buf) ?sz)"
    using min_of_nat_word [of "off + length buf" ?sz, where 'a=64] buf unat_less_exp [of "di_size d"] by simp
  have ge: "(of_nat off :: usize) \<ge> of_nat (min (off + length buf) ?sz) \<longleftrightarrow> min (off + length buf) ?sz \<le> off"
    by (rule of_nat_le_iff_word) (use buf in \<open>auto simp: min_def\<close>)
  show ?thesis
  proof (cases "min (off + length buf) ?sz \<le> off")
    case True
    then have "k = 0" by (auto simp: k_def)
    then show ?thesis using True unfolding disk_inode_read_at_def [abs_def] Let_def sz e ge
      by (simp add: does_return put_at_def)
  next
    case False
    let ?e = "min (off + length buf) ?sz"
    have k: "?e - off = k" using False by (auto simp: k_def min_def)
    have "does content dev (read_at_loop d dev (of_nat off) (of_nat ?e) (of_nat (off div 512)) (of_nat 0) buf) Ls V
      (of_nat (0 + (?e - off)), put_at 0 (take (?e - off) (drop off (file_data d V))) buf) V"
      by (rule does_read_at_loop [OF ok]) (use False buf in auto)
    moreover have "(of_nat off :: usize) div BLOCK_SZ = of_nat (off div 512)"
      using of_nat_div_word [of off 512, where 'a=64] buf by (simp add: BLOCK_SZ_def)
    ultimately show ?thesis using False unfolding disk_inode_read_at_def [abs_def] Let_def sz e ge by (simp add: k)
  qed
qed

text \<open>The view after one round of writing.\<close>

lemma write_round:
  assumes ok: "inode_ok d Ls V" and ae: "a < e" and e: "e \<le> unat (di_size d)" and w: "w + (e - a) \<le> length buf"
    and buf: "length buf < 2 ^ 64"
  defines "e1 \<equiv> min ((a div 512 + 1) * 512) e"
  defines "V1 \<equiv> V(ucast (block_no d V (a div 512)) \<mapsto> put_at (a mod 512) (take (e1 - a) (drop w buf))
    (the (V (ucast (block_no d V (a div 512))))))"
  shows "e1 = e \<Longrightarrow> does content dev (write_at_loop d dev (of_nat a) (of_nat e) (of_nat (a div 512)) (of_nat w) buf) Ls V
      (of_nat (w + (e - a))) V1"
    and "e1 \<noteq> e \<Longrightarrow> does content dev (write_at_loop d dev (of_nat e1) (of_nat e) (of_nat (e1 div 512)) (of_nat (w + (e1 - a))) buf)
      Ls V1 r V' \<Longrightarrow> does content dev (write_at_loop d dev (of_nat a) (of_nat e) (of_nat (a div 512)) (of_nat w) buf) Ls V r V'"
proof -
  define k where "k = e1 - a"
  note R = round_bounds [OF ae, folded e1_def, folded k_def]
  have e': "e \<le> 16540 * 512" using ok e by (simp add: inode_ok_def)
  note W = round_words [OF ae e', folded e1_def, folded k_def]
  note i = block_index_less [OF ae e]
  have kb: "w + k \<le> length buf" using w R(1,2) unfolding k_def by linarith
  let ?f = "\<lambda>data_block s. do {
     src \<leftarrow> slice buf (of_nat w) (of_nat w + of_nat k);
     dst \<leftarrow> slice data_block (of_nat (a mod 512)) (of_nat (a mod 512) + of_nat k);
     rassert (length dst = length src);
     Some (((), put_at (unat (of_nat (a mod 512) :: usize)) src data_block), s) }"
  have m: "does content dev (cache_modify DataBlock (ucast (block_no d V (a div 512))) dev 0 ?f) Ls V () V1"
    using does_write_data [OF ok i R(3) kb buf] by (simp add: V1_def k_def)
  have step: "does content dev (write_at_loop d dev (of_nat a) (of_nat e) (of_nat (a div 512)) (of_nat w) buf) Ls V r V'"
    if "does content dev (\<lambda>s. if e1 = e then Some (of_nat w + of_nat k, s)
      else write_at_loop d dev (of_nat e1) (of_nat e) (of_nat (a div 512) + 1) (of_nat w + of_nat k) buf s) Ls V1 r V'" for r V'
    using does_bind [where q = "\<lambda>b s. Option.bind (cache_modify DataBlock (ucast b) dev 0 ?f s) (\<lambda>(u, s). if e1 = e then Some (of_nat w + of_nat k, s)
      else write_at_loop d dev (of_nat e1) (of_nat e) (of_nat (a div 512) + 1) (of_nat w + of_nat k) buf s)",
      OF does_get_block_id [OF ok i] does_bind [OF m that]]
    by (subst write_at_loop.simps [abs_def], unfold Let_def W(2), unfold W) simp
  show "does content dev (write_at_loop d dev (of_nat a) (of_nat e) (of_nat (a div 512)) (of_nat w) buf) Ls V (of_nat (w + (e - a))) V1"
    if "e1 = e" using step [of "of_nat w + of_nat k" V1] that by (simp add: does_return k_def)
  show "does content dev (write_at_loop d dev (of_nat a) (of_nat e) (of_nat (a div 512)) (of_nat w) buf) Ls V r V'"
    if "e1 \<noteq> e" "does content dev (write_at_loop d dev (of_nat e1) (of_nat e) (of_nat (e1 div 512)) (of_nat (w + (e1 - a))) buf) Ls V1 r V'"
  proof -
    have "(of_nat (w + (e1 - a)) :: usize) = of_nat w + of_nat k" unfolding k_def by (rule of_nat_add)
    moreover have "(of_nat (e1 div 512) :: usize) = of_nat (a div 512) + 1" using R(4) [OF that(1)] by simp
    ultimately show ?thesis using step [of r V'] that by (simp only: if_False)
  qed
qed

lemma does_write_at_loop:
  assumes "inode_ok d Ls V" and "a < e" and e: "e \<le> unat (di_size d)" and "w + (e - a) \<le> length buf" and buf: "length buf < 2 ^ 64"
  shows "\<exists>V'. does content dev (write_at_loop d dev (of_nat a) (of_nat e) (of_nat (a div 512)) (of_nat w) buf) Ls V (of_nat (w + (e - a))) V'
    \<and> inode_ok d Ls V' \<and> file_data d V' = put_at a (take (e - a) (drop w buf)) (file_data d V)
    \<and> (\<forall>i < n_blocks d. block_no d V' i = block_no d V i) \<and> (\<forall>b. b \<notin> ucast ` block_no d V ` {..<n_blocks d} \<longrightarrow> V' b = V b)"
  using assms(1,2,4)
proof (induction "e - a" arbitrary: a w V rule: less_induct)
  case less
  define e1 where "e1 = min ((a div 512 + 1) * 512) e"
  note R = round_bounds [OF less.prems(2), folded e1_def]
  note i = block_index_less [OF less.prems(2) e]
  let ?y = "take (e1 - a) (drop w buf)"
  have ly: "length ?y = e1 - a" using less.prems(3) R(1,2) by simp
  let ?V1 = "V(ucast (block_no d V (a div 512)) \<mapsto> put_at (a mod 512) ?y (the (V (ucast (block_no d V (a div 512))))))"
  have off: "a mod 512 + length ?y \<le> 512" using R(3) ly by simp
  note O = inode_ok_write [OF less.prems(1) i off]
  have D: "file_data d ?V1 = put_at a ?y (file_data d V)" using O(2) R(5) by simp
  have out: "?V1 b = V b" if "b \<notin> ucast ` block_no d V ` {..<n_blocks d}" for b using that i by auto
  note W = write_round [OF less.prems(1,2) e less.prems(3) buf, folded e1_def]
  show ?case
  proof (cases "e1 = e")
    case True
    then show ?thesis using W(1) O(1,3) D out by (intro exI [of _ ?V1]) simp
  next
    case False
    have lt: "e1 < e" using False R(2) by simp
    have "\<exists>V'. does content dev (write_at_loop d dev (of_nat e1) (of_nat e) (of_nat (e1 div 512)) (of_nat (w + (e1 - a))) buf) Ls ?V1
        (of_nat (w + (e1 - a) + (e - e1))) V'
      \<and> inode_ok d Ls V' \<and> file_data d V' = put_at e1 (take (e - e1) (drop (w + (e1 - a)) buf)) (file_data d ?V1)
      \<and> (\<forall>i < n_blocks d. block_no d V' i = block_no d ?V1 i) \<and> (\<forall>b. b \<notin> ucast ` block_no d ?V1 ` {..<n_blocks d} \<longrightarrow> V' b = ?V1 b)"
      by (rule less.hyps) (use lt R(1) less.prems(3) O(1) in auto)
    then obtain V' where V': "does content dev (write_at_loop d dev (of_nat e1) (of_nat e) (of_nat (e1 div 512)) (of_nat (w + (e1 - a))) buf) Ls ?V1
        (of_nat (w + (e1 - a) + (e - e1))) V'" "inode_ok d Ls V'"
      "file_data d V' = put_at e1 (take (e - e1) (drop (w + (e1 - a)) buf)) (file_data d ?V1)"
      "\<forall>i < n_blocks d. block_no d V' i = block_no d ?V1 i" "\<forall>b. b \<notin> ucast ` block_no d ?V1 ` {..<n_blocks d} \<longrightarrow> V' b = ?V1 b" by blast
    have "file_data d V' = put_at a (take (e - a) (drop w buf)) (file_data d V)"
      unfolding V'(3) D using put_at_put_at [of a ?y "take (e - e1) (drop (w + (e1 - a)) buf)" "file_data d V"] ly R(1) lt
        less.prems(3) e file_data_covers [OF less.prems(1)] segment_append [of w "w + (e1 - a)" "w + (e - a)" buf] by simp
    moreover have "block_no d ?V1 ` {..<n_blocks d} = block_no d V ` {..<n_blocks d}" using O(3) by (intro image_cong) auto
    moreover have "w + (e1 - a) + (e - e1) = w + (e - a)" using R(1,2) by simp
    note W(2) [OF False V'(1), unfolded this]
    ultimately show ?thesis using V'(2,4,5) O(3) out by (intro exI [of _ V']) simp
  qed
qed

text \<open>\<open>write_at\<close> replaces the part of the file below its size.\<close>

lemma does_write_at:
  assumes ok: "inode_ok d Ls V" and buf: "off + length buf < 2 ^ 64" "buf \<noteq> []" and off: "off < unat (di_size d)"
  defines "k \<equiv> min (length buf) (unat (di_size d) - off)"
  shows "\<exists>V'. does content dev (disk_inode_write_at d (of_nat off) buf dev) Ls V (of_nat k) V' \<and> inode_ok d Ls V'
    \<and> file_data d V' = put_at off (take k buf) (file_data d V)
    \<and> (\<forall>i < n_blocks d. block_no d V' i = block_no d V i) \<and> (\<forall>b. b \<notin> ucast ` block_no d V ` {..<n_blocks d} \<longrightarrow> V' b = V b)"
proof -
  let ?sz = "unat (di_size d)" and ?e = "min (off + length buf) (unat (di_size d))"
  have sz: "ucast (di_size d) = (of_nat ?sz :: usize)" by (simp add: word_unat_eq_iff unat_ucast_u32 unat_of_nat)
  have e: "min (of_nat off + of_nat (length buf) :: usize) (of_nat ?sz) = of_nat ?e"
    using min_of_nat_word [of "off + length buf" ?sz, where 'a=64] buf unat_less_exp [of "di_size d"] by simp
  have lt: "off < ?e" using buf(2) off by (cases buf) auto
  have le: "(of_nat off :: usize) \<le> of_nat ?e" using lt buf by (subst of_nat_le_iff_word) (auto simp: min_def)
  have k: "?e - off = k" using lt by (auto simp: k_def min_def)
  have dv: "(of_nat off :: usize) div BLOCK_SZ = of_nat (off div 512)"
    using of_nat_div_word [of off 512, where 'a=64] buf by (simp add: BLOCK_SZ_def)
  have "disk_inode_write_at d (of_nat off) buf dev = write_at_loop d dev (of_nat off) (of_nat ?e) (of_nat (off div 512)) (of_nat 0) buf"
    unfolding disk_inode_write_at_def [abs_def] Let_def sz e dv using le by simp
  then show ?thesis
    using does_write_at_loop [OF ok lt, of 0 buf] buf lt by (simp add: k) (simp add: k_def)
qed

end

end
