(* ===== verification/FsGrow.thy ===== *)
theory FsGrow
  imports FsInode
begin

text \<open>
  Growing and emptying a disk inode. \<open>own\<close> lists all the blocks of an inode, data and indirect, in the
  order in which \<open>increase_size\<close> uses new blocks; growing appends the new blocks to this list and
  \<open>clear_size\<close> returns it.
\<close>

section \<open>Numbers of blocks\<close>

definition tot :: "nat \<Rightarrow> nat" where
  "tot n = n + (if n > 28 then 1 else 0) + (if n > 156 then 1 + (n - 156 + 127) div 128 else 0)"

lemma tot_le: "tot n \<le> 2 * n + 2"
  using div_le_dividend [of "n - 156 + 127" 128] by (auto simp: tot_def)

lemma unat_data_blocks_of:
  assumes "unat sz + 511 < 2 ^ 32"
  shows "unat (data_blocks_of sz) = (unat sz + 511) div 512"
proof -
  have "unat (511 + sz) = unat sz + 511" using unat_add_less [of 511 sz] assms by simp
  then show ?thesis by (simp add: data_blocks_of_def BLOCK_SZ_def word_div_unat)
qed

lemma total_words:
  assumes "n < 2 ^ 23"
  shows "(if 28 < n then of_nat n + 1 else of_nat n :: usize) + (if 156 < n then 1 + (of_nat n - 156 + 128 - 1) div 128 else 0)
    = of_nat (tot n)"
proof -
  have "(of_nat n - 156 + 128 - 1 :: usize) div 128 = of_nat ((n - 156 + 127) div 128)" if "156 < n"
  proof -
    define m where "m = n - 156 + 127"
    have "(of_nat n - 156 + 128 - 1 :: usize) = of_nat m"
      using of_nat_sub [of 156 n, where 'a=64] that by (simp add: m_def)
    moreover have "(of_nat m :: usize) div 128 = of_nat (m div 128)"
      using of_nat_div_word [of m 128, where 'a=64] assms by (simp add: m_def)
    ultimately show ?thesis unfolding m_def [symmetric] by (simp only:)
  qed
  then show ?thesis unfolding tot_def by (simp add: ac_simps)
qed

lemma unat_total_blocks:
  assumes "unat sz + 511 < 2 ^ 32"
  shows "unat (total_blocks sz) = tot ((unat sz + 511) div 512)"
proof -
  let ?n = "(unat sz + 511) div 512"
  have n: "unat (ucast (data_blocks_of sz) :: usize) = ?n" by (simp add: unat_ucast_u32 unat_data_blocks_of [OF assms])
  then have e: "(ucast (data_blocks_of sz) :: usize) = of_nat ?n" by (simp flip: n)
  have b: "?n < 2 ^ 23" using assms by simp
  have u: "unat (of_nat ?n :: usize) = ?n" using n e by simp
  have c: "INODE_DIRECT_COUNT < of_nat ?n \<longleftrightarrow> 28 < ?n" "INDIRECT1_BOUND < of_nat ?n \<longleftrightarrow> 156 < ?n"
    unfolding fs_consts word_less_nat_alt u by simp_all
  have "total_blocks sz = ucast (of_nat (tot ?n) :: usize)"
    unfolding total_blocks_def Let_def e c total_words [OF b, symmetric] by (simp add: fs_consts ac_simps)
  moreover have t: "tot ?n < 2 ^ 32" using b tot_le [of ?n] by simp
  ultimately show ?thesis by (simp add: ucast_of_nat_small unat_of_nat_less)
qed

section \<open>The blocks of an inode in the order of allocation\<close>

text \<open>What is allocated for the \<open>i\<close>-th data block: its new indirect blocks and the block itself.\<close>

definition piece :: "DiskInode \<Rightarrow> (usize \<Rightarrow> u8 list option) \<Rightarrow> nat \<Rightarrow> u32 list" where
  "piece d V i = (if i = 28 then [indirect1 d] else if i = 156 then [indirect2 d] else [])
     @ (if 156 \<le> i \<and> (i - 156) mod 128 = 0 then [ind V (indirect2 d) ((i - 156) div 128)] else [])
     @ [block_no d V i]"

definition own :: "DiskInode \<Rightarrow> (usize \<Rightarrow> u8 list option) \<Rightarrow> nat \<Rightarrow> u32 list" where
  "own d V n = concat (map (piece d V) [0..<n])"

lemma own_Suc: "own d V (Suc n) = own d V n @ piece d V n"
  by (simp add: own_def)

lemma own_split: "m \<le> n \<Longrightarrow> own d V n = own d V m @ concat (map (piece d V) [m..<n])"
  unfolding own_def using upt_add_eq_append [of 0 m "n - m"] by simp

lemma tot_Suc: "tot (Suc n) = tot n + (if n = 28 \<or> n = 156 then 1 else 0)
    + (if 156 \<le> n \<and> (n - 156) mod 128 = 0 then 1 else 0) + 1"
proof (cases "156 \<le> n")
  case True
  define m where "m = n - 156"
  have n: "n = 156 + m" using True by (simp add: m_def)
  have "(Suc m + 127) div 128 = (m + 127) div 128 + (if m mod 128 = 0 then 1 else 0)"
    using div_Suc [of "m + 127" 128] by (simp add: mod_Suc)
  then show ?thesis by (simp add: n tot_def)
qed (simp add: tot_def)

lemma length_own: "length (own d V n) = tot n"
  by (induction n) (auto simp: own_Suc tot_Suc piece_def, simp_all add: own_def tot_def)

lemma tot_mono: "m \<le> n \<Longrightarrow> tot m \<le> tot n"
  using own_split [of m n] length_own by (metis length_append le_add1)

section \<open>Well-formed inodes\<close>

definition inode_wf :: "DiskInode \<Rightarrow> usize list \<Rightarrow> (usize \<Rightarrow> u8 list option) \<Rightarrow> nat \<Rightarrow> bool" where
  "inode_wf d Ls V n \<longleftrightarrow> length (direct d) = 28 \<and> n \<le> 16540 \<and> distinct (own d V n) \<and> (\<forall>b \<in> set (own d V n). block_here Ls V b)"

lemma piece_split: "piece d V i = butlast (piece d V i) @ [block_no d V i]"
  by (simp add: piece_def butlast_append)

lemma piece_in_own: "i < n \<Longrightarrow> set (piece d V i) \<subseteq> set (own d V n)"
  by (auto simp: own_def)

lemma distinct_pieces:
  assumes "distinct (own d V n)" and "i < n"
  shows "distinct (piece d V i)" and "j < i \<Longrightarrow> set (piece d V j) \<inter> set (piece d V i) = {}"
proof -
  have "own d V n = (own d V i @ piece d V i) @ concat (map (piece d V) [Suc i..<n])"
    using own_split [of "Suc i" n] assms(2) by (simp add: own_Suc)
  then have d: "distinct (own d V i @ piece d V i)" using assms(1) by (metis distinct_append)
  then show "distinct (piece d V i)" by simp
  show "set (piece d V j) \<inter> set (piece d V i) = {}" if "j < i" using d piece_in_own [OF that, of d V] by auto
qed

lemma meta_in_piece: "b \<in> meta_blocks d V n \<Longrightarrow> \<exists>k < n. b \<in> set (butlast (piece d V k))"
proof -
  assume b: "b \<in> meta_blocks d V n"
  consider "28 < n" "b = indirect1 d" | "156 < n" "b = indirect2 d"
    | i where "156 \<le> i" "i < n" "b = ind V (indirect2 d) ((i - 156) div 128)"
    using b by (auto simp: meta_blocks_def split: if_splits)
  then show ?thesis
  proof cases
    case 3
    let ?k = "156 + (i - 156) div 128 * 128"
    have "?k \<le> i" using 3(1) div_times_less_eq_dividend [of "i - 156" 128] by linarith
    moreover have "b \<in> set (butlast (piece d V ?k))" using 3(3) by (simp add: piece_def butlast_append)
    ultimately show ?thesis using 3(2) by (intro exI [of _ ?k]) simp
  next
    case 1
    then show ?thesis by (intro exI [of _ 28]) (simp add: piece_def butlast_append)
  next
    case 2
    then show ?thesis by (intro exI [of _ 156]) (simp add: piece_def butlast_append)
  qed
qed

lemma inode_wf_ok:
  assumes wf: "inode_wf d Ls V (n_blocks d)" and "unat (di_size d) \<le> 16540 * 512" and "length Ls < BLOCK_CACHE_SIZE"
  shows "inode_ok d Ls V"
proof -
  let ?n = "n_blocks d"
  have D: "distinct (own d V ?n)" using wf by (simp add: inode_wf_def)
  have bn: "block_no d V i \<in> set (piece d V i)" for i by (subst piece_split) simp
  have inO: "block_no d V i \<in> set (own d V ?n)" if "i < ?n" for i using bn piece_in_own [OF that] by blast
  have metaO: "b \<in> set (own d V ?n)" if b: "b \<in> meta_blocks d V ?n" for b
    using meta_in_piece [OF b] piece_in_own in_set_butlastD by fast
  have "block_no d V i \<notin> meta_blocks d V ?n" if i: "i < ?n" for i
  proof
    assume "block_no d V i \<in> meta_blocks d V ?n"
    then obtain k where k: "k < ?n" "block_no d V i \<in> set (butlast (piece d V k))" using meta_in_piece by blast
    show False
    proof (cases i k rule: linorder_cases)
      case equal
      then show False using k distinct_pieces(1) [OF D k(1)] by (subst (asm) piece_split) simp
    next
      case less
      then show False using distinct_pieces(2) [OF D k(1) less] bn [of i] in_set_butlastD [OF k(2)] by blast
    next
      case greater
      then show False using distinct_pieces(2) [OF D i greater] bn [of i] in_set_butlastD [OF k(2)] by blast
    qed
  qed
  moreover have "inj_on (block_no d V) {..<?n}"
  proof (rule linorder_inj_onI)
    show "block_no d V i \<noteq> block_no d V j" if "i < j" "i \<in> {..<?n}" "j \<in> {..<?n}" for i j
      using distinct_pieces(2) [OF D, of j i] that bn [of i] bn [of j] by auto
  qed auto
  ultimately show ?thesis using wf assms(2,3) inO metaO by (simp add: inode_ok_def inode_wf_def)
qed

section \<open>What the block numbers depend on\<close>

lemma piece_cong:
  assumes "block_no d V i = block_no d' V' i"
    and "28 \<le> i \<Longrightarrow> indirect1 d = indirect1 d'" and "156 \<le> i \<Longrightarrow> indirect2 d = indirect2 d'"
    and "156 \<le> i \<Longrightarrow> ind V (indirect2 d) ((i - 156) div 128) = ind V' (indirect2 d') ((i - 156) div 128)"
  shows "piece d V i = piece d' V' i"
  using assms by (auto simp: piece_def)

lemma own_cong: "(\<And>i. i < n \<Longrightarrow> piece d V i = piece d' V' i) \<Longrightarrow> own d V n = own d' V' n"
  by (auto simp: own_def intro!: arg_cong [where f = concat])

section \<open>Filling an array\<close>

lemma fill_blocks_spec:
  assumes "cur \<le> lim" and "lim \<le> length arr" and "lim - cur \<le> length nb" and "lim < 2 ^ 32"
  shows "fill_blocks (of_nat cur) (of_nat lim) arr nb = Some (of_nat lim, put_at cur (take (lim - cur) nb) arr, drop (lim - cur) nb)"
  using assms(1-3)
proof (induction "lim - cur" arbitrary: cur arr nb)
  case 0
  then show ?case by (subst fill_blocks.simps) (simp add: put_at_def)
next
  case (Suc k)
  then obtain x xs where nb: "nb = x # xs" by (cases nb) auto
  have lt: "(of_nat cur :: u32) < of_nat lim" "unat (of_nat cur :: u32) = cur"
    using Suc.hyps(2) assms(4) by (simp_all add: of_nat_less_iff_word unat_of_nat_less)
  have "fill_blocks (of_nat (Suc cur)) (of_nat lim) (arr[cur := x]) xs
      = Some (of_nat lim, put_at (Suc cur) (take (lim - Suc cur) xs) (arr[cur := x]), drop (lim - Suc cur) xs)"
    by (rule Suc.hyps(1)) (use Suc nb in auto)
  moreover have "put_at (Suc cur) (take (lim - Suc cur) xs) (arr[cur := x]) = put_at cur (take (lim - cur) nb) arr"
    using Suc.hyps(2) Suc.prems(2) nb by (simp add: put_at_def take_Suc_conv_app_nth take_Cons' upd_conv_take_nth_drop add.commute)
  moreover have "drop (lim - cur) nb = drop (lim - Suc cur) xs" using nb Suc.hyps(2) by (simp add: drop_Cons')
  moreover have "cur < length arr" using Suc by simp
  ultimately show ?case using lt nb by (subst fill_blocks.simps) (simp add: index_set_def add.commute)
qed

lemma fill_blocks_none:
  assumes "lim \<le> cur" and "cur < 2 ^ 32"
  shows "fill_blocks (of_nat cur) (of_nat lim) arr nb = Some (of_nat cur, arr, nb)"
  by (subst fill_blocks.simps) (use assms in \<open>simp add: of_nat_less_iff_word not_less\<close>)

text \<open>Both cases.\<close>

lemma fill_blocks_max:
  assumes "lim \<le> length arr" and "lim - cur \<le> length nb" and "lim < 2 ^ 32" and "cur < 2 ^ 32"
  shows "fill_blocks (of_nat cur) (of_nat lim) arr nb
    = Some (of_nat (max cur lim), put_at cur (take (lim - cur) nb) arr, drop (lim - cur) nb)"
  using fill_blocks_spec [of cur lim arr nb] fill_blocks_none [of lim cur arr nb] assms
  by (cases "cur \<le> lim") (simp_all add: max_def put_at_def)

lemma put_at_Nil [simp]: "put_at i [] xs = xs"
  by (simp add: put_at_def)

lemma nth_put_at_same: "i + length ys \<le> length xs \<Longrightarrow> j < i \<Longrightarrow> put_at i ys xs ! j = xs ! j"
  by (simp add: nth_put_at)

lemma map_nth_put_at:
  "i + length ys \<le> length xs \<Longrightarrow> map (\<lambda>j. put_at i ys xs ! j) [i..<i + length ys] = ys"
  by (rule nth_equalityI) (simp_all add: nth_put_at)

section \<open>The three parts of \<open>increase_size\<close>\<close>

lemma concat_map_singleton: "(\<And>x. x \<in> set xs \<Longrightarrow> f x = [g x]) \<Longrightarrow> concat (map f xs) = map g xs"
  by (induction xs) simp_all

lemma own_direct:
  fixes z :: u32
  assumes len: "length (direct d) = 28" and c: "n \<le> c" "c \<le> 28 \<or> c = n" and nb: "c - n \<le> length nb"
  defines "d1 \<equiv> d\<lparr>di_size := z, direct := put_at n (take (c - n) nb) (direct d)\<rparr>"
  shows "own d1 V c = own d V n @ take (c - n) nb" and "length (direct d1) = 28"
proof -
  let ?y = "take (c - n) nb"
  have fit: "n + length ?y \<le> length (direct d)" if "n < c" using that c nb len by auto
  show l: "length (direct d1) = 28"
    using fit len by (cases "n < c") (simp_all add: d1_def)
  have "own d1 V n = own d V n"
  proof (rule own_cong, rule piece_cong)
    show "block_no d1 V i = block_no d V i" if "i < n" for i
      using that fit c(1) by (cases "n < c") (auto simp: d1_def block_no_def nth_put_at_same)
  qed (simp_all add: d1_def)
  moreover have "concat (map (piece d1 V) [n..<c]) = ?y"
  proof (cases "n < c")
    case True
    then have "concat (map (piece d1 V) [n..<c]) = map (\<lambda>i. direct d1 ! i) [n..<c]"
      using c(2) by (intro concat_map_singleton) (auto simp: piece_def block_no_def)
    also have "\<dots> = ?y" using map_nth_put_at [OF fit [OF True]] True nb by (simp add: d1_def)
    finally show ?thesis .
  qed (use c in simp)
  ultimately show "own d1 V c = own d V n @ ?y" using own_split [OF c(1), of d1 V] by simp
qed

lemma ind_put: "length ws = 128 \<Longrightarrow> ind (V(ucast b \<mapsto> to_mem IndirectBlock ws)) b i = ws ! i"
  by (simp add: ind_def indirect_block_codec(1))

lemma ind_back:
  "V (ucast b) = Some bs \<Longrightarrow> length bs = 512 \<Longrightarrow> V(ucast b \<mapsto> to_mem IndirectBlock (from_mem IndirectBlock bs)) = V"
  by (simp add: indirect_block_codec(2) fun_upd_idem)

lemma own_indirect1:
  assumes c: "28 \<le> c1" "c1 \<le> c2" "c2 \<le> 156 \<or> c2 = c1" "28 < c2" and nb: "c2 - c1 \<le> length nb"
    and d2: "d2 = (if c1 = 28 then d1\<lparr>indirect1 := x\<rparr> else d1)"
    and bs: "V (ucast (indirect1 d2)) = Some bs" "length bs = 512"
  defines "V2 \<equiv> V(ucast (indirect1 d2) \<mapsto> to_mem IndirectBlock (put_at (c1 - 28) (take (c2 - c1) nb) (from_mem IndirectBlock bs)))"
  shows "own d2 V2 c2 = own d1 V c1 @ (if c1 = 28 then [x] else []) @ take (c2 - c1) nb"
proof (cases "c1 = c2")
  case True
  then have "V2 = V" using ind_back [of V "indirect1 d2" bs, OF bs] by (simp add: V2_def)
  then show ?thesis using True c d2 by simp
next
  case False
  then have lt: "c1 < c2" "c2 \<le> 156" using c by auto
  let ?y = "take (c2 - c1) nb" and ?arr = "from_mem IndirectBlock bs"
  have fit: "c1 - 28 + length ?y \<le> length ?arr" using lt c nb by auto
  have i1: "ind V2 (indirect1 d2) i = put_at (c1 - 28) ?y ?arr ! i" for i
    unfolding V2_def using fit by (intro ind_put) (simp add: length_put_at)
  have o: "ind V (indirect1 d2) i = ?arr ! i" for i using bs(1) by (simp add: ind_def)
  have "own d2 V2 c1 = own d1 V c1"
  proof (rule own_cong, rule piece_cong)
    show "block_no d2 V2 i = block_no d1 V i" if i: "i < c1" for i
    proof (cases "i < 28")
      case False
      then have e: "d2 = d1" using i d2 by simp
      have "block_no d2 V2 i = ?arr ! (i - 28)"
        using False i lt(1,2) fit by (simp add: block_no_def i1 nth_put_at_same diff_less_mono)
      also have "\<dots> = block_no d1 V i" using False i lt(1,2) o [of "i - 28"] by (simp add: block_no_def e)
      finally show ?thesis .
    qed (use d2 in \<open>simp add: block_no_def\<close>)
  qed (use d2 lt in \<open>auto split: if_splits\<close>)
  moreover have "concat (map (piece d2 V2) [Suc c1..<c2]) = map (\<lambda>i. put_at (c1 - 28) ?y ?arr ! (i - 28)) [Suc c1..<c2]"
    using c lt by (intro concat_map_singleton) (auto simp: piece_def block_no_def i1)
  moreover have "piece d2 V2 c1 = (if c1 = 28 then [x] else []) @ [put_at (c1 - 28) ?y ?arr ! (c1 - 28)]"
  proof -
    have "block_no d2 V2 c1 = put_at (c1 - 28) ?y ?arr ! (c1 - 28)" using c(1) lt by (simp add: block_no_def i1)
    moreover have "c1 = 28 \<Longrightarrow> indirect1 d2 = x" using d2 by simp
    ultimately show ?thesis using c(1) lt by (simp add: piece_def)
  qed
  moreover have "map (\<lambda>i. put_at (c1 - 28) ?y ?arr ! (i - 28)) [c1..<c2] = ?y"
  proof -
    have "map (\<lambda>i. put_at (c1 - 28) ?y ?arr ! (i - 28)) [c1..<c2] = map (\<lambda>j. put_at (c1 - 28) ?y ?arr ! j) (map (\<lambda>i. i - 28) [c1..<c2])"
      by simp
    also have "map (\<lambda>i. i - 28) [c1..<c2] = [c1 - 28..<c1 - 28 + length ?y]"
      using c(1) lt(1) nb by (intro nth_equalityI) auto
    finally show ?thesis using map_nth_put_at [OF fit] by simp
  qed
  ultimately show ?thesis using own_split [OF c(2), of d2 V2] lt(1) by (simp add: upt_conv_Cons)
qed

end
