(* ===== verification/FsGrow2.thy ===== *)
theory FsGrow2
  imports FsGrow
begin

text \<open>
  The loop of \<open>increase_size\<close> below \<open>indirect2\<close>: what a round does to the list \<open>own\<close> of an inode's blocks.
\<close>

section \<open>The indirect blocks among the blocks\<close>

lemma distinct_butlasts: "distinct (concat (map f xs)) \<Longrightarrow> distinct (concat (map (\<lambda>x. butlast (f x)) xs))"
proof (induction xs)
  case (Cons x xs)
  moreover have "set (concat (map (\<lambda>x. butlast (f x)) xs)) \<subseteq> set (concat (map f xs))"
    by (auto dest: in_set_butlastD)
  moreover have "set (butlast (f x)) \<subseteq> set (f x)" by (auto dest: in_set_butlastD)
  ultimately show ?case by (auto simp: distinct_butlast)
qed simp

lemma butlast_piece: "butlast (piece d V i) = (if i = 28 then [indirect1 d] else if i = 156 then [indirect2 d] else [])
    @ (if 156 \<le> i \<and> (i - 156) mod 128 = 0 then [ind V (indirect2 d) ((i - 156) div 128)] else [])"
  by (simp add: piece_def butlast_append)

definition subs :: "DiskInode \<Rightarrow> (usize \<Rightarrow> u8 list option) \<Rightarrow> nat \<Rightarrow> u32 list" where
  "subs d V m = map (ind V (indirect2 d)) [0..<(m + 127) div 128]"

lemma subs_Suc: "subs d V (Suc m) = subs d V m @ (if m mod 128 = 0 then [ind V (indirect2 d) (m div 128)] else [])"
proof -
  have "(Suc m + 127) div 128 = (m + 127) div 128 + (if m mod 128 = 0 then 1 else 0)"
    using div_Suc [of "m + 127" 128] by (simp add: mod_Suc)
  moreover have "(m + 127) div 128 = m div 128" if "m mod 128 = 0"
  proof -
    obtain q where "m = 128 * q" using \<open>m mod 128 = 0\<close> by blast
    then show ?thesis by simp
  qed
  ultimately show ?thesis by (simp add: subs_def)
qed

lemma metas_eq:
  "concat (map (\<lambda>i. butlast (piece d V i)) [0..<156 + m]) = indirect1 d # (if m = 0 then [] else indirect2 d # subs d V m)"
proof (induction m)
  case 0
  have z: "concat (map (\<lambda>i. butlast (piece d V i)) xs) = []" if "\<forall>i \<in> set xs. i < 156 \<and> i \<noteq> 28" for xs
    using that by (induction xs) (auto simp: butlast_piece)
  have u: "[0..<156 + 0] = [0..<28] @ 28 # [29..<156]"
    using upt_add_eq_append [of 0 28 128] upt_conv_Cons [of 28 156] by simp
  show ?case unfolding u by (simp add: z) (simp add: butlast_piece)
next
  case (Suc m)
  have u: "[0..<156 + Suc m] = [0..<156 + m] @ [156 + m]" using upt_Suc_append [of 0 "156 + m"] by simp
  show ?case unfolding u map_append concat_append Suc.IH by (cases "m = 0") (simp_all add: butlast_piece subs_Suc, simp add: subs_def)
qed

lemma distinct_metas:
  assumes "distinct (own d V (156 + m))"
  shows "distinct (indirect1 d # (if m = 0 then [] else indirect2 d # subs d V m))"
  using distinct_butlasts [OF assms [unfolded own_def]] by (simp only: metas_eq)

lemma metas_in_own:
  "indirect1 d \<in> set (own d V (156 + m))" "0 < m \<Longrightarrow> indirect2 d \<in> set (own d V (156 + m))"
  "set (subs d V m) \<subseteq> set (own d V (156 + m))"
proof -
  have "set (concat (map (\<lambda>i. butlast (piece d V i)) [0..<156 + m])) \<subseteq> set (own d V (156 + m))"
    by (auto simp: own_def dest: in_set_butlastD)
  then show "indirect1 d \<in> set (own d V (156 + m))" "0 < m \<Longrightarrow> indirect2 d \<in> set (own d V (156 + m))"
    "set (subs d V m) \<subseteq> set (own d V (156 + m))"
    unfolding metas_eq by (auto simp: subs_def split: if_splits)
qed

lemma div_less_aligned: "k < m \<Longrightarrow> m mod c = 0 \<Longrightarrow> k div c < m div c" for c k m :: nat
  by (metis div_mult_mod_eq add_0_right less_mult_imp_div_less)

section \<open>One round of the loop over \<open>indirect2\<close>\<close>

text \<open>The view in which the block \<open>indirect2\<close>, held by the loop, has its current value.\<close>

abbreviation ghost :: "DiskInode \<Rightarrow> u32 list \<Rightarrow> (usize \<Rightarrow> u8 list option) \<Rightarrow> usize \<Rightarrow> u8 list option" where
  "ghost d ind2 V \<equiv> V(ucast (indirect2 d) \<mapsto> to_mem IndirectBlock ind2)"

lemma own_indirect2_round:
  assumes len: "length ind2 = 128" and m: "m < 16384"
    and ind2': "ind2' = (if m mod 128 = 0 then ind2[m div 128 := x] else ind2)" and x: "x = ind2' ! (m div 128)"
    and V': "V' = V(ucast x \<mapsto> to_mem IndirectBlock ((from_mem IndirectBlock (the (V (ucast x))))[m mod 128 := y]))"
    and new: "x \<noteq> indirect1 d" "x \<noteq> indirect2 d" "indirect1 d \<noteq> indirect2 d"
    and old: "\<And>j. j < m div 128 \<Longrightarrow> ind2 ! j \<noteq> x \<and> ind2 ! j \<noteq> indirect2 d"
  shows "own d (ghost d ind2' V') (156 + Suc m) = own d (ghost d ind2 V) (156 + m)
    @ (if m = 0 then [indirect2 d] else []) @ (if m mod 128 = 0 then [x] else []) @ [y]"
proof -
  let ?W = "ghost d ind2 V" and ?W' = "ghost d ind2' V'"
  have len': "length ind2' = 128" using len ind2' by simp
  have i2: "ind ?W (indirect2 d) j = ind2 ! j" "ind ?W' (indirect2 d) j = ind2' ! j" for j
    by (simp_all add: ind_put len len')
  have i1: "ind ?W (indirect1 d) = ind ?W' (indirect1 d)" using new by (simp add: V' ind_def fun_eq_iff)
  have ix: "ind ?W' x k = (from_mem IndirectBlock (the (V (ucast x))))[m mod 128 := y] ! k" for k
    using new(2) by (simp add: V' ind_def indirect_block_codec(1))
  have "own d ?W' (156 + m) = own d ?W (156 + m)"
  proof (rule own_cong, rule piece_cong)
    fix i assume i: "i < 156 + m"
    let ?j = "(i - 156) div 128" and ?k = "(i - 156) mod 128"
    have j: "?j < m div 128 \<or> ?j = m div 128 \<and> m mod 128 \<noteq> 0 \<and> ?k < m mod 128" if "156 \<le> i"
    proof -
      have lt: "i - 156 < m" using that i by linarith
      have "?j \<le> m div 128" using lt by (intro div_le_mono) simp
      moreover have "?k < m mod 128" if "?j = m div 128"
        using lt that by (metis add_less_cancel_left div_mult_mod_eq)
      moreover have "m mod 128 \<noteq> 0" if "?j = m div 128" using div_less_aligned [OF lt, of 128] that by auto
      ultimately show ?thesis by linarith
    qed
    have same: "ind2' ! ?j = ind2 ! ?j" if "156 \<le> i" using j [OF that] ind2' by (auto simp: nth_list_update)
    then show "156 \<le> i \<Longrightarrow> ind ?W' (indirect2 d) ?j = ind ?W (indirect2 d) ?j" by (simp only: i2)
    have "ind ?W' (ind2 ! ?j) ?k = ind ?W (ind2 ! ?j) ?k" if "156 \<le> i"
    proof (cases "?j < m div 128")
      case True
      then show ?thesis using old [OF True] by (simp add: V' ind_def)
    next
      case False
      then have e: "ind2 ! ?j = x" "?k < m mod 128" using j [OF that] x ind2' by auto
      have "ind ?W x ?k = from_mem IndirectBlock (the (V (ucast x))) ! ?k" using new(2) by (simp add: ind_def)
      then show ?thesis unfolding e(1) ix using e(2) by simp
    qed
    then show "block_no d ?W' i = block_no d ?W i" using same i1 by (simp add: block_no_def i2)
  qed simp_all
  moreover have "piece d ?W' (156 + m) = (if m = 0 then [indirect2 d] else []) @ (if m mod 128 = 0 then [x] else []) @ [y]"
    using m len' ix [of "m mod 128"] x by (simp add: piece_def block_no_def i2)
  ultimately show ?thesis unfolding add_Suc_right own_Suc by (simp only:)
qed

text \<open>The distinctness that a round needs, from the distinctness of all blocks.\<close>

lemma round_fresh:
  assumes len: "length ind2 = 128" and m: "m < 16384"
    and D: "distinct (own d (ghost d ind2 V) (156 + m) @ (if m = 0 then [indirect2 d] else []) @ nb)"
    and x: "m mod 128 = 0 \<Longrightarrow> x \<in> set nb" "m mod 128 \<noteq> 0 \<Longrightarrow> x = ind2 ! (m div 128)"
  shows "x \<noteq> indirect1 d" "x \<noteq> indirect2 d" "indirect1 d \<noteq> indirect2 d"
    "j < m div 128 \<Longrightarrow> ind2 ! j \<noteq> x \<and> ind2 ! j \<noteq> indirect2 d"
proof -
  let ?W = "ghost d ind2 V" and ?k = "(m + 127) div 128"
  have i2: "ind ?W (indirect2 d) j = ind2 ! j" for j by (simp add: ind_put len)
  have M: "distinct (indirect1 d # (if m = 0 then [] else indirect2 d # subs d ?W m))"
    by (rule distinct_metas) (use D in simp)
  note O = metas_in_own [where d = d and V = ?W and m = m]
  have ks: "m div 128 \<le> ?k" by (intro div_le_mono) simp
  have sj: "ind2 ! j \<in> set (subs d ?W m)" if "j < ?k" for j using that by (simp add: subs_def i2)
  have k: "m div 128 < ?k" if "m mod 128 \<noteq> 0"
  proof -
    have "?k = m div 128 + 1" using that div_add1_eq [of m 127 128] by simp
    then show ?thesis by simp
  qed
  show n12: "indirect1 d \<noteq> indirect2 d" using M D O(1) by (cases "m = 0") auto
  show "x \<noteq> indirect1 d"
    using x D O(1) M sj [OF k] by (cases "m mod 128 = 0"; cases "m = 0") auto
  show "x \<noteq> indirect2 d"
    using x D O(2) M sj [OF k] by (cases "m mod 128 = 0"; cases "m = 0") auto
  assume j: "j < m div 128"
  then have m0: "m \<noteq> 0" by auto
  have jk: "j < ?k" using j ks by simp
  have "ind2 ! j \<noteq> indirect2 d" using M m0 sj [OF jk] by auto
  moreover have "ind2 ! j \<noteq> x"
  proof (cases "m mod 128 = 0")
    case True
    then show ?thesis using x(1) D O(3) sj [OF jk] by auto
  next
    case False
    have "ind ?W (indirect2 d) = (!) ind2" by (simp add: fun_eq_iff i2)
    then have "distinct (map ((!) ind2) [0..<?k])" using M m0 by (simp add: subs_def)
    then show ?thesis using x(2) [OF False] j jk k [OF False] by (auto simp: distinct_conv_nth)
  qed
  ultimately show "ind2 ! j \<noteq> x \<and> ind2 ! j \<noteq> indirect2 d" by blast
qed

section \<open>The loop over \<open>indirect2\<close>\<close>

lemma block_here_put:
  "block_here Ls V c \<Longrightarrow> length ws = 128 \<Longrightarrow> block_here Ls (V(ucast b \<mapsto> to_mem IndirectBlock ws)) c"
  by (auto simp: block_here_def IndirectBlock_def)

lemma loop_cond:
  assumes "m < 2 ^ 64" and "m1 < 2 ^ 64"
  shows "(of_nat (m div 128) < (of_nat (m1 div 128) :: usize) \<or> of_nat (m div 128) = (of_nat (m1 div 128) :: usize)
    \<and> of_nat (m mod 128) < (of_nat (m1 mod 128) :: usize)) \<longleftrightarrow> m < m1"
proof -
  have b: "k div 128 < 2 ^ LENGTH(64)" "k mod 128 < 2 ^ LENGTH(64)" if "k < 2 ^ 64" for k :: nat
    using that by (simp_all add: le_less_trans [OF div_le_dividend] le_less_trans [OF mod_less_eq_dividend])
  have "m div 128 < m1 div 128 \<or> m div 128 = m1 div 128 \<and> m mod 128 < m1 mod 128 \<longleftrightarrow> m < m1"
  proof (cases "m div 128 = m1 div 128")
    case True
    have "128 * (m div 128) + m mod 128 = m" "128 * (m1 div 128) + m1 mod 128 = m1" by simp_all
    then show ?thesis unfolding True by linarith
  next
    case False
    have "m1 \<le> m \<Longrightarrow> m1 div 128 \<le> m div 128" "m < m1 \<Longrightarrow> m div 128 \<le> m1 div 128" by (simp_all add: div_le_mono)
    then show ?thesis using False by linarith
  qed
  then show ?thesis
    by (simp only: of_nat_less_iff_word [OF b(1) [OF assms(1)] b(1) [OF assms(2)]] of_nat_eq_iff_word [OF b(1) [OF assms(1)] b(1) [OF assms(2)]]
        of_nat_less_iff_word [OF b(2) [OF assms(1)] b(2) [OF assms(2)]])
qed

lemma next_position:
  assumes "m < 16384"
  shows "(if (of_nat (m mod 128) + 1 :: usize) = 128 then f (of_nat (m div 128) + 1) 0
      else f (of_nat (m div 128)) (of_nat (m mod 128) + 1)) = f (of_nat (Suc m div 128) :: usize) (of_nat (Suc m mod 128) :: usize)"
proof -
  have e: "(of_nat (m mod 128) + 1 :: usize) = of_nat (m mod 128 + 1)" by simp
  have "(of_nat (m mod 128 + 1) :: usize) = of_nat 128 \<longleftrightarrow> m mod 128 + 1 = 128"
    by (rule of_nat_eq_iff_word) (simp_all add: less_trans [of _ 129])
  then have "(of_nat (m mod 128) + 1 :: usize) = 128 \<longleftrightarrow> Suc (m mod 128) = 128" unfolding e by simp
  then show ?thesis by (auto simp: div_Suc mod_Suc add.commute)
qed

context block_store
begin

lemma does_set_indirect:
  assumes "block_here Ls V b" and "i < 128" and "length Ls < BLOCK_CACHE_SIZE"
  shows "does content dev (cache_modify IndirectBlock (ucast b) dev 0
      (\<lambda>ind1 s. do { ind1 \<leftarrow> index_set ind1 (unat (of_nat i :: usize)) y; Some (((), ind1), s) })) Ls V ()
    (V(ucast b \<mapsto> to_mem IndirectBlock ((from_mem IndirectBlock (the (V (ucast b))))[i := y])))"
proof -
  obtain bs where bs: "V (ucast b) = Some bs" "length bs = 512" "ucast b \<notin> set Ls" using assms(1) by (auto simp: block_here_def)
  let ?ws = "(from_mem IndirectBlock bs)[i := y]"
  have m: "take (unat (size_of IndirectBlock)) (drop (unat (0 :: usize)) bs) = bs" using bs(2) by (simp add: IndirectBlock_def)
  have u: "unat (of_nat i :: usize) = i" using assms(2) by (simp add: unat_of_nat_less)
  have "does content dev (cache_modify IndirectBlock (ucast b) dev 0
      (\<lambda>ind1 s. do { ind1 \<leftarrow> index_set ind1 (unat (of_nat i :: usize)) y; Some (((), ind1), s) })) Ls V ()
    (V(ucast b \<mapsto> put_at (unat (0 :: usize)) (to_mem IndirectBlock ?ws) bs))"
  proof (rule does_modify [where bs = bs and V' = V])
    show "does content dev (\<lambda>s. do { ind1 \<leftarrow> index_set (from_mem IndirectBlock (take (unat (size_of IndirectBlock))
        (drop (unat (0 :: usize)) bs))) (unat (of_nat i :: usize)) y; Some (((), ind1), s) }) (ucast b # Ls) V ((), ?ws) V"
      unfolding m u using assms(2) by (simp add: index_set_def does_return)
  qed (use bs assms in \<open>simp_all add: IndirectBlock_def BLOCK_SZ_def\<close>)
  moreover have "put_at (unat (0 :: usize)) (to_mem IndirectBlock ?ws) bs = to_mem IndirectBlock ?ws"
    using bs(2) by (simp add: put_at_def IndirectBlock_def)
  ultimately show ?thesis using bs(1) by simp
qed

end

end
