(* ===== verification/FsIncrease.thy ===== *)
theory FsIncrease
  imports FsGrow2
begin

text \<open>
  \<open>increase_size\<close> and \<open>clear_size\<close> of a disk inode: growing appends the new blocks to the list \<open>own\<close> of its blocks,
  and emptying returns this list.
\<close>

section \<open>The loop below \<open>indirect2\<close>\<close>

lemma of_nat_0_iff_word: "k < 2 ^ LENGTH('a) \<Longrightarrow> (of_nat k :: 'a::len word) = 0 \<longleftrightarrow> k = 0"
  using of_nat_eq_iff_word [of k 0] by simp

lemma sub_in_own:
  assumes "length ind2 = 128" and "m mod 128 \<noteq> 0"
  shows "ind2 ! (m div 128) \<in> set (own d (ghost d ind2 V) (156 + m))"
proof -
  have "(m + 127) div 128 = m div 128 + 1" using assms(2) div_add1_eq [of m 127 128] by simp
  moreover have "ind (ghost d ind2 V) (indirect2 d) (m div 128) = ind2 ! (m div 128)" by (simp add: ind_put assms(1))
  ultimately have "ind2 ! (m div 128) \<in> set (subs d (ghost d ind2 V) m)" by (force simp: subs_def)
  then show ?thesis using metas_in_own(3) by blast
qed

text \<open>One round of the loop as an equation between programs.\<close>

lemma fill_indirect2_round:
  assumes m: "m < m1" "m1 \<le> 16384" and len: "length ind2 = 128" and nb: "nb = (if m mod 128 = 0 then [x0] else []) @ y # nb'"
    and ind2r: "ind2r = (if m mod 128 = 0 then ind2[m div 128 := x0] else ind2)" and x: "x = ind2r ! (m div 128)"
  shows "fill_indirect2 (of_nat (m div 128)) (of_nat (m mod 128)) (of_nat (m1 div 128)) (of_nat (m1 mod 128)) ind2 nb dev
    = (\<lambda>s. Option.bind (cache_modify IndirectBlock (ucast x) dev 0
      (\<lambda>ind1 s. do { ind1 \<leftarrow> index_set ind1 (unat (of_nat (m mod 128) :: usize)) y; Some (((), ind1), s) }) s)
      (\<lambda>(u, s). fill_indirect2 (of_nat (Suc m div 128)) (of_nat (Suc m mod 128)) (of_nat (m1 div 128)) (of_nat (m1 mod 128)) ind2r nb' dev s))"
proof
  fix s
  have m': "m < 16384" using m by simp
  have cond: "(of_nat (m div 128) < (of_nat (m1 div 128) :: usize) \<or> of_nat (m div 128) = (of_nat (m1 div 128) :: usize)
    \<and> of_nat (m mod 128) < (of_nat (m1 mod 128) :: usize))"
    using loop_cond [of m m1] m by simp
  have u: "unat (of_nat (m div 128) :: usize) = m div 128"
    using m' by (simp add: unat_of_nat_less less_mult_imp_div_less less_trans [of _ 16384])
  have a: "m div 128 < 128" using m' by (simp add: less_mult_imp_div_less)
  have b0: "(of_nat (m mod 128) :: usize) = 0 \<longleftrightarrow> m mod 128 = 0" by (rule of_nat_0_iff_word) (simp add: less_trans [of _ 128])
  have pick: "(if (of_nat (m mod 128) :: usize) = 0 then do { (x, nb) \<leftarrow> next_block nb;
      ind2 \<leftarrow> index_set ind2 (unat (of_nat (m div 128) :: usize)) x; Some (ind2, nb) } else Some (ind2, nb)) = Some (ind2r, y # nb')"
    using a len unfolding b0 u by (simp add: nb next_block_def index_set_def ind2r)
  have at: "index_of ind2r (unat (of_nat (m div 128) :: usize)) = Some x" using a len unfolding u by (simp add: index_of_def x ind2r)
  have nx: "next_block (y # nb') = Some (y, nb')" by (simp add: next_block_def)
  note np = next_position [OF m', symmetric,
      where f = "\<lambda>a b. fill_indirect2 a b (of_nat (m1 div 128)) (of_nat (m1 mod 128)) ind2r nb' dev t" for t]
  show "fill_indirect2 (of_nat (m div 128)) (of_nat (m mod 128)) (of_nat (m1 div 128)) (of_nat (m1 mod 128)) ind2 nb dev s
    = Option.bind (cache_modify IndirectBlock (ucast x) dev 0
    (\<lambda>ind1 s. do { ind1 \<leftarrow> index_set ind1 (unat (of_nat (m mod 128) :: usize)) y; Some (((), ind1), s) }) s)
    (\<lambda>(u, s). fill_indirect2 (of_nat (Suc m div 128)) (of_nat (Suc m mod 128)) (of_nat (m1 div 128)) (of_nat (m1 mod 128)) ind2r nb' dev s)"
    unfolding np by (subst fill_indirect2.simps) (simp only: if_P [OF cond] pick at nx bind.simps prod.case Let_def fs_consts)
qed

context block_store
begin

lemma does_fill_indirect2:
  assumes "length ind2 = 128" and "m \<le> m1" and "m1 \<le> 16384" and "length Ls < BLOCK_CACHE_SIZE"
    and "length nb + tot (156 + m) + (if m = 0 \<and> 0 < m1 then 1 else 0) = tot (156 + m1)"
    and "distinct (own d (ghost d ind2 V) (156 + m) @ (if m = 0 then [indirect2 d] else []) @ nb)"
    and "\<forall>b \<in> set (own d (ghost d ind2 V) (156 + m) @ nb). b \<noteq> indirect2 d \<longrightarrow> block_here Ls V b"
  shows "\<exists>ind2' V'. does content dev (fill_indirect2 (of_nat (m div 128)) (of_nat (m mod 128))
      (of_nat (m1 div 128)) (of_nat (m1 mod 128)) ind2 nb dev) Ls V ind2' V'
    \<and> length ind2' = 128 \<and> (\<forall>b. block_here Ls V b \<longrightarrow> block_here Ls V' b)
    \<and> own d (ghost d ind2' V') (156 + m1) = own d (ghost d ind2 V) (156 + m) @ (if m = 0 \<and> 0 < m1 then [indirect2 d] else []) @ nb
    \<and> (\<forall>j < (m + 127) div 128. ind2' ! j = ind2 ! j)
    \<and> (\<forall>b. V' b \<noteq> V b \<longrightarrow> (\<exists>j < (m1 + 127) div 128. b = ucast (ind2' ! j)))"
  using assms
proof (induction "m1 - m" arbitrary: m ind2 V nb)
  case 0
  then have e: "m = m1" "nb = []" by auto
  have "fill_indirect2 (of_nat (m div 128)) (of_nat (m mod 128)) (of_nat (m1 div 128)) (of_nat (m1 mod 128)) ind2 nb dev = (\<lambda>s. Some (ind2, s))"
    by (rule ext, subst fill_indirect2.simps) (simp add: e(1))
  then show ?case using e 0 by (intro exI [of _ ind2] exI [of _ V]) (auto simp: does_return)
next
  case (Suc k)
  have m: "m < m1" "m < 16384" using Suc by auto
  have a: "m div 128 < 128" using m(2) by (simp add: less_mult_imp_div_less)
  define L where "L = (if m mod 128 = 0 then 2 else 1 :: nat)"
  have tS: "tot (156 + Suc m) = tot (156 + m) + (if m = 0 then 1 else 0) + L"
    unfolding add_Suc_right tot_Suc [of "156 + m"] L_def by simp
  have "tot (156 + Suc m) \<le> tot (156 + m1)" using m by (intro tot_mono) simp
  then have "L \<le> length nb" using Suc.prems(5) m(1) unfolding tS by (simp split: if_splits)
  then obtain x0 y nb' where nb: "nb = (if m mod 128 = 0 then [x0] else []) @ y # nb'"
    by (cases nb; cases "tl nb") (auto simp: L_def split: if_splits)
  define ind2r where "ind2r = (if m mod 128 = 0 then ind2[m div 128 := x0] else ind2)"
  define x where "x = ind2r ! (m div 128)"
  define V1 where "V1 = V(ucast x \<mapsto> to_mem IndirectBlock ((from_mem IndirectBlock (the (V (ucast x))))[m mod 128 := y]))"
  have lr: "length ind2r = 128" using Suc.prems(1) by (simp add: ind2r_def)
  have xx: "m mod 128 = 0 \<Longrightarrow> x = x0" "m mod 128 = 0 \<Longrightarrow> x \<in> set nb" "m mod 128 \<noteq> 0 \<Longrightarrow> x = ind2 ! (m div 128)"
    using a Suc.prems(1) by (simp_all add: x_def ind2r_def nb)
  have fresh: "x \<noteq> indirect1 d" "x \<noteq> indirect2 d" "indirect1 d \<noteq> indirect2 d"
    "j < m div 128 \<Longrightarrow> ind2 ! j \<noteq> x \<and> ind2 ! j \<noteq> indirect2 d" for j
    by (rule round_fresh [OF Suc.prems(1) m(2) Suc.prems(6) xx(2,3)], assumption+)+
  have ir: "ind2r = (if m mod 128 = 0 then ind2[m div 128 := x] else ind2)" using xx(1) by (simp add: ind2r_def)
  have O: "own d (ghost d ind2r V1) (156 + Suc m) = own d (ghost d ind2 V) (156 + m)
    @ (if m = 0 then [indirect2 d] else []) @ (if m mod 128 = 0 then [x] else []) @ [y]"
    by (rule own_indirect2_round [OF Suc.prems(1) m(2) ir x_def V1_def fresh(1,2,3) fresh(4)])
  have xh: "block_here Ls V x"
  proof -
    have "x \<in> set (own d (ghost d ind2 V) (156 + m))" if "m mod 128 \<noteq> 0"
      using xx(3) [OF that] sub_in_own [OF Suc.prems(1) that] by simp
    then show ?thesis using Suc.prems(7) fresh(2) xx(2) by (cases "m mod 128 = 0") auto
  qed
  have h1: "\<forall>b. block_here Ls V b \<longrightarrow> block_here Ls V1 b" by (simp add: V1_def block_here_put)
  have all: "set (own d (ghost d ind2r V1) (156 + Suc m) @ nb') \<subseteq> set (own d (ghost d ind2 V) (156 + m) @ nb) \<union> {indirect2 d}"
    unfolding O using xx(1) by (auto simp: nb)
  have "\<exists>ind2' V'. does content dev (fill_indirect2 (of_nat (Suc m div 128)) (of_nat (Suc m mod 128))
      (of_nat (m1 div 128)) (of_nat (m1 mod 128)) ind2r nb' dev) Ls V1 ind2' V'
    \<and> length ind2' = 128 \<and> (\<forall>b. block_here Ls V1 b \<longrightarrow> block_here Ls V' b)
    \<and> own d (ghost d ind2' V') (156 + m1) = own d (ghost d ind2r V1) (156 + Suc m) @ (if Suc m = 0 \<and> 0 < m1 then [indirect2 d] else []) @ nb'
    \<and> (\<forall>j < (Suc m + 127) div 128. ind2' ! j = ind2r ! j)
    \<and> (\<forall>b. V' b \<noteq> V1 b \<longrightarrow> (\<exists>j < (m1 + 127) div 128. b = ucast (ind2' ! j)))"
  proof (rule Suc.hyps(1) [OF _ lr])
    show "length nb' + tot (156 + Suc m) + (if Suc m = 0 \<and> 0 < m1 then 1 else 0) = tot (156 + m1)"
      using Suc.prems(5) m(1) unfolding tS nb by (auto simp: L_def split: if_splits)
    show "distinct (own d (ghost d ind2r V1) (156 + Suc m) @ (if Suc m = 0 then [indirect2 d] else []) @ nb')"
      unfolding O using Suc.prems(6) xx(1) by (auto simp: nb split: if_splits)
    show "\<forall>b \<in> set (own d (ghost d ind2r V1) (156 + Suc m) @ nb'). b \<noteq> indirect2 d \<longrightarrow> block_here Ls V1 b"
      using all Suc.prems(7) h1 by blast
  qed (use Suc m in auto)
  then obtain ind2' V' where R: "does content dev (fill_indirect2 (of_nat (Suc m div 128)) (of_nat (Suc m mod 128))
      (of_nat (m1 div 128)) (of_nat (m1 mod 128)) ind2r nb' dev) Ls V1 ind2' V'" "length ind2' = 128"
    "\<forall>b. block_here Ls V1 b \<longrightarrow> block_here Ls V' b" "own d (ghost d ind2' V') (156 + m1) = own d (ghost d ind2r V1) (156 + Suc m) @ nb'"
    "\<forall>j < (Suc m + 127) div 128. ind2' ! j = ind2r ! j"
    "\<forall>b. V' b \<noteq> V1 b \<longrightarrow> (\<exists>j < (m1 + 127) div 128. b = ucast (ind2' ! j))" by auto
  have q: "(Suc m + 127) div 128 = m div 128 + 1" by simp
  have ex: "ind2' ! (m div 128) = x" using R(5) q by (simp add: x_def)
  have lt: "m div 128 < (m1 + 127) div 128"
    using div_le_mono [of "Suc m + 127" "m1 + 127" 128] m(1) unfolding q by simp
  have step: "fill_indirect2 (of_nat (m div 128)) (of_nat (m mod 128)) (of_nat (m1 div 128)) (of_nat (m1 mod 128)) ind2 nb dev
    = (\<lambda>s. Option.bind (cache_modify IndirectBlock (ucast x) dev 0
      (\<lambda>ind1 s. do { ind1 \<leftarrow> index_set ind1 (unat (of_nat (m mod 128) :: usize)) y; Some (((), ind1), s) }) s)
      (\<lambda>(u, s). fill_indirect2 (of_nat (Suc m div 128)) (of_nat (Suc m mod 128)) (of_nat (m1 div 128)) (of_nat (m1 mod 128)) ind2r nb' dev s))"
    by (rule fill_indirect2_round [OF m(1) Suc.prems(3,1) nb ind2r_def x_def])
  have D: "does content dev (fill_indirect2 (of_nat (m div 128)) (of_nat (m mod 128)) (of_nat (m1 div 128)) (of_nat (m1 mod 128))
      ind2 nb dev) Ls V ind2' V'"
    unfolding step by (rule does_bind [OF does_set_indirect [OF xh _ Suc.prems(4)]]) (use R(1) in \<open>simp_all add: V1_def\<close>)
  have old: "ind2' ! j = ind2 ! j" if "j < (m + 127) div 128" for j
  proof -
    have "(m + 127) div 128 = m div 128 + (if m mod 128 = 0 then 0 else 1)" using div_add1_eq [of m 127 128] by (cases "m mod 128 = 0") simp_all
    then show ?thesis using that R(5) unfolding q by (auto simp: ind2r_def split: if_splits)
  qed
  have "\<exists>j < (m1 + 127) div 128. b = ucast (ind2' ! j)" if "V' b \<noteq> V b" for b
    using R(6) that ex lt by (cases "b = ucast x") (auto simp: V1_def)
  moreover have "own d (ghost d ind2' V') (156 + m1) = own d (ghost d ind2 V) (156 + m) @ (if m = 0 \<and> 0 < m1 then [indirect2 d] else []) @ nb"
    unfolding R(4) O using m(1) xx(1) by (simp add: nb)
  ultimately show ?case using D R(2,3) h1 old by blast
qed

section \<open>The two indirect blocks\<close>

lemma does_grow_indirect1:
  assumes "block_here Ls V b" and c: "28 \<le> c1" "c2 = max c1 (min n' 156)" "28 < n'" and n: "n' \<le> 16540" "c1 \<le> 16540"
    and nb: "c2 - c1 \<le> length nb" and l: "length Ls < BLOCK_CACHE_SIZE"
  shows "does content dev (cache_modify IndirectBlock (ucast b) dev 0 (\<lambda>ind1 s. do {
      (cur, ind1, nb) \<leftarrow> fill_blocks (of_nat (c1 - 28)) (min (of_nat (n' - 28)) 128) ind1 nb;
      Some (((cur, nb), ind1), s) })) Ls V (of_nat (c2 - 28), drop (c2 - c1) nb)
    (V(ucast b \<mapsto> to_mem IndirectBlock (put_at (c1 - 28) (take (c2 - c1) nb) (from_mem IndirectBlock (the (V (ucast b)))))))"
proof -
  obtain bs where bs: "V (ucast b) = Some bs" "length bs = 512" "ucast b \<notin> set Ls" using assms(1) by (auto simp: block_here_def)
  define arr where "arr = from_mem IndirectBlock bs"
  have la: "length arr = 128" by (simp add: arr_def)
  have m: "from_mem IndirectBlock (take (unat (size_of IndirectBlock)) (drop (unat (0 :: usize)) bs)) = arr"
    using bs(2) by (simp add: arr_def IndirectBlock_def)
  define lim where "lim = min (n' - 28) 128"
  have lw: "min (of_nat (n' - 28)) 128 = (of_nat lim :: u32)"
    using min_of_nat_word [of "n' - 28" 128, where 'a=32] n unfolding lim_def by simp
  have e: "lim - (c1 - 28) = c2 - c1" "max (c1 - 28) lim = c2 - 28" using c by (auto simp: lim_def)
  have f: "fill_blocks (of_nat (c1 - 28)) (of_nat lim) arr nb
      = Some (of_nat (c2 - 28), put_at (c1 - 28) (take (c2 - c1) nb) arr, drop (c2 - c1) nb)"
    using fill_blocks_max [of lim arr "c1 - 28" nb] la nb n unfolding e by (simp add: lim_def)
  have fit: "length (put_at (c1 - 28) (take (c2 - c1) nb) arr) = 128"
  proof (cases "c1 = c2")
    case False
    then have "c2 \<le> 156" "c1 \<le> c2" using c(2) by (auto simp: max_def split: if_splits)
    then show ?thesis using la c(1) nb by (subst length_put_at) simp_all
  qed (simp add: la)
  have "does content dev (cache_modify IndirectBlock (ucast b) dev 0 (\<lambda>ind1 s. do {
      (cur, ind1, nb) \<leftarrow> fill_blocks (of_nat (c1 - 28)) (of_nat lim) ind1 nb;
      Some (((cur, nb), ind1), s) })) Ls V (of_nat (c2 - 28), drop (c2 - c1) nb)
    (V(ucast b \<mapsto> put_at (unat (0 :: usize)) (to_mem IndirectBlock (put_at (c1 - 28) (take (c2 - c1) nb) arr)) bs))"
  proof (rule does_modify [where bs = bs and V' = V])
    show "does content dev (\<lambda>s. do {
        (cur, ind1, nb) \<leftarrow> fill_blocks (of_nat (c1 - 28)) (of_nat lim)
          (from_mem IndirectBlock (take (unat (size_of IndirectBlock)) (drop (unat (0 :: usize)) bs))) nb;
        Some (((cur, nb), ind1), s) }) (ucast b # Ls) V
        ((of_nat (c2 - 28), drop (c2 - c1) nb), put_at (c1 - 28) (take (c2 - c1) nb) arr) V"
      unfolding m f bind.simps prod.case by (rule does_return)
  qed (use fit bs l in \<open>simp_all add: IndirectBlock_def BLOCK_SZ_def\<close>)
  moreover have "put_at (unat (0 :: usize)) (to_mem IndirectBlock (put_at (c1 - 28) (take (c2 - c1) nb) arr)) bs
      = to_mem IndirectBlock (put_at (c1 - 28) (take (c2 - c1) nb) arr)"
    using bs(2) fit by (simp add: put_at_def IndirectBlock_def)
  ultimately show ?thesis unfolding lw using bs(1) by (simp add: arr_def)
qed

lemma does_grow_indirect2:
  assumes b: "block_here Ls V (indirect2 d)" and l: "Suc (length Ls) < BLOCK_CACHE_SIZE" and m: "m \<le> m1" "0 < m1" "m1 \<le> 16384"
    and nb: "length nb + tot (156 + m) + (if m = 0 then 1 else 0) = tot (156 + m1)"
    and D: "distinct (own d V (156 + m) @ (if m = 0 then [indirect2 d] else []) @ nb)"
    and H: "\<forall>b \<in> set (own d V (156 + m) @ nb). block_here Ls V b"
  shows "\<exists>V'. does content dev (cache_modify IndirectBlock (ucast (indirect2 d)) dev 0 (\<lambda>ind2 s. do {
      (ind2, s) \<leftarrow> fill_indirect2 (of_nat (m div 128)) (of_nat (m mod 128)) (of_nat (m1 div 128)) (of_nat (m1 mod 128)) ind2 nb dev s;
      Some (((), ind2), s) })) Ls V () V' \<and> (\<forall>b. block_here Ls V b \<longrightarrow> block_here Ls V' b)
    \<and> own d V' (156 + m1) = own d V (156 + m) @ (if m = 0 then [indirect2 d] else []) @ nb
    \<and> (\<forall>b. V' b \<noteq> V b \<longrightarrow> b = ucast (indirect2 d) \<or> (\<exists>j < (m1 + 127) div 128. b = ucast (ind V' (indirect2 d) j)))"
proof -
  obtain bs where bs: "V (ucast (indirect2 d)) = Some bs" "length bs = 512" "ucast (indirect2 d) \<notin> set Ls"
    using b by (auto simp: block_here_def)
  define arr where "arr = from_mem IndirectBlock bs"
  have la: "length arr = 128" by (simp add: arr_def)
  have mm: "from_mem IndirectBlock (take (unat (size_of IndirectBlock)) (drop (unat (0 :: usize)) bs)) = arr"
    using bs(2) by (simp add: arr_def IndirectBlock_def)
  have g: "ghost d arr V = V" unfolding arr_def using bs(1,2) by (rule ind_back)
  have hl: "block_here (ucast (indirect2 d) # Ls) W c \<longleftrightarrow> c \<noteq> indirect2 d \<and> block_here Ls W c" for W c
    by (auto simp: block_here_def)
  obtain ind2' V' where R: "does content dev (fill_indirect2 (of_nat (m div 128)) (of_nat (m mod 128))
      (of_nat (m1 div 128)) (of_nat (m1 mod 128)) arr nb dev) (ucast (indirect2 d) # Ls) V ind2' V'"
    "length ind2' = 128" "\<forall>b. block_here (ucast (indirect2 d) # Ls) V b \<longrightarrow> block_here (ucast (indirect2 d) # Ls) V' b"
    "own d (ghost d ind2' V') (156 + m1) = own d V (156 + m) @ (if m = 0 then [indirect2 d] else []) @ nb"
    "\<forall>b. V' b \<noteq> V b \<longrightarrow> (\<exists>j < (m1 + 127) div 128. b = ucast (ind2' ! j))"
    using does_fill_indirect2 [OF la m(1,3), of "ucast (indirect2 d) # Ls" nb d V] l nb D H m(2) unfolding g hl by auto
  have "does content dev (cache_modify IndirectBlock (ucast (indirect2 d)) dev 0 (\<lambda>ind2 s. do {
      (ind2, s) \<leftarrow> fill_indirect2 (of_nat (m div 128)) (of_nat (m mod 128)) (of_nat (m1 div 128)) (of_nat (m1 mod 128)) ind2 nb dev s;
      Some (((), ind2), s) })) Ls V () (V'(ucast (indirect2 d) \<mapsto> put_at (unat (0 :: usize)) (to_mem IndirectBlock ind2') bs))"
  proof (rule does_modify [where bs = bs and V' = V'])
    show "does content dev (\<lambda>s. do { (ind2, s) \<leftarrow> fill_indirect2 (of_nat (m div 128)) (of_nat (m mod 128)) (of_nat (m1 div 128))
        (of_nat (m1 mod 128)) (from_mem IndirectBlock (take (unat (size_of IndirectBlock)) (drop (unat (0 :: usize)) bs))) nb dev s;
        Some (((), ind2), s) }) (ucast (indirect2 d) # Ls) V ((), ind2') V'"
      unfolding mm by (rule does_bind [OF R(1)]) (rule does_return)
  qed (use R(2) bs l in \<open>simp_all add: IndirectBlock_def BLOCK_SZ_def\<close>)
  moreover have "put_at (unat (0 :: usize)) (to_mem IndirectBlock ind2') bs = to_mem IndirectBlock ind2'"
    using bs(2) R(2) by (simp add: put_at_def IndirectBlock_def)
  moreover have "block_here Ls (ghost d ind2' V') c" if "block_here Ls V c" for c
    using R(2,3) that b unfolding hl by (cases "c = indirect2 d") (auto simp: block_here_def IndirectBlock_def)
  ultimately show ?thesis using R(4,5) by (intro exI [of _ "ghost d ind2' V'"]) (auto simp: ind_put [OF R(2)])
qed

end

section \<open>\<open>increase_size\<close>\<close>

text \<open>What is left to do after the block \<open>indirect1\<close>.\<close>

definition grow_tail :: "DiskInode \<Rightarrow> u32 \<Rightarrow> 'd dyn_device \<Rightarrow> u32 \<Rightarrow> u32 list \<Rightarrow> 'd io \<Rightarrow> (DiskInode \<times> 'd io) option" where
  "grow_tail d lim dev cur nb s = (if lim > 128 then do {
     (d, nb) \<leftarrow> (if cur = 128 then do { (x, nb) \<leftarrow> next_block nb; Some (d\<lparr>indirect2 := x\<rparr>, nb) } else Some (d, nb));
     let cur = cur - 128;
     let lim = lim - 128;
     (u, s) \<leftarrow> cache_modify IndirectBlock (ucast (indirect2 d)) dev 0 (\<lambda>ind2 s. do {
        (ind2, s) \<leftarrow> fill_indirect2 (ucast cur div 128) (ucast cur mod 128) (ucast lim div 128) (ucast lim mod 128) ind2 nb dev s;
        Some (((), ind2), s) }) s;
     Some (d, s) }
   else Some (d, s))"

lemma data_blocks_word: "unat (di_size d) \<le> 16540 * 512 \<Longrightarrow> data_blocks d = of_nat (n_blocks d)"
  using arg_cong [OF unat_data_blocks_of [of "di_size d"], where f = "of_nat :: nat \<Rightarrow> u32"]
  by (simp add: data_blocks_def n_blocks_def)

lemma increase_size_eq:
  assumes sz: "unat (di_size d) \<le> unat z" "unat z \<le> 16540 * 512" and len: "length (direct d) = 28"
    and n: "n = n_blocks d" "n' = (unat z + 511) div 512" and c1: "c1 = max n (min n' 28)" and nb: "c1 - n \<le> length nb"
  shows "disk_inode_increase_size z nb dev d s =
    (let d1 = d\<lparr>di_size := z, direct := put_at n (take (c1 - n) nb) (direct d)\<rparr>; nb1 = drop (c1 - n) nb in
     if 28 < n' then do {
       (d2, nb2) \<leftarrow> (if c1 = 28 then do { (x, nb2) \<leftarrow> next_block nb1; Some (d1\<lparr>indirect1 := x\<rparr>, nb2) } else Some (d1, nb1));
       ((cur, nb), s) \<leftarrow> cache_modify IndirectBlock (ucast (indirect1 d2)) dev 0 (\<lambda>ind1 s. do {
         (cur, ind1, nb) \<leftarrow> fill_blocks (of_nat (c1 - 28)) (min (of_nat (n' - 28)) 128) ind1 nb2;
         Some (((cur, nb), ind1), s) }) s;
       grow_tail d2 (of_nat (n' - 28)) dev cur nb s }
     else Some (d1, s))"
proof -
  have b: "n \<le> n'" "n' \<le> 16540" using sz by (simp_all add: n n_blocks_def div_le_mono)
  have w: "data_blocks d = of_nat n" "data_blocks (d\<lparr>di_size := z\<rparr>) = of_nat n'"
    using sz data_blocks_word [of d] data_blocks_word [of "d\<lparr>di_size := z\<rparr>"] by (simp_all add: n n_blocks_def)
  have m: "min (of_nat n') (28) = (of_nat (min n' 28) :: u32)"
    using min_of_nat_word [of n' 28, where 'a=32] b by simp
  have f: "fill_blocks (of_nat n) (of_nat (min n' 28)) (direct d) nb = Some (of_nat c1, put_at n (take (c1 - n) nb) (direct d), drop (c1 - n) nb)"
  proof -
    have e: "min n' 28 - n = c1 - n" using c1 by auto
    show ?thesis using fill_blocks_max [of "min n' 28" "direct d" n nb] nb len b unfolding e c1 [symmetric] by simp
  qed
  have l: "28 < (of_nat n' :: u32) \<longleftrightarrow> 28 < n'"
    using of_nat_less_iff_word [of 28 n', where 'a=32] b by simp
  have q: "(of_nat c1 :: u32) = 28 \<longleftrightarrow> c1 = 28"
    using of_nat_eq_iff_word [of c1 28, where 'a=32] b c1 by simp
  have s1: "(of_nat c1 :: u32) - 28 = of_nat (c1 - 28)" "(of_nat n' :: u32) - 28 = of_nat (n' - 28)"
    if "28 < n'"
    using of_nat_sub [of 28 c1, where 'a=32] of_nat_sub [of 28 n', where 'a=32] that c1 by (simp_all add: fs_consts)
  have uc: "INODE_DIRECT_COUNT = 28" "INODE_INDIRECT1_COUNT = 128" "(ucast (28 :: usize) :: u32) = 28" "(ucast (128 :: usize) :: u32) = 128"
    by (simp_all add: fs_consts)
  have dd: "direct (d\<lparr>di_size := z\<rparr>) = direct d" by simp
  show ?thesis
    by (cases "28 < n'") (simp_all only: disk_inode_increase_size_def grow_tail_def Let_def uc w m dd f bind.simps prod.case l q s1
        if_True if_False)
qed

lemma grow_tail_eq:
  assumes n: "n' \<le> 16540" "28 < n'" and c2: "28 \<le> c2" "c2 \<le> n'" "156 < n' \<Longrightarrow> 156 \<le> c2"
  shows "grow_tail d (of_nat (n' - 28)) dev (of_nat (c2 - 28)) nb s = (if 156 < n' then do {
       (d, nb) \<leftarrow> (if c2 = 156 then do { (x, nb) \<leftarrow> next_block nb; Some (d\<lparr>indirect2 := x\<rparr>, nb) } else Some (d, nb));
       (u, s) \<leftarrow> cache_modify IndirectBlock (ucast (indirect2 d)) dev 0 (\<lambda>ind2 s. do {
          (ind2, s) \<leftarrow> fill_indirect2 (of_nat ((c2 - 156) div 128)) (of_nat ((c2 - 156) mod 128))
            (of_nat ((n' - 156) div 128)) (of_nat ((n' - 156) mod 128)) ind2 nb dev s;
          Some (((), ind2), s) }) s;
       Some (d, s) }
     else Some (d, s))"
proof (cases "156 < n'")
  case True
  have l: "(128 :: u32) < of_nat (n' - 28)" using of_nat_less_iff_word [of 128 "n' - 28", where 'a=32] n True by simp
  have q: "(of_nat (c2 - 28) :: u32) = 128 \<longleftrightarrow> c2 = 156"
    using of_nat_eq_iff_word [of "c2 - 28" 128, where 'a=32] n c2 True by auto
  have s: "of_nat (k - 28) - 128 = (of_nat (k - 156) :: u32)" if "156 \<le> k" for k
    using of_nat_sub [of 128 "k - 28", where 'a=32] that by simp
  have w: "(ucast (of_nat k :: u32) :: usize) div 128 = of_nat (k div 128)" "(ucast (of_nat k :: u32) :: usize) mod 128 = of_nat (k mod 128)"
    if "k \<le> 16540" for k
    using that of_nat_div_word [of k 128, where 'a=64] of_nat_mod_word [of k 128, where 'a=64] by (simp_all add: ucast_of_nat_small)
  have k: "156 \<le> c2" "156 \<le> n'" "c2 - 156 \<le> 16540" "n' - 156 \<le> 16540" using True c2 n by auto
  show ?thesis using True l unfolding grow_tail_def q Let_def s [OF k(1)] s [OF k(2)] w [OF k(3)] w [OF k(4)] by (simp only: if_True)
next
  case False
  have "\<not> (128 :: u32) < of_nat (n' - 28)" using of_nat_less_iff_word [of 128 "n' - 28", where 'a=32] n False by simp
  then show ?thesis using False by (simp add: grow_tail_def)
qed

lemma sub_meta: "j < (m1 + 127) div 128 \<Longrightarrow> ind V (indirect2 d) j \<in> meta_blocks d V (156 + m1)"
proof -
  assume "j < (m1 + 127) div 128"
  then have "Suc j \<le> (m1 + 127) div 128" by simp
  then have "Suc j * 128 \<le> (m1 + 127) div 128 * 128" by (rule mult_le_mono1)
  also have "\<dots> \<le> m1 + 127" by (rule div_times_less_eq_dividend)
  finally have "156 + j * 128 < 156 + m1" by simp
  from meta_members(3) [of "156 + j * 128", OF _ this] show ?thesis by simp
qed

lemma own_same_below: "direct d = direct d' \<Longrightarrow> indirect1 d = indirect1 d' \<Longrightarrow> n \<le> 156 \<Longrightarrow> own d V n = own d' V n"
  by (rule own_cong, rule piece_cong) (simp_all add: block_no_def)

context block_store
begin

lemma does_grow_tail:
  assumes n: "n' \<le> 16540" "28 < n'" and c2: "28 \<le> c2" "c2 \<le> n'" "156 < n' \<Longrightarrow> 156 \<le> c2" "n' \<le> 156 \<Longrightarrow> c2 = n'"
    and l: "Suc (length Ls) < BLOCK_CACHE_SIZE" and nb: "length nb + tot c2 = tot n'" and D: "distinct (own d V c2 @ nb)"
    and H: "\<forall>b \<in> set (own d V c2 @ nb). block_here Ls V b"
  shows "\<exists>x V'. does content dev (grow_tail d (of_nat (n' - 28)) dev (of_nat (c2 - 28)) nb) Ls V (d\<lparr>indirect2 := x\<rparr>) V'
    \<and> own (d\<lparr>indirect2 := x\<rparr>) V' n' = own d V c2 @ nb \<and> (\<forall>b. block_here Ls V b \<longrightarrow> block_here Ls V' b)
    \<and> (\<forall>b. V' b \<noteq> V b \<longrightarrow> b \<in> ucast ` meta_blocks (d\<lparr>indirect2 := x\<rparr>) V' n')"
proof (cases "156 < n'")
  case False
  then have e: "c2 = n'" using c2 by simp
  then have "nb = []" using nb by simp
  moreover have "grow_tail d (of_nat (n' - 28)) dev (of_nat (c2 - 28)) nb = (\<lambda>s. Some (d, s))"
    using False by (intro ext) (simp only: grow_tail_eq [OF n c2(1,2,3)] if_False)
  ultimately show ?thesis using e by (intro exI [of _ "indirect2 d"] exI [of _ V]) (simp add: does_return)
next
  case True
  define m m1 where "m = c2 - 156" and "m1 = n' - 156"
  have mm: "c2 = 156 + m" "n' = 156 + m1" "m \<le> m1" "0 < m1" "m1 \<le> 16384" using True c2 n by (auto simp: m_def m1_def)
  have t: "tot 156 < tot n'" using tot_mono [of "Suc 156" n'] True by (simp add: tot_def)
  obtain x nb2 where x: "nb = (if m = 0 then [x] else []) @ nb2" "m \<noteq> 0 \<Longrightarrow> x = indirect2 d"
    using nb t mm(1) by (cases nb; cases "m = 0") auto
  define d3 where "d3 = d\<lparr>indirect2 := x\<rparr>"
  have d3: "indirect2 d3 = x" "m \<noteq> 0 \<Longrightarrow> d3 = d" using x(2) by (simp_all add: d3_def)
  have o: "own d3 V (156 + m) = own d V c2"
    using d3(2) mm(1) own_same_below [of d3 d 156 V] by (cases "m = 0") (simp_all add: d3_def)
  have xin: "x \<in> set (own d V c2 @ nb)"
    using x metas_in_own(2) [of m d V] mm(1) by (cases "m = 0") auto
  have prog: "grow_tail d (of_nat (n' - 28)) dev (of_nat (c2 - 28)) nb = (\<lambda>s. Option.bind
      (cache_modify IndirectBlock (ucast (indirect2 d3)) dev 0 (\<lambda>ind2 s. do {
          (ind2, s) \<leftarrow> fill_indirect2 (of_nat (m div 128)) (of_nat (m mod 128))
            (of_nat (m1 div 128)) (of_nat (m1 mod 128)) ind2 nb2 dev s;
          Some (((), ind2), s) }) s) (\<lambda>(u, s). Some (d3, s)))"
  proof
    fix s
    have "(if c2 = 156 then do { (x, nb) \<leftarrow> next_block nb; Some (d\<lparr>indirect2 := x\<rparr>, nb) } else Some (d, nb)) = Some (d3, nb2)"
      using x d3 mm(1) by (cases "m = 0") (simp_all add: next_block_def d3_def)
    then show "grow_tail d (of_nat (n' - 28)) dev (of_nat (c2 - 28)) nb s = Option.bind
      (cache_modify IndirectBlock (ucast (indirect2 d3)) dev 0 (\<lambda>ind2 s. do {
          (ind2, s) \<leftarrow> fill_indirect2 (of_nat (m div 128)) (of_nat (m mod 128))
            (of_nat (m1 div 128)) (of_nat (m1 mod 128)) ind2 nb2 dev s;
          Some (((), ind2), s) }) s) (\<lambda>(u, s). Some (d3, s))"
      by (simp only: grow_tail_eq [OF n c2(1,2,3)] if_P [OF True] m_def m1_def bind.simps prod.case)
  qed
  obtain V' where R: "does content dev (cache_modify IndirectBlock (ucast (indirect2 d3)) dev 0 (\<lambda>ind2 s. do {
      (ind2, s) \<leftarrow> fill_indirect2 (of_nat (m div 128)) (of_nat (m mod 128)) (of_nat (m1 div 128)) (of_nat (m1 mod 128)) ind2 nb2 dev s;
      Some (((), ind2), s) })) Ls V () V'" "\<forall>b. block_here Ls V b \<longrightarrow> block_here Ls V' b"
    "own d3 V' (156 + m1) = own d V c2 @ (if m = 0 then [x] else []) @ nb2"
    "\<forall>b. V' b \<noteq> V b \<longrightarrow> b = ucast (indirect2 d3) \<or> (\<exists>j < (m1 + 127) div 128. b = ucast (ind V' (indirect2 d3) j))"
    using does_grow_indirect2 [of Ls V d3 m m1 nb2] H xin l mm(3-5) nb D unfolding o d3(1) mm(1,2) x(1) by (auto split: if_splits)
  have "b \<in> ucast ` meta_blocks d3 V' n'" if "V' b \<noteq> V b" for b
    using R(4) that sub_meta [of _ m1 V' d3] meta_members(2) [of n' d3 V'] True unfolding mm(2) by blast
  then show ?thesis using does_bind [OF R(1), of "\<lambda>u s. Some (d3, s)" d3 V'] does_return [of d3 Ls V'] R(2,3) x(1) mm(2)
    unfolding prog d3_def [symmetric] by (intro exI [of _ x] exI [of _ V']) (simp add: d3_def)
qed

lemma does_grow_rest:
  assumes n: "n' \<le> 16540" "28 < n'" and c1: "28 \<le> c1" "c1 \<le> n'" and l: "Suc (length Ls) < BLOCK_CACHE_SIZE"
    and nb: "length nb + tot c1 = tot n'" and D: "distinct (own d V c1 @ nb)" and H: "\<forall>b \<in> set (own d V c1 @ nb). block_here Ls V b"
  shows "\<exists>d' V'. does content dev (\<lambda>s. do {
       (d2, nb2) \<leftarrow> (if c1 = 28 then do { (x, nb2) \<leftarrow> next_block nb; Some (d\<lparr>indirect1 := x\<rparr>, nb2) } else Some (d, nb));
       ((cur, nb), s) \<leftarrow> cache_modify IndirectBlock (ucast (indirect1 d2)) dev 0 (\<lambda>ind1 s. do {
         (cur, ind1, nb) \<leftarrow> fill_blocks (of_nat (c1 - 28)) (min (of_nat (n' - 28)) 128) ind1 nb2;
         Some (((cur, nb), ind1), s) }) s;
       grow_tail d2 (of_nat (n' - 28)) dev cur nb s }) Ls V d' V'
    \<and> di_size d' = di_size d \<and> di_type d' = di_type d \<and> direct d' = direct d \<and> own d' V' n' = own d V c1 @ nb
    \<and> (\<forall>b. block_here Ls V b \<longrightarrow> block_here Ls V' b) \<and> (\<forall>b. V' b \<noteq> V b \<longrightarrow> b \<in> ucast ` meta_blocks d' V' n')"
proof -
  define c2 where "c2 = max c1 (min n' 156)"
  have c2: "28 \<le> c2" "c2 \<le> n'" "156 < n' \<Longrightarrow> 156 \<le> c2" "n' \<le> 156 \<Longrightarrow> c2 = n'" "c1 \<le> c2" "c2 \<le> 156 \<or> c2 = c1" "28 < c2"
    using c1 n by (auto simp: c2_def)
  have t: "tot c2 = tot c1 + (if c1 = 28 then 1 else 0) + (c2 - c1)"
    using c1(1) c2(5-7) by (auto simp: tot_def)
  then have len: "(if c1 = 28 then 1 else 0) + (c2 - c1) \<le> length nb" using tot_mono [OF c2(2)] nb by (simp split: if_splits)
  then obtain x nb2 where x: "nb = (if c1 = 28 then [x] else []) @ nb2" "c1 \<noteq> 28 \<Longrightarrow> x = indirect1 d"
    by (cases nb; cases "c1 = 28") auto
  define d2 where "d2 = d\<lparr>indirect1 := x\<rparr>"
  have d2: "indirect1 d2 = x" "d2 = (if c1 = 28 then d\<lparr>indirect1 := x\<rparr> else d)" using x(2) by (simp_all add: d2_def)
  have xin: "x \<in> set (own d V c1 @ nb)"
    using x c1 piece_in_own [of 28 c1 d V] by (cases "c1 = 28") (auto simp: piece_def)
  then have xh: "block_here Ls V x" using H by blast
  obtain bs where bs: "V (ucast (indirect1 d2)) = Some bs" "length bs = 512" using xh d2(1) by (auto simp: block_here_def)
  have f2: "c2 - c1 \<le> length nb2" using len x(1) by (simp split: if_splits)
  define V2 where "V2 = V(ucast (indirect1 d2) \<mapsto> to_mem IndirectBlock (put_at (c1 - 28) (take (c2 - c1) nb2) (from_mem IndirectBlock bs)))"
  define nb3 where "nb3 = drop (c2 - c1) nb2"
  have o: "own d2 V2 c2 = own d V c1 @ (if c1 = 28 then [x] else []) @ take (c2 - c1) nb2"
    unfolding V2_def by (rule own_indirect1 [where V = V, OF c1(1) c2(5,6,7) f2 d2(2) bs])
  have all: "own d2 V2 c2 @ nb3 = own d V c1 @ nb" using x(1) by (simp add: o nb3_def)
  have W: "does content dev (cache_modify IndirectBlock (ucast (indirect1 d2)) dev 0 (\<lambda>ind1 s. do {
         (cur, ind1, nb) \<leftarrow> fill_blocks (of_nat (c1 - 28)) (min (of_nat (n' - 28)) 128) ind1 nb2;
         Some (((cur, nb), ind1), s) })) Ls V (of_nat (c2 - 28), nb3) V2"
    using does_grow_indirect1 [OF _ c1(1) c2_def n(2,1) _ f2, of Ls V "indirect1 d2"] xh d2(1) c1 n l bs(1)
    unfolding V2_def nb3_def by simp
  have h2: "block_here Ls V2 b" if "block_here Ls V b" for b
    unfolding V2_def by (rule block_here_put [OF that]) (use c1 c2 f2 in \<open>cases "c1 = c2"; simp\<close>)
  have T: "\<exists>y V'. does content dev (grow_tail d2 (of_nat (n' - 28)) dev (of_nat (c2 - 28)) nb3) Ls V2 (d2\<lparr>indirect2 := y\<rparr>) V'
    \<and> own (d2\<lparr>indirect2 := y\<rparr>) V' n' = own d2 V2 c2 @ nb3 \<and> (\<forall>b. block_here Ls V2 b \<longrightarrow> block_here Ls V' b)
    \<and> (\<forall>b. V' b \<noteq> V2 b \<longrightarrow> b \<in> ucast ` meta_blocks (d2\<lparr>indirect2 := y\<rparr>) V' n')"
  proof (rule does_grow_tail [OF n c2(1-4) l])
    show "length nb3 + tot c2 = tot n'" using arg_cong [OF all, where f = length] nb by (simp add: length_own)
    show "distinct (own d2 V2 c2 @ nb3)" unfolding all by (rule D)
    show "\<forall>b \<in> set (own d2 V2 c2 @ nb3). block_here Ls V2 b" unfolding all using H h2 by blast
  qed simp_all
  then obtain y V' where R: "does content dev (grow_tail d2 (of_nat (n' - 28)) dev (of_nat (c2 - 28)) nb3) Ls V2 (d2\<lparr>indirect2 := y\<rparr>) V'"
    "own (d2\<lparr>indirect2 := y\<rparr>) V' n' = own d V c1 @ nb" "\<forall>b. block_here Ls V2 b \<longrightarrow> block_here Ls V' b"
    "\<forall>b. V' b \<noteq> V2 b \<longrightarrow> b \<in> ucast ` meta_blocks (d2\<lparr>indirect2 := y\<rparr>) V' n'"
    unfolding all by blast
  have pick: "(if c1 = 28 then do { (x, nb2) \<leftarrow> next_block nb; Some (d\<lparr>indirect1 := x\<rparr>, nb2) } else Some (d, nb)) = Some (d2, nb2)"
    using x d2 by (cases "c1 = 28") (simp_all add: next_block_def)
  have P: "does content dev (\<lambda>s. Option.bind (cache_modify IndirectBlock (ucast (indirect1 d2)) dev 0 (\<lambda>ind1 s. do {
         (cur, ind1, nb) \<leftarrow> fill_blocks (of_nat (c1 - 28)) (min (of_nat (n' - 28)) 128) ind1 nb2;
         Some (((cur, nb), ind1), s) }) s) (\<lambda>(r, s). (\<lambda>(cur, nb). grow_tail d2 (of_nat (n' - 28)) dev cur nb) r s)) Ls V (d2\<lparr>indirect2 := y\<rparr>) V'"
    by (rule does_bind [OF W]) (use R(1) in simp)
  have "b \<in> ucast ` meta_blocks (d2\<lparr>indirect2 := y\<rparr>) V' n'" if "V' b \<noteq> V b" for b
  proof (cases "b = ucast (indirect1 d2)")
    case True
    then show ?thesis using n(2) meta_members(1) [of n' "d2\<lparr>indirect2 := y\<rparr>" V'] by simp
  next
    case False
    then have "V2 b = V b" by (simp add: V2_def)
    then show ?thesis using R(4) that by simp
  qed
  moreover have "(\<lambda>(r, s). (\<lambda>(cur, nb). grow_tail d2 (of_nat (n' - 28)) dev cur nb) r s) = (\<lambda>((cur, nb), s). grow_tail d2 (of_nat (n' - 28)) dev cur nb s)"
    by (auto simp: fun_eq_iff)
  ultimately show ?thesis using P R(2,3) h2 unfolding pick bind.simps prod.case
    by (intro exI [of _ "d2\<lparr>indirect2 := y\<rparr>"] exI [of _ V']) (simp add: d2_def)
qed

text \<open>Growing an inode adds the new blocks to its blocks and writes only to its indirect blocks.\<close>

lemma does_increase_size:
  assumes sz: "unat (di_size d) \<le> unat z" "unat z \<le> 16540 * 512" and len: "length (direct d) = 28"
    and n: "n = n_blocks d" "n' = (unat z + 511) div 512" and l: "Suc (length Ls) < BLOCK_CACHE_SIZE"
    and nb: "length nb + tot n = tot n'" and D: "distinct (own d V n @ nb)" and H: "\<forall>b \<in> set (own d V n @ nb). block_here Ls V b"
  shows "\<exists>d' V'. does content dev (disk_inode_increase_size z nb dev d) Ls V d' V'
    \<and> di_size d' = z \<and> di_type d' = di_type d \<and> length (direct d') = 28 \<and> own d' V' n' = own d V n @ nb
    \<and> (\<forall>b. block_here Ls V b \<longrightarrow> block_here Ls V' b) \<and> (\<forall>b. V' b \<noteq> V b \<longrightarrow> b \<in> ucast ` meta_blocks d' V' n')"
proof -
  define c1 where "c1 = max n (min n' 28)"
  have b: "n \<le> n'" "n' \<le> 16540" using sz by (simp_all add: n n_blocks_def div_le_mono)
  have c1b: "n \<le> c1" "c1 \<le> n'" "c1 \<le> 28 \<or> c1 = n" using b by (auto simp: c1_def)
  have f1: "c1 - n \<le> length nb"
  proof -
    have "tot c1 = tot n + (c1 - n)" if "c1 \<noteq> n" using that c1b by (auto simp: tot_def)
    then show ?thesis using tot_mono [OF c1b(2)] nb by (cases "c1 = n") auto
  qed
  define d1 where "d1 = d\<lparr>di_size := z, direct := put_at n (take (c1 - n) nb) (direct d)\<rparr>"
  define nb1 where "nb1 = drop (c1 - n) nb"
  note eq = increase_size_eq [OF sz len n c1_def f1, unfolded Let_def, folded d1_def nb1_def]
  have o1: "own d1 V c1 = own d V n @ take (c1 - n) nb" "length (direct d1) = 28"
    unfolding d1_def by (rule own_direct [OF len c1b(1,3) f1])+
  have all1: "own d1 V c1 @ nb1 = own d V n @ nb" by (simp add: o1 nb1_def)
  have nb1: "length nb1 + tot c1 = tot n'" using arg_cong [OF all1, where f = length] nb by (simp add: length_own)
  show ?thesis
  proof (cases "28 < n'")
    case False
    then have "c1 = n'" using b by (auto simp: c1_def)
    moreover have "disk_inode_increase_size z nb dev d = (\<lambda>s. Some (d1, s))" using False by (simp add: eq fun_eq_iff)
    ultimately show ?thesis using all1 nb1 o1(2) by (intro exI [of _ d1] exI [of _ V]) (simp add: does_return d1_def)
  next
    case True
    have "28 \<le> c1" using True by (auto simp: c1_def)
    obtain d' V' where R: "does content dev (\<lambda>s. do {
       (d2, nb2) \<leftarrow> (if c1 = 28 then do { (x, nb2) \<leftarrow> next_block nb1; Some (d1\<lparr>indirect1 := x\<rparr>, nb2) } else Some (d1, nb1));
       ((cur, nb), s) \<leftarrow> cache_modify IndirectBlock (ucast (indirect1 d2)) dev 0 (\<lambda>ind1 s. do {
         (cur, ind1, nb) \<leftarrow> fill_blocks (of_nat (c1 - 28)) (min (of_nat (n' - 28)) 128) ind1 nb2;
         Some (((cur, nb), ind1), s) }) s;
       grow_tail d2 (of_nat (n' - 28)) dev cur nb s }) Ls V d' V'"
      "di_size d' = di_size d1" "di_type d' = di_type d1" "direct d' = direct d1" "own d' V' n' = own d1 V c1 @ nb1"
      "\<forall>b. block_here Ls V b \<longrightarrow> block_here Ls V' b" "\<forall>b. V' b \<noteq> V b \<longrightarrow> b \<in> ucast ` meta_blocks d' V' n'"
      using does_grow_rest [OF b(2) True \<open>28 \<le> c1\<close> c1b(2) l nb1 D [folded all1] H [folded all1]] by blast
    show ?thesis using R(1) [folded eq [unfolded if_P [OF True]]] R(2-7) o1(2) unfolding all1
      by (intro exI [of _ d'] exI [of _ V']) (simp add: d1_def)
  qed
qed

end

end
