(* ===== verification/FsClear.thy ===== *)
theory FsClear
  imports FsIncrease
begin

text \<open>
  \<open>clear_size\<close> of a disk inode returns the list \<open>own\<close> of its blocks.
\<close>

section \<open>The blocks of an inode in runs\<close>

lemma own_direct_run: "length (direct d) = 28 \<Longrightarrow> k \<le> 28 \<Longrightarrow> own d V k = take k (direct d)"
proof (induction k)
  case (Suc k)
  then show ?case by (simp add: own_Suc piece_def block_no_def take_Suc_conv_app_nth)
qed (simp add: own_def)

lemma ind_eq: "ind V b i = from_mem IndirectBlock (the (V (ucast b))) ! i"
  by (simp add: ind_def)

lemma own_indirect1_run:
  "k \<le> 128 \<Longrightarrow> own d V (28 + k) = own d V 28 @ (if 0 < k then [indirect1 d] else []) @ take k (from_mem IndirectBlock (the (V (ucast (indirect1 d)))))"
proof (induction k)
  case (Suc k)
  have "own d V (28 + Suc k) = own d V (28 + k) @ piece d V (28 + k)" unfolding add_Suc_right by (rule own_Suc)
  then show ?case using Suc by (simp add: piece_def block_no_def take_Suc_conv_app_nth ind_eq)
qed simp

abbreviation sub_run :: "DiskInode \<Rightarrow> (usize \<Rightarrow> u8 list option) \<Rightarrow> nat \<Rightarrow> nat \<Rightarrow> u32 list" where
  "sub_run d V k a \<equiv> ind V (indirect2 d) a # take k (from_mem IndirectBlock (the (V (ucast (ind V (indirect2 d) a)))))"

lemma own_indirect2_run:
  "own d V (156 + m) = own d V 156 @ (if 0 < m then [indirect2 d] else [])
    @ concat (map (sub_run d V 128) [0..<m div 128]) @ (if 0 < m mod 128 then sub_run d V (m mod 128) (m div 128) else [])"
proof (induction m)
  case (Suc m)
  let ?r = "m mod 128" and ?q = "m div 128"
  have "own d V (156 + Suc m) = own d V (156 + m) @ piece d V (156 + m)" unfolding add_Suc_right by (rule own_Suc)
  also have "piece d V (156 + m) = (if m = 0 then [indirect2 d] else []) @ (if ?r = 0 then [ind V (indirect2 d) ?q] else [])
      @ [from_mem IndirectBlock (the (V (ucast (ind V (indirect2 d) ?q)))) ! ?r]"
    by (simp add: piece_def block_no_def ind_eq)
  finally have o: "own d V (156 + Suc m) = own d V (156 + m) @ \<dots>" .
  have s: "(if ?r = 0 then [] else sub_run d V ?r ?q) @ (if ?r = 0 then [ind V (indirect2 d) ?q] else [])
      @ [from_mem IndirectBlock (the (V (ucast (ind V (indirect2 d) ?q)))) ! ?r] = sub_run d V (Suc ?r) ?q"
    by (simp add: take_Suc_conv_app_nth)
  have e: "own d V (156 + Suc m) = own d V 156 @ [indirect2 d] @ concat (map (sub_run d V 128) [0..<?q]) @ sub_run d V (Suc ?r) ?q"
    unfolding o Suc.IH s [symmetric] by (cases "m = 0") auto
  show ?case
  proof (cases "Suc ?r = 128")
    case True
    then have "Suc m mod 128 = 0" "Suc m div 128 = Suc ?q" by (simp_all add: mod_Suc div_Suc)
    then show ?thesis unfolding e True by simp
  next
    case False
    then have "Suc m mod 128 = Suc ?r" "Suc m div 128 = ?q" by (simp_all add: mod_Suc div_Suc)
    then show ?thesis unfolding e by simp
  qed
qed simp

section \<open>The loops\<close>

lemma clear_direct_spec:
  "k \<le> length dir \<Longrightarrow> foldM clear_direct_step [0..<k] (v, dir) = Some (v @ take k dir, replicate k 0 @ drop k dir)"
proof (induction k)
  case (Suc k)
  have u: "(replicate k 0 @ drop k dir)[k := 0] = replicate (Suc k) 0 @ drop (Suc k) dir"
    using Suc.prems by (simp add: list_update_append Cons_nth_drop_Suc [symmetric] replicate_app_Cons_same)
  have "clear_direct_step k (v @ take k dir, replicate k 0 @ drop k dir) = Some (v @ take (Suc k) dir, replicate (Suc k) 0 @ drop (Suc k) dir)"
    unfolding clear_direct_step_def prod.case u using Suc.prems by (simp add: index_of_def nth_append take_Suc_conv_app_nth)
  then show ?case using Suc by (simp add: foldM_append)
qed simp

lemma collect_blocks_spec: "k \<le> length arr \<Longrightarrow> collect_blocks k arr v = Some (v @ take k arr)"
  unfolding collect_blocks_def
proof (induction k)
  case (Suc k)
  then have "foldM (\<lambda>i v. do { x \<leftarrow> index_of arr i; Some (v @ [x]) }) ([0..<k] @ [k]) v = Some (v @ take (Suc k) arr)"
    by (simp add: foldM_append index_of_def take_Suc_conv_app_nth)
  then show ?case by simp
qed simp

text \<open>The machine arithmetic of \<open>clear_size\<close> in numbers.\<close>

lemma clear_size_eq:
  assumes sz: "unat (di_size d) \<le> 16540 * 512" and len: "length (direct d) = 28" and n: "n = n_blocks d" and k: "k = min n 28"
    and d1: "d1 = d\<lparr>di_size := 0, direct := replicate k 0 @ drop k (direct d)\<rparr>" and m: "m = n - 156"
  shows "clear_size dev d s = (if 28 < n then do {
      (v, s) \<leftarrow> cache_modify IndirectBlock (ucast (indirect1 d)) dev 0 (\<lambda>ind1 s. do {
         v \<leftarrow> collect_blocks (min (n - 28) 128) ind1 (take k (direct d) @ [indirect1 d]); Some ((v, ind1), s) }) s;
      if 156 < n then do {
        (v, s) \<leftarrow> cache_modify IndirectBlock (ucast (indirect2 d)) dev 0 (\<lambda>ind2 s. do {
           (v, s) \<leftarrow> foldM (collect_indirect 128 ind2 dev) [0..<m div 128] (v @ [indirect2 d], s);
           (v, s) \<leftarrow> (if 0 < m mod 128 then collect_indirect (m mod 128) ind2 dev (m div 128) (v, s) else Some (v, s));
           Some ((v, ind2), s) }) s;
        Some ((v, d1\<lparr>indirect1 := 0, indirect2 := 0\<rparr>), s) }
      else Some ((v, d1\<lparr>indirect1 := 0\<rparr>), s) }
    else Some ((take k (direct d), d1), s))"
proof -
  have b: "n \<le> 16540" using sz by (simp add: n n_blocks_def)
  have w: "(ucast (data_blocks d) :: usize) = of_nat n" using data_blocks_word [OF sz] b by (simp add: n ucast_of_nat_small)
  have u: "unat (of_nat j :: usize) = j" if "j \<le> 16540" for j using that by (simp add: unat_of_nat_less)
  have k': "unat (min (of_nat n) 28 :: usize) = k" using min_of_nat_word [of n 28, where 'a=64] b u [of k] by (simp add: k)
  have f: "foldM clear_direct_step [0..<k] ([], direct d) = Some (take k (direct d), replicate k 0 @ drop k (direct d))"
    using clear_direct_spec [of k "direct d" "[]"] len by (simp add: k)
  have l: "(28 :: usize) < of_nat n \<longleftrightarrow> 28 < n" using of_nat_less_iff_word [of 28 n, where 'a=64] b by simp
  have s1: "(of_nat n :: usize) - 28 = of_nat (n - 28)" if "28 < n" using of_nat_sub [of 28 n, where 'a=64] that by simp
  have mm: "unat (min (of_nat (n - 28)) 128 :: usize) = min (n - 28) 128"
    using min_of_nat_word [of "n - 28" 128, where 'a=64] b u [of "min (n - 28) 128"] by simp
  have l2: "(128 :: usize) < of_nat (n - 28) \<longleftrightarrow> 156 < n" using of_nat_less_iff_word [of 128 "n - 28", where 'a=64] b by auto
  have s2: "(of_nat (n - 28) :: usize) - 128 = of_nat m" if "156 < n" using of_nat_sub [of 128 "n - 28", where 'a=64] that by (simp add: m)
  have le: "(of_nat m :: usize) \<le> 16384" using of_nat_le_iff_word [of m 16384, where 'a=64] b by (simp add: m)
  have dv: "(of_nat m :: usize) div 128 = of_nat (m div 128)" "(of_nat m :: usize) mod 128 = of_nat (m mod 128)"
    using of_nat_div_word [of m 128, where 'a=64] of_nat_mod_word [of m 128, where 'a=64] b by (simp_all add: m)
  have dj: "m div 128 \<le> 16540" "m mod 128 \<le> 16540" using b by (auto simp: m intro: order_trans [OF div_le_dividend] order_trans [OF mod_less_eq_dividend])
  have p: "(0 :: usize) < of_nat (m mod 128) \<longleftrightarrow> 0 < m mod 128" using of_nat_0_iff_word [of "m mod 128", where 'a=64] dj by (simp add: word_neq_0_conv [symmetric])
  have c: "unat (128 :: usize) = 128" by simp
  have dd: "direct (d\<lparr>di_size := 0\<rparr>) = direct d" "indirect1 d1 = indirect1 d" "indirect2 (d1\<lparr>indirect1 := 0\<rparr>) = indirect2 d"
    by (simp_all add: d1)
  note d1' = d1 [symmetric]
  show ?thesis
    unfolding clear_size_def Let_def w fs_consts k' dd(1) f bind.simps prod.case l d1' dd(2)
    by (cases "28 < n"; cases "156 < n") (simp_all only: if_True if_False s1 mm l2 s2 dd le rassert_def dv u [OF dj(1)] u [OF dj(2)] p c bind.simps)
qed

context block_store
begin

text \<open>A block that is only collected from keeps its bytes.\<close>

lemma does_collect:
  assumes "block_here Ls V b" and "length Ls < BLOCK_CACHE_SIZE"
    and f: "does content dev (f (from_mem IndirectBlock (the (V (ucast b))))) (ucast b # Ls) V (r, from_mem IndirectBlock (the (V (ucast b)))) V"
  shows "does content dev (cache_modify IndirectBlock (ucast b) dev 0 f) Ls V r V"
proof -
  obtain bs where bs: "V (ucast b) = Some bs" "length bs = 512" "ucast b \<notin> set Ls" using assms(1) by (auto simp: block_here_def)
  have m: "from_mem IndirectBlock (take (unat (size_of IndirectBlock)) (drop (unat (0 :: usize)) bs)) = from_mem IndirectBlock bs"
    using bs(2) by (simp add: IndirectBlock_def)
  have "does content dev (cache_modify IndirectBlock (ucast b) dev 0 f) Ls V r
      (V(ucast b \<mapsto> put_at (unat (0 :: usize)) (to_mem IndirectBlock (from_mem IndirectBlock bs)) bs))"
    by (rule does_modify [where bs = bs and V' = V], unfold m)
      (use f bs assms(2) in \<open>simp_all add: indirect_block_codec BLOCK_SZ_def, simp add: IndirectBlock_def\<close>)
  then show ?thesis using bs by (simp add: indirect_block_codec put_at_def fun_upd_idem)
qed

lemma does_collect_indirect:
  assumes "block_here Ls V b" and "length Ls < BLOCK_CACHE_SIZE" and "k \<le> 128" and "a < length ind2" and "ind2 ! a = b"
  shows "does content dev (\<lambda>s. collect_indirect k ind2 dev a (v, s)) Ls V
    (v @ b # take k (from_mem IndirectBlock (the (V (ucast b))))) V"
proof -
  have "does content dev (cache_modify IndirectBlock (ucast b) dev 0 (\<lambda>ind1 s. do {
       v \<leftarrow> collect_blocks k ind1 (v @ [b]); Some ((v, ind1), s) })) Ls V (v @ b # take k (from_mem IndirectBlock (the (V (ucast b))))) V"
    by (rule does_collect [OF assms(1,2)]) (use assms(3) in \<open>simp add: collect_blocks_spec does_return\<close>)
  then show ?thesis using assms(4,5) by (simp add: collect_indirect_def index_of_def)
qed

lemma does_clear_indirect2:
  assumes b: "block_here Ls V (indirect2 d)" and l: "Suc (length Ls) < BLOCK_CACHE_SIZE" and m: "m \<le> 16384"
    and H: "\<And>a. a < (m + 127) div 128 \<Longrightarrow> block_here Ls V (ind V (indirect2 d) a) \<and> ind V (indirect2 d) a \<noteq> indirect2 d"
  shows "does content dev (cache_modify IndirectBlock (ucast (indirect2 d)) dev 0 (\<lambda>ind2 s. do {
           (v, s) \<leftarrow> foldM (collect_indirect 128 ind2 dev) [0..<m div 128] (v, s);
           (v, s) \<leftarrow> (if 0 < m mod 128 then collect_indirect (m mod 128) ind2 dev (m div 128) (v, s) else Some (v, s));
           Some ((v, ind2), s) })) Ls V
    (v @ concat (map (sub_run d V 128) [0..<m div 128]) @ (if 0 < m mod 128 then sub_run d V (m mod 128) (m div 128) else [])) V"
proof (rule does_collect [OF b])
  let ?L = "ucast (indirect2 d) # Ls" and ?q = "m div 128" and ?r = "m mod 128"
  define ind2 where "ind2 = from_mem IndirectBlock (the (V (ucast (indirect2 d))))"
  have len: "length ind2 = 128" by (simp add: ind2_def)
  have at: "ind2 ! a = ind V (indirect2 d) a" for a by (simp add: ind2_def ind_def)
  have q: "(m + 127) div 128 = ?q + (if ?r = 0 then 0 else 1)" using div_add1_eq [of m 127 128] by (cases "?r = 0") simp_all
  have q1: "?q \<le> 128" "?r \<noteq> 0 \<Longrightarrow> ?q < 128"
  proof -
    show "?q \<le> 128" using div_le_mono [OF m, of 128] by simp
    show "?q < 128" if "?r \<noteq> 0" using m that by (cases "m = 16384") (simp_all add: less_mult_imp_div_less)
  qed
  have here: "block_here ?L V (ind V (indirect2 d) a)" if "a < ?q \<or> a = ?q \<and> ?r \<noteq> 0" for a
  proof -
    have "a < (m + 127) div 128" using that q by auto
    from H [OF this] show ?thesis by (auto simp: block_here_def)
  qed
  have "does content dev (\<lambda>s. foldM (collect_indirect 128 ind2 dev) [0..<?q] (v @ concat (map (sub_run d V 128) [0..<0]), s)) ?L V
      (v @ concat (map (sub_run d V 128) [0..<length [0..<?q]])) V"
  proof (rule does_foldM [where A = "\<lambda>i. v @ concat (map (sub_run d V 128) [0..<i])" and W = "\<lambda>i. V"])
    fix a assume "a < length [0..<?q]"
    then have a: "a < ?q" by simp
    show "does content dev (\<lambda>s. collect_indirect 128 ind2 dev ([0..<?q] ! a) (v @ concat (map (sub_run d V 128) [0..<a]), s)) ?L V
        (v @ concat (map (sub_run d V 128) [0..<Suc a])) V"
      using does_collect_indirect [OF here, of a 128 a ind2 "v @ concat (map (sub_run d V 128) [0..<a])"] a l q1(1) len at by simp
  qed
  then have loop: "does content dev (\<lambda>s. foldM (collect_indirect 128 ind2 dev) [0..<?q] (v, s)) ?L V
      (v @ concat (map (sub_run d V 128) [0..<?q])) V" by simp
  have rest: "does content dev (\<lambda>s. if 0 < ?r then collect_indirect ?r ind2 dev ?q (w, s) else Some (w, s)) ?L V
      (w @ (if 0 < ?r then sub_run d V ?r ?q else [])) V" for w
    using does_collect_indirect [OF here, of ?q ?r ?q ind2 w] l q1(2) len at does_return [of w ?L V] by auto
  show "does content dev (\<lambda>s. do {
           (v, s) \<leftarrow> foldM (collect_indirect 128 (from_mem IndirectBlock (the (V (ucast (indirect2 d))))) dev) [0..<?q] (v, s);
           (v, s) \<leftarrow> (if 0 < ?r then collect_indirect ?r (from_mem IndirectBlock (the (V (ucast (indirect2 d))))) dev ?q (v, s) else Some (v, s));
           Some ((v, from_mem IndirectBlock (the (V (ucast (indirect2 d))))), s) }) ?L V
    (v @ concat (map (sub_run d V 128) [0..<?q]) @ (if 0 < ?r then sub_run d V ?r ?q else []), from_mem IndirectBlock (the (V (ucast (indirect2 d))))) V"
    unfolding ind2_def [symmetric]
    using does_bind [OF loop, of "\<lambda>v s. do { (v, s) \<leftarrow> (if 0 < ?r then collect_indirect ?r ind2 dev ?q (v, s) else Some (v, s)); Some ((v, ind2), s) }",
      OF does_bind [OF rest, OF does_return]] by simp
qed (use l in simp)

text \<open>Emptying an inode returns its blocks, in the order in which growing took them, and leaves the disk alone.\<close>

lemma does_clear_size:
  assumes wf: "inode_wf d Ls V (n_blocks d)" and sz: "unat (di_size d) \<le> 16540 * 512" and l: "Suc (length Ls) < BLOCK_CACHE_SIZE"
  shows "\<exists>d'. does content dev (clear_size dev d) Ls V (own d V (n_blocks d), d') V
    \<and> di_size d' = 0 \<and> di_type d' = di_type d \<and> length (direct d') = 28"
proof -
  define n k m where "n = n_blocks d" and "k = min n 28" and "m = n - 156"
  define d1 where "d1 = d\<lparr>di_size := 0, direct := replicate k 0 @ drop k (direct d)\<rparr>"
  have len: "length (direct d) = 28" and b: "n \<le> 16540" and D: "distinct (own d V n)" and H: "\<forall>b \<in> set (own d V n). block_here Ls V b"
    using wf by (simp_all add: inode_wf_def n_def)
  have d1: "di_size d1 = 0" "di_type d1 = di_type d" "length (direct d1) = 28" using len by (simp_all add: d1_def k_def)
  note eq = clear_size_eq [OF sz len n_def k_def d1_def m_def]
  let ?a1 = "from_mem IndirectBlock (the (V (ucast (indirect1 d))))"
  have ok: "own d V k = take k (direct d)" by (rule own_direct_run) (use len in \<open>simp_all add: k_def\<close>)
  have C1: "does content dev (cache_modify IndirectBlock (ucast (indirect1 d)) dev 0 (\<lambda>ind1 s. do {
         v \<leftarrow> collect_blocks (min (n - 28) 128) ind1 (take k (direct d) @ [indirect1 d]); Some ((v, ind1), s) })) Ls V (own d V (min n 156)) V"
    if "28 < n"
  proof (rule does_collect)
    have "indirect1 d \<in> set (own d V n)" using piece_in_own [OF that, of d V] by (simp add: piece_def)
    then show "block_here Ls V (indirect1 d)" using H by blast
    have e: "min n 156 = 28 + min (n - 28) 128" "k = 28" "0 < min (n - 28) 128" using that by (auto simp: k_def)
    have "own d V (min n 156) = take k (direct d) @ [indirect1 d] @ take (min (n - 28) 128) ?a1"
      unfolding e(1) ok [symmetric] using own_indirect1_run [of "min (n - 28) 128" d V] e(2,3) by simp
    then show "does content dev (\<lambda>s. do { v \<leftarrow> collect_blocks (min (n - 28) 128) ?a1 (take k (direct d) @ [indirect1 d]); Some ((v, ?a1), s) })
        (ucast (indirect1 d) # Ls) V (own d V (min n 156), ?a1) V"
      by (simp add: collect_blocks_spec does_return)
  qed (use l in simp)
  consider "n \<le> 28" | "28 < n" "n \<le> 156" | "156 < n" by linarith
  then show ?thesis
  proof cases
    case 1
    then have "clear_size dev d = (\<lambda>s. Some ((own d V n, d1), s))" using ok by (simp add: eq fun_eq_iff k_def)
    then show ?thesis using d1 by (intro exI [of _ d1]) (simp add: does_return n_def)
  next
    case 2
    have "does content dev (\<lambda>s. Option.bind (cache_modify IndirectBlock (ucast (indirect1 d)) dev 0 (\<lambda>ind1 s. do {
         v \<leftarrow> collect_blocks (min (n - 28) 128) ind1 (take k (direct d) @ [indirect1 d]); Some ((v, ind1), s) }) s)
        (\<lambda>(v, s). Some ((v, d1\<lparr>indirect1 := 0\<rparr>), s))) Ls V (own d V (min n 156), d1\<lparr>indirect1 := 0\<rparr>) V"
      by (rule does_bind [OF C1 [OF 2(1)]]) (rule does_return)
    then show ?thesis using 2 d1 by (intro exI [of _ "d1\<lparr>indirect1 := 0\<rparr>"]) (simp add: eq [abs_def] n_def)
  next
    case 3
    let ?d = "d1\<lparr>indirect1 := 0, indirect2 := 0\<rparr>"
    have nm: "n = 156 + m" "m \<le> 16384" "0 < m" using 3 b by (simp_all add: m_def)
    have M: "distinct (indirect2 d # subs d V m)" using distinct_metas [of d V m] D nm by simp
    have i2: "block_here Ls V (indirect2 d)" using metas_in_own(2) [of m d V] H nm by blast
    have subs: "block_here Ls V (ind V (indirect2 d) a) \<and> ind V (indirect2 d) a \<noteq> indirect2 d" if "a < (m + 127) div 128" for a
    proof -
      have "ind V (indirect2 d) a \<in> set (subs d V m)" using that by (simp add: subs_def)
      then show ?thesis using M metas_in_own(3) [of d V m] H nm(1) by auto
    qed
    have "does content dev (\<lambda>s. Option.bind (cache_modify IndirectBlock (ucast (indirect1 d)) dev 0 (\<lambda>ind1 s. do {
         v \<leftarrow> collect_blocks (min (n - 28) 128) ind1 (take k (direct d) @ [indirect1 d]); Some ((v, ind1), s) }) s)
        (\<lambda>(v, s). Option.bind (cache_modify IndirectBlock (ucast (indirect2 d)) dev 0 (\<lambda>ind2 s. do {
           (v, s) \<leftarrow> foldM (collect_indirect 128 ind2 dev) [0..<m div 128] (v @ [indirect2 d], s);
           (v, s) \<leftarrow> (if 0 < m mod 128 then collect_indirect (m mod 128) ind2 dev (m div 128) (v, s) else Some (v, s));
           Some ((v, ind2), s) }) s) (\<lambda>(v, s). Some ((v, ?d), s)))) Ls V (own d V n, ?d) V"
    proof (rule does_bind [OF C1], goal_cases)
      case 2
      have "own d V n = (own d V (min n 156) @ [indirect2 d]) @ concat (map (sub_run d V 128) [0..<m div 128])
          @ (if 0 < m mod 128 then sub_run d V (m mod 128) (m div 128) else [])"
        using own_indirect2_run [of d V m] nm by simp
      then show ?case by (simp only:) (rule does_bind [OF does_clear_indirect2 [OF i2 l nm(2) subs]], assumption, rule does_return)
    qed (use 3 in simp)
    then show ?thesis using 3 d1 by (intro exI [of _ ?d]) (simp add: eq [abs_def] n_def)
  qed
qed

end

end
