(* ===== verification/FsFile.thy ===== *)
theory FsFile
  imports FsVfs FsBitmapProps FsClear
begin

text \<open>
  Files: the inodes of \<open>vfs.rs\<close> on top of the bitmap of data blocks and the disk inode. A file owns data blocks that are in
  use in the bitmap; writing allocates what is missing, and clearing gives everything back.
\<close>

section \<open>The data area\<close>

definition data_no :: "'d EasyFileSystem \<Rightarrow> nat \<Rightarrow> u32" where
  "data_no fs n = of_nat n + data_area_start_block fs"

definition bitmap_ids :: "Bitmap \<Rightarrow> usize set" where
  "bitmap_ids bm = (\<lambda>i. of_nat i + start_block_id bm) ` {..<unat (bitmap_blocks bm)}"

text \<open>The first \<open>N\<close> data blocks exist, are not locked, and do not overlap the bitmap.\<close>

definition area_ok :: "'d EasyFileSystem \<Rightarrow> nat \<Rightarrow> usize list \<Rightarrow> (usize \<Rightarrow> u8 list option) \<Rightarrow> bool" where
  "area_ok fs N Ls V \<longleftrightarrow> N \<le> bitmap_bits (data_bitmap fs) \<and> N + unat (data_area_start_block fs) < 2 ^ 32
     \<and> bitmap_ok (data_bitmap fs) Ls V
     \<and> (\<forall>n < N. block_here Ls V (data_no fs n) \<and> ucast (data_no fs n) \<notin> bitmap_ids (data_bitmap fs))"

definition used_data :: "'d EasyFileSystem \<Rightarrow> nat \<Rightarrow> (usize \<Rightarrow> u8 list option) \<Rightarrow> nat set" where
  "used_data fs N V = {n. n < N \<and> bitmap_used (data_bitmap fs) V n}"

lemma unat_data_no: "n + unat (data_area_start_block fs) < 2 ^ 32 \<Longrightarrow> unat (data_no fs n) = n + unat (data_area_start_block fs)"
  unfolding data_no_def by (subst unat_add_less) (simp_all add: unat_of_nat_less)

lemma data_no_inj: "area_ok fs N Ls V \<Longrightarrow> m < N \<Longrightarrow> n < N \<Longrightarrow> data_no fs m = data_no fs n \<longleftrightarrow> m = n"
  by (auto simp: area_ok_def word_unat_eq_iff unat_data_no)

lemma bitmap_put_ids: "n < bitmap_bits bm \<Longrightarrow> b \<notin> bitmap_ids bm \<Longrightarrow> bitmap_put bm n w V b = V b"
  by (rule bitmap_put_other) (use bitmap_div in \<open>auto simp: bitmap_ids_def\<close>)

lemma area_ok_put:
  assumes "area_ok fs N Ls V" and "n < bitmap_bits (data_bitmap fs)"
  shows "area_ok fs N Ls (bitmap_put (data_bitmap fs) n w V)"
proof -
  have "block_here Ls (bitmap_put (data_bitmap fs) n w V) (data_no fs m)" if "m < N" for m
    using assms that bitmap_put_ids [OF assms(2)] by (simp add: area_ok_def block_here_def)
  then show ?thesis using assms by (simp add: area_ok_def bitmap_ok_put)
qed

lemma used_data_set:
  "area_ok fs N Ls V \<Longrightarrow> m < N \<Longrightarrow> used_data fs N (bitmap_set (data_bitmap fs) m V) = insert m (used_data fs N V)"
  using bitmap_used_set [of "data_bitmap fs" Ls V m] by (auto simp: used_data_def area_ok_def)

lemma used_data_unset:
  "area_ok fs N Ls V \<Longrightarrow> m \<in> used_data fs N V \<Longrightarrow> used_data fs N (bitmap_unset (data_bitmap fs) m V) = used_data fs N V - {m}"
  using bitmap_used_unset [of "data_bitmap fs" Ls V m] by (auto simp: used_data_def area_ok_def)

text \<open>The numbers in use are read from the blocks of the bitmap.\<close>

lemma used_data_cong:
  assumes "N \<le> bitmap_bits (data_bitmap fs)" and "\<And>b. b \<in> bitmap_ids (data_bitmap fs) \<Longrightarrow> V' b = V b"
  shows "used_data fs N V' = used_data fs N V"
proof -
  have "bitmap_used (data_bitmap fs) V' n = bitmap_used (data_bitmap fs) V n" if "n < N" for n
  proof -
    have "of_nat (n div 4096) + start_block_id (data_bitmap fs) \<in> bitmap_ids (data_bitmap fs)"
      using bitmap_div [of n "data_bitmap fs"] that assms(1) by (simp add: bitmap_ids_def)
    then show ?thesis using assms(2) by (simp add: bitmap_used_def bitmap_words_def)
  qed
  then show ?thesis by (auto simp: used_data_def)
qed

section \<open>Allocation\<close>

context block_store
begin

lemma does_alloc_data:
  assumes ok: "area_ok fs N Ls V" and dev: "efs_block_device fs = dev" and free: "used_data fs N V \<noteq> {..<N}"
  shows "\<exists>m < N. m \<notin> used_data fs N V \<and> does content dev (alloc_data fs) Ls V (data_no fs m) (bitmap_set (data_bitmap fs) m V)"
proof -
  let ?bm = "data_bitmap fs"
  define m where "m = (LEAST n. \<not> bitmap_used ?bm V n)"
  have bm: "bitmap_ok ?bm Ls V" "N \<le> bitmap_bits ?bm" "N < 2 ^ 32" using ok by (simp_all add: area_ok_def)
  obtain n where n: "n < N" "\<not> bitmap_used ?bm V n" using free by (auto simp: used_data_def)
  have m: "m \<le> n" "\<not> bitmap_used ?bm V m" unfolding m_def 
    by (rule Least_le [where P = "\<lambda>n. \<not> bitmap_used ?bm V n", OF n(2)], rule LeastI [where P = "\<lambda>n. \<not> bitmap_used ?bm V n", OF n(2)])
  then have lt: "m < N" using n(1) by simp
  have "does content dev (bitmap_alloc ?bm dev) Ls V (Some (of_nat m)) (bitmap_set ?bm m V)"
    using does_bitmap_alloc [OF bm(1)] n bm(2) unfolding m_def [symmetric] by (metis order_less_le_trans)
  moreover have "(ucast (of_nat m :: usize) :: u32) = of_nat m" by (rule ucast_of_nat_small) (use lt bm(3) in simp_all)
  ultimately have "does content dev (alloc_data fs) Ls V (data_no fs m) (bitmap_set ?bm m V)"
    unfolding alloc_data_def [abs_def] dev by (elim does_bind) (simp only: bind.bind_lunit does_return data_no_def)
  then show ?thesis using lt m(2) by (auto simp: used_data_def)
qed

lemma does_alloc_blocks:
  assumes "area_ok fs N Ls V" and dev: "efs_block_device fs = dev" and "card (used_data fs N V) + length xs \<le> N"
  shows "\<exists>ms V'. does content dev (\<lambda>s. foldM (alloc_data_push fs) xs (v, s)) Ls V (v @ map (data_no fs) ms) V'
    \<and> length ms = length xs \<and> distinct ms \<and> set ms \<subseteq> {..<N} - used_data fs N V \<and> used_data fs N V' = used_data fs N V \<union> set ms
    \<and> area_ok fs N Ls V' \<and> (\<forall>b. b \<notin> bitmap_ids (data_bitmap fs) \<longrightarrow> V' b = V b)"
  using assms(1,3)
proof (induction xs arbitrary: v V)
  case Nil
  then show ?case by (intro exI [of _ "[]"] exI [of _ V]) (simp add: does_return)
next
  case (Cons x xs)
  let ?bm = "data_bitmap fs"
  have "card (used_data fs N V) < card {..<N}" using Cons.prems(2) by (simp only: list.size card_lessThan)
  then have "used_data fs N V \<noteq> {..<N}" by (metis less_irrefl)
  then obtain m where m: "m < N" "m \<notin> used_data fs N V" "does content dev (alloc_data fs) Ls V (data_no fs m) (bitmap_set ?bm m V)"
    using does_alloc_data [OF Cons.prems(1) dev] by blast
  let ?V = "bitmap_set ?bm m V"
  have mb: "m < bitmap_bits ?bm" using m(1) Cons.prems(1) by (simp add: area_ok_def)
  have ok1: "area_ok fs N Ls ?V" unfolding bitmap_set_def by (rule area_ok_put [OF Cons.prems(1) mb])
  have u1: "used_data fs N ?V = insert m (used_data fs N V)" by (rule used_data_set [OF Cons.prems(1) m(1)])
  have fin: "finite (used_data fs N V)" by (simp add: used_data_def)
  have "card (used_data fs N ?V) + length xs \<le> N" using Cons.prems(2) m(2) fin by (simp add: u1)
  then obtain ms V' where R: "does content dev (\<lambda>s. foldM (alloc_data_push fs) xs (v @ [data_no fs m], s)) Ls ?V (v @ [data_no fs m] @ map (data_no fs) ms) V'"
    "length ms = length xs" "distinct ms" "set ms \<subseteq> {..<N} - used_data fs N ?V" "used_data fs N V' = used_data fs N ?V \<union> set ms"
    "area_ok fs N Ls V'" "\<forall>b. b \<notin> bitmap_ids ?bm \<longrightarrow> V' b = ?V b"
    using Cons.IH [OF ok1, of "v @ [data_no fs m]"] by auto
  have "does content dev (\<lambda>s. alloc_data_push fs x (v, s)) Ls V (v @ [data_no fs m]) ?V"
    unfolding alloc_data_push_def split by (rule does_bind [OF m(3)]) (simp add: does_return)
  then have "does content dev (\<lambda>s. Option.bind (alloc_data_push fs x (v, s)) (\<lambda>(w, s). foldM (alloc_data_push fs) xs (w, s))) Ls V
      (v @ map (data_no fs) (m # ms)) V'"
    by (rule does_bind) (use R(1) in simp)
  moreover have "(\<lambda>s. Option.bind (alloc_data_push fs x (v, s)) (\<lambda>(w, s). foldM (alloc_data_push fs) xs (w, s)))
      = (\<lambda>s. foldM (alloc_data_push fs) (x # xs) (v, s))" by (simp add: fun_eq_iff split_beta')
  moreover have "V' b = V b" if "b \<notin> bitmap_ids ?bm" for b
    using R(7) that bitmap_put_ids [OF mb that] by (simp add: bitmap_set_def)
  ultimately show ?case using R(2-6) m(1,2) u1 by (intro exI [of _ "m # ms"] exI [of _ V']) auto
qed

end

section \<open>Inodes whose blocks are in use\<close>

lemma own_view:
  assumes "\<And>b. b \<in> meta_blocks d V n \<Longrightarrow> V' (ucast b) = V (ucast b)"
  shows "i < n \<Longrightarrow> block_no d V' i = block_no d V i" and "own d V' n = own d V n"
proof -
  have ind: "ind V' b i = ind V b i" if "b \<in> meta_blocks d V n" for b i using assms [OF that] by (simp add: ind_def)
  have m1: "28 \<le> i \<Longrightarrow> indirect1 d \<in> meta_blocks d V n" and m2: "156 \<le> i \<Longrightarrow> indirect2 d \<in> meta_blocks d V n"
    and m3: "156 \<le> i \<Longrightarrow> ind V (indirect2 d) ((i - 156) div 128) \<in> meta_blocks d V n" if "i < n" for i
    using that by (auto simp: meta_blocks_def)
  show b: "block_no d V' i = block_no d V i" if "i < n" for i
    using ind m1 [OF that] m2 [OF that] m3 [OF that] by (simp add: block_no_def)
  show "own d V' n = own d V n"
    by (rule own_cong, rule piece_cong) (use b ind m2 in auto)
qed

definition inode_in :: "'d EasyFileSystem \<Rightarrow> nat \<Rightarrow> usize list \<Rightarrow> (usize \<Rightarrow> u8 list option) \<Rightarrow> DiskInode \<Rightarrow> bool" where
  "inode_in fs N Ls V d \<longleftrightarrow> area_ok fs N Ls V \<and> length (direct d) = 28 \<and> unat (di_size d) \<le> 16540 * 512
     \<and> distinct (own d V (n_blocks d)) \<and> set (own d V (n_blocks d)) \<subseteq> data_no fs ` used_data fs N V"

lemma used_data_less: "n \<in> used_data fs N V \<Longrightarrow> n < N"
  by (simp add: used_data_def)

lemma meta_in_own:
  assumes "b \<in> meta_blocks d V n"
  shows "b \<in> set (own d V n)"
proof -
  obtain k where k: "k < n" "b \<in> set (butlast (piece d V k))" using meta_in_piece [OF assms] by (elim exE conjE)
  show ?thesis by (rule subsetD [OF piece_in_own [OF k(1)] in_set_butlastD [OF k(2)]])
qed

lemma block_in_own: "i < n \<Longrightarrow> block_no d V i \<in> set (own d V n)"
  using piece_in_own [of i n d V] by (simp add: piece_def)

lemma area_here:
  assumes "area_ok fs N Ls V" and "b \<in> data_no fs ` used_data fs N W"
  shows "block_here Ls V b" and "ucast b \<notin> bitmap_ids (data_bitmap fs)"
proof -
  obtain m where "b = data_no fs m" "m < N" using assms(2) by (auto simp: used_data_def)
  then show "block_here Ls V b" "ucast b \<notin> bitmap_ids (data_bitmap fs)" using assms(1) by (simp_all add: area_ok_def)
qed

lemma inode_in_own:
  assumes "inode_in fs N Ls V d" and "b \<in> set (own d V (n_blocks d))"
  shows "block_here Ls V b" and "ucast b \<notin> bitmap_ids (data_bitmap fs)"
  using assms area_here [of fs N Ls V b V] by (auto simp: inode_in_def)

lemma inode_in_wf: "inode_in fs N Ls V d \<Longrightarrow> inode_wf d Ls V (n_blocks d)"
proof -
  assume a: "inode_in fs N Ls V d"
  then have "n_blocks d \<le> 16540" by (auto simp: inode_in_def n_blocks_def)
  then show ?thesis using a inode_in_own(1) [OF a] by (simp add: inode_wf_def inode_in_def)
qed

lemma inode_in_ok: "inode_in fs N Ls V d \<Longrightarrow> length Ls < BLOCK_CACHE_SIZE \<Longrightarrow> inode_ok d Ls V"
  by (rule inode_wf_ok [OF inode_in_wf]) (auto simp: inode_in_def)

text \<open>A change of the view that keeps the bitmap and the indirect blocks.\<close>

lemma area_ok_cong:
  "area_ok fs N Ls V \<Longrightarrow> (\<And>b. b \<in> bitmap_ids (data_bitmap fs) \<Longrightarrow> V' b = V b) \<Longrightarrow>
    (\<And>n. n < N \<Longrightarrow> block_here Ls V' (data_no fs n)) \<Longrightarrow> area_ok fs N Ls V'"
  by (auto simp: area_ok_def bitmap_ok_def bitmap_ids_def)

lemma inode_in_cong:
  assumes ok: "inode_in fs N Ls V d" and bm: "\<And>b. b \<in> bitmap_ids (data_bitmap fs) \<Longrightarrow> V' b = V b"
    and here: "\<And>n. n < N \<Longrightarrow> block_here Ls V' (data_no fs n)"
    and meta: "\<And>b. b \<in> meta_blocks d V (n_blocks d) \<Longrightarrow> V' (ucast b) = V (ucast b)"
  shows "inode_in fs N Ls V' d" and "used_data fs N V' = used_data fs N V" and "own d V' (n_blocks d) = own d V (n_blocks d)"
proof -
  have N: "N \<le> bitmap_bits (data_bitmap fs)" using ok by (simp add: inode_in_def area_ok_def)
  show u: "used_data fs N V' = used_data fs N V" by (rule used_data_cong [OF N bm])
  show o: "own d V' (n_blocks d) = own d V (n_blocks d)" by (rule own_view(2)) (rule meta)
  have "area_ok fs N Ls V'" by (rule area_ok_cong [of fs N Ls V]) (use ok here bm in \<open>auto simp: inode_in_def\<close>)
  then show "inode_in fs N Ls V' d" using ok u o by (simp add: inode_in_def)
qed

lemma blocks_needed_word:
  assumes "unat (di_size d) \<le> unat z" and "unat z \<le> 16540 * 512"
  shows "\<exists>k. blocks_num_needed d z = Some k \<and> unat k = tot ((unat z + 511) div 512) - tot (n_blocks d)"
proof -
  have t: "unat (total_blocks z) = tot ((unat z + 511) div 512)" "unat (total_blocks (di_size d)) = tot (n_blocks d)"
    using unat_total_blocks [of z] unat_total_blocks [of "di_size d"] assms by (simp_all add: n_blocks_def)
  have "tot (n_blocks d) \<le> tot ((unat z + 511) div 512)" by (rule tot_mono) (use assms(1) in \<open>simp add: n_blocks_def div_le_mono\<close>)
  then have le: "total_blocks (di_size d) \<le> total_blocks z" by (simp add: word_le_nat_alt t)
  have "blocks_num_needed d z = Some (total_blocks z - total_blocks (di_size d))"
    using assms(1) by (simp add: blocks_num_needed_def word_le_nat_alt)
  then show ?thesis using unat_sub [OF le] t by simp
qed

section \<open>Growing\<close>

lemma own_prefix:
  assumes "own d' V' n' = own d V n @ nb" and "n \<le> n'" and "i < n"
  shows "block_no d' V' i = block_no d V i"
proof -
  have "own d' V' n = own d V n"
    using assms(1) own_split [OF assms(2), of d' V'] length_own [of d' V' n] length_own [of d V n] by simp
  then have "own d' V' j = own d V j" if "j \<le> n" for j
    using that own_split [OF that, of d' V'] own_split [OF that, of d V] length_own [of d' V' j] length_own [of d V j] by simp
  from this [of i] this [of "Suc i"] have "piece d' V' i = piece d V i" using assms(3) by (simp add: own_Suc)
  then show ?thesis by (metis last_snoc piece_split)
qed

lemma own_with_new:
  assumes ok: "inode_in fs N Ls V d" and ms: "distinct ms" "set ms \<subseteq> {..<N} - used_data fs N V"
  shows "distinct (own d V (n_blocks d) @ map (data_no fs) ms)"
proof -
  have inj: "inj_on (data_no fs) {..<N}" using ok data_no_inj [of fs N Ls V] by (auto simp: inj_on_def inode_in_def)
  have lts: "used_data fs N V \<subseteq> {..<N}" "set ms \<subseteq> {..<N}" using ms(2) by (auto simp: used_data_def)
  have "data_no fs ` used_data fs N V \<inter> data_no fs ` set ms = data_no fs ` (used_data fs N V \<inter> set ms)"
    by (rule inj_on_image_Int [OF inj lts, symmetric])
  then have "set (own d V (n_blocks d)) \<inter> data_no fs ` set ms = {}" using ok ms(2) by (auto simp: inode_in_def)
  then show ?thesis using ok ms(1) inj_on_subset [OF inj lts(2)] by (simp add: inode_in_def distinct_map)
qed

text \<open>The conclusion of growing: the data blocks there were stay as they are.\<close>

definition grows :: "'d EasyFileSystem \<Rightarrow> nat \<Rightarrow> (usize \<Rightarrow> u8 list option) \<Rightarrow> DiskInode \<Rightarrow> (usize \<Rightarrow> u8 list option) \<Rightarrow> DiskInode \<Rightarrow> bool" where
  "grows fs N V d V' d' \<longleftrightarrow> di_type d' = di_type d \<and> used_data fs N V \<subseteq> used_data fs N V'
     \<and> (\<forall>i < n_blocks d. block_no d' V' i = block_no d V i \<and> V' (ucast (block_no d V i)) = V (ucast (block_no d V i)))
     \<and> set (own d' V' (n_blocks d')) \<subseteq> set (own d V (n_blocks d)) \<union> data_no fs ` (used_data fs N V' - used_data fs N V)
     \<and> (\<forall>b. b \<notin> bitmap_ids (data_bitmap fs) \<longrightarrow> b \<notin> ucast ` set (own d' V' (n_blocks d')) \<longrightarrow> V' b = V b)"

context block_store
begin

lemma does_grow:
  assumes ok: "inode_in fs N Ls V d" and dev: "efs_block_device fs = dev" "ino_fs ino = fs" "ino_block_device ino = dev"
    and l: "Suc (length Ls) < BLOCK_CACHE_SIZE" and z: "unat (di_size d) \<le> unat z" "unat z \<le> 16540 * 512"
    and room: "card (used_data fs N V) + (tot ((unat z + 511) div 512) - tot (n_blocks d)) \<le> N"
  shows "\<exists>d' V'. does content dev (inode_increase_size ino z d) Ls V d' V' \<and> inode_in fs N Ls V' d' \<and> di_size d' = z \<and> grows fs N V d V' d'"
proof -
  define n n' where "n = n_blocks d" and "n' = (unat z + 511) div 512"
  have nn: "n \<le> n'" using z(1) by (simp add: n_def n'_def n_blocks_def div_le_mono)
  obtain k where k: "blocks_num_needed d z = Some k" "unat k = tot n' - tot n"
    using blocks_needed_word [OF z] unfolding n_def n'_def by blast
  have a: "area_ok fs N Ls V" and len: "length (direct d) = 28"
    and U: "set (own d V n) \<subseteq> data_no fs ` used_data fs N V" using ok by (simp_all add: inode_in_def n_def)
  obtain ms V1 where A: "does content dev (\<lambda>s. foldM (alloc_data_push fs) [0..<unat k] ([], s)) Ls V (map (data_no fs) ms) V1"
    "length ms = unat k" "distinct ms" "set ms \<subseteq> {..<N} - used_data fs N V" "used_data fs N V1 = used_data fs N V \<union> set ms"
    "area_ok fs N Ls V1" "\<forall>b. b \<notin> bitmap_ids (data_bitmap fs) \<longrightarrow> V1 b = V b"
    using does_alloc_blocks [OF a dev(1), of "[0..<unat k]" "[]"] room k(2) unfolding n_def n'_def by auto
  have same: "V1 (ucast b) = V (ucast b)" if "b \<in> set (own d V n)" for b
    using A(7) inode_in_own(2) [OF ok] that by (simp add: n_def)
  have o1: "own d V1 n = own d V n" by (rule own_view(2)) (rule same [OF meta_in_own])
  let ?nb = "map (data_no fs) ms"
  have D1: "distinct (own d V1 n @ ?nb)" using own_with_new [OF ok A(3,4)] unfolding o1 by (simp only: n_def)
  have S1: "set (own d V1 n @ ?nb) \<subseteq> data_no fs ` used_data fs N V1" using U A(5) by (auto simp: o1)
  then have H1: "\<forall>b \<in> set (own d V1 n @ ?nb). block_here Ls V1 b" using area_here(1) [OF A(6)] by (meson subsetD)
  have t: "length ?nb + tot n = tot n'" using A(2) k(2) tot_mono [OF nn] by simp
  obtain d' V' where G: "does content dev (disk_inode_increase_size z ?nb dev d) Ls V1 d' V'" "di_size d' = z" "di_type d' = di_type d"
    "length (direct d') = 28" "own d' V' n' = own d V1 n @ ?nb" "\<forall>b. block_here Ls V1 b \<longrightarrow> block_here Ls V' b"
    "\<forall>b. V' b \<noteq> V1 b \<longrightarrow> b \<in> ucast ` meta_blocks d' V' n'"
    using does_increase_size [OF z len n_def n'_def l t D1 H1] by blast
  have nd': "n_blocks d' = n'" by (simp add: n_blocks_def G(2) n'_def)
  have chg: "b \<in> ucast ` set (own d' V' n')" "b \<notin> bitmap_ids (data_bitmap fs)" if q: "V' b \<noteq> V1 b" for b
  proof -
    obtain c where c: "b = ucast c" "c \<in> meta_blocks d' V' n'" using G(7) q by blast
    then have "c \<in> set (own d' V' n')" by (intro meta_in_own)
    then show "b \<in> ucast ` set (own d' V' n')" "b \<notin> bitmap_ids (data_bitmap fs)"
      using area_here(2) [OF A(6), of c V1] S1 G(5) c(1) by auto
  qed
  have u': "used_data fs N V' = used_data fs N V1"
    by (rule used_data_cong) (use A(6) chg(2) in \<open>auto simp: area_ok_def\<close>)
  have "area_ok fs N Ls V'" by (rule area_ok_cong [OF A(6)]) (use chg(2) A(6) G(6) in \<open>auto simp: area_ok_def\<close>)
  then have in': "inode_in fs N Ls V' d'" using G(2,4,5) D1 S1 z(2) u' by (simp add: inode_in_def nd')
  have bn: "block_no d' V' i = block_no d V i" if "i < n" for i by (rule own_prefix [OF G(5) [unfolded o1] nn that])
  have "V' (ucast (block_no d V i)) = V (ucast (block_no d V i))" if i: "i < n" for i
  proof -
    have "block_no d' V' i \<notin> meta_blocks d' V' n'"
      using inode_in_ok [OF in'] l i nn by (simp add: inode_ok_def nd')
    then have "V' (ucast (block_no d V i)) = V1 (ucast (block_no d V i))" using G(7) bn [OF i] by auto
    then show ?thesis using same [OF block_in_own [OF i]] by simp
  qed
  moreover have "V' b = V b" if "b \<notin> bitmap_ids (data_bitmap fs)" "b \<notin> ucast ` set (own d' V' n')" for b
    using chg(1) [of b] A(7) that by auto
  moreover have "set (own d' V' n') \<subseteq> set (own d V n) \<union> data_no fs ` (used_data fs N V1 - used_data fs N V)"
    using A(4,5) by (auto simp: G(5) o1)
  ultimately have "grows fs N V d V' d'" using G(3) A(5) u' bn by (simp add: grows_def n_def nd')
  moreover have "does content dev (inode_increase_size ino z d) Ls V d' V'"
  proof -
    have "\<not> z < di_size d" using z(1) by (simp add: word_less_nat_alt)
    then have "inode_increase_size ino z d = (\<lambda>s. Option.bind (foldM (alloc_data_push fs) [0..<unat k] ([], s))
        (\<lambda>(v, s). disk_inode_increase_size z v dev d s))"
      by (simp add: inode_increase_size_def fun_eq_iff k(1) dev)
    then show ?thesis using does_bind [OF A(1), of "\<lambda>v. disk_inode_increase_size z v dev d", OF G(1)] by simp
  qed
  ultimately show ?thesis using in' G(2) by blast
qed

end

section \<open>Writing\<close>

definition file_bytes :: "DiskInode \<Rightarrow> (usize \<Rightarrow> u8 list option) \<Rightarrow> u8 list" where
  "file_bytes d V = take (unat (di_size d)) (file_data d V)"

lemma grows_data:
  assumes ok: "inode_ok d Ls V" and n: "n_blocks d \<le> n_blocks d'" and g: "grows fs N V d V' d'"
  shows "take (n_blocks d * 512) (file_data d' V') = file_data d V"
proof -
  let ?f = "\<lambda>i. the (V' (ucast (block_no d' V' i)))"
  have "map ?f [0..<n_blocks d] = map (\<lambda>i. the (V (ucast (block_no d V i)))) [0..<n_blocks d]"
    using g by (simp add: grows_def)
  moreover have "file_data d' V' = concat (map ?f [0..<n_blocks d]) @ concat (map ?f [n_blocks d..<n_blocks d'])"
    unfolding file_data_def using upt_add_eq_append [of 0 "n_blocks d" "n_blocks d' - n_blocks d"] n by simp
  ultimately have "file_data d' V' = file_data d V @ concat (map ?f [n_blocks d..<n_blocks d'])" by (simp only: file_data_def)
  then show ?thesis using file_data_length [OF ok] by simp
qed

text \<open>What a write of \<open>buf\<close> at \<open>off\<close> leaves.\<close>

definition written :: "nat \<Rightarrow> u8 list \<Rightarrow> u8 list \<Rightarrow> u8 list \<Rightarrow> bool" where
  "written off buf old new \<longleftrightarrow> length new = max (length old) (off + length buf) \<and> take (length buf) (drop off new) = buf
     \<and> (\<forall>p < length old. p < off \<or> off + length buf \<le> p \<longrightarrow> new ! p = old ! p)"

lemma written_put_at:
  assumes "take n new = take n old" and "n = length old" "length old \<le> m" "off + length buf \<le> m" "m \<le> length new" "m = max n (off + length buf)"
  shows "written off buf old (take m (put_at off buf new))"
proof -
  have "take m (put_at off buf new) ! p = old ! p" if "p < length old" "p < off \<or> off + length buf \<le> p" for p
  proof -
    have "put_at off buf new ! p = new ! p" using that assms by (subst nth_put_at) auto
    moreover have "new ! p = old ! p" using assms(1,2) that(1) by (metis nth_take)
    ultimately show ?thesis using that assms(3) by simp
  qed
  moreover have "take (length buf) (drop off (take m (put_at off buf new))) = buf"
    using assms by (simp add: put_at_def drop_take min_def)
  ultimately show ?thesis using assms by (simp add: written_def)
qed

end
