(* ===== verification/FsWrite.thy ===== *)
theory FsWrite
  imports FsFile
begin

text \<open>
  Reading, writing and clearing a file through its inode, \<open>read_at\<close>, \<open>write_at\<close> and \<open>clear\<close> of \<open>vfs.rs\<close>, and what they
  leave of the other files.
\<close>

section \<open>Files\<close>

definition disk_inode_at :: "'d Inode \<Rightarrow> (usize \<Rightarrow> u8 list option) \<Rightarrow> DiskInode" where
  "disk_inode_at ino V = from_mem disk_inode_layout (take 128 (drop (unat (ino_block_offset ino)) (the (V (ino_block_id ino)))))"

definition file_ok :: "'d dyn_device \<Rightarrow> 'd Inode \<Rightarrow> nat \<Rightarrow> (usize \<Rightarrow> u8 list option) \<Rightarrow> bool" where
  "file_ok dev ino N V \<longleftrightarrow> ino_block_device ino = dev \<and> efs_block_device (ino_fs ino) = dev
     \<and> unat (ino_block_offset ino) + 128 \<le> 512 \<and> (\<exists>bs. V (ino_block_id ino) = Some bs \<and> length bs = 512)
     \<and> inode_in (ino_fs ino) N [ino_block_id ino] V (disk_inode_at ino V)"

text \<open>The bytes of a file and the data blocks it owns.\<close>

definition contents :: "'d Inode \<Rightarrow> (usize \<Rightarrow> u8 list option) \<Rightarrow> u8 list" where
  "contents ino V = file_bytes (disk_inode_at ino V) V"

definition owned :: "'d Inode \<Rightarrow> (usize \<Rightarrow> u8 list option) \<Rightarrow> u32 set" where
  "owned ino V = set (own (disk_inode_at ino V) V (n_blocks (disk_inode_at ino V)))"

lemma length_file_bytes: "inode_ok d Ls V \<Longrightarrow> length (file_bytes d V) = unat (di_size d)"
  using file_data_covers by (auto simp: file_bytes_def)

lemma file_ok_inode: "file_ok dev ino N V \<Longrightarrow> inode_ok (disk_inode_at ino V) [ino_block_id ino] V"
  by (auto simp: file_ok_def BLOCK_CACHE_SIZE_def intro: inode_in_ok)

lemma length_contents: "file_ok dev ino N V \<Longrightarrow> length (contents ino V) = unat (di_size (disk_inode_at ino V))"
  unfolding contents_def by (rule length_file_bytes [OF file_ok_inode])

lemma n_blocks_mono: "unat (di_size d) \<le> unat (di_size d') \<Longrightarrow> n_blocks d \<le> n_blocks d'"
  by (simp add: n_blocks_def div_le_mono)

text \<open>Room for a file of \<open>m\<close> bytes.\<close>

definition room :: "'d Inode \<Rightarrow> nat \<Rightarrow> nat \<Rightarrow> (usize \<Rightarrow> u8 list option) \<Rightarrow> bool" where
  "room ino N m V \<longleftrightarrow> card (used_data (ino_fs ino) N V) + (tot ((m + 511) div 512) - tot (n_blocks (disk_inode_at ino V))) \<le> N"

lemma grows_refl: "grows fs N V d V d"
  by (simp add: grows_def)

text \<open>Writing to the data blocks of an inode keeps the numbers of its blocks.\<close>

lemma write_keeps:
  assumes ok: "inode_in fs N Ls V d" "inode_ok d Ls V" and ok': "inode_ok d Ls V'"
    and bn: "\<forall>i < n_blocks d. block_no d V' i = block_no d V i"
    and out: "\<forall>b. b \<notin> ucast ` block_no d V ` {..<n_blocks d} \<longrightarrow> V' b = V b"
  shows "inode_in fs N Ls V' d \<and> used_data fs N V' = used_data fs N V \<and> own d V' (n_blocks d) = own d V (n_blocks d)"
proof -
  have 1: "V' b = V b" if b: "b \<in> bitmap_ids (data_bitmap fs)" for b
  proof -
    have "ucast (block_no d V i) \<noteq> b" if "i < n_blocks d" for i using inode_in_own(2) [OF ok(1) block_in_own [OF that]] b by metis
    then have "b \<notin> ucast ` block_no d V ` {..<n_blocks d}" by auto
    then show ?thesis using out by simp
  qed
  have 2: "block_here Ls V' (data_no fs n)" if "n < N" for n
  proof (cases "ucast (data_no fs n) \<in> (ucast ` block_no d V ` {..<n_blocks d} :: usize set)")
    case True
    then obtain i where "i < n_blocks d" "data_no fs n = block_no d V i" by auto
    then show ?thesis using ok' bn by (simp add: inode_ok_def)
  next
    case False
    then have "V' (ucast (data_no fs n)) = V (ucast (data_no fs n))" using out by blast
    then show ?thesis using ok(1) that by (simp add: inode_in_def area_ok_def block_here_def)
  qed
  have 3: "V' (ucast b) = V (ucast b)" if b: "b \<in> meta_blocks d V (n_blocks d)" for b
  proof -
    have "b \<notin> block_no d V ` {..<n_blocks d}" using ok(2) b by (auto simp: inode_ok_def)
    then have "ucast b \<notin> (ucast ` block_no d V ` {..<n_blocks d} :: usize set)" by auto
    then show ?thesis using out by blast
  qed
  show ?thesis using inode_in_cong [OF ok(1), of V'] 1 2 3 by blast
qed

context block_store
begin

lemma does_extend:
  assumes ok: "inode_in fs N Ls V d" and dev: "efs_block_device fs = dev" "ino_fs ino = fs" "ino_block_device ino = dev"
    and l: "Suc (length Ls) < BLOCK_CACHE_SIZE" and z: "unat z \<le> 16540 * 512"
    and rm: "card (used_data fs N V) + (tot ((unat z + 511) div 512) - tot (n_blocks d)) \<le> N"
  shows "\<exists>d' V'. does content dev (inode_increase_size ino z d) Ls V d' V' \<and> inode_in fs N Ls V' d'
    \<and> unat (di_size d') = max (unat (di_size d)) (unat z) \<and> grows fs N V d V' d'"
proof (cases "unat (di_size d) \<le> unat z")
  case True
  then show ?thesis using does_grow [OF ok dev l True z rm] by (metis max.absorb2)
next
  case False
  then have "inode_increase_size ino z d = (\<lambda>s. Some (d, s))" by (simp add: inode_increase_size_def fun_eq_iff word_less_nat_alt)
  then show ?thesis using False ok by (intro exI [of _ d] exI [of _ V]) (simp add: does_return grows_refl)
qed

text \<open>The closure of \<open>write_at\<close>, with the block of the inode locked.\<close>

lemma does_write_closure:
  assumes ok: "inode_in fs N Ls V d" and dev: "efs_block_device fs = dev" "ino_fs ino = fs" "ino_block_device ino = dev"
    and l: "Suc (length Ls) < BLOCK_CACHE_SIZE" and buf: "buf \<noteq> []" "off + length buf \<le> 16540 * 512"
    and rm: "card (used_data fs N V) + (tot ((off + length buf + 511) div 512) - tot (n_blocks d)) \<le> N"
  shows "\<exists>d' V'. does content dev (\<lambda>s. do {
        (d, s) \<leftarrow> inode_increase_size ino (ucast (of_nat off + of_nat (length buf) :: usize)) d s;
        (n, s) \<leftarrow> disk_inode_write_at d (of_nat off) buf (ino_block_device ino) s;
        Some ((n, d), s) }) Ls V (of_nat (length buf), d') V'
    \<and> inode_in fs N Ls V' d' \<and> written off buf (file_bytes d V) (file_bytes d' V')
    \<and> used_data fs N V \<subseteq> used_data fs N V' \<and> di_type d' = di_type d
    \<and> set (own d' V' (n_blocks d')) \<subseteq> set (own d V (n_blocks d)) \<union> data_no fs ` (used_data fs N V' - used_data fs N V)
    \<and> (\<forall>b. b \<notin> bitmap_ids (data_bitmap fs) \<longrightarrow> b \<notin> ucast ` set (own d' V' (n_blocks d')) \<longrightarrow> V' b = V b)"
proof -
  let ?m = "off + length buf"
  define z :: u32 where "z = of_nat ?m"
  have z: "unat z = ?m" "ucast (of_nat off + of_nat (length buf) :: usize) = z"
  proof -
    show "unat z = ?m" unfolding z_def by (rule unat_of_nat_less) (use buf(2) in simp)
    show "ucast (of_nat off + of_nat (length buf) :: usize) = z"
      using buf(2) ucast_of_nat_small [of ?m, where 'a=64 and 'b=32] by (simp add: z_def)
  qed
  obtain d1 V1 where E: "does content dev (inode_increase_size ino z d) Ls V d1 V1" "inode_in fs N Ls V1 d1"
    "unat (di_size d1) = max (unat (di_size d)) ?m" "grows fs N V d V1 d1"
    using does_extend [OF ok dev l, of z] buf(2) rm z(1) by auto
  have l': "length Ls < BLOCK_CACHE_SIZE" using l by simp
  note ok0 = inode_in_ok [OF ok l'] and ok1 = inode_in_ok [OF E(2) l']
  have lt: "off < unat (di_size d1)" using E(3) buf(1) by (cases buf) auto
  have min: "min (length buf) (unat (di_size d1) - off) = length buf" using E(3) by auto
  have b64: "off + length buf < 2 ^ 64" using buf(2) by simp
  obtain V2 where W: "does content dev (disk_inode_write_at d1 (of_nat off) buf dev) Ls V1 (of_nat (length buf)) V2" "inode_ok d1 Ls V2"
    "file_data d1 V2 = put_at off buf (file_data d1 V1)" "\<forall>i < n_blocks d1. block_no d1 V2 i = block_no d1 V1 i"
    "\<forall>b. b \<notin> ucast ` block_no d1 V1 ` {..<n_blocks d1} \<longrightarrow> V2 b = V1 b"
    using does_write_at [OF ok1 b64 buf(1) lt] min by auto
  have keep: "V2 b = V1 b" if "b \<notin> ucast ` set (own d1 V1 (n_blocks d1))" for b
    using W(5) block_in_own [of _ "n_blocks d1" d1 V1] that by blast
  have R: "inode_in fs N Ls V2 d1" "used_data fs N V2 = used_data fs N V1" "own d1 V2 (n_blocks d1) = own d1 V1 (n_blocks d1)"
    using write_keeps [OF E(2) ok1 W(2,4,5)] by blast+
  have "take (n_blocks d * 512) (file_data d1 V1) = file_data d V" by (rule grows_data [OF ok0 n_blocks_mono E(4)]) (simp add: E(3))
  moreover have "unat (di_size d) \<le> n_blocks d * 512" using file_data_covers [OF ok0] file_data_length [OF ok0] by simp
  ultimately have p: "take (unat (di_size d)) (file_data d1 V1) = take (unat (di_size d)) (file_bytes d V)"
    unfolding file_bytes_def by (metis min.absorb1 take_take min.idem)
  have "written off buf (file_bytes d V) (file_bytes d1 V2)"
    unfolding file_bytes_def [of d1] W(3)
    by (rule written_put_at [where n = "unat (di_size d)"]) (use p length_file_bytes [OF ok0] E(3) file_data_covers [OF ok1] in auto)
  moreover have "does content dev (\<lambda>s. do {
        (d, s) \<leftarrow> inode_increase_size ino z d s;
        (n, s) \<leftarrow> disk_inode_write_at d (of_nat off) buf (ino_block_device ino) s;
        Some ((n, d), s) }) Ls V (of_nat (length buf), d1) V2"
    unfolding dev(3) by (rule does_bind [OF E(1)], rule does_bind [OF W(1)]) (simp add: does_return)
  ultimately show ?thesis using E(4) R keep unfolding z(2) by (intro exI [of _ d1] exI [of _ V2]) (auto simp: grows_def)
qed

end

section \<open>Other files\<close>

definition separate :: "'d Inode \<Rightarrow> 'd Inode \<Rightarrow> (usize \<Rightarrow> u8 list option) \<Rightarrow> bool" where
  "separate ino ino2 V \<longleftrightarrow> ino_fs ino2 = ino_fs ino \<and> owned ino V \<inter> owned ino2 V = {}
     \<and> (ino_block_id ino2 \<noteq> ino_block_id ino \<or> unat (ino_block_offset ino2) + 128 \<le> unat (ino_block_offset ino)
        \<or> unat (ino_block_offset ino) + 128 \<le> unat (ino_block_offset ino2))"

text \<open>What an operation on the file of \<open>ino\<close> may change.\<close>

definition touches :: "'d Inode \<Rightarrow> nat \<Rightarrow> (usize \<Rightarrow> u8 list option) \<Rightarrow> (usize \<Rightarrow> u8 list option) \<Rightarrow> bool" where
  "touches ino N V V' \<longleftrightarrow>
     (\<exists>bs. V' (ino_block_id ino) = Some (put_at (unat (ino_block_offset ino)) bs (the (V (ino_block_id ino)))) \<and> length bs \<le> 128)
     \<and> owned ino V' \<subseteq> owned ino V \<union> data_no (ino_fs ino) ` (used_data (ino_fs ino) N V' - used_data (ino_fs ino) N V)
     \<and> used_data (ino_fs ino) N V - used_data (ino_fs ino) N V' \<subseteq> {n. data_no (ino_fs ino) n \<in> owned ino V}
     \<and> (\<forall>b. b \<notin> bitmap_ids (data_bitmap (ino_fs ino)) \<longrightarrow> b \<notin> ucast ` (owned ino V \<union> owned ino V') \<longrightarrow> b \<noteq> ino_block_id ino \<longrightarrow> V' b = V b)"

lemma file_ok_block:
  assumes "file_ok dev ino N V"
  shows "ino_block_id ino \<notin> bitmap_ids (data_bitmap (ino_fs ino))" and "n < N \<Longrightarrow> ucast (data_no (ino_fs ino) n) \<noteq> ino_block_id ino"
  using assms by (auto simp: file_ok_def inode_in_def area_ok_def bitmap_ok_def bitmap_ids_def block_here_def)

lemma owned_used: "file_ok dev ino N V \<Longrightarrow> b \<in> owned ino V \<Longrightarrow> \<exists>n \<in> used_data (ino_fs ino) N V. b = data_no (ino_fs ino) n"
  by (auto simp: file_ok_def inode_in_def owned_def)

lemma inode_block_kept:
  assumes f: "file_ok dev ino N V" "file_ok dev ino2 N V" "file_ok dev ino N V'" and sep: "separate ino ino2 V" and t: "touches ino N V V'"
    and ne: "ino_block_id ino2 \<noteq> ino_block_id ino"
  shows "V' (ino_block_id ino2) = V (ino_block_id ino2)"
proof -
  have fs: "ino_fs ino2 = ino_fs ino" using sep by (simp add: separate_def)
  have "ino_block_id ino2 \<notin> ucast ` (owned ino V \<union> owned ino V')"
    using owned_used [OF f(1)] owned_used [OF f(3)] file_ok_block(2) [OF f(2)] used_data_less unfolding fs by fastforce
  then show ?thesis using t ne file_ok_block(1) [OF f(2)] unfolding fs touches_def by blast
qed

lemma inode_bytes_other:
  assumes f: "file_ok dev ino N V" "file_ok dev ino2 N V" "file_ok dev ino N V'" and sep: "separate ino ino2 V" and t: "touches ino N V V'"
  shows "disk_inode_at ino2 V' = disk_inode_at ino2 V"
proof (cases "ino_block_id ino2 = ino_block_id ino")
  case True
  obtain bs where bs: "V' (ino_block_id ino) = Some (put_at (unat (ino_block_offset ino)) bs (the (V (ino_block_id ino))))" "length bs \<le> 128"
    using t by (auto simp: touches_def)
  have len: "length (the (V (ino_block_id ino))) = 512" "unat (ino_block_offset ino) + 128 \<le> 512" "unat (ino_block_offset ino2) + 128 \<le> 512"
    using f by (auto simp: file_ok_def)
  have "take 128 (drop (unat (ino_block_offset ino2)) (put_at (unat (ino_block_offset ino)) bs (the (V (ino_block_id ino)))))
      = take 128 (drop (unat (ino_block_offset ino2)) (the (V (ino_block_id ino))))"
  proof (cases "unat (ino_block_offset ino2) + 128 \<le> unat (ino_block_offset ino)")
    case True
    then show ?thesis using len by (intro take_drop_put_at_before) simp_all
  next
    case False
    then have "drop (unat (ino_block_offset ino2)) (put_at (unat (ino_block_offset ino)) bs (the (V (ino_block_id ino))))
        = drop (unat (ino_block_offset ino2)) (the (V (ino_block_id ino)))"
      using sep True bs(2) len by (intro drop_put_at_after) (auto simp: separate_def)
    then show ?thesis by simp
  qed
  then show ?thesis using bs(1) by (simp add: disk_inode_at_def True)
next
  case False
  then show ?thesis using inode_block_kept [OF assms] by (simp add: disk_inode_at_def)
qed

lemma other_blocks_kept:
  assumes f: "file_ok dev ino N V" "file_ok dev ino2 N V" "file_ok dev ino N V'" and sep: "separate ino ino2 V" and t: "touches ino N V V'"
    and b: "b \<in> owned ino2 V"
  shows "V' (ucast b) = V (ucast b)" and "b \<notin> owned ino V'" and "b \<in> data_no (ino_fs ino) ` used_data (ino_fs ino) N V'"
proof -
  let ?fs = "ino_fs ino"
  have fs: "ino_fs ino2 = ?fs" using sep by (simp add: separate_def)
  obtain n where n: "n \<in> used_data ?fs N V" "b = data_no ?fs n" using owned_used [OF f(2) b] unfolding fs by blast
  have nN: "n < N" by (rule used_data_less [OF n(1)])
  have a: "area_ok ?fs N [ino_block_id ino] V" using f(1) by (simp add: file_ok_def inode_in_def)
  have no: "b \<notin> owned ino V" using sep b by (auto simp: separate_def)
  show no': "b \<notin> owned ino V'"
  proof
    assume "b \<in> owned ino V'"
    then obtain k where k: "k \<in> used_data ?fs N V'" "k \<notin> used_data ?fs N V" "b = data_no ?fs k" using t no by (auto simp: touches_def)
    then have "k = n" using data_no_inj [OF a nN used_data_less [OF k(1)]] n(2) by simp
    then show False using k(2) n(1) by simp
  qed
  have "ucast b \<notin> bitmap_ids (data_bitmap ?fs)" "ucast b \<noteq> ino_block_id ino"
    using a nN n(2) file_ok_block(2) [OF f(1) nN] by (auto simp: area_ok_def)
  then show "V' (ucast b) = V (ucast b)" using t no no' by (auto simp: touches_def)
  show "b \<in> data_no ?fs ` used_data ?fs N V'" using t n no by (auto simp: touches_def)
qed

lemma other_file_kept:
  assumes f: "file_ok dev ino N V" "file_ok dev ino2 N V" "file_ok dev ino N V'" and sep: "separate ino ino2 V" and t: "touches ino N V V'"
  shows "file_ok dev ino2 N V' \<and> contents ino2 V' = contents ino2 V \<and> separate ino ino2 V'"
proof -
  let ?fs = "ino_fs ino" and ?d = "disk_inode_at ino2 V"
  have fs: "ino_fs ino2 = ?fs" using sep by (simp add: separate_def)
  note d = inode_bytes_other [OF assms] and kept = other_blocks_kept [OF assms]
  have bn: "block_no ?d V' i = block_no ?d V i" if "i < n_blocks ?d" for i
    using that kept(1) meta_in_own by (auto intro!: own_view simp: owned_def)
  have own: "own ?d V' (n_blocks ?d) = own ?d V (n_blocks ?d)"
    by (rule own_view(2)) (use kept(1) meta_in_own in \<open>auto simp: owned_def\<close>)
  have "file_data ?d V' = file_data ?d V"
    unfolding file_data_def using bn kept(1) block_in_own by (intro arg_cong [where f = concat] map_cong) (auto simp: owned_def)
  then have "contents ino2 V' = contents ino2 V" by (simp add: contents_def file_bytes_def d)
  moreover have o: "owned ino2 V' = owned ino2 V" by (simp add: owned_def d own)
  then have "separate ino ino2 V'" using sep kept(2) by (auto simp: separate_def)
  moreover have "area_ok ?fs N [ino_block_id ino2] V'"
  proof -
    have a1: "area_ok ?fs N [ino_block_id ino] V'" using f(3) by (simp add: file_ok_def inode_in_def)
    have a2: "area_ok ?fs N [ino_block_id ino2] V" using f(2) by (simp add: file_ok_def inode_in_def fs)
    show ?thesis using a1 a2 by (auto simp: area_ok_def bitmap_ok_def block_here_def)
  qed
  moreover have "\<exists>bs. V' (ino_block_id ino2) = Some bs \<and> length bs = 512"
  proof (cases "ino_block_id ino2 = ino_block_id ino")
    case True
    then show ?thesis using f(3) by (simp add: file_ok_def)
  next
    case False
    then show ?thesis using f(2) inode_block_kept [OF assms] by (simp add: file_ok_def)
  qed
  ultimately show ?thesis using f(2) own kept(3) by (auto simp: file_ok_def inode_in_def fs d owned_def)
qed

end
