(* ===== verification/FsFileOps.thy ===== *)
theory FsFileOps
  imports FsWrite
begin

text \<open>The operations \<open>read_at\<close>, \<open>write_at\<close> and \<open>clear\<close> of an inode as operations on the contents of its file.\<close>

section \<open>Storing the disk inode\<close>

lemma store_inode:
  assumes d: "length (direct d) = 28" and bs: "length bs = 512" "o' + 128 \<le> 512"
  shows "from_mem disk_inode_layout (take 128 (drop o' (put_at o' (to_mem disk_inode_layout d) bs))) = d"
proof -
  have "take 128 (drop o' (put_at o' (to_mem disk_inode_layout d) bs)) = to_mem disk_inode_layout d @ take 3 (drop (o' + 125) bs)"
    using bs length_disk_inode [OF d] by (simp add: put_at_def)
  then show ?thesis using disk_inode_codec [OF d] by simp
qed

text \<open>The view after the closure of \<open>modify_disk_inode\<close> has returned the disk inode \<open>d'\<close>.\<close>

definition store :: "'d Inode \<Rightarrow> DiskInode \<Rightarrow> u8 list \<Rightarrow> (usize \<Rightarrow> u8 list option) \<Rightarrow> usize \<Rightarrow> u8 list option" where
  "store ino d bs V = V(ino_block_id ino \<mapsto> put_at (unat (ino_block_offset ino)) (to_mem disk_inode_layout d) bs)"

lemma store_file:
  assumes ino: "ino_block_device ino = dev" "efs_block_device (ino_fs ino) = dev" "unat (ino_block_offset ino) + 128 \<le> 512"
    and bs: "length bs = 512" and ok: "inode_in (ino_fs ino) N [ino_block_id ino] V d"
  shows "file_ok dev ino N (store ino d bs V)" and "disk_inode_at ino (store ino d bs V) = d"
    and "contents ino (store ino d bs V) = file_bytes d V" and "owned ino (store ino d bs V) = set (own d V (n_blocks d))"
    and "used_data (ino_fs ino) N (store ino d bs V) = used_data (ino_fs ino) N V"
proof -
  let ?b = "ino_block_id ino" and ?W = "store ino d bs V" and ?fs = "ino_fs ino"
  have len: "length (direct d) = 28" using ok by (simp add: inode_in_def)
  have area: "area_ok ?fs N [?b] V" using ok by (simp add: inode_in_def)
  have ids: "?b \<notin> bitmap_ids (data_bitmap ?fs)" using area by (auto simp: area_ok_def bitmap_ok_def bitmap_ids_def)
  have own: "?W (ucast b) = V (ucast b)" if "b \<in> set (own d V (n_blocks d))" for b
    using inode_in_own(1) [OF ok that] by (auto simp: store_def block_here_def)
  show d: "disk_inode_at ino ?W = d" using store_inode [OF len bs ino(3)] by (simp add: disk_inode_at_def store_def)
  have here: "block_here [?b] ?W (data_no ?fs n)" if "n < N" for n
    using area that by (auto simp: area_ok_def block_here_def store_def)
  have bm: "?W b = V b" if "b \<in> bitmap_ids (data_bitmap ?fs)" for b
    using ids that by (auto simp: store_def)
  have meta: "?W (ucast b) = V (ucast b)" if "b \<in> meta_blocks d V (n_blocks d)" for b
    by (rule own) (rule meta_in_own [OF that])
  note R = inode_in_cong [OF ok bm here meta]
  show "used_data ?fs N ?W = used_data ?fs N V" by (rule R(2))
  show "owned ino ?W = set (own d V (n_blocks d))" by (simp add: owned_def d R(3))
  have "\<exists>x. ?W ?b = Some x \<and> length x = 512"
    using bs ino(3) length_disk_inode [OF len] by (simp add: store_def)
  then show "file_ok dev ino N ?W" using ino R(1) by (simp add: file_ok_def d)
  have "block_no d ?W i = block_no d V i" if "i < n_blocks d" for i
    by (rule own_view(1) [OF _ that]) (use own meta_in_own in auto)
  then have "file_data d ?W = file_data d V"
    unfolding file_data_def using own block_in_own by (intro arg_cong [where f = concat] map_cong) auto
  then show "contents ino ?W = file_bytes d V" by (simp add: contents_def file_bytes_def d)
qed

context block_store
begin

lemma does_unit_then:
  assumes "does content dev (\<lambda>s. map_option (Pair ()) (p s)) Ls V () V'"
  shows "does content dev (\<lambda>s. Option.bind (p s) (\<lambda>s. Some (r, s))) Ls V r V'"
  using assms unfolding does_def by fastforce

lemma does_then_sync:
  assumes "does content dev p [] V r V'"
  shows "does content dev (\<lambda>s. Option.bind (p s) (\<lambda>(r, s). Option.bind (block_cache_sync_all s) (\<lambda>s. Some (r, s)))) [] V r V'"
proof (rule does_bind [OF assms])
  show "does content dev (\<lambda>s. Option.bind (block_cache_sync_all s) (\<lambda>s. Some (r, s))) [] V' r V'"
    by (rule does_unit_then [OF does_sync_all])
qed

lemma does_modify_inode:
  assumes f: "file_ok dev ino N V" and bs: "V (ino_block_id ino) = Some bs"
    and p: "does content dev (p (disk_inode_at ino V)) [ino_block_id ino] V (r, d') V'" and d': "length (direct d') = 28"
  shows "does content dev (modify_disk_inode ino p) [] V r (store ino d' bs V')"
proof -
  have o: "unat (ino_block_offset ino) + 128 \<le> 512" and dev: "ino_block_device ino = dev" and len: "length bs = 512"
    using f bs by (auto simp: file_ok_def)
  have ow: "ino_block_offset ino + 128 \<le> 512"
  proof -
    have "unat (ino_block_offset ino + 128) = unat (ino_block_offset ino) + 128" by (subst unat_add_less) (use o in simp_all)
    then show ?thesis using o by (simp add: word_le_nat_alt)
  qed
  have sz: "size_of disk_inode_layout = 128" by (simp add: disk_inode_layout_def)
  have "does content dev (cache_modify disk_inode_layout (ino_block_id ino) dev (ino_block_offset ino) p) [] V r
      (V'(ino_block_id ino \<mapsto> put_at (unat (ino_block_offset ino)) (to_mem disk_inode_layout d') bs))"
    by (rule does_modify [where bs = bs and v = d'])
      (use bs p o ow d' in \<open>simp_all add: sz BLOCK_CACHE_SIZE_def BLOCK_SZ_def disk_inode_at_def length_disk_inode\<close>)
  then show ?thesis by (simp add: modify_disk_inode_def dev store_def)
qed

lemma does_inode_write_at:
  assumes f: "file_ok dev ino N V" and buf: "buf \<noteq> []" "off + length buf \<le> 16540 * 512" and rm: "room ino N (off + length buf) V"
  shows "\<exists>V'. does content dev (inode_write_at ino (of_nat off) buf) [] V (of_nat (length buf)) V' \<and> file_ok dev ino N V'
    \<and> written off buf (contents ino V) (contents ino V') \<and> touches ino N V V'"
proof -
  let ?fs = "ino_fs ino" and ?b = "ino_block_id ino" and ?d = "disk_inode_at ino V"
  have ino: "ino_block_device ino = dev" "efs_block_device ?fs = dev" "unat (ino_block_offset ino) + 128 \<le> 512" "inode_in ?fs N [?b] V ?d"
    using f by (simp_all add: file_ok_def)
  obtain bs where bs: "V ?b = Some bs" "length bs = 512" using f by (auto simp: file_ok_def)
  have l: "Suc (length [?b]) < BLOCK_CACHE_SIZE" by (simp add: BLOCK_CACHE_SIZE_def)
  obtain d' V' where W: "does content dev (\<lambda>s. do {
        (d, s) \<leftarrow> inode_increase_size ino (ucast (of_nat off + of_nat (length buf) :: usize)) ?d s;
        (n, s) \<leftarrow> disk_inode_write_at d (of_nat off) buf (ino_block_device ino) s;
        Some ((n, d), s) }) [?b] V (of_nat (length buf), d') V'"
    "inode_in ?fs N [?b] V' d'" "written off buf (file_bytes ?d V) (file_bytes d' V')" "used_data ?fs N V \<subseteq> used_data ?fs N V'"
    "set (own d' V' (n_blocks d')) \<subseteq> set (own ?d V (n_blocks ?d)) \<union> data_no ?fs ` (used_data ?fs N V' - used_data ?fs N V)"
    "\<forall>b. b \<notin> bitmap_ids (data_bitmap ?fs) \<longrightarrow> b \<notin> ucast ` set (own d' V' (n_blocks d')) \<longrightarrow> V' b = V b"
    using does_write_closure [OF ino(4,2) refl ino(1) l buf] rm unfolding room_def by blast
  note S = store_file [OF ino(1-3) bs(2) W(2)]
  let ?W = "store ino d' bs V'"
  have len: "length (direct d') = 28" using W(2) by (simp add: inode_in_def)
  note D = does_then_sync [OF does_modify_inode [OF f bs(1), of "\<lambda>d s. do {
        (d, s) \<leftarrow> inode_increase_size ino (ucast (of_nat off + of_nat (length buf) :: usize)) d s;
        (n, s) \<leftarrow> disk_inode_write_at d (of_nat off) buf (ino_block_device ino) s;
        Some ((n, d), s) }", OF W(1) len]]
  have "does content dev (inode_write_at ino (of_nat off) buf) [] V (of_nat (length buf)) ?W"
    unfolding inode_write_at_def [abs_def] by (rule D)
  moreover have "touches ino N V ?W"
    unfolding touches_def S(4,5) using W(4-6) length_disk_inode [OF len] bs(1) by (auto simp: store_def owned_def)
  ultimately show ?thesis using S(1) W(3) unfolding S(3) [symmetric] contents_def [of ino V, symmetric] by blast
qed

lemma does_inode_read_at:
  assumes f: "file_ok dev ino N V" and buf: "off + length buf < 2 ^ 64"
  defines "k \<equiv> min (length buf) (length (contents ino V) - off)"
  shows "does content dev (inode_read_at ino (of_nat off) buf) [] V (of_nat k, take k (drop off (contents ino V)) @ drop k buf) V"
proof -
  let ?b = "ino_block_id ino" and ?d = "disk_inode_at ino V"
  have o: "unat (ino_block_offset ino) + 128 \<le> 512" and dev: "ino_block_device ino = dev" using f by (simp_all add: file_ok_def)
  obtain bs where bs: "V ?b = Some bs" "length bs = 512" using f by (auto simp: file_ok_def)
  have sz: "size_of disk_inode_layout = 128" by (simp add: disk_inode_layout_def)
  have ow: "ino_block_offset ino + 128 \<le> 512"
  proof -
    have "unat (ino_block_offset ino + 128) = unat (ino_block_offset ino) + 128" by (subst unat_add_less) (use o in simp_all)
    then show ?thesis using o by (simp add: word_le_nat_alt)
  qed
  have k: "min (length buf) (unat (di_size ?d) - off) = k" by (simp add: k_def length_contents [OF f])
  have "take k (drop off (contents ino V)) = take k (drop off (file_data ?d V))"
    using k by (simp add: contents_def file_bytes_def drop_take)
  moreover have "length (take k (drop off (contents ino V))) = k" by (simp add: k_def)
  moreover have "does content dev (disk_inode_read_at ?d (of_nat off) buf dev) [?b] V
      (of_nat k, put_at 0 (take k (drop off (file_data ?d V))) buf) V"
    using does_read_at [OF file_ok_inode [OF f] buf] by (simp add: k)
  ultimately have "does content dev (disk_inode_read_at ?d (of_nat off) buf dev) [?b] V (of_nat k, take k (drop off (contents ino V)) @ drop k buf) V"
    by (simp add: put_at_def)
  then show ?thesis unfolding inode_read_at_def [abs_def] read_disk_inode_def dev
    by (intro does_read [where bs = bs]) (use bs o ow in \<open>simp_all add: sz BLOCK_CACHE_SIZE_def BLOCK_SZ_def disk_inode_at_def\<close>)
qed

end

section \<open>Giving the blocks back\<close>

lemma list_in_image: "set ys \<subseteq> f ` A \<Longrightarrow> \<exists>xs. ys = map f xs \<and> set xs \<subseteq> A"
proof (induction ys)
  case (Cons y ys)
  then obtain x xs where "y = f x" "x \<in> A" "ys = map f xs" "set xs \<subseteq> A" by auto
  then show ?case by (intro exI [of _ "x # xs"]) simp
qed simp

context block_store
begin

lemma does_dealloc_data:
  assumes ok: "area_ok fs N Ls V" and dev: "efs_block_device fs = dev" and n: "n \<in> used_data fs N V"
  shows "does content dev (\<lambda>s. map_option (Pair ()) (dealloc_data fs (data_no fs n) s)) Ls V ()
    (bitmap_unset (data_bitmap fs) n (V(ucast (data_no fs n) \<mapsto> replicate 512 0)))"
    and "area_ok fs N Ls (V(ucast (data_no fs n) \<mapsto> replicate 512 0))"
    and "used_data fs N (V(ucast (data_no fs n) \<mapsto> replicate 512 0)) = used_data fs N V"
proof -
  let ?b = "ucast (data_no fs n) :: usize" and ?bm = "data_bitmap fs"
  let ?V = "V(?b \<mapsto> replicate 512 0)"
  have nN: "n < N" and nb: "n < bitmap_bits ?bm" and b: "block_here Ls V (data_no fs n)" "?b \<notin> bitmap_ids ?bm"
    using n ok by (auto simp: used_data_def area_ok_def)
  obtain bs where bs: "V ?b = Some bs" "length bs = 512" "?b \<notin> set Ls" using b(1) by (auto simp: block_here_def)
  have l: "length Ls < BLOCK_CACHE_SIZE"
    using ok nb bitmap_div [OF nb] by (auto simp: area_ok_def bitmap_ok_def)
  have keep: "?V c = V c" if "c \<in> bitmap_ids ?bm" for c using that b(2) by auto
  have here: "block_here Ls ?V (data_no fs m)" if "m < N" for m
    using ok that by (auto simp: area_ok_def block_here_def)
  show ok1: "area_ok fs N Ls ?V" by (rule area_ok_cong [OF ok keep here])
  show u1: "used_data fs N ?V = used_data fs N V" by (rule used_data_cong) (use ok keep in \<open>auto simp: area_ok_def\<close>)
  have "does content dev (cache_modify DataBlock ?b dev 0 zero_block) Ls V () (V(?b \<mapsto> put_at (unat (0 :: usize)) (to_mem DataBlock (map (\<lambda>b. 0) bs)) bs))"
    by (rule does_modify [where bs = bs and v = "map (\<lambda>b. 0) bs" and V' = V]) (use bs l in \<open>simp_all add: DataBlock_def BLOCK_SZ_def zero_block_def [abs_def] does_return\<close>)
  then have z: "does content dev (cache_modify DataBlock ?b dev 0 zero_block) Ls V () ?V"
    using bs(2) by (simp add: DataBlock_def put_at_def map_replicate_const)
  have i: "(ucast (data_no fs n - data_area_start_block fs) :: usize) = of_nat n"
    using nN ok by (simp add: data_no_def area_ok_def ucast_of_nat_small)
  have "bitmap_used ?bm ?V n" using n u1 by (auto simp: used_data_def)
  then have "does content dev (\<lambda>s. map_option (Pair ()) (bitmap_dealloc ?bm dev (of_nat n) s)) Ls ?V () (bitmap_unset ?bm n ?V)"
    using ok1 nb by (intro does_bitmap_dealloc) (simp_all add: area_ok_def)
  from does_bind [OF z, of "\<lambda>u s. map_option (Pair ()) (bitmap_dealloc ?bm dev (of_nat n) s)", OF this]
  show "does content dev (\<lambda>s. map_option (Pair ()) (dealloc_data fs (data_no fs n) s)) Ls V () (bitmap_unset ?bm n ?V)"
    unfolding dealloc_data_def dev i map_option_bind by (simp add: comp_def split_beta')
qed

lemma does_dealloc_blocks:
  assumes "area_ok fs N Ls V" and dev: "efs_block_device fs = dev" and "distinct ms" and "set ms \<subseteq> used_data fs N V"
  shows "\<exists>V'. does content dev (\<lambda>s. map_option (Pair ()) (foldM (dealloc_data fs) (map (data_no fs) ms) s)) Ls V () V'
    \<and> area_ok fs N Ls V' \<and> used_data fs N V' = used_data fs N V - set ms
    \<and> (\<forall>b. b \<notin> bitmap_ids (data_bitmap fs) \<longrightarrow> b \<notin> (\<lambda>m. ucast (data_no fs m)) ` set ms \<longrightarrow> V' b = V b)"
  using assms(1,3,4)
proof (induction ms arbitrary: V)
  case Nil
  then show ?case by (intro exI [of _ V]) (simp add: does_return)
next
  case (Cons m ms)
  let ?bm = "data_bitmap fs" and ?V1 = "V(ucast (data_no fs m) \<mapsto> replicate 512 0)"
  let ?V = "bitmap_unset ?bm m ?V1"
  have m: "m \<in> used_data fs N V" using Cons.prems(3) by simp
  note D = does_dealloc_data [OF Cons.prems(1) dev m]
  have mb: "m < bitmap_bits ?bm" using m Cons.prems(1) by (auto simp: used_data_def area_ok_def)
  have ok1: "area_ok fs N Ls ?V" unfolding bitmap_unset_def by (rule area_ok_put [OF D(2) mb])
  have u1: "used_data fs N ?V = used_data fs N V - {m}" using used_data_unset [OF D(2)] m D(3) by simp
  have "set ms \<subseteq> used_data fs N ?V" using Cons.prems(2,3) by (auto simp: u1)
  then obtain V' where R: "does content dev (\<lambda>s. map_option (Pair ()) (foldM (dealloc_data fs) (map (data_no fs) ms) s)) Ls ?V () V'"
    "area_ok fs N Ls V'" "used_data fs N V' = used_data fs N ?V - set ms"
    "\<forall>b. b \<notin> bitmap_ids ?bm \<longrightarrow> b \<notin> (\<lambda>m. ucast (data_no fs m)) ` set ms \<longrightarrow> V' b = ?V b"
    using Cons.IH [OF ok1] Cons.prems(2) by auto
  have "does content dev (\<lambda>s. map_option (Pair ()) (foldM (dealloc_data fs) (map (data_no fs) (m # ms)) s)) Ls V () V'"
    using D(1) R(1) unfolding does_def by fastforce
  moreover have "V' b = V b" if "b \<notin> bitmap_ids ?bm" "b \<notin> (\<lambda>m. ucast (data_no fs m)) ` set (m # ms)" for b
    using R(4) that bitmap_put_ids [OF mb that(1)] by (simp add: bitmap_unset_def)
  ultimately show ?case using R(2,3) u1 by (intro exI [of _ V']) auto
qed

lemma does_clear_closure:
  assumes ok: "inode_in fs N Ls V d" and dev: "efs_block_device fs = dev" "ino_fs ino = fs" "ino_block_device ino = dev"
    and l: "Suc (length Ls) < BLOCK_CACHE_SIZE"
  shows "\<exists>d' V'. does content dev (\<lambda>s. do {
        ((v, d'), s) \<leftarrow> clear_size (ino_block_device ino) d s;
        rassert (length v = unat (total_blocks (di_size d)));
        s \<leftarrow> foldM (dealloc_data (ino_fs ino)) v s;
        Some (((), d'), s) }) Ls V ((), d') V'
    \<and> inode_in fs N Ls V' d' \<and> di_size d' = 0
    \<and> used_data fs N V' = used_data fs N V - {n. data_no fs n \<in> set (own d V (n_blocks d))}
    \<and> (\<forall>b. b \<notin> bitmap_ids (data_bitmap fs) \<longrightarrow> b \<notin> ucast ` set (own d V (n_blocks d)) \<longrightarrow> V' b = V b)"
proof -
  let ?own = "own d V (n_blocks d)"
  have I: "area_ok fs N Ls V" "unat (di_size d) \<le> 16540 * 512" "distinct ?own" "set ?own \<subseteq> data_no fs ` used_data fs N V"
    using ok by (simp_all add: inode_in_def)
  obtain d' where d': "does content dev (clear_size dev d) Ls V (?own, d') V" "di_size d' = 0" "length (direct d') = 28"
    using does_clear_size [OF inode_in_wf [OF ok] I(2) l] by blast
  have len: "length ?own = unat (total_blocks (di_size d))"
    using unat_total_blocks [of "di_size d"] I(2) by (simp add: length_own n_blocks_def)
  obtain ms where ms: "?own = map (data_no fs) ms" "set ms \<subseteq> used_data fs N V" using list_in_image [OF I(4)] by blast
  have "distinct ms" using I(3) ms(1) by (simp add: distinct_map)
  then obtain V' where V': "does content dev (\<lambda>s. map_option (Pair ()) (foldM (dealloc_data fs) ?own s)) Ls V () V'"
    "area_ok fs N Ls V'" "used_data fs N V' = used_data fs N V - set ms"
    "\<forall>b. b \<notin> bitmap_ids (data_bitmap fs) \<longrightarrow> b \<notin> (\<lambda>m. ucast (data_no fs m)) ` set ms \<longrightarrow> V' b = V b"
    using does_dealloc_blocks [OF I(1) dev(1) _ ms(2)] unfolding ms(1) by blast
  have "n \<in> set ms \<longleftrightarrow> data_no fs n \<in> set ?own" if "n \<in> used_data fs N V" for n
    using data_no_inj [OF I(1) used_data_less [OF that]] used_data_less subsetD [OF ms(2)] unfolding ms(1) set_map image_iff by metis
  then have "used_data fs N V - set ms = used_data fs N V - {n. data_no fs n \<in> set ?own}" by blast
  moreover have "does content dev (\<lambda>s. do {
        ((v, d'), s) \<leftarrow> clear_size (ino_block_device ino) d s;
        rassert (length v = unat (total_blocks (di_size d)));
        s \<leftarrow> foldM (dealloc_data (ino_fs ino)) v s;
        Some (((), d'), s) }) Ls V ((), d') V'"
  proof -
    let ?q = "\<lambda>(v, d') s. do {
        rassert (length v = unat (total_blocks (di_size d)));
        s \<leftarrow> foldM (dealloc_data fs) v s;
        Some (((), d'), s) }"
    have "does content dev (?q (?own, d')) Ls V ((), d') V'"
      by (simp only: prod.case len simp_thms bind_rassert if_True) (rule does_unit_then [OF V'(1)])
    from does_bind [OF d'(1), of ?q, OF this] show ?thesis unfolding dev(2,3) by (simp only: split_beta')
  qed
  moreover have "inode_in fs N Ls V' d'" using V'(2) d'(2,3) by (simp add: inode_in_def n_blocks_def own_def)
  ultimately show ?thesis using d'(2) V'(3,4) ms(1) by (intro exI [of _ d'] exI [of _ V']) (auto simp: image_image)
qed

lemma does_inode_clear:
  assumes f: "file_ok dev ino N V"
  shows "\<exists>V'. does content dev (\<lambda>s. map_option (Pair ()) (inode_clear ino s)) [] V () V' \<and> file_ok dev ino N V'
    \<and> contents ino V' = [] \<and> owned ino V' = {}
    \<and> used_data (ino_fs ino) N V' = used_data (ino_fs ino) N V - {n. data_no (ino_fs ino) n \<in> owned ino V} \<and> touches ino N V V'"
proof -
  let ?fs = "ino_fs ino" and ?b = "ino_block_id ino" and ?d = "disk_inode_at ino V"
  have ino: "ino_block_device ino = dev" "efs_block_device ?fs = dev" "unat (ino_block_offset ino) + 128 \<le> 512" "inode_in ?fs N [?b] V ?d"
    using f by (simp_all add: file_ok_def)
  obtain bs where bs: "V ?b = Some bs" "length bs = 512" using f by (auto simp: file_ok_def)
  have l: "Suc (length [?b]) < BLOCK_CACHE_SIZE" by (simp add: BLOCK_CACHE_SIZE_def)
  define p where "p = (\<lambda>d s. do {
        ((v, d'), s) \<leftarrow> clear_size (ino_block_device ino) d s;
        rassert (length v = unat (total_blocks (di_size d)));
        s \<leftarrow> foldM (dealloc_data (ino_fs ino)) v s;
        Some (((), d'), s) })"
  obtain d' V' where W: "does content dev (p ?d) [?b] V ((), d') V'"
    "inode_in ?fs N [?b] V' d'" "di_size d' = 0" "used_data ?fs N V' = used_data ?fs N V - {n. data_no ?fs n \<in> set (own ?d V (n_blocks ?d))}"
    "\<forall>b. b \<notin> bitmap_ids (data_bitmap ?fs) \<longrightarrow> b \<notin> ucast ` set (own ?d V (n_blocks ?d)) \<longrightarrow> V' b = V b"
    using does_clear_closure [OF ino(4,2) refl ino(1) l] unfolding p_def by blast
  note S = store_file [OF ino(1-3) bs(2) W(2)]
  let ?W = "store ino d' bs V'"
  have len: "length (direct d') = 28" using W(2) by (simp add: inode_in_def)
  note D = does_modify_inode [OF f bs(1), of p, OF W(1) len]
  have "does content dev (\<lambda>s. map_option (Pair ()) (inode_clear ino s)) [] V () ?W"
    using does_bind [OF D, of "\<lambda>u s. map_option (Pair ()) (block_cache_sync_all s)", OF does_sync_all]
    unfolding inode_clear_def Let_def p_def [symmetric] map_option_bind by (simp add: comp_def split_beta')
  moreover have "set (own d' V' (n_blocks d')) = {}" by (simp add: n_blocks_def own_def W(3))
  moreover have "touches ino N V ?W"
    unfolding touches_def S(4,5) using W(4,5) length_disk_inode [OF len] bs(1) calculation(2) by (auto simp: store_def owned_def)
  moreover have "file_bytes d' V' = []" by (simp add: file_bytes_def W(3))
  ultimately show ?thesis using S W(4) by (intro exI [of _ ?W]) (simp add: owned_def)
qed

end

end
