(* ===== verification/FsFuse.thy ===== *)
theory FsFuse
  imports FsFileOps
begin

text \<open>
  The tool that packs applications into a disk image, \<open>src/easy-fs-fuse/src/main.rs\<close>: a file of the
  host as a block device, and the packing of a directory. The host file system (the names in the
  source directory and the contents of the applications) is a parameter, as are the two paths of
  the command line.
\<close>

section \<open>Host files\<close>

type_synonym host_file = "u8 list"

text \<open>\<open>File::set_len\<close>, \<open>File::write\<close> at a position (which extends the file) and \<open>File::read\<close>.\<close>

definition set_len :: "nat \<Rightarrow> host_file \<Rightarrow> host_file" where
  "set_len n f = take n f @ replicate (n - length f) 0"

definition file_write :: "nat \<Rightarrow> u8 list \<Rightarrow> host_file \<Rightarrow> host_file" where
  "file_write pos buf f = take pos f @ replicate (pos - length f) 0 @ buf @ drop (pos + length buf) f"

definition file_read :: "nat \<Rightarrow> nat \<Rightarrow> host_file \<Rightarrow> u8 list" where
  "file_read pos n f = take n (drop pos f)"

text \<open>\<open>seek(SeekFrom::Start(..))\<close> fails for a position that is not a signed 64-bit offset.\<close>

definition seek_start :: "usize \<Rightarrow> nat option" where
  "seek_start pos = (if unat pos < 2 ^ 63 then Some (unat pos) else None)"

section \<open>The block device\<close>

definition FUSE_BLOCK_SZ :: usize where
  "FUSE_BLOCK_SZ = 512"

definition BLOCK_NUM :: usize where
  "BLOCK_NUM = 131072"

definition block_file_read :: "usize \<Rightarrow> host_file \<Rightarrow> u8 list option" where
  "block_file_read block_id f = do {
     pos \<leftarrow> seek_start (block_id * FUSE_BLOCK_SZ);
     let bs = file_read pos 512 f;
     rassert (length bs = unat FUSE_BLOCK_SZ);
     Some bs }"

definition block_file_write :: "usize \<Rightarrow> u8 list \<Rightarrow> host_file \<Rightarrow> host_file option" where
  "block_file_write block_id buf f = do {
     pos \<leftarrow> seek_start (block_id * FUSE_BLOCK_SZ);
     rassert (length buf = unat FUSE_BLOCK_SZ);
     Some (file_write pos buf f) }"

definition BlockFile :: "host_file BlockDevice" where
  "BlockFile = \<lparr>read_block = block_file_read, write_block = block_file_write\<rparr>"

section \<open>Packing\<close>

text \<open>The name up to the first \<open>.\<close>, which there must be.\<close>

definition strip_ext :: "u8 list \<Rightarrow> u8 list option" where
  "strip_ext name_with_ext = do {
     i \<leftarrow> find_index (\<lambda>c. c = 0x2E) name_with_ext;
     Some (take i name_with_ext) }"

fun strip_exts :: "u8 list list \<Rightarrow> u8 list list option" where
  "strip_exts [] = Some []"
| "strip_exts (n # ns) = do { a \<leftarrow> strip_ext n; as \<leftarrow> strip_exts ns; Some (a # as) }"

definition pack_app ::
  "(u8 list \<Rightarrow> host_file option) \<Rightarrow> u8 list \<Rightarrow> host_file Inode \<Rightarrow> u8 list \<Rightarrow> host_file io \<Rightarrow> host_file io option" where
  "pack_app open_file target_path root app s = do {
     all_data \<leftarrow> open_file (target_path @ app);
     (r, s) \<leftarrow> inode_create root app s;
     inode \<leftarrow> r;
     (n, s) \<leftarrow> inode_write_at inode 0 all_data s;
     Some s }"

text \<open>The result is the list of names that is printed.\<close>

definition easy_fs_pack ::
  "u8 list list \<Rightarrow> (u8 list \<Rightarrow> host_file option) \<Rightarrow> u8 list \<Rightarrow> host_file \<Rightarrow> (u8 list list \<times> host_file io) option" where
  "easy_fs_pack dir_names open_file target_path img = do {
     let f = set_len (unat (BLOCK_NUM * FUSE_BLOCK_SZ)) img;
     let block_file = \<lparr>vtable = BlockFile, object = 0\<rparr>;
     let s = \<lparr>devices = (\<lambda>n. f), cache_queue = [], locked = []\<rparr>;
     (efs, s) \<leftarrow> efs_create block_file (ucast BLOCK_NUM) 1 s;
     let root = root_inode efs;
     apps \<leftarrow> strip_exts dir_names;
     s \<leftarrow> foldM (pack_app open_file target_path root) apps s;
     inode_ls root s }"

section \<open>A host file is a block store\<close>

definition image_block :: "host_file \<Rightarrow> usize \<Rightarrow> u8 list option" where
  "image_block f b = (if unat b * 512 + 512 \<le> length f \<and> unat b * 512 < 2 ^ 63
     then Some (take 512 (drop (unat b * 512) f)) else None)"

lemma seek_block: "unat b * 512 < 2 ^ 63 \<Longrightarrow> seek_start (b * FUSE_BLOCK_SZ) = Some (unat b * 512)"
proof -
  assume a: "unat b * 512 < 2 ^ 63"
  then have "unat (b * 512) = unat b * 512" by (subst unat_mult_lem [THEN iffD1]) simp_all
  then show ?thesis using a by (simp add: seek_start_def FUSE_BLOCK_SZ_def)
qed

lemma file_write_inside: "pos + length buf \<le> length f \<Longrightarrow> file_write pos buf f = put_at pos buf f"
  by (simp add: file_write_def put_at_def)

lemma image_block_write:
  assumes b: "unat b * 512 + 512 \<le> length f" "unat b * 512 < 2 ^ 63" and bs: "length bs = 512"
  shows "image_block (put_at (unat b * 512) bs f) = (image_block f)(b \<mapsto> bs)"
proof
  fix x
  have len: "length (put_at (unat b * 512) bs f) = length f" using b bs by simp
  consider "x = b" | "unat x < unat b" | "unat b < unat x"
    using word_unat_eq_iff by (metis linorder_neqE_nat)
  then show "image_block (put_at (unat b * 512) bs f) x = ((image_block f)(b \<mapsto> bs)) x"
  proof cases
    case 1
    then show ?thesis using b bs take_drop_put_at [of "unat b * 512" bs f] len by (simp add: image_block_def)
  next
    case 2
    then have "unat x * 512 + 512 \<le> unat b * 512" by linarith
    then have "take 512 (drop (unat x * 512) (put_at (unat b * 512) bs f)) = take 512 (drop (unat x * 512) f)"
      using b by (intro take_drop_put_at_before) simp_all
    then show ?thesis using 2 len by (auto simp: image_block_def)
  next
    case 3
    then have "unat b * 512 + 512 \<le> unat x * 512" by linarith
    then have "drop (unat x * 512) (put_at (unat b * 512) bs f) = drop (unat x * 512) f"
      using b bs by (intro drop_put_at_after) simp_all
    then show ?thesis using 3 len by (auto simp: image_block_def)
  qed
qed

interpretation image: block_store "\<lparr>vtable = BlockFile, object = n\<rparr>" image_block for n
proof
  fix d b bs
  assume "image_block d b = Some bs"
  then have b: "unat b * 512 + 512 \<le> length d" "unat b * 512 < 2 ^ 63" "bs = take 512 (drop (unat b * 512) d)"
    by (auto simp: image_block_def split: if_splits)
  then show "length bs = 512" by simp
  show "read_block (vtable \<lparr>vtable = BlockFile, object = n\<rparr>) b d = Some bs"
    using b seek_block [OF b(2)] by (simp add: BlockFile_def block_file_read_def file_read_def FUSE_BLOCK_SZ_def)
next
  fix d b and bs :: "u8 list"
  assume "image_block d b \<noteq> None" and bs: "length bs = 512"
  then have b: "unat b * 512 + 512 \<le> length d" "unat b * 512 < 2 ^ 63"
    by (auto simp: image_block_def split: if_splits)
  have "write_block BlockFile b bs d = Some (put_at (unat b * 512) bs d)"
    using b bs seek_block [OF b(2)] file_write_inside [of "unat b * 512" bs d]
    by (simp add: BlockFile_def block_file_write_def FUSE_BLOCK_SZ_def)
  then show "\<exists>d'. write_block (vtable \<lparr>vtable = BlockFile, object = n\<rparr>) b bs d = Some d'
      \<and> image_block d' = (image_block d)(b \<mapsto> bs)"
    using image_block_write [OF b bs] by auto
qed

end
