(* ===== verification/FsProps.thy ===== *)
theory FsProps
  imports FsFuse
begin

text \<open>
  Properties of \<open>easy-fs\<close> on a disk image: the device is a host file (\<open>image\<close>).
\<close>

section \<open>Samples\<close>

text \<open>A process that has just opened an image of \<open>n\<close> zeroed blocks.\<close>

abbreviation image_dev :: "host_file dyn_device" where
  "image_dev \<equiv> \<lparr>vtable = BlockFile, object = 0\<rparr>"

definition fresh_io :: "nat \<Rightarrow> host_file io" where
  "fresh_io n = \<lparr>devices = (\<lambda>i. replicate (n * 512) 0), cache_queue = [], locked = []\<rparr>"

lemma fresh_io_ok [simp]: "cache_ok image_block image_dev (fresh_io n)" "locked (fresh_io n) = []"
  by (simp_all add: fresh_io_def cache_ok_def)

lemma fresh_io_view:
  assumes "n < 2 ^ 54" and "unat b < n"
  shows "view image_block image_dev (fresh_io n) b = Some (replicate 512 0)"
proof -
  have "unat b * 512 + 512 \<le> n * 512" using assms(2) by linarith
  moreover have "unat b * 512 < 2 ^ 63" using assms by simp
  ultimately show ?thesis
    by (simp add: view_def fresh_io_def image_block_def)
qed

lemma least_free:
  fixes k :: nat
  assumes "\<exists>n < k. \<not> P n"
  shows "(LEAST n. \<not> P n) < k" "\<not> P (LEAST n. \<not> P n)" "n < (LEAST n. \<not> P n) \<Longrightarrow> P n"
proof -
  obtain j where n: "j < k" "\<not> P j" using assms by blast
  show "(LEAST n. \<not> P n) < k" using Least_le [of "\<lambda>n. \<not> P n", OF n(2)] n(1) by (rule le_less_trans)
  show "\<not> P (LEAST n. \<not> P n)" by (rule LeastI [of "\<lambda>n. \<not> P n", OF n(2)])
  show "n < (LEAST n. \<not> P n) \<Longrightarrow> P n" using not_less_Least [of n "\<lambda>n. \<not> P n"] by blast
qed

text \<open>Files of no bytes on such an image: two inodes in block 1, the bitmap in block 2, and ten data blocks from block 3.\<close>

definition fresh_fs :: "host_file EasyFileSystem" where
  "fresh_fs = \<lparr>efs_block_device = image_dev, inode_bitmap = \<lparr>start_block_id = 0, bitmap_blocks = 1\<rparr>,
     data_bitmap = \<lparr>start_block_id = 2, bitmap_blocks = 1\<rparr>, inode_area_start_block = 1, data_area_start_block = 3\<rparr>"

definition fresh_file :: "usize \<Rightarrow> host_file Inode" where
  "fresh_file k = \<lparr>ino_block_id = 1, ino_block_offset = k, ino_fs = fresh_fs, ino_block_device = image_dev\<rparr>"

lemma fresh_bits: "n < 10 \<Longrightarrow> \<not> bitmap_used (data_bitmap fresh_fs) (view image_block image_dev (fresh_io 20)) n"
proof -
  have v: "view image_block image_dev (fresh_io 20) 2 = Some (replicate 512 0)" by (rule fresh_io_view) simp_all
  have "words_of_bytes 8 64 (replicate 512 0) ! 0 = (0 :: u64)" by (simp add: words_of_bytes_def numeral_eq_Suc)
  then show "n < 10 \<Longrightarrow> ?thesis" using v by (simp add: bitmap_used_def bitmap_words_def BitmapBlock_def fresh_fs_def)
qed

lemma fresh_area: "area_ok fresh_fs 10 [1] (view image_block image_dev (fresh_io 20))"
proof -
  let ?V = "view image_block image_dev (fresh_io 20)"
  have v: "?V b = Some (replicate 512 0)" if "unat b < 20" for b by (rule fresh_io_view) (use that in simp_all)
  have no: "unat (data_no fresh_fs n) = n + 3" if "n < 10" for n by (subst unat_data_no) (use that in \<open>simp_all add: fresh_fs_def\<close>)
  have b: "unat (ucast (data_no fresh_fs n) :: usize) = n + 3" if "n < 10" for n by (simp add: unat_ucast_u32 no [OF that])
  have "block_here [1] ?V (data_no fresh_fs n)" "ucast (data_no fresh_fs n) \<notin> bitmap_ids (data_bitmap fresh_fs)" if "n < 10" for n
    using v [of "ucast (data_no fresh_fs n)"] b [OF that] that
    by (auto simp: block_here_def bitmap_ids_def fresh_fs_def word_unat_eq_iff)
  moreover have "bitmap_ok (data_bitmap fresh_fs) [1] ?V"
    using v [of 2] by (simp add: bitmap_ok_def bitmap_bits_def BLOCK_CACHE_SIZE_def fresh_fs_def)
  ultimately show ?thesis by (simp add: area_ok_def) (simp add: fresh_fs_def bitmap_bits_def)
qed

lemma fresh_file_ok:
  assumes "unat k + 128 \<le> 512"
  shows "file_ok image_dev (fresh_file k) 10 (view image_block image_dev (fresh_io 20))"
    and "owned (fresh_file k) (view image_block image_dev (fresh_io 20)) = {}"
    and "n_blocks (disk_inode_at (fresh_file k) (view image_block image_dev (fresh_io 20))) = 0"
proof -
  let ?V = "view image_block image_dev (fresh_io 20)"
  let ?d = "disk_inode_at (fresh_file k) ?V"
  have v: "?V 1 = Some (replicate 512 0)" by (rule fresh_io_view) simp_all
  have "?d = from_mem disk_inode_layout (replicate 128 0)"
    using assms v by (simp add: disk_inode_at_def fresh_file_def drop_replicate take_replicate)
  then have d: "di_size ?d = 0" "length (direct ?d) = 28"
    by (simp_all add: disk_inode_layout_def Let_def words_of_bytes_def numeral_eq_Suc)
  then show n: "n_blocks ?d = 0" by (simp add: n_blocks_def)
  show "owned (fresh_file k) ?V = {}" by (simp add: owned_def n own_def)
  show "file_ok image_dev (fresh_file k) 10 ?V"
    using fresh_area assms d v n by (simp add: file_ok_def inode_in_def own_def fresh_file_def) (simp add: fresh_fs_def)
qed

lemma fresh_room: "room (fresh_file k) 10 m (view image_block image_dev (fresh_io 20))" if "m \<le> 5120"
proof -
  have "used_data fresh_fs 10 (view image_block image_dev (fresh_io 20)) = {}" using fresh_bits by (auto simp: used_data_def)
  moreover have "(m + 511) div 512 \<le> 10" using that by simp
  ultimately show ?thesis by (simp add: room_def fresh_file_def tot_def)
qed

section \<open>Properties\<close>





text \<open>
  C5. Writing to a file and reading it back. On a disk that holds two well-formed files that share no block, with enough free data
  blocks, \<open>write_at\<close> of a non-empty buffer that ends within the largest size a file can have returns the
  length of the buffer: the file then has those bytes at that offset, the bytes it had elsewhere,
  and the size \<open>max(old size, offset + len)\<close>; \<open>read_at\<close> at the same offset returns the buffer; both files are still
  well formed and share no block, and the other one has the contents it had.
\<close>

theorem file_write_then_read:
  assumes ok: "cache_ok image_block image_dev s" "locked s = []"
    and f: "file_ok image_dev ino N (view image_block image_dev s)" "file_ok image_dev ino2 N (view image_block image_dev s)"
    and sep: "separate ino ino2 (view image_block image_dev s)"
    and buf: "buf \<noteq> []" "off + length buf \<le> 16540 * 512" "room ino N (off + length buf) (view image_block image_dev s)"
    and old: "length old = length buf"
  shows "\<exists>s' s''. inode_write_at ino (of_nat off) buf s = Some (of_nat (length buf), s')
    \<and> cache_ok image_block image_dev s' \<and> locked s' = [] \<and> separate ino ino2 (view image_block image_dev s')
    \<and> file_ok image_dev ino N (view image_block image_dev s') \<and> file_ok image_dev ino2 N (view image_block image_dev s')
    \<and> written off buf (contents ino (view image_block image_dev s)) (contents ino (view image_block image_dev s'))
    \<and> contents ino2 (view image_block image_dev s') = contents ino2 (view image_block image_dev s)
    \<and> inode_read_at ino (of_nat off) old s' = Some ((of_nat (length buf), buf), s'')"
proof -
  let ?V = "view image_block image_dev s"
  obtain V' where V': "does image_block image_dev (inode_write_at ino (of_nat off) buf) [] ?V (of_nat (length buf)) V'"
    "file_ok image_dev ino N V'" "written off buf (contents ino ?V) (contents ino V')" "touches ino N ?V V'"
    using image.does_inode_write_at [OF f(1) buf] by blast
  note O = other_file_kept [OF f V'(2) sep V'(4)]
  obtain s' where s': "inode_write_at ino (of_nat off) buf s = Some (of_nat (length buf), s')"
    "cache_ok image_block image_dev s'" "locked s' = []" "view image_block image_dev s' = V'"
    using V'(1) ok unfolding does_def by blast
  have "off + length old < 2 ^ 64" using buf(2) old by simp
  from image.does_inode_read_at [OF V'(2) this]
  have "does image_block image_dev (inode_read_at ino (of_nat off) old) [] V' (of_nat (length buf), buf) V'"
    using V'(3) old by (simp add: written_def)
  then obtain s'' where "inode_read_at ino (of_nat off) old s' = Some ((of_nat (length buf), buf), s'')"
    using s'(2-4) unfolding does_def by blast
  then show ?thesis using s' V'(2,3) O by blast
qed

theorem file_write_then_read_witness:
  "\<exists>s' s''. inode_write_at (fresh_file 0) 700 [1, 2, 3] (fresh_io 20) = Some (3, s')
    \<and> contents (fresh_file 128) (view image_block image_dev s') = contents (fresh_file 128) (view image_block image_dev (fresh_io 20))
    \<and> inode_read_at (fresh_file 0) 700 [0, 0, 0] s' = Some ((3, [1, 2, 3]), s'')"
proof -
  have "separate (fresh_file 0) (fresh_file 128) (view image_block image_dev (fresh_io 20))"
    using fresh_file_ok(2) [of 0] by (simp add: separate_def) (simp add: fresh_file_def)
  from file_write_then_read [OF fresh_io_ok fresh_file_ok(1) fresh_file_ok(1) this, of "[1, 2, 3]" 700 "[0, 0, 0]", OF _ _ _ _ fresh_room]
  show ?thesis by auto
qed

text \<open>
  C6. Clearing a file. \<open>clear\<close> returns; the file is then well formed and empty and owns no block, the bitmap has lost exactly the
  blocks the file owned (data and indirect blocks alike), and a file that shared no block with it has the
  contents it had.
\<close>

theorem file_clear_frees:
  assumes ok: "cache_ok image_block image_dev s" "locked s = []"
    and f: "file_ok image_dev ino N (view image_block image_dev s)" "file_ok image_dev ino2 N (view image_block image_dev s)"
    and sep: "separate ino ino2 (view image_block image_dev s)"
  shows "\<exists>s'. inode_clear ino s = Some s' \<and> cache_ok image_block image_dev s' \<and> locked s' = []
    \<and> file_ok image_dev ino N (view image_block image_dev s') \<and> file_ok image_dev ino2 N (view image_block image_dev s')
    \<and> contents ino (view image_block image_dev s') = [] \<and> owned ino (view image_block image_dev s') = {}
    \<and> used_data (ino_fs ino) N (view image_block image_dev s') =
        used_data (ino_fs ino) N (view image_block image_dev s) - {n. data_no (ino_fs ino) n \<in> owned ino (view image_block image_dev s)}
    \<and> contents ino2 (view image_block image_dev s') = contents ino2 (view image_block image_dev s)"
proof -
  let ?V = "view image_block image_dev s"
  obtain V' where V': "does image_block image_dev (\<lambda>s. map_option (Pair ()) (inode_clear ino s)) [] ?V () V'"
    "file_ok image_dev ino N V'" "contents ino V' = []" "owned ino V' = {}"
    "used_data (ino_fs ino) N V' = used_data (ino_fs ino) N ?V - {n. data_no (ino_fs ino) n \<in> owned ino ?V}" "touches ino N ?V V'"
    using image.does_inode_clear [OF f(1)] by blast
  note O = other_file_kept [OF f V'(2) sep V'(6)]
  have "\<exists>s'. map_option (Pair ()) (inode_clear ino s) = Some ((), s') \<and> cache_ok image_block image_dev s' \<and> locked s' = []
    \<and> view image_block image_dev s' = V'"
    using V'(1) ok unfolding does_def by blast
  then show ?thesis using V'(2-5) O by auto
qed

theorem file_clear_frees_witness:
  "\<exists>s s'. inode_write_at (fresh_file 0) 0 [1, 2, 3] (fresh_io 20) = Some (3, s)
    \<and> contents (fresh_file 0) (view image_block image_dev s) = [1, 2, 3]
    \<and> inode_clear (fresh_file 0) s = Some s' \<and> contents (fresh_file 0) (view image_block image_dev s') = []"
proof -
  let ?V = "view image_block image_dev (fresh_io 20)"
  have f: "file_ok image_dev (fresh_file 0) 10 ?V" "file_ok image_dev (fresh_file 128) 10 ?V" by (rule fresh_file_ok, simp)+
  have sep: "separate (fresh_file 0) (fresh_file 128) ?V"
    using fresh_file_ok(2) [of 0] by (simp add: separate_def) (simp add: fresh_file_def)
  have c: "contents (fresh_file 0) ?V = []"
    using length_contents [OF f(1)] fresh_file_ok(3) [of 0] unfolding n_blocks_def length_0_conv [symmetric] by simp
  obtain V' where V': "does image_block image_dev (inode_write_at (fresh_file 0) 0 [1, 2, 3]) [] ?V 3 V'" "file_ok image_dev (fresh_file 0) 10 V'"
    "written 0 [1, 2, 3] (contents (fresh_file 0) ?V) (contents (fresh_file 0) V')" "touches (fresh_file 0) 10 ?V V'"
    using image.does_inode_write_at [OF f(1), of "[1, 2, 3]" 0] fresh_room [of "Suc (Suc (Suc 0))" 0] by auto
  obtain s where s: "inode_write_at (fresh_file 0) 0 [1, 2, 3] (fresh_io 20) = Some (3, s)"
    "cache_ok image_block image_dev s" "locked s = []" "view image_block image_dev s = V'"
    using V'(1) fresh_io_ok unfolding does_def by blast
  have "contents (fresh_file 0) V' = [1, 2, 3]"
    using V'(3) take_all [of "contents (fresh_file 0) V'" "Suc (Suc (Suc 0))"] by (simp add: written_def c)
  moreover have "\<exists>s'. inode_clear (fresh_file 0) s = Some s' \<and> contents (fresh_file 0) (view image_block image_dev s') = []"
    using file_clear_frees [OF s(2,3), of "fresh_file 0" 10 "fresh_file 128"] other_file_kept [OF f V'(2) sep V'(4)] V'(2) s(4) by auto
  ultimately show ?thesis using s by auto
qed

end
