(* ===== verification/Asm.thy ===== *)
theory Asm
  imports Context
begin

text \<open>
  The assembly of the kernel: \<open>task/switch.S\<close>, \<open>trap/trap.S\<close> and \<open>entry.asm\<close>. The code is a list of RV64
  instructions, with the assembler's \<open>.macro\<close> and \<open>.rept\<close> expanded by functions, and a small semantics of
  these instructions executes it. Address translation is a parameter \<open>mmu\<close>: the physical address of a
  virtual address under a value of \<open>satp\<close>. Loads and stores of 8 bytes do not cross a page here.
\<close>

section \<open>Instructions\<close>

datatype csr = Sscratch | Sstatus | Sepc | Satp

datatype instr = Sd nat nat nat | Ld nat nat nat | Mv nat nat | La nat usize | Csrrw nat csr nat | Csrr nat csr
  | Csrw csr nat | SfenceVma | Jr nat | Ret | Call usize | Sret

record cpu =
  reg :: "nat \<Rightarrow> usize"
  csr_of :: "csr \<Rightarrow> usize"
  pc :: usize
  in_user :: bool
  cmem :: phys_mem

type_synonym mmu = "usize \<Rightarrow> usize \<Rightarrow> usize"

text \<open>Register 0 is always 0.\<close>

definition set_reg :: "nat \<Rightarrow> usize \<Rightarrow> cpu \<Rightarrow> cpu" where
  "set_reg r w s = (if r = 0 then s else s\<lparr>reg := (reg s)(r := w)\<rparr>)"

definition set_csr :: "csr \<Rightarrow> usize \<Rightarrow> cpu \<Rightarrow> cpu" where
  "set_csr c w s = s\<lparr>csr_of := (csr_of s)(c := w)\<rparr>"

definition paddr :: "mmu \<Rightarrow> nat \<Rightarrow> nat \<Rightarrow> cpu \<Rightarrow> usize" where
  "paddr mmu off b s = mmu (csr_of s Satp) (reg s b + of_nat off)"

text \<open>
  \<open>sret\<close>: the mode is \<open>SPP\<close> (bit 8), which becomes user; \<open>SIE\<close> (bit 1) becomes \<open>SPIE\<close> (bit 5), which becomes 1.
\<close>

definition sret_status :: "usize \<Rightarrow> usize" where
  "sret_status w = unset_bit 8 (set_bit 5 (if bit w 5 then set_bit 1 w else unset_bit 1 w))"

text \<open>\<open>pc\<close> is set by jumps; the code below runs in a straight line up to its last instruction.\<close>

fun exec :: "mmu \<Rightarrow> instr \<Rightarrow> cpu \<Rightarrow> cpu" where
  "exec mmu (Sd r off b) s = s\<lparr>cmem := write_u64 (cmem s) (paddr mmu off b s) (reg s r)\<rparr>"
| "exec mmu (Ld r off b) s = set_reg r (read_u64 (cmem s) (paddr mmu off b s)) s"
| "exec mmu (Mv r a) s = set_reg r (reg s a) s"
| "exec mmu (La r w) s = set_reg r w s"
| "exec mmu (Csrrw r c a) s = set_reg r (csr_of s c) (set_csr c (reg s a) s)"
| "exec mmu (Csrr r c) s = set_reg r (csr_of s c) s"
| "exec mmu (Csrw c a) s = set_csr c (reg s a) s"
| "exec mmu SfenceVma s = s"
| "exec mmu (Jr a) s = s\<lparr>pc := reg s a\<rparr>"
| "exec mmu Ret s = s\<lparr>pc := reg s 1\<rparr>"
| "exec mmu (Call w) s = s\<lparr>pc := w\<rparr>"
| "exec mmu Sret s = set_csr Sstatus (sret_status (csr_of s Sstatus))
     (s\<lparr>pc := csr_of s Sepc, in_user := \<not> bit (csr_of s Sstatus) 8\<rparr>)"

primrec exec_all :: "mmu \<Rightarrow> instr list \<Rightarrow> cpu \<Rightarrow> cpu" where
  "exec_all mmu [] s = s"
| "exec_all mmu (i # is) s = exec_all mmu is (exec mmu i s)"

text \<open>A trap from user mode, as the processor takes it.\<close>

definition take_trap :: "usize \<Rightarrow> cpu \<Rightarrow> cpu" where
  "take_trap stvec s =
     (let st = csr_of s Sstatus;
          st = (if in_user s then unset_bit 8 st else set_bit 8 st);
          st = (if bit st 1 then set_bit 5 st else unset_bit 5 st)
      in set_csr Sepc (pc s) (set_csr Sstatus (unset_bit 1 st) (s\<lparr>pc := stvec, in_user := False\<rparr>)))"

section \<open>\<open>switch.S\<close>\<close>

text \<open>The registers \<open>s0\<close>, \<open>s1\<close> are 8, 9 and \<open>s2\<close> to \<open>s11\<close> are 18 to 27.\<close>

definition s_reg :: "nat \<Rightarrow> nat" where
  "s_reg n = (if n < 2 then 8 + n else 16 + n)"

definition SAVE_SN :: "nat \<Rightarrow> instr" where
  "SAVE_SN n = Sd (s_reg n) ((n + 2) * 8) 10"

definition LOAD_SN :: "nat \<Rightarrow> instr" where
  "LOAD_SN n = Ld (s_reg n) ((n + 2) * 8) 11"

definition switch_code :: "instr list" where
  "switch_code = [Sd 2 8 10, Sd 1 0 10] @ map SAVE_SN [0..<12]
     @ [Ld 1 0 11] @ map LOAD_SN [0..<12] @ [Ld 2 8 11, Ret]"

section \<open>\<open>trap.S\<close>\<close>

definition SAVE_GP :: "nat \<Rightarrow> instr" where
  "SAVE_GP n = Sd n (n * 8) 2"

definition LOAD_GP :: "nat \<Rightarrow> instr" where
  "LOAD_GP n = Ld n (n * 8) 2"

definition alltraps_code :: "instr list" where
  "alltraps_code = [Csrrw 2 Sscratch 2, Sd 1 (1 * 8) 2, Sd 3 (3 * 8) 2] @ map SAVE_GP [5..<5 + 27]
     @ [Csrr 5 Sstatus, Csrr 6 Sepc, Sd 5 (32 * 8) 2, Sd 6 (33 * 8) 2,
        Csrr 7 Sscratch, Sd 7 (2 * 8) 2,
        Ld 5 (34 * 8) 2, Ld 6 (36 * 8) 2, Ld 2 (35 * 8) 2,
        Csrw Satp 5, SfenceVma, Jr 6]"

definition restore_code :: "instr list" where
  "restore_code = [Csrw Satp 11, SfenceVma, Csrw Sscratch 10, Mv 2 10,
        Ld 5 (32 * 8) 2, Ld 6 (33 * 8) 2, Csrw Sstatus 5, Csrw Sepc 6,
        Ld 1 (1 * 8) 2, Ld 3 (3 * 8) 2]
     @ map LOAD_GP [5..<5 + 27] @ [Ld 2 (2 * 8) 2, Sret]"

section \<open>\<open>entry.asm\<close>\<close>

definition start_code :: "usize \<Rightarrow> usize \<Rightarrow> instr list" where
  "start_code boot_stack_top rust_main = [La 2 boot_stack_top, Call rust_main]"

section \<open>Words in slots\<close>

lemma cx_slot_diff: "unat (cx_slot p j - cx_slot p i) = (8 * j - 8 * i) mod 2 ^ 64" if "i \<le> j"
proof -
  have "cx_slot p j - cx_slot p i = of_nat (8 * j - 8 * i)" using that by (simp add: cx_slot_def of_nat_diff)
  then show ?thesis by (simp add: unat_of_nat)
qed

definition put_slots :: "usize \<Rightarrow> (nat \<times> usize) list \<Rightarrow> phys_mem \<Rightarrow> phys_mem" where
  "put_slots p kvs m = fold (\<lambda>(k, v) m. write_u64 m (cx_slot p k) v) kvs m"

lemma slots_apart:
  assumes "i \<noteq> j" and "i < 64" and "j < 64"
  shows "8 \<le> unat (cx_slot p j - cx_slot p i)"
proof -
  have a: "8 \<le> unat (cx_slot p l - cx_slot p k)" if "k < l" "l < 64" for k l
    using that cx_slot_diff [of k l p] by simp
  show ?thesis
  proof (cases "i < j")
    case False
    then have "j < i" using assms(1) by simp
    have "unat (cx_slot p i - cx_slot p j) = 8 * i - 8 * j" using \<open>j < i\<close> assms(2) cx_slot_diff [of j i p] by simp
    moreover have "cx_slot p j - cx_slot p i = - (cx_slot p i - cx_slot p j)" by simp
    moreover have "cx_slot p i - cx_slot p j \<noteq> 0" using calculation(1) \<open>j < i\<close> by auto
    ultimately have "unat (cx_slot p j - cx_slot p i) = 2 ^ 64 - (8 * i - 8 * j)" using unat_neg by metis
    then show ?thesis using assms(2) by simp
  qed (use a assms in simp)
qed

lemma read_put_slots:
  assumes "\<forall>k \<in> fst ` set kvs. k < 64" and "j < 64" and "distinct (map fst kvs)"
  shows "read_u64 (put_slots p kvs m) (cx_slot p j) = (case map_of kvs j of Some v \<Rightarrow> v | None \<Rightarrow> read_u64 m (cx_slot p j))"
  using assms(1,3)
proof (induction kvs rule: rev_induct)
  case (snoc kv kvs)
  obtain k v where kv: "kv = (k, v)" by (cases kv)
  have e: "put_slots p (kvs @ [kv]) m = write_u64 (put_slots p kvs m) (cx_slot p k) v" by (simp add: put_slots_def kv)
  have IH: "read_u64 (put_slots p kvs m) (cx_slot p j) = (case map_of kvs j of Some v \<Rightarrow> v | None \<Rightarrow> read_u64 m (cx_slot p j))"
    using snoc by simp
  show ?case
  proof (cases "j = k")
    case True
    then have "map_of kvs j = None" using snoc.prems(2) kv by (auto simp: map_of_eq_None_iff)
    then show ?thesis unfolding e by (simp add: kv True read_write_u64 map_add_def)
  next
    case False
    have "read_u64 (write_u64 (put_slots p kvs m) (cx_slot p k) v) (cx_slot p j) = read_u64 (put_slots p kvs m) (cx_slot p j)"
      using False snoc.prems(1) assms(2) kv by (intro read_write_apart slots_apart) auto
    then show ?thesis unfolding e IH using False by (auto simp: kv map_add_def split: option.split)
  qed
qed (simp add: put_slots_def)

section \<open>Runs of stores and loads\<close>

lemma exec_all_append: "exec_all mmu (xs @ ys) s = exec_all mmu ys (exec_all mmu xs s)"
  by (induction xs arbitrary: s) simp_all

definition slots_at :: "mmu \<Rightarrow> usize \<Rightarrow> usize \<Rightarrow> usize \<Rightarrow> bool" where
  "slots_at mmu satp a p \<longleftrightarrow> (\<forall>k < 64. mmu satp (a + of_nat (8 * k)) = cx_slot p k)"

lemma exec_saves:
  assumes "slots_at mmu (csr_of s Satp) (reg s b) p" and "\<forall>n \<in> set ns. k n < 64"
  shows "exec_all mmu (map (\<lambda>n. Sd (r n) (8 * k n) b) ns) s
    = s\<lparr>cmem := put_slots p (map (\<lambda>n. (k n, reg s (r n))) ns) (cmem s)\<rparr>"
  using assms
proof (induction ns arbitrary: s)
  case (Cons n ns)
  then have "exec mmu (Sd (r n) (8 * k n) b) s = s\<lparr>cmem := write_u64 (cmem s) (cx_slot p (k n)) (reg s (r n))\<rparr>"
    by (simp add: paddr_def slots_at_def)
  then show ?case using Cons by (simp add: put_slots_def)
qed (simp add: put_slots_def)

lemma exec_loads:
  assumes "slots_at mmu (csr_of s Satp) (reg s b) p" and "\<forall>n \<in> set ns. k n < 64 \<and> r n \<noteq> b \<and> r n \<noteq> 0" and "inj_on r (set ns)" and "distinct ns"
  shows "exec_all mmu (map (\<lambda>n. Ld (r n) (8 * k n) b) ns) s
    = s\<lparr>reg := \<lambda>x. (case map_of (map (\<lambda>n. (r n, k n)) ns) x of Some j \<Rightarrow> read_u64 (cmem s) (cx_slot p j) | None \<Rightarrow> reg s x)\<rparr>"
  using assms
proof (induction ns arbitrary: s)
  case (Cons n ns)
  let ?s = "s\<lparr>reg := (reg s)(r n := read_u64 (cmem s) (cx_slot p (k n)))\<rparr>"
  have e: "exec mmu (Ld (r n) (8 * k n) b) s = ?s" using Cons.prems by (simp add: paddr_def slots_at_def set_reg_def)
  have IH: "exec_all mmu (map (\<lambda>n. Ld (r n) (8 * k n) b) ns) ?s
    = ?s\<lparr>reg := \<lambda>x. (case map_of (map (\<lambda>n. (r n, k n)) ns) x of Some j \<Rightarrow> read_u64 (cmem ?s) (cx_slot p j) | None \<Rightarrow> reg ?s x)\<rparr>"
    by (rule Cons.IH) (use Cons.prems in auto)
  have "map_of (map (\<lambda>n. (r n, k n)) ns) (r n) = None"
    using Cons.prems(3,4) by (auto simp: map_of_eq_None_iff inj_on_def)
  then show ?case using IH e by (auto simp: fun_eq_iff split: option.split)
qed simp

section \<open>What \<open>__switch\<close> does\<close>

text \<open>The \<open>TaskContext\<close> at an address: \<open>ra\<close>, \<open>sp\<close> and \<open>s0\<close> to \<open>s11\<close>, 14 words.\<close>

definition task_cx_at :: "phys_mem \<Rightarrow> usize \<Rightarrow> TaskContext" where
  "task_cx_at m p = \<lparr>tc_ra = read_u64 m (cx_slot p 0), tc_sp = read_u64 m (cx_slot p 1),
     tc_s = map (\<lambda>n. read_u64 m (cx_slot p (n + 2))) [0..<12]\<rparr>"

definition callee_saved :: "cpu \<Rightarrow> TaskContext" where
  "callee_saved s = \<lparr>tc_ra = reg s 1, tc_sp = reg s 2, tc_s = map (\<lambda>n. reg s (s_reg n)) [0..<12]\<rparr>"

definition cx_saves :: "nat list" where "cx_saves = [0, 1] @ [2..<14]"

definition cx_reg :: "nat \<Rightarrow> nat" where
  "cx_reg i = (if i = 0 then 1 else if i = 1 then 2 else s_reg (i - 2))"

lemma cx_reg_inj: "inj_on cx_reg {..<14}"
  by (auto simp: inj_on_def cx_reg_def s_reg_def split: if_splits)

lemma switch_code_runs:
  "switch_code = map (\<lambda>i. Sd (cx_reg i) (8 * i) 10) ([1, 0] @ [2..<14])
     @ map (\<lambda>i. Ld (cx_reg i) (8 * i) 11) ([0] @ [2..<14] @ [1]) @ [Ret]"
  by (simp add: switch_code_def SAVE_SN_def LOAD_SN_def cx_reg_def s_reg_def upt_rec)

text \<open>The two contexts do not overlap.\<close>

definition cx_apart :: "usize \<Rightarrow> usize \<Rightarrow> bool" where
  "cx_apart p q \<longleftrightarrow> (\<forall>i < 14. \<forall>j < 14. 8 \<le> unat (cx_slot q j - cx_slot p i) \<and> 8 \<le> unat (cx_slot p i - cx_slot q j))"

lemma read_put_slots_apart:
  assumes "cx_apart p q" and "\<forall>k \<in> fst ` set kvs. k < 14" and "j < 14"
  shows "read_u64 (put_slots p kvs m) (cx_slot q j) = read_u64 m (cx_slot q j)"
  using assms(2)
proof (induction kvs rule: rev_induct)
  case (snoc kv kvs)
  then show ?case using assms(1,3) by (cases kv) (auto simp: put_slots_def cx_apart_def read_write_apart)
qed (simp add: put_slots_def)

lemma switch_exec:
  assumes "slots_at mmu (csr_of s Satp) (reg s 10) p" and "slots_at mmu (csr_of s Satp) (reg s 11) q" and ap: "cx_apart p q"
  defines "m \<equiv> put_slots p (map (\<lambda>i. (i, reg s (cx_reg i))) ([1, 0] @ [2..<14])) (cmem s)"
  shows "exec_all mmu switch_code s = s\<lparr>cmem := m,
     reg := \<lambda>x. (case map_of (map (\<lambda>i. (cx_reg i, i)) ([0] @ [2..<14] @ [1])) x of
        Some j \<Rightarrow> read_u64 (cmem s) (cx_slot q j) | None \<Rightarrow> reg s x),
     pc := read_u64 (cmem s) (cx_slot q 0)\<rparr>"
proof -
  let ?ns = "[0] @ [2..<14] @ [1 :: nat]"
  have 1: "exec_all mmu (map (\<lambda>i. Sd (cx_reg i) (8 * i) 10) ([1, 0] @ [2..<14])) s = s\<lparr>cmem := m\<rparr>"
    unfolding m_def by (rule exec_saves [where k = "\<lambda>i. i"]) (use assms(1) in auto)
  have 2: "exec_all mmu (map (\<lambda>i. Ld (cx_reg i) (8 * i) 11) ?ns) (s\<lparr>cmem := m\<rparr>)
      = s\<lparr>cmem := m\<rparr>\<lparr>reg := \<lambda>x. (case map_of (map (\<lambda>i. (cx_reg i, i)) ?ns) x of
         Some j \<Rightarrow> read_u64 (cmem (s\<lparr>cmem := m\<rparr>)) (cx_slot q j) | None \<Rightarrow> reg (s\<lparr>cmem := m\<rparr>) x)\<rparr>"
  proof (rule exec_loads [where k = "\<lambda>i. i"])
    show "\<forall>i \<in> set ?ns. i < 64 \<and> cx_reg i \<noteq> 11 \<and> cx_reg i \<noteq> 0" by (auto simp: cx_reg_def s_reg_def)
    show "inj_on cx_reg (set ?ns)" by (rule inj_on_subset [OF cx_reg_inj]) auto
  qed (use assms(2) in auto)
  have r: "read_u64 m (cx_slot q j) = read_u64 (cmem s) (cx_slot q j)" if "j < 14" for j
    unfolding m_def by (rule read_put_slots_apart [OF ap _ that]) auto
  have j: "j < 14" if "map_of (map (\<lambda>i. (cx_reg i, i)) ?ns) x = Some j" for x j
    using map_of_SomeD [OF that] by auto
  have ra: "map_of (map (\<lambda>i. (cx_reg i, i)) ?ns) 1 = Some 0" by (simp add: cx_reg_def)
  show ?thesis
    unfolding switch_code_runs exec_all_append 1 2 using ra r by (auto simp: fun_eq_iff j split: option.split)
qed

lemma switch_saves:
  assumes "slots_at mmu (csr_of s Satp) (reg s 10) p" and "slots_at mmu (csr_of s Satp) (reg s 11) q" and "cx_apart p q"
  shows "task_cx_at (cmem (exec_all mmu switch_code s)) p = callee_saved s"
proof -
  have "read_u64 (put_slots p (map (\<lambda>i. (i, reg s (cx_reg i))) ([1, 0] @ [2..<14])) (cmem s)) (cx_slot p i) = reg s (cx_reg i)"
    if "i < 14" for i
  proof -
    have "set ([1, 0] @ [2..<14]) = {..<14 :: nat}" by (simp only: set_append set_upt) auto
    then have "map_of (map (\<lambda>i. (i, reg s (cx_reg i))) ([1, 0] @ [2..<14])) i = Some (reg s (cx_reg i))"
      using that unfolding map_of_map_restrict by (simp only: restrict_map_def comp_def) simp
    then show ?thesis by (subst read_put_slots) (use that in \<open>auto simp: comp_def\<close>)
  qed
  then show ?thesis unfolding switch_exec [OF assms] task_cx_at_def callee_saved_def by (simp add: cx_reg_def)
qed

lemma load_order: "set ([0] @ [2..<14] @ [1]) = {..<14 :: nat}"
  by (simp only: set_append set_upt) auto

lemma switch_loads:
  assumes "slots_at mmu (csr_of s Satp) (reg s 10) p" and "slots_at mmu (csr_of s Satp) (reg s 11) q" and "cx_apart p q"
  shows "callee_saved (exec_all mmu switch_code s) = task_cx_at (cmem s) q"
    and "pc (exec_all mmu switch_code s) = tc_ra (task_cx_at (cmem s) q)"
    and "r \<notin> cx_reg ` {..<14} \<Longrightarrow> reg (exec_all mmu switch_code s) r = reg s r"
proof -
  let ?ns = "[0] @ [2..<14] @ [1 :: nat]"
  have m: "map_of (map (\<lambda>i. (cx_reg i, i)) ?ns) (cx_reg j) = Some j" if "j < 14" for j
  proof (rule map_of_is_SomeI)
    show "distinct (map fst (map (\<lambda>i. (cx_reg i, i)) ?ns))"
      unfolding map_map comp_def fst_conv distinct_map load_order using cx_reg_inj by simp
    show "(cx_reg j, j) \<in> set (map (\<lambda>i. (cx_reg i, i)) ?ns)" unfolding set_map load_order using that by simp
  qed
  have R: "reg (exec_all mmu switch_code s) (cx_reg j) = read_u64 (cmem s) (cx_slot q j)" if "j < 14" for j
    unfolding switch_exec [OF assms] using m [OF that] by simp
  show "callee_saved (exec_all mmu switch_code s) = task_cx_at (cmem s) q"
    using R [of 0] R [of 1] R [of "_ + 2"] by (simp add: callee_saved_def task_cx_at_def cx_reg_def)
  show "pc (exec_all mmu switch_code s) = tc_ra (task_cx_at (cmem s) q)"
    unfolding switch_exec [OF assms] by (simp add: task_cx_at_def)
  assume "r \<notin> cx_reg ` {..<14}"
  then have "map_of (map (\<lambda>i. (cx_reg i, i)) ?ns) r = None" unfolding map_of_eq_None_iff set_map load_order by auto
  then show "reg (exec_all mmu switch_code s) r = reg s r" unfolding switch_exec [OF assms] by simp
qed

section \<open>What \<open>__alltraps\<close> and \<open>__restore\<close> do\<close>

definition gp_regs :: "nat list" where "gp_regs = [1, 3] @ [5..<32]"

lemma gp_set: "set gp_regs = {1, 3} \<union> {5..<32}"
  by (simp only: gp_regs_def set_append set_upt) auto

lemma gp_distinct: "distinct gp_regs"
  by (simp add: gp_regs_def)

lemma field_slots:
  assumes "slots_at mmu satp a p"
  shows "mmu satp (a + 16) = cx_slot p 2" "mmu satp (a + 256) = cx_slot p 32" "mmu satp (a + 264) = cx_slot p 33"
    "mmu satp (a + 272) = cx_slot p 34" "mmu satp (a + 280) = cx_slot p 35" "mmu satp (a + 288) = cx_slot p 36"
  using assms [unfolded slots_at_def, rule_format, of 2] assms [unfolded slots_at_def, rule_format, of 32]
    assms [unfolded slots_at_def, rule_format, of 33] assms [unfolded slots_at_def, rule_format, of 34]
    assms [unfolded slots_at_def, rule_format, of 35] assms [unfolded slots_at_def, rule_format, of 36] by simp_all

text \<open>The words that \<open>__alltraps\<close> saves in the trap context.\<close>

definition trap_saves :: "cpu \<Rightarrow> (nat \<times> usize) list" where
  "trap_saves s = map (\<lambda>n. (n, reg s n)) gp_regs @ [(32, csr_of s Sstatus), (33, csr_of s Sepc), (2, reg s 2)]"

lemma put_slots_append: "put_slots p (xs @ ys) m = put_slots p ys (put_slots p xs m)"
  by (simp add: put_slots_def)

lemma trap_saves_read:
  assumes "k < 64"
  shows "read_u64 (put_slots p (trap_saves s) m) (cx_slot p k) =
    (if k \<in> set gp_regs then reg s k else if k = 32 then csr_of s Sstatus else if k = 33 then csr_of s Sepc
     else if k = 2 then reg s 2 else read_u64 m (cx_slot p k))"
proof -
  have "map_of (trap_saves s) k = (if k \<in> set gp_regs then Some (reg s k) else if k = 32 then Some (csr_of s Sstatus)
      else if k = 33 then Some (csr_of s Sepc) else if k = 2 then Some (reg s 2) else None)"
    unfolding trap_saves_def map_of_append map_of_map_restrict by (auto simp: map_add_def restrict_map_def)
  moreover have "read_u64 (put_slots p (trap_saves s) m) (cx_slot p k)
      = (case map_of (trap_saves s) k of Some v \<Rightarrow> v | None \<Rightarrow> read_u64 m (cx_slot p k))"
    by (rule read_put_slots) (use assms gp_distinct in \<open>auto simp: trap_saves_def gp_set comp_def\<close>)
  ultimately show ?thesis by simp
qed

lemma alltraps_exec:
  assumes at: "slots_at mmu (csr_of s Satp) (csr_of s Sscratch) p"
  defines "rd \<equiv> \<lambda>k. read_u64 (cmem s) (cx_slot p k)"
  shows "exec_all mmu alltraps_code s = s\<lparr>cmem := put_slots p (trap_saves s) (cmem s),
      reg := (reg s)(5 := rd 34, 6 := rd 36, 7 := reg s 2, 2 := rd 35),
      csr_of := (csr_of s)(Sscratch := reg s 2, Satp := rd 34), pc := rd 36\<rparr>"
proof -
  let ?s1 = "s\<lparr>reg := (reg s)(2 := csr_of s Sscratch), csr_of := (csr_of s)(Sscratch := reg s 2)\<rparr>"
  let ?m1 = "put_slots p (map (\<lambda>n. (n, reg s n)) gp_regs) (cmem s)" and ?m = "put_slots p (trap_saves s) (cmem s)"
  have c: "alltraps_code = [Csrrw 2 Sscratch 2] @ map (\<lambda>n. Sd n (8 * n) 2) gp_regs
     @ [Csrr 5 Sstatus, Csrr 6 Sepc, Sd 5 (32 * 8) 2, Sd 6 (33 * 8) 2, Csrr 7 Sscratch, Sd 7 (2 * 8) 2]
     @ [Ld 5 (34 * 8) 2, Ld 6 (36 * 8) 2, Ld 2 (35 * 8) 2, Csrw Satp 5, SfenceVma, Jr 6]"
    by (simp add: alltraps_code_def SAVE_GP_def gp_regs_def upt_rec)
  have 1: "exec_all mmu [Csrrw 2 Sscratch 2] s = ?s1" by (simp add: set_reg_def set_csr_def)
  have "exec_all mmu (map (\<lambda>n. Sd n (8 * n) 2) gp_regs) ?s1 = ?s1\<lparr>cmem := put_slots p (map (\<lambda>n. (n, reg ?s1 n)) gp_regs) (cmem ?s1)\<rparr>"
    by (rule exec_saves [where k = "\<lambda>n. n" and r = "\<lambda>n. n"]) (use at in \<open>auto simp: gp_set\<close>)
  moreover have "map (\<lambda>n. (n, reg ?s1 n)) gp_regs = map (\<lambda>n. (n, reg s n)) gp_regs" by (auto simp: gp_set)
  ultimately have 2: "exec_all mmu (map (\<lambda>n. Sd n (8 * n) 2) gp_regs) ?s1 = ?s1\<lparr>cmem := ?m1\<rparr>" by (simp only:) simp
  have 3: "exec_all mmu [Csrr 5 Sstatus, Csrr 6 Sepc, Sd 5 (32 * 8) 2, Sd 6 (33 * 8) 2, Csrr 7 Sscratch, Sd 7 (2 * 8) 2] (?s1\<lparr>cmem := ?m1\<rparr>)
      = ?s1\<lparr>cmem := ?m, reg := (reg ?s1)(5 := csr_of s Sstatus, 6 := csr_of s Sepc, 7 := reg s 2)\<rparr>"
    by (simp add: paddr_def field_slots [OF at] trap_saves_def put_slots_append set_reg_def) (simp add: put_slots_def)
  have r: "read_u64 ?m (cx_slot p k) = rd k" if "k = 34 \<or> k = 35 \<or> k = 36" for k
    using that trap_saves_read [of k p s "cmem s"] unfolding rd_def gp_set by auto
  show ?thesis
    unfolding c exec_all_append 1 2 3 using r by (simp add: paddr_def field_slots [OF at] set_reg_def set_csr_def fun_upd_twist)
qed

lemma restore_exec:
  assumes at: "slots_at mmu (reg s 11) (reg s 10) p"
  defines "rd \<equiv> \<lambda>k. read_u64 (cmem s) (cx_slot p k)"
  shows "exec_all mmu restore_code s = s\<lparr>reg := \<lambda>x. if x \<in> set gp_regs \<or> x = 2 then rd x else reg s x,
      csr_of := (csr_of s)(Satp := reg s 11, Sscratch := reg s 10, Sepc := rd 33, Sstatus := sret_status (rd 32)),
      pc := rd 33, in_user := \<not> bit (rd 32) 8\<rparr>"
proof -
  let ?s1 = "s\<lparr>reg := (reg s)(2 := reg s 10, 5 := rd 32, 6 := rd 33),
      csr_of := (csr_of s)(Satp := reg s 11, Sscratch := reg s 10, Sstatus := rd 32, Sepc := rd 33)\<rparr>"
  let ?g = "\<lambda>x. if x \<in> set gp_regs then rd x else reg ?s1 x"
  have c: "restore_code = [Csrw Satp 11, SfenceVma, Csrw Sscratch 10, Mv 2 10, Ld 5 (32 * 8) 2, Ld 6 (33 * 8) 2, Csrw Sstatus 5, Csrw Sepc 6]
     @ map (\<lambda>n. Ld n (8 * n) 2) gp_regs @ [Ld 2 (2 * 8) 2, Sret]"
    by (simp add: restore_code_def LOAD_GP_def gp_regs_def upt_rec)
  have 1: "exec_all mmu [Csrw Satp 11, SfenceVma, Csrw Sscratch 10, Mv 2 10, Ld 5 (32 * 8) 2, Ld 6 (33 * 8) 2, Csrw Sstatus 5, Csrw Sepc 6] s = ?s1"
    by (simp add: set_csr_def set_reg_def paddr_def field_slots [OF at] rd_def)
  have "exec_all mmu (map (\<lambda>n. Ld n (8 * n) 2) gp_regs) ?s1 = ?s1\<lparr>reg := \<lambda>x. (case map_of (map (\<lambda>n. (n, n)) gp_regs) x of
      Some j \<Rightarrow> read_u64 (cmem ?s1) (cx_slot p j) | None \<Rightarrow> reg ?s1 x)\<rparr>"
    by (rule exec_loads [where k = "\<lambda>n. n" and r = "\<lambda>n. n"]) (use at gp_distinct in \<open>auto simp: gp_set\<close>)
  also have "\<dots> = ?s1\<lparr>reg := ?g\<rparr>" unfolding map_of_map_restrict by (simp add: restrict_map_def rd_def fun_eq_iff)
  finally have 2: "exec_all mmu (map (\<lambda>n. Ld n (8 * n) 2) gp_regs) ?s1 = ?s1\<lparr>reg := ?g\<rparr>" .
  have g: "?g 2 = reg s 10" by (simp add: gp_set)
  have "(?g)(2 := rd 2) = (\<lambda>x. if x \<in> set gp_regs \<or> x = 2 then rd x else reg s x)" by (auto simp: gp_set)
  then show ?thesis unfolding c exec_all_append 1 2
    using g by (simp add: set_reg_def set_csr_def paddr_def field_slots [OF at] rd_def)
qed

lemma cx_apart_below:
  assumes "unat p + 112 \<le> unat q" and "unat q + 112 < 2 ^ 64"
  shows "cx_apart p q" and "cx_apart q p"
proof -
  have *: "8 \<le> unat (cx_slot q j - cx_slot p i) \<and> 8 \<le> unat (cx_slot p i - cx_slot q j)" if "i < 14" "j < 14" for i j
  proof -
    define k where "k = unat q + 8 * j - (unat p + 8 * i)"
    have k: "8 \<le> k" "k + 8 < 2 ^ 64" using assms that by (auto simp: k_def)
    have "(of_nat k :: usize) = of_nat (unat q + 8 * j) - of_nat (unat p + 8 * i)"
      unfolding k_def by (rule of_nat_diff) (use assms that in simp)
    then have e: "cx_slot q j - cx_slot p i = of_nat k" by (simp add: cx_slot_def)
    have u: "unat (of_nat k :: usize) = k" using k by (simp add: unat_of_nat_less)
    then have "(of_nat k :: usize) \<noteq> 0" using k by auto
    from unat_neg [OF this] have "unat (cx_slot p i - cx_slot q j) = 2 ^ 64 - k" using u by (simp add: e [symmetric])
    then show ?thesis using k e u by simp
  qed
  show "cx_apart p q" "cx_apart q p" using * by (auto simp: cx_apart_def)
qed

lemma slots_at_identity: "slots_at (\<lambda>satp a. a) satp a a"
  by (simp add: slots_at_def cx_slot_def)

text \<open>A processor whose registers hold 100 times their number, with two contexts at 4096 and 8192.\<close>

definition sample_cpu :: cpu where
  "sample_cpu = \<lparr>reg = (\<lambda>r. 100 * of_nat r)(10 := 4096, 11 := 8192), csr_of = (\<lambda>c. if c = Sscratch then 4096 else 0),
     pc = 0x80200000, in_user = True, cmem = (\<lambda>a. ucast a)\<rparr>"

section \<open>Properties\<close>



text \<open>
  C24. A trap and the return from it. When a trap is taken in user mode with \<open>sscratch\<close> pointing to the trap context,
  \<open>__alltraps\<close> saves the user's registers and enters \<open>trap_handler\<close> on the kernel stack and in the kernel's address
  space. If the context is unchanged when \<open>__restore\<close> is called with it and the user's token, the user continues at
  the same place, in user mode and in its address space, with every register except \<open>tp\<close> as it was.
\<close>

theorem trap_round_trip:
  assumes u: "in_user s" and at: "slots_at mmu (csr_of s Satp) (csr_of s Sscratch) p"
    and k: "k = exec_all mmu alltraps_code (take_trap stvec s)"
    and t: "reg t 10 = csr_of s Sscratch" "reg t 11 = csr_of s Satp" "reg t 0 = reg s 0"
      "\<And>i. i < 37 \<Longrightarrow> read_u64 (cmem t) (cx_slot p i) = read_u64 (cmem k) (cx_slot p i)"
  defines "f \<equiv> exec_all mmu restore_code t"
  shows "pc k = read_u64 (cmem s) (cx_slot p slot_trap_handler) \<and> reg k 2 = read_u64 (cmem s) (cx_slot p slot_kernel_sp)
    \<and> csr_of k Satp = read_u64 (cmem s) (cx_slot p slot_kernel_satp) \<and> \<not> in_user k
    \<and> pc f = pc s \<and> in_user f \<and> csr_of f Satp = csr_of s Satp \<and> csr_of f Sscratch = csr_of s Sscratch
    \<and> (\<forall>r < 32. r \<noteq> 4 \<longrightarrow> reg f r = reg s r)"
proof -
  let ?s = "take_trap stvec s"
  have same: "csr_of ?s Satp = csr_of s Satp" "csr_of ?s Sscratch = csr_of s Sscratch" "reg ?s = reg s" "cmem ?s = cmem s"
    "csr_of ?s Sepc = pc s" "\<not> in_user ?s" "\<not> bit (csr_of ?s Sstatus) 8"
    using u by (auto simp: take_trap_def set_csr_def Let_def bit_simps)
  have at': "slots_at mmu (csr_of ?s Satp) (csr_of ?s Sscratch) p" using at same by simp
  have K: "k = ?s\<lparr>cmem := put_slots p (trap_saves ?s) (cmem s),
      reg := (reg s)(5 := read_u64 (cmem s) (cx_slot p 34), 6 := read_u64 (cmem s) (cx_slot p 36), 7 := reg s 2, 2 := read_u64 (cmem s) (cx_slot p 35)),
      csr_of := (csr_of ?s)(Sscratch := reg s 2, Satp := read_u64 (cmem s) (cx_slot p 34)), pc := read_u64 (cmem s) (cx_slot p 36)\<rparr>"
    unfolding k alltraps_exec [OF at'] same by (simp add: same)
  have cx: "read_u64 (cmem t) (cx_slot p i) = (if i \<in> set gp_regs then reg s i else if i = 32 then csr_of ?s Sstatus
      else if i = 33 then pc s else if i = 2 then reg s 2 else read_u64 (cmem s) (cx_slot p i))" if "i < 37" for i
    using t(4) [OF that] trap_saves_read [of i p ?s "cmem s"] that by (simp add: K same)
  have at2: "slots_at mmu (reg t 11) (reg t 10) p" using at t by simp
  have F: "pc f = pc s" "in_user f" "csr_of f Satp = csr_of s Satp" "csr_of f Sscratch = csr_of s Sscratch"
    using cx [of 32] cx [of 33] same(7) t(1,2) unfolding f_def restore_exec [OF at2] by (simp_all add: gp_set)
  have "reg f r = reg s r" if "r < 32" "r \<noteq> 4" for r
  proof -
    have "r = 0 \<or> r = 2 \<or> r \<in> set gp_regs" using that unfolding gp_set by auto
    then show ?thesis using cx [of r] that(1) t(3) unfolding f_def restore_exec [OF at2] by (auto simp: gp_set)
  qed
  then show ?thesis using F same(6) by (simp add: K slot_defs)
qed

theorem trap_round_trip_witness:
  "pc (exec_all (\<lambda>satp a. a) restore_code
     ((exec_all (\<lambda>satp a. a) alltraps_code (take_trap 0 sample_cpu))\<lparr>reg := (\<lambda>r. 0)(10 := 4096)\<rparr>)) = 0x80200000"
proof -
  let ?mmu = "\<lambda>satp a. a :: usize" and ?t = "(exec_all (\<lambda>satp a. a) alltraps_code (take_trap 0 sample_cpu))\<lparr>reg := (\<lambda>r. 0)(10 := 4096)\<rparr>"
  have r: "in_user sample_cpu" "csr_of sample_cpu Sscratch = 4096" "csr_of sample_cpu Satp = 0" "reg sample_cpu 0 = 0" "pc sample_cpu = 0x80200000"
    by (simp_all add: sample_cpu_def)
  show ?thesis
    using trap_round_trip [of sample_cpu ?mmu 4096 _ 0 ?t] slots_at_identity r by simp
qed

end
