(* ===== verification/UserLib.thy ===== *)
theory UserLib
  imports Syscall
begin

text \<open>
  The library of the applications: \<open>src/user/src/syscall.rs\<close>, \<open>lib.rs\<close> and \<open>console.rs\<close>. The effect of the instruction
  \<open>ecall\<close> on the world \<open>'w\<close> is a parameter, given the number in \<open>x17\<close> and the arguments from \<open>x10\<close> on; it is \<open>None\<close>
  when the call does not return. A slice or a string is passed as its address and length. Names that the kernel
  also has carry the suffix \<open>_u\<close>.
\<close>

type_synonym 'w ecall = "usize \<Rightarrow> usize list \<Rightarrow> 'w \<Rightarrow> (isize \<times> 'w) option"
type_synonym slice_ref = "usize \<times> usize"

section \<open>syscall.rs\<close>

datatype user_syscall = SYS_OPENAT | SYS_CLOSE | SYS_READ | SYS_WRITE | SYS_UNLINKAT | SYS_LINKAT | SYS_FSTAT | SYS_EXIT
  | SYS_SLEEP | SYS_YIELD | SYS_GETTIMEOFDAY | SYS_GETPID | SYS_GETTID | SYS_FORK | SYS_EXEC | SYS_WAITPID | SYS_SET_PRIORITY
  | SYS_MUNMAP | SYS_MMAP | SYS_SPAWN | SYS_MAIL_READ | SYS_MAIL_WRITE | SYS_DUP | SYS_PIPE | SYS_TASK_INFO | SYS_THREAD_CREATE
  | SYS_WAITTID | SYS_MUTEX_CREATE | SYS_MUTEX_LOCK | SYS_MUTEX_UNLOCK | SYS_SEMAPHORE_CREATE | SYS_SEMAPHORE_UP
  | SYS_ENABLE_DEADLOCK_DETECT | SYS_SEMAPHORE_DOWN | SYS_CONDVAR_CREATE | SYS_CONDVAR_SIGNAL | SYS_CONDVAR_WAIT

fun syscall_number :: "user_syscall \<Rightarrow> usize" where
  "syscall_number SYS_OPENAT = 56" | "syscall_number SYS_CLOSE = 57" | "syscall_number SYS_READ = 63"
  | "syscall_number SYS_WRITE = 64" | "syscall_number SYS_UNLINKAT = 35" | "syscall_number SYS_LINKAT = 37"
  | "syscall_number SYS_FSTAT = 80" | "syscall_number SYS_EXIT = 93" | "syscall_number SYS_SLEEP = 101"
  | "syscall_number SYS_YIELD = 124" | "syscall_number SYS_GETTIMEOFDAY = 169" | "syscall_number SYS_GETPID = 172"
  | "syscall_number SYS_GETTID = 178" | "syscall_number SYS_FORK = 220" | "syscall_number SYS_EXEC = 221"
  | "syscall_number SYS_WAITPID = 260" | "syscall_number SYS_SET_PRIORITY = 140" | "syscall_number SYS_MUNMAP = 215"
  | "syscall_number SYS_MMAP = 222" | "syscall_number SYS_SPAWN = 400" | "syscall_number SYS_MAIL_READ = 401"
  | "syscall_number SYS_MAIL_WRITE = 402" | "syscall_number SYS_DUP = 24" | "syscall_number SYS_PIPE = 59"
  | "syscall_number SYS_TASK_INFO = 410" | "syscall_number SYS_THREAD_CREATE = 460" | "syscall_number SYS_WAITTID = 462"
  | "syscall_number SYS_MUTEX_CREATE = 463" | "syscall_number SYS_MUTEX_LOCK = 464" | "syscall_number SYS_MUTEX_UNLOCK = 466"
  | "syscall_number SYS_SEMAPHORE_CREATE = 467" | "syscall_number SYS_SEMAPHORE_UP = 468" | "syscall_number SYS_ENABLE_DEADLOCK_DETECT = 469"
  | "syscall_number SYS_SEMAPHORE_DOWN = 470" | "syscall_number SYS_CONDVAR_CREATE = 471" | "syscall_number SYS_CONDVAR_SIGNAL = 472"
  | "syscall_number SYS_CONDVAR_WAIT = 473"

declare syscall_number.simps [simp del]

abbreviation SYSCALL_OPENAT_u :: usize where "SYSCALL_OPENAT_u \<equiv> syscall_number SYS_OPENAT"
abbreviation SYSCALL_CLOSE_u :: usize where "SYSCALL_CLOSE_u \<equiv> syscall_number SYS_CLOSE"
abbreviation SYSCALL_READ_u :: usize where "SYSCALL_READ_u \<equiv> syscall_number SYS_READ"
abbreviation SYSCALL_WRITE_u :: usize where "SYSCALL_WRITE_u \<equiv> syscall_number SYS_WRITE"
abbreviation SYSCALL_UNLINKAT_u :: usize where "SYSCALL_UNLINKAT_u \<equiv> syscall_number SYS_UNLINKAT"
abbreviation SYSCALL_LINKAT_u :: usize where "SYSCALL_LINKAT_u \<equiv> syscall_number SYS_LINKAT"
abbreviation SYSCALL_FSTAT_u :: usize where "SYSCALL_FSTAT_u \<equiv> syscall_number SYS_FSTAT"
abbreviation SYSCALL_EXIT_u :: usize where "SYSCALL_EXIT_u \<equiv> syscall_number SYS_EXIT"
abbreviation SYSCALL_SLEEP_u :: usize where "SYSCALL_SLEEP_u \<equiv> syscall_number SYS_SLEEP"
abbreviation SYSCALL_YIELD_u :: usize where "SYSCALL_YIELD_u \<equiv> syscall_number SYS_YIELD"
abbreviation SYSCALL_GETTIMEOFDAY_u :: usize where "SYSCALL_GETTIMEOFDAY_u \<equiv> syscall_number SYS_GETTIMEOFDAY"
abbreviation SYSCALL_GETPID_u :: usize where "SYSCALL_GETPID_u \<equiv> syscall_number SYS_GETPID"
abbreviation SYSCALL_GETTID_u :: usize where "SYSCALL_GETTID_u \<equiv> syscall_number SYS_GETTID"
abbreviation SYSCALL_FORK_u :: usize where "SYSCALL_FORK_u \<equiv> syscall_number SYS_FORK"
abbreviation SYSCALL_EXEC_u :: usize where "SYSCALL_EXEC_u \<equiv> syscall_number SYS_EXEC"
abbreviation SYSCALL_WAITPID_u :: usize where "SYSCALL_WAITPID_u \<equiv> syscall_number SYS_WAITPID"
abbreviation SYSCALL_SET_PRIORITY_u :: usize where "SYSCALL_SET_PRIORITY_u \<equiv> syscall_number SYS_SET_PRIORITY"
abbreviation SYSCALL_MUNMAP_u :: usize where "SYSCALL_MUNMAP_u \<equiv> syscall_number SYS_MUNMAP"
abbreviation SYSCALL_MMAP_u :: usize where "SYSCALL_MMAP_u \<equiv> syscall_number SYS_MMAP"
abbreviation SYSCALL_SPAWN_u :: usize where "SYSCALL_SPAWN_u \<equiv> syscall_number SYS_SPAWN"
abbreviation SYSCALL_MAIL_READ_u :: usize where "SYSCALL_MAIL_READ_u \<equiv> syscall_number SYS_MAIL_READ"
abbreviation SYSCALL_MAIL_WRITE_u :: usize where "SYSCALL_MAIL_WRITE_u \<equiv> syscall_number SYS_MAIL_WRITE"
abbreviation SYSCALL_DUP_u :: usize where "SYSCALL_DUP_u \<equiv> syscall_number SYS_DUP"
abbreviation SYSCALL_PIPE_u :: usize where "SYSCALL_PIPE_u \<equiv> syscall_number SYS_PIPE"
abbreviation SYSCALL_TASK_INFO_u :: usize where "SYSCALL_TASK_INFO_u \<equiv> syscall_number SYS_TASK_INFO"
abbreviation SYSCALL_THREAD_CREATE_u :: usize where "SYSCALL_THREAD_CREATE_u \<equiv> syscall_number SYS_THREAD_CREATE"
abbreviation SYSCALL_WAITTID_u :: usize where "SYSCALL_WAITTID_u \<equiv> syscall_number SYS_WAITTID"
abbreviation SYSCALL_MUTEX_CREATE_u :: usize where "SYSCALL_MUTEX_CREATE_u \<equiv> syscall_number SYS_MUTEX_CREATE"
abbreviation SYSCALL_MUTEX_LOCK_u :: usize where "SYSCALL_MUTEX_LOCK_u \<equiv> syscall_number SYS_MUTEX_LOCK"
abbreviation SYSCALL_MUTEX_UNLOCK_u :: usize where "SYSCALL_MUTEX_UNLOCK_u \<equiv> syscall_number SYS_MUTEX_UNLOCK"
abbreviation SYSCALL_SEMAPHORE_CREATE_u :: usize where "SYSCALL_SEMAPHORE_CREATE_u \<equiv> syscall_number SYS_SEMAPHORE_CREATE"
abbreviation SYSCALL_SEMAPHORE_UP_u :: usize where "SYSCALL_SEMAPHORE_UP_u \<equiv> syscall_number SYS_SEMAPHORE_UP"
abbreviation SYSCALL_ENABLE_DEADLOCK_DETECT_u :: usize where "SYSCALL_ENABLE_DEADLOCK_DETECT_u \<equiv> syscall_number SYS_ENABLE_DEADLOCK_DETECT"
abbreviation SYSCALL_SEMAPHORE_DOWN_u :: usize where "SYSCALL_SEMAPHORE_DOWN_u \<equiv> syscall_number SYS_SEMAPHORE_DOWN"
abbreviation SYSCALL_CONDVAR_CREATE_u :: usize where "SYSCALL_CONDVAR_CREATE_u \<equiv> syscall_number SYS_CONDVAR_CREATE"
abbreviation SYSCALL_CONDVAR_SIGNAL_u :: usize where "SYSCALL_CONDVAR_SIGNAL_u \<equiv> syscall_number SYS_CONDVAR_SIGNAL"
abbreviation SYSCALL_CONDVAR_WAIT_u :: usize where "SYSCALL_CONDVAR_WAIT_u \<equiv> syscall_number SYS_CONDVAR_WAIT"

definition syscall_u :: "'w ecall \<Rightarrow> usize \<Rightarrow> usize \<times> usize \<times> usize \<Rightarrow> 'w \<Rightarrow> (isize \<times> 'w) option" where
  "syscall_u ec nr = (\<lambda>(a0, a1, a2). ec nr [a0, a1, a2])"

definition syscall6_u :: "'w ecall \<Rightarrow> usize \<Rightarrow> usize list \<Rightarrow> 'w \<Rightarrow> (isize \<times> 'w) option" where
  "syscall6_u ec nr args = ec nr args"

definition sys_openat_u :: "'w ecall \<Rightarrow> usize \<Rightarrow> slice_ref \<Rightarrow> u32 \<Rightarrow> u32 \<Rightarrow> 'w \<Rightarrow> (isize \<times> 'w) option" where
  "sys_openat_u ec dirfd path flags mode = syscall6_u ec SYSCALL_OPENAT_u [dirfd, fst path, ucast flags, ucast mode, 0, 0]"

definition sys_close_u :: "'w ecall \<Rightarrow> usize \<Rightarrow> 'w \<Rightarrow> (isize \<times> 'w) option" where
  "sys_close_u ec fd = syscall_u ec SYSCALL_CLOSE_u (fd, 0, 0)"

definition sys_read_u :: "'w ecall \<Rightarrow> usize \<Rightarrow> slice_ref \<Rightarrow> 'w \<Rightarrow> (isize \<times> 'w) option" where
  "sys_read_u ec fd buffer = syscall_u ec SYSCALL_READ_u (fd, fst buffer, snd buffer)"

definition sys_write_u :: "'w ecall \<Rightarrow> usize \<Rightarrow> slice_ref \<Rightarrow> 'w \<Rightarrow> (isize \<times> 'w) option" where
  "sys_write_u ec fd buffer = syscall_u ec SYSCALL_WRITE_u (fd, fst buffer, snd buffer)"

definition sys_linkat_u :: "'w ecall \<Rightarrow> usize \<Rightarrow> slice_ref \<Rightarrow> usize \<Rightarrow> slice_ref \<Rightarrow> usize \<Rightarrow> 'w \<Rightarrow> (isize \<times> 'w) option" where
  "sys_linkat_u ec old_dirfd old_path new_dirfd new_path flags =
     syscall6_u ec SYSCALL_LINKAT_u [old_dirfd, fst old_path, new_dirfd, fst new_path, flags, 0]"

definition sys_unlinkat_u :: "'w ecall \<Rightarrow> usize \<Rightarrow> slice_ref \<Rightarrow> usize \<Rightarrow> 'w \<Rightarrow> (isize \<times> 'w) option" where
  "sys_unlinkat_u ec dirfd path flags = syscall_u ec SYSCALL_UNLINKAT_u (dirfd, fst path, flags)"

definition sys_fstat_u :: "'w ecall \<Rightarrow> usize \<Rightarrow> usize \<Rightarrow> 'w \<Rightarrow> (isize \<times> 'w) option" where
  "sys_fstat_u ec fd st = syscall_u ec SYSCALL_FSTAT_u (fd, st, 0)"

definition sys_mail_read_u :: "'w ecall \<Rightarrow> slice_ref \<Rightarrow> 'w \<Rightarrow> (isize \<times> 'w) option" where
  "sys_mail_read_u ec buffer = syscall_u ec SYSCALL_MAIL_READ_u (fst buffer, snd buffer, 0)"

definition sys_mail_write_u :: "'w ecall \<Rightarrow> usize \<Rightarrow> slice_ref \<Rightarrow> 'w \<Rightarrow> (isize \<times> 'w) option" where
  "sys_mail_write_u ec pid buffer = syscall_u ec SYSCALL_MAIL_WRITE_u (pid, fst buffer, snd buffer)"

text \<open>When the call returns, \<open>sys_exit\<close> panics, and the panic handler exits again: it never returns.\<close>

definition sys_exit_u :: "'w ecall \<Rightarrow> i32 \<Rightarrow> 'w \<Rightarrow> (isize \<times> 'w) option" where
  "sys_exit_u ec code w = Option.bind (syscall_u ec SYSCALL_EXIT_u (scast code, 0, 0) w) (\<lambda>_. None)"

definition sys_sleep_u :: "'w ecall \<Rightarrow> usize \<Rightarrow> 'w \<Rightarrow> (isize \<times> 'w) option" where
  "sys_sleep_u ec sleep_ms = syscall_u ec SYSCALL_SLEEP_u (sleep_ms, 0, 0)"

definition sys_yield_u :: "'w ecall \<Rightarrow> 'w \<Rightarrow> (isize \<times> 'w) option" where
  "sys_yield_u ec = syscall_u ec SYSCALL_YIELD_u (0, 0, 0)"

definition sys_get_time_u :: "'w ecall \<Rightarrow> usize \<Rightarrow> usize \<Rightarrow> 'w \<Rightarrow> (isize \<times> 'w) option" where
  "sys_get_time_u ec time tz = syscall_u ec SYSCALL_GETTIMEOFDAY_u (time, tz, 0)"

definition sys_getpid_u :: "'w ecall \<Rightarrow> 'w \<Rightarrow> (isize \<times> 'w) option" where
  "sys_getpid_u ec = syscall_u ec SYSCALL_GETPID_u (0, 0, 0)"

definition sys_fork_u :: "'w ecall \<Rightarrow> 'w \<Rightarrow> (isize \<times> 'w) option" where
  "sys_fork_u ec = syscall_u ec SYSCALL_FORK_u (0, 0, 0)"

definition sys_exec_u :: "'w ecall \<Rightarrow> slice_ref \<Rightarrow> slice_ref \<Rightarrow> 'w \<Rightarrow> (isize \<times> 'w) option" where
  "sys_exec_u ec path args = syscall_u ec SYSCALL_EXEC_u (fst path, fst args, 0)"

definition sys_waitpid_u :: "'w ecall \<Rightarrow> isize \<Rightarrow> usize \<Rightarrow> 'w \<Rightarrow> (isize \<times> 'w) option" where
  "sys_waitpid_u ec pid xstatus = syscall_u ec SYSCALL_WAITPID_u (pid, xstatus, 0)"

definition sys_set_priority_u :: "'w ecall \<Rightarrow> isize \<Rightarrow> 'w \<Rightarrow> (isize \<times> 'w) option" where
  "sys_set_priority_u ec prio = syscall_u ec SYSCALL_SET_PRIORITY_u (prio, 0, 0)"

definition sys_mmap_u :: "'w ecall \<Rightarrow> usize \<Rightarrow> usize \<Rightarrow> usize \<Rightarrow> 'w \<Rightarrow> (isize \<times> 'w) option" where
  "sys_mmap_u ec start len prot = syscall_u ec SYSCALL_MMAP_u (start, len, prot)"

definition sys_munmap_u :: "'w ecall \<Rightarrow> usize \<Rightarrow> usize \<Rightarrow> 'w \<Rightarrow> (isize \<times> 'w) option" where
  "sys_munmap_u ec start len = syscall_u ec SYSCALL_MUNMAP_u (start, len, 0)"

definition sys_spawn_u :: "'w ecall \<Rightarrow> slice_ref \<Rightarrow> 'w \<Rightarrow> (isize \<times> 'w) option" where
  "sys_spawn_u ec path = syscall_u ec SYSCALL_SPAWN_u (fst path, 0, 0)"

definition sys_dup_u :: "'w ecall \<Rightarrow> usize \<Rightarrow> 'w \<Rightarrow> (isize \<times> 'w) option" where
  "sys_dup_u ec fd = syscall_u ec SYSCALL_DUP_u (fd, 0, 0)"

definition sys_pipe_u :: "'w ecall \<Rightarrow> slice_ref \<Rightarrow> 'w \<Rightarrow> (isize \<times> 'w) option" where
  "sys_pipe_u ec pipe = syscall_u ec SYSCALL_PIPE_u (fst pipe, 0, 0)"

definition sys_task_info_u :: "'w ecall \<Rightarrow> usize \<Rightarrow> 'w \<Rightarrow> (isize \<times> 'w) option" where
  "sys_task_info_u ec info = syscall_u ec SYSCALL_TASK_INFO_u (info, 0, 0)"

definition sys_thread_create_u :: "'w ecall \<Rightarrow> usize \<Rightarrow> usize \<Rightarrow> 'w \<Rightarrow> (isize \<times> 'w) option" where
  "sys_thread_create_u ec entry arg = syscall_u ec SYSCALL_THREAD_CREATE_u (entry, arg, 0)"

definition sys_gettid_u :: "'w ecall \<Rightarrow> 'w \<Rightarrow> (isize \<times> 'w) option" where
  "sys_gettid_u ec = syscall_u ec SYSCALL_GETTID_u (0, 0, 0)"

definition sys_waittid_u :: "'w ecall \<Rightarrow> usize \<Rightarrow> 'w \<Rightarrow> (isize \<times> 'w) option" where
  "sys_waittid_u ec tid = syscall_u ec SYSCALL_WAITTID_u (tid, 0, 0)"

definition sys_mutex_create_u :: "'w ecall \<Rightarrow> bool \<Rightarrow> 'w \<Rightarrow> (isize \<times> 'w) option" where
  "sys_mutex_create_u ec blocking = syscall_u ec SYSCALL_MUTEX_CREATE_u (of_bool blocking, 0, 0)"

definition sys_mutex_lock_u :: "'w ecall \<Rightarrow> usize \<Rightarrow> 'w \<Rightarrow> (isize \<times> 'w) option" where
  "sys_mutex_lock_u ec mutex_id = syscall_u ec SYSCALL_MUTEX_LOCK_u (mutex_id, 0, 0)"

definition sys_mutex_unlock_u :: "'w ecall \<Rightarrow> usize \<Rightarrow> 'w \<Rightarrow> (isize \<times> 'w) option" where
  "sys_mutex_unlock_u ec mutex_id = syscall_u ec SYSCALL_MUTEX_UNLOCK_u (mutex_id, 0, 0)"

definition sys_semaphore_create_u :: "'w ecall \<Rightarrow> usize \<Rightarrow> 'w \<Rightarrow> (isize \<times> 'w) option" where
  "sys_semaphore_create_u ec res_count = syscall_u ec SYSCALL_SEMAPHORE_CREATE_u (res_count, 0, 0)"

definition sys_semaphore_up_u :: "'w ecall \<Rightarrow> usize \<Rightarrow> 'w \<Rightarrow> (isize \<times> 'w) option" where
  "sys_semaphore_up_u ec sem_id = syscall_u ec SYSCALL_SEMAPHORE_UP_u (sem_id, 0, 0)"

definition sys_enable_deadlock_detect_u :: "'w ecall \<Rightarrow> usize \<Rightarrow> 'w \<Rightarrow> (isize \<times> 'w) option" where
  "sys_enable_deadlock_detect_u ec enabled = syscall_u ec SYSCALL_ENABLE_DEADLOCK_DETECT_u (enabled, 0, 0)"

definition sys_semaphore_down_u :: "'w ecall \<Rightarrow> usize \<Rightarrow> 'w \<Rightarrow> (isize \<times> 'w) option" where
  "sys_semaphore_down_u ec sem_id = syscall_u ec SYSCALL_SEMAPHORE_DOWN_u (sem_id, 0, 0)"

definition sys_condvar_create_u :: "'w ecall \<Rightarrow> usize \<Rightarrow> 'w \<Rightarrow> (isize \<times> 'w) option" where
  "sys_condvar_create_u ec arg = syscall_u ec SYSCALL_CONDVAR_CREATE_u (arg, 0, 0)"

definition sys_condvar_signal_u :: "'w ecall \<Rightarrow> usize \<Rightarrow> 'w \<Rightarrow> (isize \<times> 'w) option" where
  "sys_condvar_signal_u ec condvar_id = syscall_u ec SYSCALL_CONDVAR_SIGNAL_u (condvar_id, 0, 0)"

definition sys_condvar_wait_u :: "'w ecall \<Rightarrow> usize \<Rightarrow> usize \<Rightarrow> 'w \<Rightarrow> (isize \<times> 'w) option" where
  "sys_condvar_wait_u ec condvar_id mutex_id = syscall_u ec SYSCALL_CONDVAR_WAIT_u (condvar_id, mutex_id, 0)"

section \<open>console.rs\<close>

text \<open>
  What an application relies on besides \<open>ecall\<close>: the address at which a \<open>VecDeque\<close> has its bytes after \<open>make_contiguous\<close>,
  the bytes of its memory, the symbols of its linker script, and the allocator of the crate \<open>buddy_system_allocator\<close>.
\<close>

record 'w uenv =
  ecall :: "'w ecall"
  make_contiguous :: "u8 list \<Rightarrow> 'w \<Rightarrow> usize \<times> 'w"
  uload :: "usize \<Rightarrow> 'w \<Rightarrow> u8"
  ustore :: "usize \<Rightarrow> u8 \<Rightarrow> 'w \<Rightarrow> 'w"
  start_bss :: usize
  end_bss :: usize
  heap_space :: usize
  heap_init :: "usize \<Rightarrow> usize \<Rightarrow> 'w \<Rightarrow> 'w"

definition uload64 :: "'w uenv \<Rightarrow> usize \<Rightarrow> 'w \<Rightarrow> u64" where
  "uload64 E a w = le_decode (map (\<lambda>i. uload E (a + of_nat i) w) [0..<8])"

definition STDIN_u :: usize where "STDIN_u = 0"
definition STDOUT_u :: usize where "STDOUT_u = 1"
definition CONSOLE_BUFFER_SIZE :: usize where "CONSOLE_BUFFER_SIZE = 256 * 10"

definition read_u :: "'w uenv \<Rightarrow> usize \<Rightarrow> slice_ref \<Rightarrow> 'w \<Rightarrow> (isize \<times> 'w) option" where
  "read_u E fd buf = sys_read_u (ecall E) fd buf"

definition write_u :: "'w uenv \<Rightarrow> usize \<Rightarrow> slice_ref \<Rightarrow> 'w \<Rightarrow> (isize \<times> 'w) option" where
  "write_u E fd buf = sys_write_u (ecall E) fd buf"

text \<open>The state is the buffer and the world; the buffer's lock is taken once per call.\<close>

definition buffer_flush :: "'w uenv \<Rightarrow> u8 list \<times> 'w \<Rightarrow> (isize \<times> u8 list \<times> 'w) option" where
  "buffer_flush E = (\<lambda>(buf, w). do {
     let (p, w) = make_contiguous E buf w;
     (ret, w) \<leftarrow> write_u E STDOUT_u (p, of_nat (length buf)) w;
     Some (ret, [], w) })"

text \<open>\<open>True\<close> is \<open>Ok(())\<close>.\<close>

fun buffer_write_str :: "'w uenv \<Rightarrow> u8 list \<Rightarrow> u8 list \<times> 'w \<Rightarrow> (bool \<times> u8 list \<times> 'w) option" where
  "buffer_write_str E [] (buf, w) = Some (True, buf, w)"
| "buffer_write_str E (c # cs) (buf, w) = do {
     let buf = buf @ [c];
     if c = 0x0A \<or> of_nat (length buf) = CONSOLE_BUFFER_SIZE then do {
       (ret, buf, w) \<leftarrow> buffer_flush E (buf, w);
       if - 1 = ret then Some (False, buf, w) else buffer_write_str E cs (buf, w) }
     else buffer_write_str E cs (buf, w) }"

text \<open>The result of \<open>write_fmt\<close> is ignored; the formatted text is the argument.\<close>

definition print_u :: "'w uenv \<Rightarrow> u8 list \<Rightarrow> u8 list \<times> 'w \<Rightarrow> (u8 list \<times> 'w) option" where
  "print_u E str st = do { (ok, st) \<leftarrow> buffer_write_str E str st; Some st }"

text \<open>\<open>c\<close> is the address of the local array, which holds 0 at first; the value is what is stored there afterwards.\<close>

definition getchar_u :: "'w uenv \<Rightarrow> usize \<Rightarrow> 'w \<Rightarrow> (u8 \<times> 'w) option" where
  "getchar_u E c w = do { (r, w) \<leftarrow> read_u E STDIN_u (c, 1) (ustore E c 0 w); Some (uload E c w, w) }"

definition flush_u :: "'w uenv \<Rightarrow> u8 list \<times> 'w \<Rightarrow> (u8 list \<times> 'w) option" where
  "flush_u E st = do { (ret, st) \<leftarrow> buffer_flush E st; Some st }"

section \<open>lib.rs\<close>

text \<open>Flags.\<close>

datatype OpenFlags = RDONLY | WRONLY | RDWR | CREATE | TRUNC

fun open_bits :: "OpenFlags \<Rightarrow> u32" where
  "open_bits RDONLY = 0" | "open_bits WRONLY = push_bit 0 1" | "open_bits RDWR = push_bit 1 1" | "open_bits CREATE = push_bit 9 1"
| "open_bits TRUNC = push_bit 10 1"

definition AT_FDCWD :: isize where "AT_FDCWD = - 100"

definition open_u :: "'w uenv \<Rightarrow> slice_ref \<Rightarrow> u32 \<Rightarrow> 'w \<Rightarrow> (isize \<times> 'w) option" where
  "open_u E path flags = sys_openat_u (ecall E) AT_FDCWD path flags (open_bits RDWR)"

definition close_u :: "'w uenv \<Rightarrow> usize \<Rightarrow> u8 list \<times> 'w \<Rightarrow> (isize \<times> u8 list \<times> 'w) option" where
  "close_u E fd st = do {
     (buf, w) \<leftarrow> (if fd = STDOUT_u then flush_u E st else Some st);
     (r, w) \<leftarrow> sys_close_u (ecall E) fd w;
     Some (r, buf, w) }"

definition link_u :: "'w uenv \<Rightarrow> slice_ref \<Rightarrow> slice_ref \<Rightarrow> 'w \<Rightarrow> (isize \<times> 'w) option" where
  "link_u E old_path new_path = sys_linkat_u (ecall E) AT_FDCWD old_path AT_FDCWD new_path 0"

definition unlink_u :: "'w uenv \<Rightarrow> slice_ref \<Rightarrow> 'w \<Rightarrow> (isize \<times> 'w) option" where
  "unlink_u E path = sys_unlinkat_u (ecall E) AT_FDCWD path 0"

definition fstat_u :: "'w uenv \<Rightarrow> usize \<Rightarrow> usize \<Rightarrow> 'w \<Rightarrow> (isize \<times> 'w) option" where
  "fstat_u E fd stat = sys_fstat_u (ecall E) fd stat"

definition mail_read_u :: "'w uenv \<Rightarrow> slice_ref \<Rightarrow> 'w \<Rightarrow> (isize \<times> 'w) option" where
  "mail_read_u E buf = sys_mail_read_u (ecall E) buf"

definition mail_write_u :: "'w uenv \<Rightarrow> usize \<Rightarrow> slice_ref \<Rightarrow> 'w \<Rightarrow> (isize \<times> 'w) option" where
  "mail_write_u E pid buf = sys_mail_write_u (ecall E) pid buf"

text \<open>\<open>exit\<close> does not return.\<close>

definition exit_u :: "'w uenv \<Rightarrow> i32 \<Rightarrow> u8 list \<times> 'w \<Rightarrow> (isize \<times> 'w) option" where
  "exit_u E code st = do { (buf, w) \<leftarrow> flush_u E st; sys_exit_u (ecall E) code w }"

definition yield_u :: "'w uenv \<Rightarrow> 'w \<Rightarrow> (isize \<times> 'w) option" where
  "yield_u E = sys_yield_u (ecall E)"

text \<open>\<open>time\<close> is the address of the local \<open>TimeVal\<close>, which \<open>new\<close> fills with zeros.\<close>

definition TimeVal_new_u :: "'w uenv \<Rightarrow> usize \<Rightarrow> 'w \<Rightarrow> 'w" where
  "TimeVal_new_u E time w = fold (\<lambda>i. ustore E (time + of_nat i) 0) [0..<16] w"

definition get_time_u :: "'w uenv \<Rightarrow> usize \<Rightarrow> 'w \<Rightarrow> (isize \<times> 'w) option" where
  "get_time_u E time w = do {
     (r, w) \<leftarrow> sys_get_time_u (ecall E) time 0 (TimeVal_new_u E time w);
     if r = 0 then Some ((uload64 E time w AND 0xffff) * 1000 + uload64 E (time + 8) w div 1000, w)
     else Some (- 1, w) }"

definition getpid_u :: "'w uenv \<Rightarrow> 'w \<Rightarrow> (isize \<times> 'w) option" where
  "getpid_u E = sys_getpid_u (ecall E)"

definition fork_u :: "'w uenv \<Rightarrow> 'w \<Rightarrow> (isize \<times> 'w) option" where
  "fork_u E = sys_fork_u (ecall E)"

definition exec_u :: "'w uenv \<Rightarrow> slice_ref \<Rightarrow> slice_ref \<Rightarrow> 'w \<Rightarrow> (isize \<times> 'w) option" where
  "exec_u E path args = sys_exec_u (ecall E) path args"

definition set_priority_u :: "'w uenv \<Rightarrow> isize \<Rightarrow> 'w \<Rightarrow> (isize \<times> 'w) option" where
  "set_priority_u E prio = sys_set_priority_u (ecall E) prio"

partial_function (option) waitpid_loop :: "'w uenv \<Rightarrow> isize \<Rightarrow> usize \<Rightarrow> 'w \<Rightarrow> (isize \<times> 'w) option" where
  "waitpid_loop E pid code w = do {
     (n, w) \<leftarrow> sys_waitpid_u (ecall E) pid code w;
     if n = - 2 then do { (r, w) \<leftarrow> sys_yield_u (ecall E) w; waitpid_loop E pid code w }
     else Some (n, w) }"

definition wait_u :: "'w uenv \<Rightarrow> usize \<Rightarrow> 'w \<Rightarrow> (isize \<times> 'w) option" where
  "wait_u E code = waitpid_loop E (- 1) code"

definition waitpid_u :: "'w uenv \<Rightarrow> usize \<Rightarrow> usize \<Rightarrow> 'w \<Rightarrow> (isize \<times> 'w) option" where
  "waitpid_u E pid code = waitpid_loop E pid code"

definition sleep_blocking_u :: "'w uenv \<Rightarrow> usize \<Rightarrow> 'w \<Rightarrow> 'w option" where
  "sleep_blocking_u E sleep_ms w = do { (r, w) \<leftarrow> sys_sleep_u (ecall E) sleep_ms w; Some w }"

text \<open>The comparison is of signed integers; \<open>time\<close> is the address of the \<open>TimeVal\<close> in \<open>get_time\<close>.\<close>

partial_function (option) sleep_loop :: "'w uenv \<Rightarrow> usize \<Rightarrow> isize \<Rightarrow> 'w \<Rightarrow> 'w option" where
  "sleep_loop E time until w = do {
     (t, w) \<leftarrow> get_time_u E time w;
     if sint t < sint until then do { (r, w) \<leftarrow> sys_yield_u (ecall E) w; sleep_loop E time until w }
     else Some w }"

definition sleep_u :: "'w uenv \<Rightarrow> usize \<Rightarrow> usize \<Rightarrow> 'w \<Rightarrow> 'w option" where
  "sleep_u E time period_ms w = do {
     (start, w) \<leftarrow> get_time_u E time w;
     sleep_loop E time (start + period_ms) w }"

text \<open>Functions that only forward to a system call: those for processes, and those for threads and locks, some of which drop the answer.\<close>

datatype process_fn = Mmap usize usize usize | Munmap usize usize | Spawn slice_ref | Dup usize | Pipe slice_ref | Task_info usize
  | Thread_create usize usize | Gettid

fun process_fn_u :: "'w uenv \<Rightarrow> process_fn \<Rightarrow> 'w \<Rightarrow> (isize \<times> 'w) option" where
  "process_fn_u E (Mmap start len prot) = sys_mmap_u (ecall E) start len prot"
| "process_fn_u E (Munmap start len) = sys_munmap_u (ecall E) start len"
| "process_fn_u E (Spawn path) = sys_spawn_u (ecall E) path"
| "process_fn_u E (Dup fd) = sys_dup_u (ecall E) fd"
| "process_fn_u E (Pipe pipe_fd) = sys_pipe_u (ecall E) pipe_fd"
| "process_fn_u E (Task_info info) = sys_task_info_u (ecall E) info"
| "process_fn_u E (Thread_create entry arg) = sys_thread_create_u (ecall E) entry arg"
| "process_fn_u E Gettid = sys_gettid_u (ecall E)"

datatype lock_fn = Mutex_create | Mutex_blocking_create | Mutex_lock usize | Mutex_unlock usize | Semaphore_create usize | Semaphore_up usize
  | Enable_deadlock_detect bool | Semaphore_down usize | Condvar_create | Condvar_signal usize | Condvar_wait usize usize

definition drop_answer :: "(isize \<times> 'w) option \<Rightarrow> (isize option \<times> 'w) option" where
  "drop_answer r = map_option (\<lambda>(_, w). (None, w)) r"

definition keep_answer :: "(isize \<times> 'w) option \<Rightarrow> (isize option \<times> 'w) option" where
  "keep_answer r = map_option (\<lambda>(n, w). (Some n, w)) r"

fun lock_fn_u :: "'w uenv \<Rightarrow> lock_fn \<Rightarrow> 'w \<Rightarrow> (isize option \<times> 'w) option" where
  "lock_fn_u E Mutex_create w = keep_answer (sys_mutex_create_u (ecall E) False w)"
| "lock_fn_u E Mutex_blocking_create w = keep_answer (sys_mutex_create_u (ecall E) True w)"
| "lock_fn_u E (Mutex_lock mutex_id) w = keep_answer (sys_mutex_lock_u (ecall E) mutex_id w)"
| "lock_fn_u E (Mutex_unlock mutex_id) w = drop_answer (sys_mutex_unlock_u (ecall E) mutex_id w)"
| "lock_fn_u E (Semaphore_create res_count) w = keep_answer (sys_semaphore_create_u (ecall E) res_count w)"
| "lock_fn_u E (Semaphore_up sem_id) w = drop_answer (sys_semaphore_up_u (ecall E) sem_id w)"
| "lock_fn_u E (Enable_deadlock_detect enabled) w = keep_answer (sys_enable_deadlock_detect_u (ecall E) (of_bool enabled) w)"
| "lock_fn_u E (Semaphore_down sem_id) w = keep_answer (sys_semaphore_down_u (ecall E) sem_id w)"
| "lock_fn_u E Condvar_create w = keep_answer (sys_condvar_create_u (ecall E) 0 w)"
| "lock_fn_u E (Condvar_signal condvar_id) w = drop_answer (sys_condvar_signal_u (ecall E) condvar_id w)"
| "lock_fn_u E (Condvar_wait condvar_id mutex_id) w = drop_answer (sys_condvar_wait_u (ecall E) condvar_id mutex_id w)"

partial_function (option) waittid_u :: "'w uenv \<Rightarrow> usize \<Rightarrow> 'w \<Rightarrow> (isize \<times> 'w) option" where
  "waittid_u E tid w = do {
     (n, w) \<leftarrow> sys_waittid_u (ecall E) tid w;
     if n = - 2 then do { (r, w) \<leftarrow> sys_yield_u (ecall E) w; waittid_u E tid w }
     else Some (n, w) }"

text \<open>The arguments of the program, and its start; \<open>main\<close> is the application.\<close>

definition USER_HEAP_SIZE :: usize where "USER_HEAP_SIZE = 16384"

definition clear_bss_u :: "'w uenv \<Rightarrow> 'w \<Rightarrow> 'w" where
  "clear_bss_u E w = fold (\<lambda>i. ustore E (start_bss E + of_nat i) 0) [0..<unat (end_bss E - start_bss E)] w"

partial_function (option) find_arg_end :: "'w uenv \<Rightarrow> usize \<Rightarrow> 'w \<Rightarrow> usize \<Rightarrow> usize option" where
  "find_arg_end E str_start w i = (if uload E (str_start + i) w = 0 then Some i else find_arg_end E str_start w (i + 1))"

definition push_arg :: "'w uenv \<Rightarrow> usize \<Rightarrow> 'w \<Rightarrow> nat \<Rightarrow> u8 list list \<Rightarrow> u8 list list option" where
  "push_arg E argv w i v = do {
     let str_start = uload64 E (argv + of_nat i * 8) w;
     len \<leftarrow> find_arg_end E str_start w 0;
     str \<leftarrow> from_utf8_unwrap (map (\<lambda>j. uload E (str_start + of_nat j) w) [0..<unat len]);
     Some (v @ [str]) }"

definition start_u ::
  "'w uenv \<Rightarrow> (usize \<Rightarrow> u8 list list \<Rightarrow> u8 list \<times> 'w \<Rightarrow> (i32 \<times> u8 list \<times> 'w) option) \<Rightarrow> usize \<Rightarrow> usize \<Rightarrow> 'w \<Rightarrow> (isize \<times> 'w) option" where
  "start_u E main argc argv w = do {
     let w = clear_bss_u E w;
     let w = heap_init E (heap_space E) USER_HEAP_SIZE w;
     v \<leftarrow> foldM (push_arg E argv w) [0..<unat argc] [];
     (code, st) \<leftarrow> main argc v ([], w);
     exit_u E code st }"

section \<open>The interface between library and kernel\<close>

text \<open>The kernel's answer to a call, when it answers without switching to another task.\<close>

definition answered :: "sysres \<Rightarrow> (isize \<times> kernel) option" where
  "answered res = (case res of Some (Some r, k) \<Rightarrow> Some (r, k) | _ \<Rightarrow> None)"

definition kernel_ecall :: "platform \<Rightarrow> inputs \<Rightarrow> kernel ecall" where
  "kernel_ecall P inp nr args k = answered (syscall P inp nr (args ! 0, args ! 1, args ! 2) k)"

lemma answered_None [simp]: "answered None = None"
  by (simp add: answered_def)

lemma ucast_scast_i32: "ucast (scast (c :: i32) :: usize) = c"
  by (rule bit_word_eqI) (auto simp: bit_simps)


section \<open>Waiting\<close>

text \<open>
  C26. Waiting for a child ends. If the kernel answers \<open>-2\<close> for \<open>n\<close> rounds, the library yielding after each, and then gives
  another answer \<open>r\<close>, then \<open>waitpid\<close> returns \<open>r\<close> in the world of that answer; whenever it returns, the answer is not \<open>-2\<close>.
\<close>

theorem waitpid_returns:
  assumes rounds: "\<And>i. i < n \<Longrightarrow> sys_waitpid_u (ecall E) pid p (ws i) = Some (- 2, vs i)
      \<and> map_option snd (sys_yield_u (ecall E) (vs i)) = Some (ws (Suc i))"
    and last: "sys_waitpid_u (ecall E) pid p (ws n) = Some (r, w)" "r \<noteq> - 2"
  shows "waitpid_u E pid p (ws 0) = Some (r, w) \<and> (\<forall>v r' w'. waitpid_u E pid p v = Some (r', w') \<longrightarrow> r' \<noteq> - 2)"
proof -
  have "waitpid_loop E pid p (ws i) = Some (r, w)" if "i \<le> n" for i
    using that
  proof (induction "n - i" arbitrary: i)
    case 0
    then show ?case using last by (subst waitpid_loop.simps) simp
  next
    case (Suc k)
    have "waitpid_loop E pid p (ws (Suc i)) = Some (r, w)" by (rule Suc.hyps(1)) (use Suc in auto)
    moreover have "i < n" using Suc.hyps(2) by simp
    ultimately show ?case using rounds [of i] by (subst waitpid_loop.simps) auto
  qed
  moreover have "r' \<noteq> - 2" if "waitpid_loop E pid p v = Some (r', w')" for v r' w'
  proof -
    have "fst (r', w') \<noteq> - 2"
      by (rule waitpid_loop.raw_induct [where P = "\<lambda>E pid p v y. fst y \<noteq> - 2", OF _ that])
        (force simp: bind_eq_Some_conv split: if_splits)
    then show ?thesis by simp
  qed
  ultimately show ?thesis by (simp add: waitpid_u_def)
qed

text \<open>A kernel whose child exits after two more calls.\<close>

definition child_env :: "nat uenv" where
  "child_env = \<lparr>ecall = (\<lambda>nr args w. if nr = SYSCALL_WAITPID_u then Some (if w < 2 then - 2 else 7, w) else Some (0, w + 1)),
     make_contiguous = (\<lambda>bs w. (0, w)), uload = (\<lambda>a w. 0), ustore = (\<lambda>a b w. w), start_bss = 0, end_bss = 0, heap_space = 0,
     heap_init = (\<lambda>a n w. w)\<rparr>"

theorem waitpid_returns_witness: "waitpid_u child_env 3 0 0 = Some (7, 2)"
  using waitpid_returns [of 2 child_env 3 0 "\<lambda>i. i" "\<lambda>i. i" 7 2]
  by (simp add: child_env_def sys_waitpid_u_def sys_yield_u_def syscall_u_def syscall_number.simps)

section \<open>Time\<close>

text \<open>The kernel's answer to \<open>sys_get_time\<close>, as \<open>sys_get_time\<close> of the kernel writes it.\<close>

definition gives_time :: "'w uenv \<Rightarrow> usize \<Rightarrow> 'w \<Rightarrow> usize \<Rightarrow> 'w \<Rightarrow> bool" where
  "gives_time E time w us w' \<longleftrightarrow> sys_get_time_u (ecall E) time 0 (TimeVal_new_u E time w) = Some (0, w')
     \<and> uload64 E time w' = us div 1000000 \<and> uload64 E (time + 8) w' = us mod 1000000"

definition MS_WRAP :: nat where "MS_WRAP = 65536000"

lemma sint_small: "n < 2 ^ 63 \<Longrightarrow> sint (of_nat n :: isize) = int n"
  by (simp add: signed_of_nat signed_take_bit_int_eq_self)

lemma get_time_value:
  assumes "gives_time E time w us w'"
  shows "get_time_u E time w = Some (of_nat (unat us div 1000 mod MS_WRAP), w')"
proof -
  let ?a = "unat us div 1000"
  have d: "?a div 1000 = unat us div 1000000" using div_mult2_eq [of "unat us" 1000 1000] by simp
  have "unat us mod 1000000 = 1000 * (?a mod 1000) + unat us mod 1000" using mod_mult2_eq [of "unat us" 1000 1000] by simp
  then have m: "unat us mod 1000000 div 1000 = ?a mod 1000" by simp
  have a: "?a mod MS_WRAP = (unat us div 1000000 mod 65536) * 1000 + unat us mod 1000000 div 1000"
    using mod_mult2_eq [of ?a 1000 65536] by (simp add: MS_WRAP_def d m)
  have "(0xffff :: usize) = mask 16" by (simp add: mask_eq_exp_minus_1)
  then have 1: "unat ((us div 1000000) AND 0xffff) = unat us div 1000000 mod 65536"
    using unat_and_mask [of "us div 1000000" 16] by (simp add: word_div_unat)
  have 2: "unat (us mod 1000000 div 1000) = unat us mod 1000000 div 1000" by (simp add: word_div_unat word_mod_unat)
  have "((us div 1000000) AND 0xffff) * 1000 + us mod 1000000 div 1000
      = of_nat (unat ((us div 1000000) AND 0xffff) * 1000 + unat (us mod 1000000 div 1000))" by simp
  also have "\<dots> = of_nat (?a mod MS_WRAP)" unfolding 1 2 a ..
  finally show ?thesis using assms by (simp add: gives_time_def get_time_u_def)
qed


text \<open>A kernel whose clock always shows 65535.999 seconds.\<close>

definition late_env :: "unit uenv" where
  "late_env = \<lparr>ecall = (\<lambda>nr args w. Some (0, w)), make_contiguous = (\<lambda>bs w. (0, w)),
     uload = (\<lambda>a w. (le_encode 8 (65535 :: u64) @ le_encode 8 (999000 :: u64)) ! unat a), ustore = (\<lambda>a b w. w), start_bss = 0, end_bss = 0, heap_space = 0,
     heap_init = (\<lambda>a n w. w)\<rparr>"

lemma late_env_time: "gives_time late_env 0 w 65535999000 ()"
proof -
  let ?x = "le_encode 8 (65535 :: u64)" and ?y = "le_encode 8 (999000 :: u64)"
  have u: "unat (of_nat i :: usize) = i" "unat (8 + of_nat i :: usize) = 8 + i" if "i < 8" for i
    using that unat_of_nat_less [of "8 + i", where 'a=64] by (simp_all add: unat_of_nat_less)
  have "map (\<lambda>i. (?x @ ?y) ! unat (of_nat i :: usize)) [0..<8] = ?x" "map (\<lambda>i. (?x @ ?y) ! unat (8 + of_nat i :: usize)) [0..<8] = ?y"
    by (intro nth_equalityI; simp add: u nth_append)+
  then have "uload64 late_env 0 () = 65535" "uload64 late_env 8 () = 999000"
    by (simp_all add: uload64_def late_env_def le_decode_encode_full)
  then show ?thesis by (simp add: gives_time_def sys_get_time_u_def syscall_u_def late_env_def)
qed


section \<open>The console buffer\<close>

text \<open>What a \<open>write\<close> of bytes to the standard output does, when it succeeds: they reach the output \<open>out\<close> in order.\<close>

definition stdout_ok :: "'w uenv \<Rightarrow> ('w \<Rightarrow> u8 list) \<Rightarrow> bool" where
  "stdout_ok E out \<longleftrightarrow> (\<forall>bs w. \<exists>r w'. (case make_contiguous E bs w of (p, v) \<Rightarrow> write_u E STDOUT_u (p, of_nat (length bs)) v) = Some (r, w')
     \<and> r \<noteq> - 1 \<and> out w' = out w @ bs)"

definition buffer_ok :: "u8 list \<Rightarrow> bool" where
  "buffer_ok buf \<longleftrightarrow> length buf < 2560 \<and> 0x0A \<notin> set buf"

lemma buffer_flush_ok:
  assumes "stdout_ok E out"
  shows "\<exists>r w'. buffer_flush E (buf, w) = Some (r, [], w') \<and> r \<noteq> - 1 \<and> out w' = out w @ buf"
  using assms [unfolded stdout_ok_def, rule_format, of buf w] by (auto simp: buffer_flush_def split: prod.splits)

lemma buffer_full: "length buf < 2560 \<Longrightarrow> (of_nat (length (buf @ [c])) :: usize) = CONSOLE_BUFFER_SIZE \<longleftrightarrow> length buf = 2559"
proof -
  assume "length buf < 2560"
  then have "unat (of_nat (length (buf @ [c])) :: usize) = Suc (length buf)" by (simp add: unat_of_nat_less del: of_nat_Suc)
  then show ?thesis by (auto simp: CONSOLE_BUFFER_SIZE_def word_unat_eq_iff simp del: of_nat_Suc)
qed

lemma print_ok:
  assumes ok: "stdout_ok E out" and buf: "buffer_ok buf"
  shows "\<exists>buf' w'. print_u E str (buf, w) = Some (buf', w') \<and> out w' @ buf' = out w @ buf @ str \<and> buffer_ok buf'
    \<and> (\<exists>w''. flush_u E (buf', w') = Some ([], w'') \<and> out w'' = out w @ buf @ str)"
proof -
  have "\<exists>buf' w'. buffer_write_str E str (buf, w) = Some (True, buf', w') \<and> out w' @ buf' = out w @ buf @ str \<and> buffer_ok buf'"
    using buf
  proof (induction str arbitrary: buf w)
    case (Cons c cs)
    show ?case
    proof (cases "c = 0x0A \<or> length buf = 2559")
      case True
      obtain r v where f: "buffer_flush E (buf @ [c], w) = Some (r, [], v)" "r \<noteq> - 1" "out v = out w @ buf @ [c]"
        using buffer_flush_ok [OF ok, of "buf @ [c]" w] by auto
      have "buffer_ok []" by (simp add: buffer_ok_def)
      from Cons.IH [OF this, of v] show ?thesis
        using True f Cons.prems buffer_full [of buf c] by (auto simp: buffer_ok_def)
    next
      case False
      then have "buffer_ok (buf @ [c])" using Cons.prems by (auto simp: buffer_ok_def)
      from Cons.IH [OF this, of w] show ?thesis
        using False Cons.prems buffer_full [of buf c] by (auto simp: buffer_ok_def)
    qed
  qed simp
  then obtain buf' w' where R: "buffer_write_str E str (buf, w) = Some (True, buf', w')" "out w' @ buf' = out w @ buf @ str" "buffer_ok buf'"
    by blast
  obtain r w'' where "buffer_flush E (buf', w') = Some (r, [], w'')" "out w'' = out w' @ buf'" using buffer_flush_ok [OF ok, of buf' w'] by auto
  then show ?thesis using R by (auto simp: print_u_def flush_u_def)
qed

text \<open>
  C28. Printing loses nothing. When writing to the standard output works, \<open>print\<close> returns; the bytes that were output, followed by
  those that remain in the buffer, are the earlier ones followed by the text; and what remains is shorter than the buffer's
  capacity and contains no newline, so a line is output as soon as it is complete. \<open>flush\<close> outputs the rest.
\<close>

theorem print_loses_nothing:
  assumes ok: "stdout_ok E out" and buf: "buffer_ok buf"
  shows "\<exists>buf' w'. print_u E str (buf, w) = Some (buf', w') \<and> out w' @ buf' = out w @ buf @ str \<and> buffer_ok buf'
    \<and> (\<exists>w''. flush_u E (buf', w') = Some ([], w'') \<and> out w'' = out w @ buf @ str)"
  by (rule print_ok [OF assms])

text \<open>A kernel that appends to its output the bytes that were placed in the buffer's memory.\<close>

definition echo_env :: "(u8 list \<times> u8 list) uenv" where
  "echo_env = \<lparr>ecall = (\<lambda>nr args w. Some (0, fst w, snd w @ fst w)), make_contiguous = (\<lambda>bs w. (0, bs, snd w)),
     uload = (\<lambda>a w. 0), ustore = (\<lambda>a b w. w), start_bss = 0, end_bss = 0, heap_space = 0, heap_init = (\<lambda>a n w. w)\<rparr>"

lemma echo_env_ok: "stdout_ok echo_env snd"
  by (auto simp: stdout_ok_def echo_env_def write_u_def sys_write_u_def syscall_u_def)

theorem print_loses_nothing_witness:
  "\<exists>buf' w'. print_u echo_env [0x68, 0x69, 0x0A, 0x6F] ([], [], []) = Some (buf', w') \<and> snd w' @ buf' = [0x68, 0x69, 0x0A, 0x6F]"
  using print_loses_nothing [OF echo_env_ok, of "[]" "[0x68, 0x69, 0x0A, 0x6F]" "([], [])"] by (auto simp: buffer_ok_def)

section \<open>lang_items.rs\<close>

text \<open>The panic handler: the location, if known, and the message are printed, and the process exits with \<open>-1\<close>.\<close>

definition panic_text :: "(u8 list \<times> nat) option \<Rightarrow> u8 list \<Rightarrow> u8 list" where
  "panic_text location err = (case location of
       Some (file, line) \<Rightarrow> str_bytes ''Panicked at '' @ file @ str_bytes '':'' @ dec line @ str_bytes '', '' @ err
     | None \<Rightarrow> str_bytes ''Panicked: '' @ err) @ [0x0A]"

definition panic_handler_u :: "'w uenv \<Rightarrow> (u8 list \<times> nat) option \<Rightarrow> u8 list \<Rightarrow> u8 list \<times> 'w \<Rightarrow> (isize \<times> 'w) option" where
  "panic_handler_u E location err st = do {
     st \<leftarrow> print_u E (panic_text location err) st;
     exit_u E (- 1) st }"

end
