(* ===== verification/UserApps.thy ===== *)
theory UserApps
  imports UserLib
begin

text \<open>
  Applications of \<open>src/user/src/bin\<close>: the first process, the two shells and the program that runs the tests. A \<open>String\<close> is the
  list of its characters, which are all bytes that were read (\<open>c as char\<close>). Where the allocator or the linker has put a string is
  the parameter \<open>str_at\<close>, which also gives the memory that holds it; the addresses of local variables are parameters.
\<close>

definition i32_at :: "'w uenv \<Rightarrow> usize \<Rightarrow> 'w \<Rightarrow> i32" where
  "i32_at E a w = le_decode (map (\<lambda>i. uload E (a + of_nat i) w) [0..<4])"

definition set_i32 :: "'w uenv \<Rightarrow> usize \<Rightarrow> i32 \<Rightarrow> 'w \<Rightarrow> 'w" where
  "set_i32 E a v w = fold (\<lambda>i. ustore E (a + of_nat i) (le_encode 4 v ! i)) [0..<4] w"

definition dec_int :: "int \<Rightarrow> u8 list" where
  "dec_int i = (if i < 0 then 0x2D # dec (nat (- i)) else dec (nat i))"

definition str_utf8 :: "u8 list \<Rightarrow> u8 list" where
  "str_utf8 s = concat (map char_utf8 s)"

type_synonym 'w place = "u8 list \<Rightarrow> 'w \<Rightarrow> usize \<times> 'w"

section \<open>The first process\<close>

text \<open>The loop does not end.\<close>

partial_function (option) initproc_loop :: "'w uenv \<Rightarrow> usize \<Rightarrow> u8 list \<Rightarrow> 'w \<Rightarrow> (i32 \<times> u8 list \<times> 'w) option" where
  "initproc_loop E code buf w = do {
     let w = set_i32 E code 0 w;
     (pid, w) \<leftarrow> wait_u E code w;
     if pid = - 1 then do {
       (r, w) \<leftarrow> yield_u E w;
       initproc_loop E code buf w }
     else do {
       (buf, w) \<leftarrow> print_u E (str_bytes ''[initproc] Released a zombie process, pid='' @ dec_int (sint pid)
         @ str_bytes '', exit_code='' @ dec_int (sint (i32_at E code w)) @ [0x0A]) (buf, w);
       initproc_loop E code buf w } }"

definition initproc_main :: "'w uenv \<Rightarrow> 'w place \<Rightarrow> usize \<Rightarrow> u8 list \<times> 'w \<Rightarrow> (i32 \<times> u8 list \<times> 'w) option" where
  "initproc_main E str_at code = (\<lambda>(buf, w). do {
     (pid, w) \<leftarrow> fork_u E w;
     if pid = 0 then do {
       let (p, w) = str_at (str_bytes ''ch5b_user_shell'' @ [0]) w;
       let (a, w) = str_at (replicate 8 0) w;
       (r, w) \<leftarrow> exec_u E (p, 16) (a, 1) w;
       Some (0, buf, w) }
     else initproc_loop E code buf w })"

section \<open>The shell\<close>

text \<open>
  What a line feed does. \<open>Inl\<close> continues the loop with a line, \<open>Inr\<close> returns from \<open>main\<close>. The child of \<open>fork\<close> goes on with a copy
  of the parent's state.
\<close>

definition shell_enter :: "'w uenv \<Rightarrow> 'w place \<Rightarrow> usize \<Rightarrow> u8 list \<Rightarrow> u8 list \<times> 'w
    \<Rightarrow> (u8 list \<times> u8 list \<times> 'w + i32 \<times> u8 list \<times> 'w) option" where
  "shell_enter E str_at code line st = do {
     (buf, w) \<leftarrow> print_u E [0x0A] st;
     if line \<noteq> [] then do {
       let line = line @ [0];
       (pid, w) \<leftarrow> fork_u E w;
       if pid = 0 then do {
         let (p, w) = str_at (str_utf8 line) w;
         let (a, w) = str_at (replicate 8 0) w;
         (r, w) \<leftarrow> exec_u E (p, of_nat (length (str_utf8 line))) (a, 1) w;
         if r = - 1 then do {
           st \<leftarrow> print_u E (str_bytes ''Error when executing!'' @ [0x0A]) (buf, w);
           Some (Inr (- 4, st)) }
         else None }
       else do {
         let w = set_i32 E code 0 w;
         (exit_pid, w) \<leftarrow> waitpid_u E pid code w;
         rassert (pid = exit_pid);
         st \<leftarrow> print_u E (str_bytes ''Shell: Process '' @ dec_int (sint pid) @ str_bytes '' exited with code ''
           @ dec_int (sint (i32_at E code w)) @ [0x0A]) (buf, w);
         st \<leftarrow> print_u E (str_bytes ''>> '') st;
         st \<leftarrow> flush_u E st;
         Some (Inl ([], st)) } }
     else do {
       st \<leftarrow> print_u E (str_bytes ''>> '') (buf, w);
       st \<leftarrow> flush_u E st;
       Some (Inl (line, st)) } }"

text \<open>The loop of both shells; \<open>enter\<close> is what they do at the end of a line.\<close>

type_synonym 'w enter = "u8 list \<Rightarrow> u8 list \<times> 'w \<Rightarrow> (u8 list \<times> u8 list \<times> 'w + i32 \<times> u8 list \<times> 'w) option"

definition shell_key :: "'w uenv \<Rightarrow> 'w enter \<Rightarrow> u8 \<Rightarrow> 'w enter" where
  "shell_key E enter c line st =
     (if c = 0x0A \<or> c = 0x0D then enter line st
      else if c = 0x08 \<or> c = 0x7F then
        if line \<noteq> [] then do {
          st \<leftarrow> print_u E (char_utf8 0x08) st;
          st \<leftarrow> print_u E (str_bytes '' '') st;
          st \<leftarrow> print_u E (char_utf8 0x08) st;
          st \<leftarrow> flush_u E st;
          Some (Inl (butlast line, st)) }
        else Some (Inl (line, st))
      else do {
        st \<leftarrow> print_u E (char_utf8 c) st;
        st \<leftarrow> flush_u E st;
        Some (Inl (line @ [c], st)) })"

partial_function (option) shell_loop :: "'w uenv \<Rightarrow> 'w enter \<Rightarrow> usize \<Rightarrow> u8 list \<Rightarrow> u8 list \<Rightarrow> 'w \<Rightarrow> (i32 \<times> u8 list \<times> 'w) option" where
  "shell_loop E enter c_at line buf w = do {
     (c, w) \<leftarrow> getchar_u E c_at w;
     r \<leftarrow> shell_key E enter c line (buf, w);
     case r of Inl (line, buf, w) \<Rightarrow> shell_loop E enter c_at line buf w | Inr x \<Rightarrow> Some x }"

definition shell_main :: "'w uenv \<Rightarrow> 'w enter \<Rightarrow> usize \<Rightarrow> u8 list \<times> 'w \<Rightarrow> (i32 \<times> u8 list \<times> 'w) option" where
  "shell_main E enter c_at st = do {
     st \<leftarrow> print_u E (str_bytes ''Rust user shell'' @ [0x0A]) st;
     st \<leftarrow> print_u E (str_bytes ''>> '') st;
     (buf, w) \<leftarrow> flush_u E st;
     shell_loop E enter c_at [] buf w }"

section \<open>The shell with redirection\<close>

text \<open>\<open>split(' ')\<close>: the pieces between the blanks, which may be empty.\<close>

fun split_blank :: "u8 list \<Rightarrow> u8 list list" where
  "split_blank [] = [[]]"
| "split_blank (c # cs) = (if c = 0x20 then [] # split_blank cs
     else case split_blank cs of p # ps \<Rightarrow> (c # p) # ps | [] \<Rightarrow> [[c]])"

text \<open>
  The arguments, and the files that replace the standard input and output (empty when there is none): the first argument
  equal to the mark and the one after it are removed, and the latter is the file. Without one, the index panics.
\<close>

definition shell7_parse :: "u8 list \<Rightarrow> (u8 list list \<times> u8 list \<times> u8 list) option" where
  "shell7_parse line = do {
     let redirect = (\<lambda>mark args. case find_index (\<lambda>arg. arg = mark) args of
         None \<Rightarrow> Some ([], args)
       | Some idx \<Rightarrow> if Suc idx < length args then Some (args ! Suc idx, take idx args @ drop (idx + 2) args) else None);
     let args_copy = map (\<lambda>arg. arg @ [0]) (split_blank line);
     (input, args_copy) \<leftarrow> redirect (str_bytes ''<'' @ [0]) args_copy;
     (output, args_copy) \<leftarrow> redirect (str_bytes ''>'' @ [0]) args_copy;
     Some (args_copy, input, output) }"

text \<open>The descriptor \<open>target\<close> of the child is replaced by the file; \<open>Inr\<close> returns from \<open>main\<close>.\<close>

definition shell7_redirect :: "'w uenv \<Rightarrow> 'w place \<Rightarrow> usize \<Rightarrow> u32 \<Rightarrow> u8 list \<Rightarrow> u8 list \<times> 'w
    \<Rightarrow> (u8 list \<times> 'w + i32 \<times> u8 list \<times> 'w) option" where
  "shell7_redirect E str_at target flags name = (\<lambda>(buf, w).
     if name \<noteq> [] then do {
       let (p, w) = str_at (str_utf8 name) w;
       (fd, w) \<leftarrow> open_u E (p, of_nat (length (str_utf8 name))) flags w;
       if fd = - 1 then do {
         st \<leftarrow> print_u E (str_bytes ''Error when opening file '' @ str_utf8 name @ [0x0A]) (buf, w);
         Some (Inr (- 4, st)) }
       else do {
         (r, buf, w) \<leftarrow> close_u E target (buf, w);
         (new, w) \<leftarrow> process_fn_u E (Dup fd) w;
         rassert (new = target);
         (r, buf, w) \<leftarrow> close_u E fd (buf, w);
         Some (Inl (buf, w)) } }
     else Some (Inl (buf, w)))"

text \<open>The addresses of the arguments, ending with the null pointer, are an array of their own.\<close>

definition shell7_enter :: "'w uenv \<Rightarrow> 'w place \<Rightarrow> usize \<Rightarrow> 'w enter" where
  "shell7_enter E str_at code line st = do {
     (buf, w) \<leftarrow> print_u E [0x0A] st;
     line_st \<leftarrow> (if line \<noteq> [] then do {
       (args_copy, input, output) \<leftarrow> shell7_parse line;
       let (ps, w) = fold (\<lambda>arg (ps, w). let (p, w) = str_at (str_utf8 arg) w in (ps @ [p], w)) args_copy ([], w);
       let args_addr = ps @ [0];
       (pid, w) \<leftarrow> fork_u E w;
       if pid = 0 then do {
         r \<leftarrow> shell7_redirect E str_at 0 (open_bits RDONLY) input (buf, w);
         case r of Inr x \<Rightarrow> Some (Inr x) | Inl st \<Rightarrow> do {
           r \<leftarrow> shell7_redirect E str_at 1 (open_bits CREATE OR open_bits WRONLY) output st;
           case r of Inr x \<Rightarrow> Some (Inr x) | Inl (buf, w) \<Rightarrow> do {
             path \<leftarrow> index_of args_copy 0;
             p \<leftarrow> index_of ps 0;
             let (a, w) = str_at (concat (map (le_encode 8) args_addr)) w;
             (r, w) \<leftarrow> exec_u E (p, of_nat (length (str_utf8 path))) (a, of_nat (length args_addr)) w;
             if r = - 1 then do {
               st \<leftarrow> print_u E (str_bytes ''Error when executing!'' @ [0x0A]) (buf, w);
               Some (Inr (- 4, st)) }
             else None } } }
       else do {
         let w = set_i32 E code 0 w;
         (exit_pid, w) \<leftarrow> waitpid_u E pid code w;
         rassert (pid = exit_pid);
         st \<leftarrow> print_u E (str_bytes ''Shell: Process '' @ dec_int (sint pid) @ str_bytes '' exited with code ''
           @ dec_int (sint (i32_at E code w)) @ [0x0A]) (buf, w);
         Some (Inl ([], st)) } }
       else Some (Inl (line, buf, w)));
     case line_st of Inr x \<Rightarrow> Some (Inr x) | Inl (line, st) \<Rightarrow> do {
       st \<leftarrow> print_u E (str_bytes ''>> '') st;
       st \<leftarrow> flush_u E st;
       Some (Inl (line, st)) } }"

section \<open>Running the tests\<close>

definition TESTS :: "string list" where
  "TESTS = [''ch2b_hello_world'', ''ch2b_power_3'', ''ch2b_power_5'', ''ch2b_power_7'', ''ch3b_yield0'', ''ch3b_yield1'',
     ''ch3b_yield2'', ''ch3b_sleep'', ''ch3b_sleep1'', ''ch4_mmap0'', ''ch4_mmap1'', ''ch4_mmap2'', ''ch4_mmap3'', ''ch4_unmap'',
     ''ch4_unmap2'', ''ch5_spawn0'', ''ch5_spawn1'', ''ch5_setprio'']"

definition usertest_spawn :: "'w uenv \<Rightarrow> 'w place \<Rightarrow> u8 list \<Rightarrow> isize list \<times> u8 list \<times> 'w \<Rightarrow> (isize list \<times> u8 list \<times> 'w) option" where
  "usertest_spawn E str_at test = (\<lambda>(pids, st). do {
     (buf, w) \<leftarrow> print_u E (str_bytes ''Usertests: Running '' @ test @ [0x0A]) st;
     let (p, w) = str_at test w;
     (pid, w) \<leftarrow> process_fn_u E (Spawn (p, of_nat (length test))) w;
     Some (pids @ [pid], buf, w) })"

text \<open>The tests all run at the same time, but for the last one, which runs alone.\<close>

definition usertest_main :: "'w uenv \<Rightarrow> 'w place \<Rightarrow> usize \<Rightarrow> u8 list \<times> 'w \<Rightarrow> (i32 \<times> u8 list \<times> 'w) option" where
  "usertest_main E str_at xstate st = do {
     let await = (\<lambda>(test, pid) (buf, w). do {
       (wait_pid, w) \<leftarrow> waitpid_u E pid xstate w;
       rassert (pid = wait_pid);
       print_u E ([0x1B] @ str_bytes ''[32mUsertests: Test '' @ test @ str_bytes '' in Process '' @ dec_int (sint pid)
         @ str_bytes '' exited with code '' @ dec_int (sint (i32_at E xstate w)) @ [0x1B] @ str_bytes ''[0m'' @ [0x0A]) (buf, w) });
     let tests = map (\<lambda>t. str_bytes t @ [0]) TESTS;
     (pids, buf, w) \<leftarrow> foldM (usertest_spawn E str_at) tests ([], st);
     let w = set_i32 E xstate 0 w;
     st \<leftarrow> foldM await (zip tests pids) (buf, w);
     let stest = str_bytes ''ch5_stride'' @ [0];
     (spids, buf, w) \<leftarrow> usertest_spawn E str_at stest ([], st);
     let w = set_i32 E xstate 0 w;
     st \<leftarrow> await (stest, hd spids) (buf, w);
     st \<leftarrow> print_u E (str_bytes ''ch5 Usertests passed!'' @ [0x0A]) st;
     Some (0, st) }"

section \<open>The line that is seen\<close>

text \<open>
  A terminal: the cells of the current line and the position of the cursor. A backspace moves the cursor, any other byte is shown in
  the cell under it.
\<close>

fun terminal :: "u8 \<Rightarrow> u8 list \<times> nat \<Rightarrow> u8 list \<times> nat" where
  "terminal c (cells, cursor) = (if c = 0x08 then (cells, cursor - 1) else (take cursor cells @ [c] @ drop (Suc cursor) cells, Suc cursor))"

definition shown :: "u8 list \<times> nat \<Rightarrow> u8 list" where
  "shown t = take (snd t) (fst t)"

text \<open>What typing means: a backspace or delete removes the last character, another key appends one.\<close>

definition edited :: "u8 list \<Rightarrow> u8 list" where
  "edited keys = foldl (\<lambda>line c. if c = 0x08 \<or> c = 0x7F then butlast line else line @ [c]) [] keys"

text \<open>The keys of a line: visible characters, backspace and delete.\<close>

definition line_key :: "u8 \<Rightarrow> bool" where
  "line_key c \<longleftrightarrow> c = 0x08 \<or> 0x20 \<le> c \<and> c < 0x80"

definition type_keys :: "'w uenv \<Rightarrow> 'w enter \<Rightarrow> u8 list \<Rightarrow> u8 list \<times> u8 list \<times> 'w \<Rightarrow> (u8 list \<times> u8 list \<times> 'w) option" where
  "type_keys E enter keys = foldM (\<lambda>c (line, st). do {
     r \<leftarrow> shell_key E enter c line st;
     case r of Inl s \<Rightarrow> Some s | Inr x \<Rightarrow> None }) keys"

definition edit_key :: "u8 \<Rightarrow> u8 list \<Rightarrow> u8 list" where
  "edit_key c line = (if c = 0x08 \<or> c = 0x7F then butlast line else line @ [c])"

definition cursor_ok :: "u8 list \<times> nat \<Rightarrow> u8 list \<Rightarrow> bool" where
  "cursor_ok t line \<longleftrightarrow> snd t \<le> length (fst t) \<and> shown t = line"

lemma cursor_append:
  assumes "cursor_ok t line" and "c \<noteq> 0x08"
  shows "cursor_ok (terminal c t) (line @ [c])"
  using assms by (cases t) (auto simp: cursor_ok_def shown_def)

lemma cursor_erase:
  assumes "cursor_ok t line" and "line \<noteq> []"
  shows "cursor_ok (fold terminal [0x08, 0x20, 0x08] t) (butlast line)"
proof -
  obtain cells n where t: "t = (cells, Suc n)" "Suc n \<le> length cells" "line = take (Suc n) cells"
    using assms by (cases t; cases "snd t") (auto simp: cursor_ok_def shown_def)
  have "butlast line = take n cells" using t by (simp add: butlast_take)
  then show ?thesis using t by (simp add: cursor_ok_def shown_def)
qed

lemma print_flush:
  assumes ok: "stdout_ok E out" and buf: "buffer_ok buf"
  shows "\<exists>w'. Option.bind (print_u E str (buf, w)) (flush_u E) = Some ([], w') \<and> out w' = out w @ buf @ str"
  using print_ok [OF assms, of str w] by auto

lemma shell_key_edits:
  assumes ok: "stdout_ok E out" and c: "line_key c"
  shows "\<exists>echo w'. shell_key E enter c line ([], w) = Some (Inl (edit_key c line, [], w')) \<and> out w' = out w @ echo
    \<and> (\<forall>t. cursor_ok t line \<longrightarrow> cursor_ok (fold terminal echo t) (edit_key c line))"
proof -
  have b: "buffer_ok []" by (simp add: buffer_ok_def)
  have nl: "c \<noteq> 0x0A" "c \<noteq> 0x0D" using c by (auto simp: line_key_def)
  consider "c = 0x08 \<or> c = 0x7F" "line = []" | "c = 0x08 \<or> c = 0x7F" "line \<noteq> []" | "c \<noteq> 0x08" "c \<noteq> 0x7F" by blast
  then show ?thesis
  proof cases
    case 1
    then show ?thesis using nl by (intro exI [of _ "[]"] exI [of _ w]) (auto simp: shell_key_def edit_key_def)
  next
    case 2
    obtain b1 w1 where p1: "print_u E [0x08] ([], w) = Some (b1, w1)" "out w1 @ b1 = out w @ [0x08]" "buffer_ok b1"
      using print_ok [OF ok b, of "[0x08]" w] by auto
    obtain b2 w2 where p2: "print_u E [0x20] (b1, w1) = Some (b2, w2)" "out w2 @ b2 = out w1 @ b1 @ [0x20]" "buffer_ok b2"
      using print_ok [OF ok p1(3), of "[0x20]" w1] by auto
    obtain w3 where p3: "Option.bind (print_u E [0x08] (b2, w2)) (flush_u E) = Some ([], w3)" "out w3 = out w2 @ b2 @ [0x08]"
      using print_flush [OF ok p2(3)] by blast
    have u: "char_utf8 0x08 = [0x08]" "str_bytes '' '' = [0x20]" by (simp_all add: char_utf8_def str_bytes_def)
    have "shell_key E enter c line ([], w) = Some (Inl (butlast line, [], w3))"
      using 2 nl p1(1) p2(1) p3(1) by (auto simp: shell_key_def u bind_eq_Some_conv)
    moreover have "out w3 = out w @ [0x08, 0x20, 0x08]" using p1(2) p2(2) p3(2) by (metis append.assoc append_Cons append_Nil)
    ultimately show ?thesis using 2 cursor_erase by (intro exI [of _ "[0x08, 0x20, 0x08]"] exI [of _ w3]) (auto simp: edit_key_def)
  next
    case 3
    then have u: "char_utf8 c = [c]" using c by (auto simp: char_utf8_def line_key_def)
    obtain w1 where p: "Option.bind (print_u E [c] ([], w)) (flush_u E) = Some ([], w1)" "out w1 = out w @ [] @ [c]"
      using print_flush [OF ok b] by blast
    have "shell_key E enter c line ([], w) = Some (Inl (line @ [c], [], w1))"
      using 3 nl p(1) by (auto simp: shell_key_def u bind_eq_Some_conv)
    then show ?thesis using 3 p(2) cursor_append by (intro exI [of _ "[c]"] exI [of _ w1]) (auto simp: edit_key_def)
  qed
qed

lemma type_keys_edit:
  assumes ok: "stdout_ok E out" and "\<forall>c \<in> set keys. line_key c"
  shows "\<exists>echo w'. type_keys E enter keys (line, [], w) = Some (foldl (\<lambda>l c. edit_key c l) line keys, [], w') \<and> out w' = out w @ echo
    \<and> (\<forall>t. cursor_ok t line \<longrightarrow> cursor_ok (fold terminal echo t) (foldl (\<lambda>l c. edit_key c l) line keys))"
  using assms(2)
proof (induction keys arbitrary: line w)
  case Nil
  then show ?case by (intro exI [of _ "[]"] exI [of _ w]) (simp add: type_keys_def)
next
  case (Cons c keys)
  obtain e1 w1 where 1: "shell_key E enter c line ([], w) = Some (Inl (edit_key c line, [], w1))" "out w1 = out w @ e1"
    "\<And>t. cursor_ok t line \<Longrightarrow> cursor_ok (fold terminal e1 t) (edit_key c line)"
    using shell_key_edits [OF ok, of c enter line w] Cons.prems by auto
  obtain e2 w2 where 2: "type_keys E enter keys (edit_key c line, [], w1) = Some (foldl (\<lambda>l c. edit_key c l) (edit_key c line) keys, [], w2)"
    "out w2 = out w1 @ e2"
    "\<And>t. cursor_ok t (edit_key c line) \<Longrightarrow> cursor_ok (fold terminal e2 t) (foldl (\<lambda>l c. edit_key c l) (edit_key c line) keys)"
    using Cons.IH [of "edit_key c line" w1] Cons.prems by auto
  have "type_keys E enter (c # keys) (line, [], w) = type_keys E enter keys (edit_key c line, [], w1)"
    by (simp add: type_keys_def 1(1))
  then show ?case using 1(2,3) 2 by (intro exI [of _ "e1 @ e2"] exI [of _ w2]) simp
qed



section \<open>Redirections\<close>

text \<open>A line that ends in a redirection mark makes the shell index past its arguments.\<close>

lemma split_blank_append: "split_blank (xs @ 0x20 # ys) = split_blank xs @ split_blank ys"
proof (induction xs)
  case (Cons c xs)
  have "split_blank xs \<noteq> []" by (cases xs) (simp_all split: list.splits)
  with Cons show ?case by (auto split: list.splits)
qed simp

lemma shell7_dangling_redirection:
  assumes "[0x3C] \<notin> set (split_blank line)"
  shows "shell7_parse (line @ [0x20, 0x3C]) = None"
proof -
  have "find_index (\<lambda>arg. arg = [0x3C, 0]) (map (\<lambda>arg. arg @ [0]) (ps @ [[0x3C]])) = Some (length ps)" if "[0x3C] \<notin> set ps" for ps :: "u8 list list"
    using that by (induction ps) (auto simp: append_eq_Cons_conv)
  from this [OF assms] show ?thesis
    by (simp add: shell7_parse_def split_blank_append Let_def str_bytes_def)
qed

end
