(* ===== verification/RiscvAddr.thy ===== *)
theory RiscvAddr
  imports RiscvRegister
begin

text \<open>
  The addresses of the \<open>riscv\<close> crate: \<open>sv39.rs\<close>, \<open>sv48.rs\<close> and the guest addresses of \<open>gpax4.rs\<close> in \<open>src/ci-user/riscv/src/addr\<close>. A type is a \<open>u64\<close> with its own constructor; constructors that panic give \<open>None\<close>. The
  bit fields are those of the crate \<open>bit_field\<close>, the parameter \<open>bf\<close> of \<^verbatim>\<open>RiscvRegister\<close>. The 32-bit types, for
  \<open>riscv32\<close> only, are left out.
\<close>

section \<open>mod.rs\<close>

text \<open>The traits for addresses: a trait is a record of functions, and its implementation for a type is a value of it.\<close>

record 'v virt_addr =
  v_new :: "usize \<Rightarrow> 'v option"
  v_page_number :: "'v \<Rightarrow> usize"
  v_page_offset :: "'v \<Rightarrow> usize"
  v_to_4k_aligned :: "'v \<Rightarrow> 'v"
  v_as_usize :: "'v \<Rightarrow> usize"

record 'v addr_l2 = "'v virt_addr" +
  l2_p2_index :: "'v \<Rightarrow> usize"
  l2_p1_index :: "'v \<Rightarrow> usize"
  l2_from_indices :: "usize \<Rightarrow> usize \<Rightarrow> usize \<Rightarrow> 'v option"

record 'v addr_l3 = "'v virt_addr" +
  l3_p3_index :: "'v \<Rightarrow> usize"
  l3_p2_index :: "'v \<Rightarrow> usize"
  l3_p1_index :: "'v \<Rightarrow> usize"
  l3_from_indices :: "usize \<Rightarrow> usize \<Rightarrow> usize \<Rightarrow> usize \<Rightarrow> 'v option"

record 'v addr_l4 = "'v virt_addr" +
  l4_p4_index :: "'v \<Rightarrow> usize"
  l4_p3_index :: "'v \<Rightarrow> usize"
  l4_p2_index :: "'v \<Rightarrow> usize"
  l4_p1_index :: "'v \<Rightarrow> usize"
  l4_from_indices :: "usize \<Rightarrow> usize \<Rightarrow> usize \<Rightarrow> usize \<Rightarrow> usize \<Rightarrow> 'v option"

record 'p phys_addr =
  p_new_u64 :: "u64 \<Rightarrow> 'p option"
  p_page_number :: "'p \<Rightarrow> usize"
  p_page_offset :: "'p \<Rightarrow> usize"
  p_to_4k_aligned :: "'p \<Rightarrow> 'p"
  p_as_u64 :: "'p \<Rightarrow> u64"
  p_as_usize :: "'p \<Rightarrow> usize"

section \<open>sv39.rs\<close>

datatype VirtAddrSv39 = VirtAddrSv39 (va39: u64)
datatype PhysAddrSv39 = PhysAddrSv39 (pa39: u64)

definition va39_new_u64 :: "bit_field \<Rightarrow> u64 \<Rightarrow> VirtAddrSv39 option" where
  "va39_new_u64 bf addr = do {
     (if get_bit bf addr 38 then rassert (get_bits bf addr 39 64 = push_bit (64 - 39) 1 - 1)
      else rassert (get_bits bf addr 39 64 = 0));
     Some (VirtAddrSv39 addr) }"

definition va39_new :: "bit_field \<Rightarrow> usize \<Rightarrow> VirtAddrSv39 option" where
  "va39_new bf addr = va39_new_u64 bf addr"

definition va39_as_usize :: "VirtAddrSv39 \<Rightarrow> usize" where
  "va39_as_usize a = va39 a"

definition va39_page_number :: "bit_field \<Rightarrow> VirtAddrSv39 \<Rightarrow> usize" where
  "va39_page_number bf a = get_bits bf (va39 a) 12 39"

definition va39_page_offset :: "bit_field \<Rightarrow> VirtAddrSv39 \<Rightarrow> usize" where
  "va39_page_offset bf a = get_bits bf (va39 a) 0 12"

definition va39_to_4k_aligned :: "VirtAddrSv39 \<Rightarrow> VirtAddrSv39" where
  "va39_to_4k_aligned a = VirtAddrSv39 (push_bit 12 (drop_bit 12 (va39 a)))"

definition va39_p3_index :: "bit_field \<Rightarrow> VirtAddrSv39 \<Rightarrow> usize" where
  "va39_p3_index bf a = get_bits bf (va39 a) 30 39"

definition va39_p2_index :: "bit_field \<Rightarrow> VirtAddrSv39 \<Rightarrow> usize" where
  "va39_p2_index bf a = get_bits bf (va39 a) 21 30"

definition va39_p1_index :: "bit_field \<Rightarrow> VirtAddrSv39 \<Rightarrow> usize" where
  "va39_p1_index bf a = get_bits bf (va39 a) 12 21"

definition va39_from_page_table_indices :: "bit_field \<Rightarrow> usize \<Rightarrow> usize \<Rightarrow> usize \<Rightarrow> usize \<Rightarrow> VirtAddrSv39 option" where
  "va39_from_page_table_indices bf p3_index p2_index p1_index offset = do {
     rassert (get_bits bf p3_index 11 64 = 0);
     rassert (get_bits bf p2_index 9 64 = 0);
     rassert (get_bits bf p1_index 9 64 = 0);
     rassert (get_bits bf offset 12 64 = 0);
     let addr = push_bit 9 (push_bit 9 (push_bit 12 p3_index)) OR push_bit 9 (push_bit 12 p2_index) OR push_bit 12 p1_index OR offset;
     let addr = (if get_bit bf addr 38 then set_bits bf addr 39 64 (push_bit (64 - 39) 1 - 1) else set_bits bf addr 39 64 0);
     va39_new_u64 bf addr }"

definition pa39_new_u64 :: "bit_field \<Rightarrow> u64 \<Rightarrow> PhysAddrSv39 option" where
  "pa39_new_u64 bf addr = do { rassert (get_bits bf addr 56 64 = 0); Some (PhysAddrSv39 addr) }"

definition pa39_as_u64 :: "PhysAddrSv39 \<Rightarrow> u64" where
  "pa39_as_u64 a = pa39 a"

definition pa39_as_usize :: "PhysAddrSv39 \<Rightarrow> usize" where
  "pa39_as_usize a = pa39 a"

definition pa39_page_number :: "bit_field \<Rightarrow> PhysAddrSv39 \<Rightarrow> usize" where
  "pa39_page_number bf a = get_bits bf (pa39 a) 12 56"

definition pa39_page_offset :: "bit_field \<Rightarrow> PhysAddrSv39 \<Rightarrow> usize" where
  "pa39_page_offset bf a = get_bits bf (pa39 a) 0 12"

definition pa39_to_4k_aligned :: "PhysAddrSv39 \<Rightarrow> PhysAddrSv39" where
  "pa39_to_4k_aligned a = PhysAddrSv39 (push_bit 12 (drop_bit 12 (pa39 a)))"

definition impl_va39 :: "bit_field \<Rightarrow> VirtAddrSv39 addr_l3" where
  "impl_va39 bf = \<lparr>v_new = va39_new bf, v_page_number = va39_page_number bf, v_page_offset = va39_page_offset bf,
     v_to_4k_aligned = va39_to_4k_aligned, v_as_usize = va39_as_usize, l3_p3_index = va39_p3_index bf, l3_p2_index = va39_p2_index bf,
     l3_p1_index = va39_p1_index bf, l3_from_indices = va39_from_page_table_indices bf\<rparr>"

definition impl_pa39 :: "bit_field \<Rightarrow> PhysAddrSv39 phys_addr" where
  "impl_pa39 bf = \<lparr>p_new_u64 = pa39_new_u64 bf, p_page_number = pa39_page_number bf, p_page_offset = pa39_page_offset bf,
     p_to_4k_aligned = pa39_to_4k_aligned, p_as_u64 = pa39_as_u64, p_as_usize = pa39_as_usize\<rparr>"

section \<open>sv48.rs\<close>

datatype VirtAddrSv48 = VirtAddrSv48 (va48: u64)
datatype PhysAddrSv48 = PhysAddrSv48 (pa48: u64)

definition va48_new_u64 :: "bit_field \<Rightarrow> u64 \<Rightarrow> VirtAddrSv48 option" where
  "va48_new_u64 bf addr = do {
     (if get_bit bf addr 47 then rassert (get_bits bf addr 48 64 = push_bit (64 - 48) 1 - 1)
      else rassert (get_bits bf addr 48 64 = 0));
     Some (VirtAddrSv48 addr) }"

definition va48_from_page_table_indices ::
  "bit_field \<Rightarrow> usize \<Rightarrow> usize \<Rightarrow> usize \<Rightarrow> usize \<Rightarrow> usize \<Rightarrow> VirtAddrSv48 option" where
  "va48_from_page_table_indices bf p4_index p3_index p2_index p1_index offset = do {
     rassert (get_bits bf p4_index 9 64 = 0);
     rassert (get_bits bf p3_index 9 64 = 0);
     rassert (get_bits bf p2_index 9 64 = 0);
     rassert (get_bits bf p1_index 9 64 = 0);
     rassert (get_bits bf offset 12 64 = 0);
     let addr = push_bit 9 (push_bit 9 (push_bit 9 (push_bit 12 p4_index))) OR push_bit 9 (push_bit 9 (push_bit 12 p3_index))
       OR push_bit 9 (push_bit 12 p2_index) OR push_bit 12 p1_index OR offset;
     let addr = (if get_bit bf addr 47 then set_bits bf addr 48 64 (push_bit (64 - 48) 1 - 1) else set_bits bf addr 48 64 0);
     va48_new_u64 bf addr }"

definition pa48_new_u64 :: "bit_field \<Rightarrow> u64 \<Rightarrow> PhysAddrSv48 option" where
  "pa48_new_u64 bf addr = do { rassert (get_bits bf addr 56 64 = 0); Some (PhysAddrSv48 addr) }"

definition impl_va48 :: "bit_field \<Rightarrow> VirtAddrSv48 addr_l4" where
  "impl_va48 bf = \<lparr>v_new = va48_new_u64 bf, v_page_number = (\<lambda>a. get_bits bf (va48 a) 12 48),
     v_page_offset = (\<lambda>a. get_bits bf (va48 a) 0 12), v_to_4k_aligned = (\<lambda>a. VirtAddrSv48 (push_bit 12 (drop_bit 12 (va48 a)))), v_as_usize = va48,
     l4_p4_index = (\<lambda>a. get_bits bf (va48 a) 39 48), l4_p3_index = (\<lambda>a. get_bits bf (va48 a) 30 39), l4_p2_index = (\<lambda>a. get_bits bf (va48 a) 21 30),
     l4_p1_index = (\<lambda>a. get_bits bf (va48 a) 12 21), l4_from_indices = va48_from_page_table_indices bf\<rparr>"

definition impl_pa48 :: "bit_field \<Rightarrow> PhysAddrSv48 phys_addr" where
  "impl_pa48 bf = \<lparr>p_new_u64 = pa48_new_u64 bf, p_page_number = (\<lambda>a. get_bits bf (pa48 a) 12 56), p_page_offset = (\<lambda>a. get_bits bf (pa48 a) 0 12),
     p_to_4k_aligned = (\<lambda>a. PhysAddrSv48 (push_bit 12 (drop_bit 12 (pa48 a)))), p_as_u64 = pa48, p_as_usize = pa48\<rparr>"

section \<open>gpax4.rs\<close>

datatype GPAddrSv32X4 = GPAddrSv32X4 (gpa32: u64)
datatype GPAddrSv39X4 = GPAddrSv39X4 (gpa39: u64)
datatype GPAddrSv48X4 = GPAddrSv48X4 (gpa48: u64)

definition gpa32_new_u64 :: "bit_field \<Rightarrow> u64 \<Rightarrow> GPAddrSv32X4 option" where
  "gpa32_new_u64 bf addr = do { rassert (get_bits bf addr 34 64 = 0); Some (GPAddrSv32X4 addr) }"

definition gpa32_from_page_table_indices :: "bit_field \<Rightarrow> usize \<Rightarrow> usize \<Rightarrow> usize \<Rightarrow> GPAddrSv32X4 option" where
  "gpa32_from_page_table_indices bf p2_index p1_index offset = do {
     rassert (get_bits bf p2_index 12 64 = 0);
     rassert (get_bits bf p1_index 10 64 = 0);
     rassert (get_bits bf offset 12 64 = 0);
     gpa32_new_u64 bf (push_bit 22 p2_index OR push_bit 12 p1_index OR offset) }"

text \<open>\<open>new\<close> of the next two converts without a check.\<close>

definition gpa39_p3_index :: "bit_field \<Rightarrow> GPAddrSv39X4 \<Rightarrow> usize" where
  "gpa39_p3_index bf a = get_bits bf (gpa39 a) 30 41"

definition gpa39_new_u64 :: "bit_field \<Rightarrow> u64 \<Rightarrow> GPAddrSv39X4 option" where
  "gpa39_new_u64 bf addr = do { rassert (get_bits bf addr 41 64 = 0); Some (GPAddrSv39X4 addr) }"

definition gpa39_from_page_table_indices :: "bit_field \<Rightarrow> usize \<Rightarrow> usize \<Rightarrow> usize \<Rightarrow> usize \<Rightarrow> GPAddrSv39X4 option" where
  "gpa39_from_page_table_indices bf p3_index p2_index p1_index offset = do {
     rassert (get_bits bf p3_index 11 64 = 0);
     rassert (get_bits bf p2_index 9 64 = 0);
     rassert (get_bits bf p1_index 9 64 = 0);
     rassert (get_bits bf offset 12 64 = 0);
     gpa39_new_u64 bf (push_bit 9 (push_bit 9 (push_bit 12 p3_index)) OR push_bit 9 (push_bit 12 p2_index) OR push_bit 12 p1_index OR offset) }"

definition gpa48_new_u64 :: "bit_field \<Rightarrow> u64 \<Rightarrow> GPAddrSv48X4 option" where
  "gpa48_new_u64 bf addr = do { rassert (get_bits bf addr 50 64 = 0); Some (GPAddrSv48X4 addr) }"

definition gpa48_from_page_table_indices ::
  "bit_field \<Rightarrow> usize \<Rightarrow> usize \<Rightarrow> usize \<Rightarrow> usize \<Rightarrow> usize \<Rightarrow> GPAddrSv48X4 option" where
  "gpa48_from_page_table_indices bf p4_index p3_index p2_index p1_index offset = do {
     rassert (get_bits bf p4_index 11 64 = 0);
     rassert (get_bits bf p3_index 9 64 = 0);
     rassert (get_bits bf p2_index 9 64 = 0);
     rassert (get_bits bf p1_index 9 64 = 0);
     rassert (get_bits bf offset 12 64 = 0);
     gpa48_new_u64 bf (push_bit 9 (push_bit 9 (push_bit 9 (push_bit 12 p4_index))) OR push_bit 9 (push_bit 9 (push_bit 12 p3_index))
       OR push_bit 9 (push_bit 12 p2_index) OR push_bit 12 p1_index OR offset) }"

definition impl_gpa32 :: "bit_field \<Rightarrow> GPAddrSv32X4 addr_l2" where
  "impl_gpa32 bf = \<lparr>v_new = gpa32_new_u64 bf, v_page_number = (\<lambda>a. get_bits bf (gpa32 a) 12 34), v_page_offset = (\<lambda>a. get_bits bf (gpa32 a) 0 12),
     v_to_4k_aligned = (\<lambda>a. GPAddrSv32X4 (push_bit 12 (drop_bit 12 (gpa32 a)))), v_as_usize = gpa32, l2_p2_index = (\<lambda>a. get_bits bf (gpa32 a) 22 34),
     l2_p1_index = (\<lambda>a. get_bits bf (gpa32 a) 12 22), l2_from_indices = gpa32_from_page_table_indices bf\<rparr>"

definition impl_gpa39 :: "bit_field \<Rightarrow> GPAddrSv39X4 addr_l3" where
  "impl_gpa39 bf = \<lparr>v_new = (\<lambda>addr. Some (GPAddrSv39X4 addr)), v_page_number = (\<lambda>a. get_bits bf (gpa39 a) 12 41), v_page_offset = (\<lambda>a. get_bits bf (gpa39 a) 0 12),
     v_to_4k_aligned = (\<lambda>a. GPAddrSv39X4 (push_bit 12 (drop_bit 12 (gpa39 a)))), v_as_usize = gpa39, l3_p3_index = gpa39_p3_index bf,
     l3_p2_index = (\<lambda>a. get_bits bf (gpa39 a) 21 30), l3_p1_index = (\<lambda>a. get_bits bf (gpa39 a) 12 21),
     l3_from_indices = gpa39_from_page_table_indices bf\<rparr>"

definition impl_gpa48 :: "bit_field \<Rightarrow> GPAddrSv48X4 addr_l4" where
  "impl_gpa48 bf = \<lparr>v_new = (\<lambda>addr. Some (GPAddrSv48X4 addr)), v_page_number = (\<lambda>a. get_bits bf (gpa48 a) 12 50), v_page_offset = (\<lambda>a. get_bits bf (gpa48 a) 0 12),
     v_to_4k_aligned = (\<lambda>a. GPAddrSv48X4 (push_bit 12 (drop_bit 12 (gpa48 a)))), v_as_usize = gpa48, l4_p4_index = (\<lambda>a. get_bits bf (gpa48 a) 39 50),
     l4_p3_index = (\<lambda>a. get_bits bf (gpa48 a) 30 39), l4_p2_index = (\<lambda>a. get_bits bf (gpa48 a) 21 30), l4_p1_index = (\<lambda>a. get_bits bf (gpa48 a) 12 21),
     l4_from_indices = gpa48_from_page_table_indices bf\<rparr>"

section \<open>Bits of addresses\<close>

lemma high_bits_zero:
  assumes "bit_field_ok bf" and "lo < 64"
  shows "get_bits bf w lo 64 = 0 \<longleftrightarrow> (\<forall>k \<ge> lo. \<not> bit w k)"
proof -
  have "get_bits bf w lo 64 = 0 \<longleftrightarrow> (\<forall>k. \<not> (k < 64 - lo \<and> bit w (lo + k)))"
    using get_bits_eq [OF assms, of w] by (auto simp: bit_eq_iff [of _ 0] bit_simps)
  also have "\<dots> \<longleftrightarrow> (\<forall>k \<ge> lo. \<not> bit w k)"
  proof (intro iffI allI impI)
    fix k assume a: "\<forall>k. \<not> (k < 64 - lo \<and> bit w (lo + k))" and k: "lo \<le> k"
    show "\<not> bit w k"
    proof
      assume b: "bit w k"
      then have "k < 64" using bit_imp_le_length [OF b] by simp
      then show False using a [rule_format, of "k - lo"] k b assms(2) by auto
    qed
  qed auto
  finally show ?thesis .
qed

lemma bit_get_bits:
  "bit_field_ok bf \<Longrightarrow> lo < hi \<Longrightarrow> hi \<le> 64 \<Longrightarrow> bit (get_bits bf w lo hi) k \<longleftrightarrow> k < hi - lo \<and> bit w (lo + k)"
  by (auto simp: get_bits_eq bit_simps)

lemma bit_set_high:
  assumes "bit_field_ok bf" and "lo < 64" and "unat v < 2 ^ (64 - lo)"
  shows "bit (set_bits bf w lo 64 v) k \<longleftrightarrow> (if k < lo then bit w k else k < 64 \<and> bit v (k - lo))"
  using assms by (auto simp: bit_field_ok_def bit_simps dest: bit_imp_le_length)

text \<open>The all-ones field.\<close>

lemma ones_field: "0 < n \<Longrightarrow> n < 64 \<Longrightarrow> push_bit n 1 - 1 = (mask n :: u64)"
  by (simp add: mask_eq_exp_minus_1 push_bit_eq_mult)

lemma unat_mask_less: "n < 64 \<Longrightarrow> unat (mask n :: u64) < 2 ^ n"
  using unat_and_mask [of "- 1 :: u64" n] by simp

lemma high_bits_ones:
  assumes "bit_field_ok bf" and "0 < lo" and "lo < 64"
  shows "get_bits bf w lo 64 = push_bit (64 - lo) 1 - 1 \<longleftrightarrow> (\<forall>k. lo \<le> k \<longrightarrow> k < 64 \<longrightarrow> bit w k)"
proof -
  have "get_bits bf w lo 64 = push_bit (64 - lo) 1 - 1 \<longleftrightarrow> (\<forall>k < 64. (k < 64 - lo \<and> bit w (lo + k)) = (k < 64 - lo))"
    using assms by (subst ones_field) (auto simp: bit_eq_iff bit_get_bits bit_mask_iff)
  also have "\<dots> \<longleftrightarrow> (\<forall>k < 64 - lo. bit w (lo + k))" by (meson diff_le_self order_less_le_trans)
  also have "\<dots> \<longleftrightarrow> (\<forall>k. lo \<le> k \<longrightarrow> k < 64 \<longrightarrow> bit w k)"
  proof (intro iffI allI impI)
    fix k assume "\<forall>k < 64 - lo. bit w (lo + k)" "lo \<le> k" "k < 64"
    then show "bit w k" by (auto dest: spec [of _ "k - lo"])
  qed auto
  finally show ?thesis .
qed

lemma bit_set_ones:
  assumes "bit_field_ok bf" and "0 < lo" and "lo < 64"
  shows "bit (set_bits bf x lo 64 (push_bit (64 - lo) 1 - 1)) k \<longleftrightarrow> (if k < lo then bit x k else k < 64)"
proof -
  have m: "push_bit (64 - lo) 1 - 1 = (mask (64 - lo) :: u64)" by (rule ones_field) (use assms in simp_all)
  have "k - lo < 64 - lo" if "\<not> k < lo" "k < 64" using that by simp
  then show ?thesis unfolding m
    using bit_set_high [OF assms(1,3), of "mask (64 - lo)" x k] unat_mask_less [of "64 - lo"] assms by (auto simp: bit_mask_iff)
qed

lemma bit_set_zeros:
  "bit_field_ok bf \<Longrightarrow> lo < 64 \<Longrightarrow> bit (set_bits bf x lo 64 0) k \<longleftrightarrow> k < lo \<and> bit x k"
  using bit_set_high [of bf lo 0 x k] by auto

lemma va39_new_iff:
  assumes "bit_field_ok bf"
  shows "va39_new_u64 bf w = (if \<forall>k. 39 \<le> k \<longrightarrow> k < 64 \<longrightarrow> bit w k = bit w 38 then Some (VirtAddrSv39 w) else None)"
proof -
  have z: "(\<forall>k \<ge> 39. \<not> bit w k) \<longleftrightarrow> (\<forall>k. 39 \<le> k \<longrightarrow> k < 64 \<longrightarrow> \<not> bit w k)" using bit_imp_le_length [of w] by auto
  have "get_bits bf w 39 64 = 33554431 \<longleftrightarrow> (\<forall>k. 39 \<le> k \<longrightarrow> k < 64 \<longrightarrow> bit w k)"
    using high_bits_ones [OF assms, of 39 w] by simp
  then show ?thesis using high_bits_zero [OF assms, of 39 w] get_bit_eq [OF assms, of 38 w] z by (auto simp: va39_new_u64_def)
qed

text \<open>The bits of an index that is in range.\<close>

definition fits :: "nat \<Rightarrow> u64 \<Rightarrow> bool" where
  "fits n w \<longleftrightarrow> (\<forall>k \<ge> n. \<not> bit w k)"

lemma mod_self_iff: "0 < q \<Longrightarrow> m mod q = m \<longleftrightarrow> m < q" for m q :: nat
  by (metis mod_less mod_less_divisor)

lemma fits_iff: "n < 64 \<Longrightarrow> fits n w \<longleftrightarrow> unat w < 2 ^ n"
proof -
  assume n: "n < 64"
  have len: "k < 64" if "bit w k" for k using bit_imp_le_length [OF that] by simp
  have "fits n w \<longleftrightarrow> take_bit n w = w"
  proof
    assume e: "take_bit n w = w"
    have "\<not> bit (take_bit n w) k" if "n \<le> k" for k using that by (simp add: bit_take_bit_iff)
    then show "fits n w" unfolding e by (simp add: fits_def)
  qed (auto simp: fits_def bit_eq_iff bit_simps not_le [symmetric])
  also have "\<dots> \<longleftrightarrow> unat w mod 2 ^ n = unat w" unfolding take_bit_eq_mask word_unat_eq_iff unat_and_mask ..
  also have "\<dots> \<longleftrightarrow> unat w < 2 ^ n" by (rule mod_self_iff) simp
  finally show ?thesis .
qed

section \<open>Addresses and their indices\<close>

text \<open>The address that three indices and an offset give, before the sign extension.\<close>

abbreviation raw39 :: "u64 \<Rightarrow> u64 \<Rightarrow> u64 \<Rightarrow> u64 \<Rightarrow> u64" where
  "raw39 p3 p2 p1 off \<equiv> push_bit 9 (push_bit 9 (push_bit 12 p3)) OR push_bit 9 (push_bit 12 p2) OR push_bit 12 p1 OR off"

lemma bit_raw39:
  assumes "fits 9 p2" and "fits 9 p1" and "fits 12 off"
  shows "bit (raw39 p3 p2 p1 off) k \<longleftrightarrow> k < 64 \<and> (if k < 12 then bit off k else if k < 21 then bit p1 (k - 12)
    else if k < 30 then bit p2 (k - 21) else bit p3 (k - 30))"
  using assms by (auto simp: bit_simps fits_def dest: bit_imp_le_length)

lemma va39_from_indices:
  assumes bf: "bit_field_ok bf" and fit: "fits 11 p3" "fits 9 p2" "fits 9 p1" "fits 12 off"
  shows "\<exists>a. va39_from_page_table_indices bf p3 p2 p1 off = Some (VirtAddrSv39 a)
    \<and> (\<forall>k. bit a k \<longleftrightarrow> k < 64 \<and> bit (raw39 p3 p2 p1 off) (if k < 39 then k else 38))"
proof -
  let ?x = "raw39 p3 p2 p1 off"
  define a where "a = (if bit ?x 38 then set_bits bf ?x 39 64 (push_bit (64 - 39) 1 - 1) else set_bits bf ?x 39 64 0)"
  have 1: "bit (set_bits bf ?x 39 64 (push_bit (64 - 39) 1 - 1)) k \<longleftrightarrow> (if k < 39 then bit ?x k else k < 64)" for k
    by (rule bit_set_ones [OF bf]) simp_all
  have 0: "bit (set_bits bf ?x 39 64 0) k \<longleftrightarrow> k < 39 \<and> bit ?x k" for k
    by (rule bit_set_zeros [OF bf]) simp
  have len: "bit ?x k \<Longrightarrow> k < 64" for k by (drule bit_imp_le_length) simp
  have b: "bit a k \<longleftrightarrow> k < 64 \<and> bit ?x (if k < 39 then k else 38)" for k
    unfolding a_def using 0 [of k] 1 [of k] len [of k] by (cases "bit ?x 38") (simp_all only: if_True if_False, auto)
  have "va39_new_u64 bf a = Some (VirtAddrSv39 a)" unfolding va39_new_iff [OF bf] using b by simp
  then have "va39_from_page_table_indices bf p3 p2 p1 off = Some (VirtAddrSv39 a)"
    using fit high_bits_zero [OF bf] get_bit_eq [OF bf, of 38]
    unfolding va39_from_page_table_indices_def Let_def a_def fits_def by simp
  then show ?thesis using b by blast
qed

text \<open>
  C29. Sv39 addresses are made from their indices. For indices below 512 and an offset below 4096, \<open>from_page_table_indices\<close> gives a
  canonical address (which \<open>new\<close> accepts) with these indices and this offset; and every canonical address is given by its own.
\<close>

theorem sv39_indices_round_trip:
  assumes bf: "bit_field_ok bf" and idx: "unat p3 < 512" "unat p2 < 512" "unat p1 < 512" "unat off < 4096"
    and canon: "va39_new_u64 bf w = Some b"
  shows "(\<exists>a. va39_from_page_table_indices bf p3 p2 p1 off = Some a \<and> va39_new_u64 bf (va39 a) = Some a
      \<and> va39_p3_index bf a = p3 \<and> va39_p2_index bf a = p2 \<and> va39_p1_index bf a = p1 \<and> va39_page_offset bf a = off)
    \<and> va39_from_page_table_indices bf (va39_p3_index bf b) (va39_p2_index bf b) (va39_p1_index bf b) (va39_page_offset bf b) = Some b"
proof -
  have fit: "fits 11 p3" "fits 9 p3" "fits 9 p2" "fits 9 p1" "fits 12 off" using idx by (simp_all add: fits_iff)
  have g: "\<And>lo hi v k. lo < hi \<Longrightarrow> hi \<le> 64 \<Longrightarrow> bit (get_bits bf v lo hi) k \<longleftrightarrow> k < hi - lo \<and> bit v (lo + k)" using bit_get_bits [OF bf] .
  obtain a where a: "va39_from_page_table_indices bf p3 p2 p1 off = Some (VirtAddrSv39 a)"
    "\<And>k. bit a k \<longleftrightarrow> k < 64 \<and> bit (raw39 p3 p2 p1 off) (if k < 39 then k else 38)"
    using va39_from_indices [OF bf fit(1,3,4,5)] by blast
  note ab = a(2) [unfolded bit_raw39 [OF fit(3,4,5)]]
  have out: "bit p3 k \<Longrightarrow> k < 9" "bit p2 k \<Longrightarrow> k < 9" "bit p1 k \<Longrightarrow> k < 9" "bit off k \<Longrightarrow> k < 12" for k
    using fit by (auto simp: fits_def not_le [symmetric])
  have "va39_p3_index bf (VirtAddrSv39 a) = p3" "va39_p2_index bf (VirtAddrSv39 a) = p2" "va39_p1_index bf (VirtAddrSv39 a) = p1"
    "va39_page_offset bf (VirtAddrSv39 a) = off"
    unfolding va39_p3_index_def va39_p2_index_def va39_p1_index_def va39_page_offset_def
    by (rule bit_word_eqI; auto simp: g ab dest: out)+
  moreover have "va39_new_u64 bf a = Some (VirtAddrSv39 a)" unfolding va39_new_iff [OF bf] using a(2) by simp
  moreover have "va39_from_page_table_indices bf (va39_p3_index bf b) (va39_p2_index bf b) (va39_p1_index bf b) (va39_page_offset bf b) = Some b"
  proof -
    have b: "b = VirtAddrSv39 w" "\<And>k. 39 \<le> k \<Longrightarrow> k < 64 \<Longrightarrow> bit w k = bit w 38"
      using canon unfolding va39_new_iff [OF bf] by (auto split: if_splits)
    let ?p3 = "va39_p3_index bf b" and ?p2 = "va39_p2_index bf b" and ?p1 = "va39_p1_index bf b" and ?o = "va39_page_offset bf b"
    have f: "fits 11 ?p3" "fits 9 ?p2" "fits 9 ?p1" "fits 12 ?o"
      by (auto simp: fits_def va39_p3_index_def va39_p2_index_def va39_p1_index_def va39_page_offset_def g)
    obtain c where c: "va39_from_page_table_indices bf ?p3 ?p2 ?p1 ?o = Some (VirtAddrSv39 c)"
      "\<And>k. bit c k \<longleftrightarrow> k < 64 \<and> bit (raw39 ?p3 ?p2 ?p1 ?o) (if k < 39 then k else 38)" using va39_from_indices [OF bf f] by blast
    have "c = w"
    proof (rule bit_word_eqI)
      fix k assume "k < LENGTH(64)"
      then show "bit c k \<longleftrightarrow> bit w k" unfolding c(2) bit_raw39 [OF f(2-4)] using b(2) [of k]
        by (auto simp: va39_p3_index_def va39_p2_index_def va39_p1_index_def va39_page_offset_def b(1) g)
    qed
    then show ?thesis using c(1) b(1) by simp
  qed
  ultimately show ?thesis using a(1) by simp
qed

theorem sv39_indices_round_trip_witness:
  "va39_from_page_table_indices word_bit_field (va39_p3_index word_bit_field (VirtAddrSv39 0xFFFFFFC000001234))
     (va39_p2_index word_bit_field (VirtAddrSv39 0xFFFFFFC000001234)) (va39_p1_index word_bit_field (VirtAddrSv39 0xFFFFFFC000001234))
     (va39_page_offset word_bit_field (VirtAddrSv39 0xFFFFFFC000001234)) = Some (VirtAddrSv39 0xFFFFFFC000001234)"
proof -
  have "va39_new_u64 word_bit_field 0xFFFFFFC000001234 = Some (VirtAddrSv39 0xFFFFFFC000001234)" by code_simp
  then show ?thesis using sv39_indices_round_trip [OF word_bit_field_ok, of 1 2 3 4 "0xFFFFFFC000001234"] by simp
qed

text \<open>The addresses that a type of virtual addresses may hold: the bits from \<open>n\<close> on repeat the one below them.\<close>

definition canonical :: "nat \<Rightarrow> u64 \<Rightarrow> bool" where
  "canonical n w \<longleftrightarrow> (\<forall>k. n \<le> k \<longrightarrow> k < 64 \<longrightarrow> bit w k = bit w (n - 1))"

lemma va48_new_iff:
  assumes "bit_field_ok bf"
  shows "va48_new_u64 bf w = (if canonical 48 w then Some (VirtAddrSv48 w) else None)"
proof -
  have z: "(\<forall>k \<ge> 48. \<not> bit w k) \<longleftrightarrow> (\<forall>k. 48 \<le> k \<longrightarrow> k < 64 \<longrightarrow> \<not> bit w k)" using bit_imp_le_length [of w] by auto
  have "get_bits bf w 48 64 = 65535 \<longleftrightarrow> (\<forall>k. 48 \<le> k \<longrightarrow> k < 64 \<longrightarrow> bit w k)"
    using high_bits_ones [OF assms, of 48 w] by simp
  then show ?thesis using high_bits_zero [OF assms, of 48 w] get_bit_eq [OF assms, of 47 w] z by (auto simp: va48_new_u64_def canonical_def)
qed

lemma aligned_canonical: "12 < n \<Longrightarrow> n < 64 \<Longrightarrow> canonical n w \<Longrightarrow> canonical n (push_bit 12 (drop_bit 12 w))"
  by (auto simp: canonical_def bit_simps)

lemma aligned_fits: "fits n w \<Longrightarrow> fits n (push_bit 12 (drop_bit 12 w))"
  by (auto simp: fits_def bit_simps)



text \<open>
  The check in \<open>from_page_table_indices\<close> of Sv39 admits 11 bits for the top index, although it has 9 (the message says 11, as for
  the guest addresses): an index above 511 is not refused and gives the address of another page.
\<close>

lemma sv39_top_index_truncated:
  "va39_from_page_table_indices word_bit_field 512 0 0 0 = Some (VirtAddrSv39 0)"
  by code_simp

end
