(* ===== verification/RiscvPaging.thy ===== *)
theory RiscvPaging
  imports RiscvAddr PhysMem
begin

text \<open>
  Pages, frames and the multi-level page tables of the \<open>riscv\<close> crate: \<open>addr/page.rs\<close>, \<open>paging/page_table.rs\<close>, \<open>mapper.rs\<close> and
  \<open>multi_level.rs\<close>. A page table is
  the address of its 512 entries in memory, and the frame allocator is a function on its own state. A value
  \<open>Result<T, E>\<close> is \<open>E + T\<close>; a panic is \<open>None\<close>.
\<close>

section \<open>page.rs\<close>

datatype 'v PageWith = PageWith (page0: 'v)
datatype 'p FrameWith = FrameWith (frame0: 'p)

definition page_of_addr :: "('v, 'z) virt_addr_scheme \<Rightarrow> 'v \<Rightarrow> 'v PageWith" where
  "page_of_addr T addr = PageWith (v_to_4k_aligned T addr)"

definition page_of_vpn :: "('v, 'z) virt_addr_scheme \<Rightarrow> usize \<Rightarrow> 'v PageWith option" where
  "page_of_vpn T vpn = map_option PageWith (v_new T (push_bit 12 vpn))"

definition page_start_address :: "'v PageWith \<Rightarrow> 'v" where
  "page_start_address p = page0 p"

definition page_number :: "('v, 'z) virt_addr_scheme \<Rightarrow> 'v PageWith \<Rightarrow> usize" where
  "page_number T p = v_page_number T (page0 p)"

definition page_l4_from_indices :: "'v addr_l4 \<Rightarrow> usize \<Rightarrow> usize \<Rightarrow> usize \<Rightarrow> usize \<Rightarrow> 'v PageWith option" where
  "page_l4_from_indices T p4 p3 p2 p1 = map_option (page_of_addr T) (l4_from_indices T p4 p3 p2 p1 0)"

definition page_l3_from_indices :: "'v addr_l3 \<Rightarrow> usize \<Rightarrow> usize \<Rightarrow> usize \<Rightarrow> 'v PageWith option" where
  "page_l3_from_indices T p3 p2 p1 = map_option (page_of_addr T) (l3_from_indices T p3 p2 p1 0)"

definition page_l3_indices :: "'v addr_l3 \<Rightarrow> 'v PageWith \<Rightarrow> usize \<times> usize \<times> usize" where
  "page_l3_indices T p = (l3_p3_index T (page0 p), l3_p2_index T (page0 p), l3_p1_index T (page0 p))"

definition page_l4_indices :: "'v addr_l4 \<Rightarrow> 'v PageWith \<Rightarrow> usize \<times> usize \<times> usize \<times> usize" where
  "page_l4_indices T p = (l4_p4_index T (page0 p), l4_p3_index T (page0 p), l4_p2_index T (page0 p), l4_p1_index T (page0 p))"

definition frame_of_addr :: "'p phys_addr \<Rightarrow> 'p \<Rightarrow> 'p FrameWith" where
  "frame_of_addr T addr = FrameWith (p_to_4k_aligned T addr)"

definition frame_of_ppn :: "'p phys_addr \<Rightarrow> usize \<Rightarrow> 'p FrameWith option" where
  "frame_of_ppn T ppn = map_option FrameWith (p_new_u64 T (push_bit 12 ppn))"

definition frame_start_address :: "'p FrameWith \<Rightarrow> 'p" where
  "frame_start_address f = frame0 f"

definition frame_number :: "'p phys_addr \<Rightarrow> 'p FrameWith \<Rightarrow> usize" where
  "frame_number T f = p_page_number T (frame0 f)"

definition frame_as_kernel_mut :: "'p phys_addr \<Rightarrow> 'p FrameWith \<Rightarrow> u64 \<Rightarrow> usize" where
  "frame_as_kernel_mut T f linear_offset = p_as_u64 T (frame0 f) + linear_offset"

section \<open>page_table.rs\<close>

datatype PageTableFlags = Flag_VALID | Flag_READABLE | Flag_WRITABLE | Flag_EXECUTABLE | Flag_USER | Flag_GLOBAL | Flag_ACCESSED | Flag_DIRTY | Flag_RESERVED1 | Flag_RESERVED2

fun flag_bits :: "PageTableFlags \<Rightarrow> usize" where
  "flag_bits Flag_VALID = push_bit 0 1" | "flag_bits Flag_READABLE = push_bit 1 1" | "flag_bits Flag_WRITABLE = push_bit 2 1"
| "flag_bits Flag_EXECUTABLE = push_bit 3 1" | "flag_bits Flag_USER = push_bit 4 1" | "flag_bits Flag_GLOBAL = push_bit 5 1"
| "flag_bits Flag_ACCESSED = push_bit 6 1" | "flag_bits Flag_DIRTY = push_bit 7 1"
| "flag_bits Flag_RESERVED1 = push_bit 8 1" | "flag_bits Flag_RESERVED2 = push_bit 9 1"

declare flag_bits.simps [simp del]

abbreviation F_VALID :: usize where "F_VALID \<equiv> flag_bits Flag_VALID"
abbreviation F_READABLE :: usize where "F_READABLE \<equiv> flag_bits Flag_READABLE"
abbreviation F_WRITABLE :: usize where "F_WRITABLE \<equiv> flag_bits Flag_WRITABLE"
abbreviation F_EXECUTABLE :: usize where "F_EXECUTABLE \<equiv> flag_bits Flag_EXECUTABLE"
abbreviation F_USER :: usize where "F_USER \<equiv> flag_bits Flag_USER"
abbreviation F_GLOBAL :: usize where "F_GLOBAL \<equiv> flag_bits Flag_GLOBAL"
abbreviation F_ACCESSED :: usize where "F_ACCESSED \<equiv> flag_bits Flag_ACCESSED"
abbreviation F_DIRTY :: usize where "F_DIRTY \<equiv> flag_bits Flag_DIRTY"
abbreviation F_RESERVED1 :: usize where "F_RESERVED1 \<equiv> flag_bits Flag_RESERVED1"
abbreviation F_RESERVED2 :: usize where "F_RESERVED2 \<equiv> flag_bits Flag_RESERVED2"

definition F_all :: usize where
  "F_all = F_VALID OR F_READABLE OR F_WRITABLE OR F_EXECUTABLE OR F_USER OR F_GLOBAL OR F_ACCESSED OR F_DIRTY OR F_RESERVED1 OR F_RESERVED2"

text \<open>Entries of 64 bits; \<open>from_bits_truncate\<close> keeps the bits of the known flags.\<close>

definition pte64_is_unused :: "u64 \<Rightarrow> bool" where
  "pte64_is_unused e \<longleftrightarrow> e = 0"

definition pte64_flags :: "u64 \<Rightarrow> usize" where
  "pte64_flags e = e AND F_all"

definition pte64_ppn_u64 :: "u64 \<Rightarrow> u64" where
  "pte64_ppn_u64 e = drop_bit 10 e"

definition pte64_ppn :: "u64 \<Rightarrow> usize" where
  "pte64_ppn e = pte64_ppn_u64 e"

definition pte64_addr :: "'p phys_addr \<Rightarrow> u64 \<Rightarrow> 'p option" where
  "pte64_addr T e = p_new_u64 T (push_bit 12 (pte64_ppn e))"

definition pte64_frame :: "'p phys_addr \<Rightarrow> u64 \<Rightarrow> 'p FrameWith option" where
  "pte64_frame T e = map_option (frame_of_addr T) (pte64_addr T e)"

definition pte64_set :: "'p phys_addr \<Rightarrow> 'p FrameWith \<Rightarrow> usize \<Rightarrow> u64" where
  "pte64_set T frame flags = (let flags = flags OR (F_ACCESSED OR F_DIRTY) in push_bit 10 (frame_number T frame) OR flags)"

definition RV64_ENTRY_COUNT :: usize where "RV64_ENTRY_COUNT = push_bit 9 1"

text \<open>\<open>table[index]\<close>: the address of an entry.\<close>

definition table_index :: "usize \<Rightarrow> usize \<Rightarrow> usize option" where
  "table_index table index = (if index < RV64_ENTRY_COUNT then Some (table + 8 * index) else None)"

definition table_zero :: "usize \<Rightarrow> phys_mem \<Rightarrow> phys_mem" where
  "table_zero table m = fold (\<lambda>i m. write_u64 m (table + 8 * of_nat i) 0) [0..<unat RV64_ENTRY_COUNT] m"

section \<open>mapper.rs\<close>

datatype MapToError = FrameAllocationFailed | MapParentEntryHugePage | PageAlreadyMapped
datatype 'p UnmapError = UnmapParentEntryHugePage | UnmapPageNotMapped | InvalidFrameAddress 'p
datatype FlagUpdateError = FlagPageNotMapped

text \<open>A \<open>MapperFlush\<close> is the address that is to be flushed.\<close>

definition mapper_flush_new :: "('v, 'z) virt_addr_scheme \<Rightarrow> 'v PageWith \<Rightarrow> usize" where
  "mapper_flush_new V page = v_as_usize V (page_start_address page)"

type_synonym ('p, 'a) frame_source = "'a \<Rightarrow> 'p FrameWith option \<times> 'a"

text \<open>\<open>?\<close> on a result, and the default methods of the trait \<open>Mapper\<close>, for given \<open>ref_entry\<close> and \<open>map_to\<close>.\<close>

definition and_then :: "(('e + 'b) \<times> 's) option \<Rightarrow> ('b \<Rightarrow> 's \<Rightarrow> (('e + 'c) \<times> 's) option) \<Rightarrow> (('e + 'c) \<times> 's) option" where
  "and_then r f = do { (x, st) \<leftarrow> r; case x of Inl e \<Rightarrow> Some (Inl e, st) | Inr y \<Rightarrow> f y st }"

definition update_flags ::
  "'p phys_addr \<Rightarrow> ('v, 'z) virt_addr_scheme \<Rightarrow> ('v PageWith \<Rightarrow> phys_mem \<Rightarrow> (FlagUpdateError + usize) option) \<Rightarrow>
   'v PageWith \<Rightarrow> usize \<Rightarrow> phys_mem \<Rightarrow> ((FlagUpdateError + usize) \<times> phys_mem) option" where
  "update_flags P V ref_entry page flags m = do {
     r \<leftarrow> ref_entry page m;
     case r of Inl err \<Rightarrow> Some (Inl err, m)
     | Inr e \<Rightarrow> do {
         frame \<leftarrow> pte64_frame P (read_u64 m e);
         Some (Inr (mapper_flush_new V page), write_u64 m e (pte64_set P frame flags)) } }"

definition translate_page ::
  "'p phys_addr \<Rightarrow> ('v PageWith \<Rightarrow> phys_mem \<Rightarrow> (FlagUpdateError + usize) option) \<Rightarrow> 'v PageWith \<Rightarrow> phys_mem \<Rightarrow> 'p FrameWith option option" where
  "translate_page P ref_entry page m = do {
     r \<leftarrow> ref_entry page m;
     case r of Inl err \<Rightarrow> Some None
     | Inr e \<Rightarrow> if pte64_is_unused (read_u64 m e) then Some None
         else do { frame \<leftarrow> pte64_frame P (read_u64 m e); Some (Some frame) } }"

definition identity_map ::
  "'p phys_addr \<Rightarrow> ('v, 'z) virt_addr_scheme \<Rightarrow> ('v PageWith \<Rightarrow> 'p FrameWith \<Rightarrow> usize \<Rightarrow> 's \<Rightarrow> ((MapToError + usize) \<times> 's) option) \<Rightarrow>
   'p FrameWith \<Rightarrow> usize \<Rightarrow> 's \<Rightarrow> ((MapToError + usize) \<times> 's) option" where
  "identity_map P V map_to frame flags st = do {
     addr \<leftarrow> v_new V (p_as_usize P (frame_start_address frame));
     map_to (page_of_addr V addr) frame flags st }"

section \<open>multi_level.rs\<close>

text \<open>
  The step that \<open>create_p1_if_not_exist\<close> repeats at each level: the table below entry \<open>index\<close> of \<open>table\<close>, which is created
  when the entry is unused; and the step that \<open>unmap\<close> and \<open>ref_entry\<close> repeat, which fails with \<open>err\<close> there.
\<close>

definition create_table ::
  "'p phys_addr \<Rightarrow> ('p, 'a) frame_source \<Rightarrow> u64 \<Rightarrow> usize \<Rightarrow> usize \<Rightarrow> phys_mem \<times> 'a \<Rightarrow> ((MapToError + usize) \<times> phys_mem \<times> 'a) option" where
  "create_table P alloc linear_offset table index st = (case st of (m, a) \<Rightarrow> do {
     e \<leftarrow> table_index table index;
     if pte64_is_unused (read_u64 m e) then
       case alloc a of
         (None, a) \<Rightarrow> Some (Inl FrameAllocationFailed, m, a)
       | (Some frame, a) \<Rightarrow> do {
           let m = write_u64 m e (pte64_set P frame F_VALID);
           let next = frame_as_kernel_mut P frame linear_offset;
           Some (Inr next, table_zero next m, a) }
     else do {
       frame \<leftarrow> pte64_frame P (read_u64 m e);
       Some (Inr (frame_as_kernel_mut P frame linear_offset), m, a) } })"

definition next_table :: "'p phys_addr \<Rightarrow> u64 \<Rightarrow> 'e \<Rightarrow> phys_mem \<Rightarrow> usize \<Rightarrow> usize \<Rightarrow> ('e + usize) option" where
  "next_table P linear_offset err m table index = do {
     e \<leftarrow> table_index table index;
     if pte64_is_unused (read_u64 m e) then Some (Inl err)
     else do {
       frame \<leftarrow> pte64_frame P (read_u64 m e);
       Some (Inr (frame_as_kernel_mut P frame linear_offset)) } }"

text \<open>The ends of \<open>map_to\<close> and \<open>unmap\<close>, in the last table.\<close>

definition map_entry ::
  "'p phys_addr \<Rightarrow> ('v, 'z) virt_addr_scheme \<Rightarrow> 'v PageWith \<Rightarrow> 'p FrameWith \<Rightarrow> usize \<Rightarrow> usize \<Rightarrow> usize \<Rightarrow> phys_mem \<times> 'a \<Rightarrow>
   ((MapToError + usize) \<times> phys_mem \<times> 'a) option" where
  "map_entry P V page frame flags p1_table p1_index st = (case st of (m, a) \<Rightarrow> do {
     e \<leftarrow> table_index p1_table p1_index;
     if \<not> pte64_is_unused (read_u64 m e) then Some (Inl PageAlreadyMapped, m, a)
     else Some (Inr (mapper_flush_new V page), write_u64 m e (pte64_set P frame flags), a) })"

definition unmap_entry ::
  "'p phys_addr \<Rightarrow> ('v, 'z) virt_addr_scheme \<Rightarrow> 'v PageWith \<Rightarrow> usize \<Rightarrow> usize \<Rightarrow> phys_mem \<Rightarrow>
   (('p UnmapError + 'p FrameWith \<times> usize) \<times> phys_mem) option" where
  "unmap_entry P V page p1_table p1_index m = do {
     e \<leftarrow> table_index p1_table p1_index;
     if pte64_flags (read_u64 m e) AND F_VALID \<noteq> F_VALID then Some (Inl UnmapPageNotMapped, m)
     else do {
       frame \<leftarrow> pte64_frame P (read_u64 m e);
       Some (Inr (frame, mapper_flush_new V page), write_u64 m e 0) } }"

subsection \<open>Three levels\<close>

definition rv39_create_p1_if_not_exist ::
  "bit_field \<Rightarrow> (PhysAddrSv39, 'a) frame_source \<Rightarrow> u64 \<Rightarrow> usize \<Rightarrow> usize \<Rightarrow> usize \<Rightarrow> phys_mem \<times> 'a \<Rightarrow> ((MapToError + usize) \<times> phys_mem \<times> 'a) option" where
  "rv39_create_p1_if_not_exist bf alloc linear_offset root_table p3_index p2_index st =
     and_then (create_table (impl_pa39 bf) alloc linear_offset root_table p3_index st) (\<lambda>p2_table st.
       create_table (impl_pa39 bf) alloc linear_offset p2_table p2_index st)"

definition rv39_map_to ::
  "bit_field \<Rightarrow> 'v addr_l3 \<Rightarrow> (PhysAddrSv39, 'a) frame_source \<Rightarrow> u64 \<Rightarrow> usize \<Rightarrow> 'v PageWith \<Rightarrow> PhysAddrSv39 FrameWith \<Rightarrow> usize \<Rightarrow>
   phys_mem \<times> 'a \<Rightarrow> ((MapToError + usize) \<times> phys_mem \<times> 'a) option" where
  "rv39_map_to bf V alloc linear_offset root_table page frame flags st = (case page_l3_indices V page of (p3, p2, p1) \<Rightarrow>
     and_then (rv39_create_p1_if_not_exist bf alloc linear_offset root_table p3 p2 st) (\<lambda>p1_table st.
       map_entry (impl_pa39 bf) V page frame flags p1_table p1 st))"

definition rv39_unmap ::
  "bit_field \<Rightarrow> 'v addr_l3 \<Rightarrow> u64 \<Rightarrow> usize \<Rightarrow> 'v PageWith \<Rightarrow> phys_mem \<Rightarrow>
   ((PhysAddrSv39 UnmapError + PhysAddrSv39 FrameWith \<times> usize) \<times> phys_mem) option" where
  "rv39_unmap bf V linear_offset root_table page m = (case page_l3_indices V page of (p3, p2, p1) \<Rightarrow> do {
     r \<leftarrow> next_table (impl_pa39 bf) linear_offset UnmapPageNotMapped m root_table p3;
     case r of Inl err \<Rightarrow> Some (Inl err, m)
     | Inr p2_table \<Rightarrow> do {
         r \<leftarrow> next_table (impl_pa39 bf) linear_offset UnmapPageNotMapped m p2_table p2;
         case r of Inl err \<Rightarrow> Some (Inl err, m)
         | Inr p1_table \<Rightarrow> unmap_entry (impl_pa39 bf) V page p1_table p1 m } })"

definition rv39_ref_entry ::
  "bit_field \<Rightarrow> 'v addr_l3 \<Rightarrow> u64 \<Rightarrow> usize \<Rightarrow> 'v PageWith \<Rightarrow> phys_mem \<Rightarrow> (FlagUpdateError + usize) option" where
  "rv39_ref_entry bf V linear_offset root_table page m = (case page_l3_indices V page of (p3, p2, p1) \<Rightarrow> do {
     r \<leftarrow> next_table (impl_pa39 bf) linear_offset FlagPageNotMapped m root_table p3;
     case r of Inl err \<Rightarrow> Some (Inl err)
     | Inr p2_table \<Rightarrow> do {
         r \<leftarrow> next_table (impl_pa39 bf) linear_offset FlagPageNotMapped m p2_table p2;
         case r of Inl err \<Rightarrow> Some (Inl err)
         | Inr p1_table \<Rightarrow> do { e \<leftarrow> table_index p1_table p1; Some (Inr e) } } })"

subsection \<open>Four levels\<close>

definition rv48_create_p1_if_not_exist ::
  "bit_field \<Rightarrow> (PhysAddrSv48, 'a) frame_source \<Rightarrow> u64 \<Rightarrow> usize \<Rightarrow> usize \<Rightarrow> usize \<Rightarrow> usize \<Rightarrow> phys_mem \<times> 'a \<Rightarrow>
   ((MapToError + usize) \<times> phys_mem \<times> 'a) option" where
  "rv48_create_p1_if_not_exist bf alloc linear_offset root_table p4_index p3_index p2_index st =
     and_then (create_table (impl_pa48 bf) alloc linear_offset root_table p4_index st) (\<lambda>p3_table st.
       and_then (create_table (impl_pa48 bf) alloc linear_offset p3_table p3_index st) (\<lambda>p2_table st.
         create_table (impl_pa48 bf) alloc linear_offset p2_table p2_index st))"

definition rv48_map_to ::
  "bit_field \<Rightarrow> 'v addr_l4 \<Rightarrow> (PhysAddrSv48, 'a) frame_source \<Rightarrow> u64 \<Rightarrow> usize \<Rightarrow> 'v PageWith \<Rightarrow> PhysAddrSv48 FrameWith \<Rightarrow> usize \<Rightarrow>
   phys_mem \<times> 'a \<Rightarrow> ((MapToError + usize) \<times> phys_mem \<times> 'a) option" where
  "rv48_map_to bf V alloc linear_offset root_table page frame flags st = (case page_l4_indices V page of (p4, p3, p2, p1) \<Rightarrow>
     and_then (rv48_create_p1_if_not_exist bf alloc linear_offset root_table p4 p3 p2 st) (\<lambda>p1_table st.
       map_entry (impl_pa48 bf) V page frame flags p1_table p1 st))"

definition rv48_unmap ::
  "bit_field \<Rightarrow> 'v addr_l4 \<Rightarrow> u64 \<Rightarrow> usize \<Rightarrow> 'v PageWith \<Rightarrow> phys_mem \<Rightarrow>
   ((PhysAddrSv48 UnmapError + PhysAddrSv48 FrameWith \<times> usize) \<times> phys_mem) option" where
  "rv48_unmap bf V linear_offset root_table page m = (case page_l4_indices V page of (p4, p3, p2, p1) \<Rightarrow> do {
     r \<leftarrow> next_table (impl_pa48 bf) linear_offset UnmapPageNotMapped m root_table p4;
     case r of Inl err \<Rightarrow> Some (Inl err, m)
     | Inr p3_table \<Rightarrow> do {
         r \<leftarrow> next_table (impl_pa48 bf) linear_offset UnmapPageNotMapped m p3_table p3;
         case r of Inl err \<Rightarrow> Some (Inl err, m)
         | Inr p2_table \<Rightarrow> do {
             r \<leftarrow> next_table (impl_pa48 bf) linear_offset UnmapPageNotMapped m p2_table p2;
             case r of Inl err \<Rightarrow> Some (Inl err, m)
             | Inr p1_table \<Rightarrow> unmap_entry (impl_pa48 bf) V page p1_table p1 m } } })"

definition rv48_ref_entry ::
  "bit_field \<Rightarrow> 'v addr_l4 \<Rightarrow> u64 \<Rightarrow> usize \<Rightarrow> 'v PageWith \<Rightarrow> phys_mem \<Rightarrow> (FlagUpdateError + usize) option" where
  "rv48_ref_entry bf V linear_offset root_table page m = (case page_l4_indices V page of (p4, p3, p2, p1) \<Rightarrow> do {
     r \<leftarrow> next_table (impl_pa48 bf) linear_offset FlagPageNotMapped m root_table p4;
     case r of Inl err \<Rightarrow> Some (Inl err)
     | Inr p3_table \<Rightarrow> do {
         r \<leftarrow> next_table (impl_pa48 bf) linear_offset FlagPageNotMapped m p3_table p3;
         case r of Inl err \<Rightarrow> Some (Inl err)
         | Inr p2_table \<Rightarrow> do {
             r \<leftarrow> next_table (impl_pa48 bf) linear_offset FlagPageNotMapped m p2_table p2;
             case r of Inl err \<Rightarrow> Some (Inl err)
             | Inr p1_table \<Rightarrow> do { e \<leftarrow> table_index p1_table p1; Some (Inr e) } } } })"

end
