(* ===== verification/RiscvPagingProps.thy ===== *)
theory RiscvPagingProps
  imports RiscvPaging
begin

text \<open>
  Properties of the page tables of the \<open>riscv\<close> crate: what mapping, translating and unmapping a page do to each other,
  for tables that lie apart in memory.
\<close>

section \<open>Entries of tables that lie apart\<close>

definition tables_apart :: "usize \<Rightarrow> usize \<Rightarrow> bool" where
  "tables_apart t u \<longleftrightarrow> 4096 \<le> unat (u - t) \<and> 4096 \<le> unat (t - u)"

abbreviation entry_at :: "usize \<Rightarrow> nat \<Rightarrow> usize" where
  "entry_at t i \<equiv> t + 8 * of_nat i"

lemma tables_apart_sym: "tables_apart t u \<Longrightarrow> tables_apart u t"
  by (simp add: tables_apart_def)

lemma unat_between: "unat (x - y) = 2 ^ 64 - unat (y - x)" if "x \<noteq> y" for x y :: usize
  using unat_neg [of "y - x"] that by simp

lemma entries_apart_diff:
  assumes "tables_apart t u" and "i < 512" and "j < 512"
  shows "8 \<le> unat (entry_at u j - entry_at t i)"
proof -
  define d where "d = unat (u - t)"
  have d: "4096 \<le> d" "d + 4096 \<le> 2 ^ 64"
  proof -
    show "4096 \<le> d" using assms(1) by (simp add: tables_apart_def d_def)
    have "u \<noteq> t" using assms(1) by (auto simp: tables_apart_def)
    then have "unat (t - u) = 2 ^ 64 - d" using unat_between [of t u] by (simp add: d_def)
    then show "d + 4096 \<le> 2 ^ 64" using assms(1) unfolding tables_apart_def by linarith
  qed
  have "(of_nat (d + 8 * j - 8 * i) :: usize) = of_nat (d + 8 * j) - of_nat (8 * i)"
    by (rule of_nat_diff) (use d assms in simp)
  also have "\<dots> = entry_at u j - entry_at t i" by (simp add: d_def algebra_simps)
  finally have e: "entry_at u j - entry_at t i = of_nat (d + 8 * j - 8 * i)" ..
  have "unat (of_nat (d + 8 * j - 8 * i) :: usize) = d + 8 * j - 8 * i" by (rule unat_of_nat_less) (use d assms in simp)
  then show ?thesis unfolding e using d assms by simp
qed

lemma read_write_other_table:
  "tables_apart t u \<Longrightarrow> i < 512 \<Longrightarrow> j < 512 \<Longrightarrow> read_u64 (write_u64 m (entry_at t i) w) (entry_at u j) = read_u64 m (entry_at u j)"
  using entries_apart_diff entries_apart_diff [OF tables_apart_sym] by (intro read_write_apart) simp_all

lemma unat_8_of_nat: "k < 512 \<Longrightarrow> unat (8 * of_nat k :: usize) = 8 * k"
  using unat_of_nat_less [of "8 * k", where 'a=64] by simp

lemma same_table_diff:
  assumes "i < 512" and "j < 512" and "i \<noteq> j"
  shows "8 \<le> unat (entry_at t j - entry_at t i)"
proof -
  have a: "entry_at t j - entry_at t i = 8 * of_nat j - 8 * of_nat i" by simp
  show ?thesis
  proof (cases "i < j")
    case True
    then have "(8 * of_nat j - 8 * of_nat i :: usize) = 8 * of_nat (j - i)" by (simp add: algebra_simps)
    then show ?thesis using True assms unat_8_of_nat [of "j - i"] by (simp only: a)
  next
    case False
    then have lt: "j < i" using assms(3) by simp
    then have "(8 * of_nat i - 8 * of_nat j :: usize) = 8 * of_nat (i - j)" by (simp add: algebra_simps)
    then have b: "unat (8 * of_nat i - 8 * of_nat j :: usize) = 8 * (i - j)" using assms unat_8_of_nat [of "i - j"] by simp
    then have "(8 * of_nat j :: usize) \<noteq> 8 * of_nat i" using lt by auto
    then have "unat (8 * of_nat j - 8 * of_nat i :: usize) = 2 ^ 64 - 8 * (i - j)" using unat_between b by metis
    moreover have "8 * (i - j) \<le> 4096" using assms by simp
    then have "8 \<le> 2 ^ 64 - 8 * (i - j)" by simp
    ultimately show ?thesis by (simp only: a)
  qed
qed

lemma read_write_same_table:
  assumes "i < 512" and "j < 512"
  shows "read_u64 (write_u64 m (entry_at t i) w) (entry_at t j) = (if i = j then w else read_u64 m (entry_at t j))"
proof (cases "i = j")
  case True
  then show ?thesis by (simp add: read_write_u64)
next
  case False
  then show ?thesis using assms same_table_diff by (simp only: if_False) (intro read_write_apart; metis)
qed

text \<open>Clearing a table.\<close>

lemma table_zero_prefix:
  assumes "n \<le> 512"
  shows "j < 512 \<Longrightarrow> read_u64 (fold (\<lambda>i m. write_u64 m (entry_at t i) 0) [0..<n] m) (entry_at t j) = (if j < n then 0 else read_u64 m (entry_at t j))"
    and "tables_apart t u \<Longrightarrow> j < 512 \<Longrightarrow> read_u64 (fold (\<lambda>i m. write_u64 m (entry_at t i) 0) [0..<n] m) (entry_at u j) = read_u64 m (entry_at u j)"
  using assms by (induction n) (simp_all add: read_write_same_table read_write_other_table)

lemma entry_count: "unat RV64_ENTRY_COUNT = 512"
  by (simp add: RV64_ENTRY_COUNT_def)

lemma read_table_zero: "j < 512 \<Longrightarrow> read_u64 (table_zero t m) (entry_at t j) = 0"
  using table_zero_prefix(1) [of 512 j t m] by (simp add: table_zero_def entry_count del: upt_Suc)

lemma read_table_zero_other: "tables_apart t u \<Longrightarrow> j < 512 \<Longrightarrow> read_u64 (table_zero t m) (entry_at u j) = read_u64 m (entry_at u j)"
  using table_zero_prefix(2) [of 512 t u j m] by (simp add: table_zero_def entry_count)

lemma table_index_eq: "table_index t i = (if unat i < 512 then Some (entry_at t (unat i)) else None)"
  by (simp add: table_index_def RV64_ENTRY_COUNT_def word_less_nat_alt)

section \<open>Entries and frames\<close>

lemma bit_single: "bit (push_bit n 1 :: usize) k \<longleftrightarrow> n < 64 \<and> k = n"
  by (auto simp: bit_exp_iff)

lemma bit_flags:
  "bit F_VALID k \<longleftrightarrow> k = 0" "bit F_ACCESSED k \<longleftrightarrow> k = 6" "bit F_DIRTY k \<longleftrightarrow> k = 7" "bit F_all k \<longleftrightarrow> k < 10"
proof -
  note s = bit_single [of 0 k] bit_single [of 1 k] bit_single [of 2 k] bit_single [of 3 k] bit_single [of 4 k] bit_single [of 5 k]
    bit_single [of 6 k] bit_single [of 7 k] bit_single [of 8 k] bit_single [of 9 k]
  show "bit F_VALID k \<longleftrightarrow> k = 0" "bit F_ACCESSED k \<longleftrightarrow> k = 6" "bit F_DIRTY k \<longleftrightarrow> k = 7" unfolding flag_bits.simps
    by (simp_all only: s) simp_all
  show "bit F_all k \<longleftrightarrow> k < 10"
    unfolding F_all_def flag_bits.simps bit_or_iff s by auto
qed

text \<open>What page tables need of physical addresses: a frame is given back by its number, which has 44 bits.\<close>

locale frame_numbers =
  fixes T :: "'p phys_addr" and frame_ok :: "'p FrameWith \<Rightarrow> bool"
  assumes number_fits: "frame_ok f \<Longrightarrow> fits 44 (frame_number T f)"
    and of_number: "frame_ok f \<Longrightarrow> map_option (frame_of_addr T) (p_new_u64 T (push_bit 12 (frame_number T f))) = Some f"
begin

lemma pte_ppn_set:
  assumes "frame_ok f" and "fits 10 flags"
  shows "pte64_ppn (pte64_set T f flags) = frame_number T f"
proof (rule bit_word_eqI)
  fix n assume "n < LENGTH(64)"
  have small: "\<not> bit (F_ACCESSED OR F_DIRTY) (10 + n)" "\<not> bit flags (10 + n)"
    using assms(2) by (simp_all add: bit_or_iff bit_flags fits_def)
  show "bit (pte64_ppn (pte64_set T f flags)) n = bit (frame_number T f) n"
  proof -
    have "n < 44" if "bit (frame_number T f) n" using number_fits [OF assms(1)] that by (meson fits_def not_less)
    then show ?thesis using small by (auto simp: pte64_ppn_def pte64_ppn_u64_def pte64_set_def Let_def bit_simps)
  qed
qed

lemma pte_frame_set: "frame_ok f \<Longrightarrow> fits 10 flags \<Longrightarrow> pte64_frame T (pte64_set T f flags) = Some f"
  using of_number by (simp add: pte64_frame_def pte64_addr_def pte_ppn_set)

lemma pte_set_used: "\<not> pte64_is_unused (pte64_set T f flags)"
proof -
  have "bit (pte64_set T f flags) 6" by (simp add: pte64_set_def Let_def bit_or_iff bit_flags)
  then show ?thesis by (auto simp: pte64_is_unused_def)
qed

lemma pte_flags_set: "fits 10 flags \<Longrightarrow> pte64_flags (pte64_set T f flags) AND F_VALID = flags AND F_VALID"
  by (rule bit_word_eqI) (auto simp: pte64_flags_def pte64_set_def Let_def bit_or_iff bit_and_iff bit_push_bit_iff bit_flags)

text \<open>A step down that creates the table below, or finds it, is found again.\<close>

lemma create_table_cases:
  assumes "create_table T alloc off t i (m, a) = Some (Inr u, m', a')"
  obtains (new) f where "unat i < 512" "alloc a = (Some f, a')" "u = frame_as_kernel_mut T f off"
      "m' = table_zero u (write_u64 m (entry_at t (unat i)) (pte64_set T f F_VALID))"
  | (old) f where "unat i < 512" "m' = m" "a' = a" "\<not> pte64_is_unused (read_u64 m (entry_at t (unat i)))"
      "pte64_frame T (read_u64 m (entry_at t (unat i))) = Some f" "u = frame_as_kernel_mut T f off"
  using assms by (auto simp: create_table_def table_index_eq bind_eq_Some_conv Let_def split: if_splits prod.splits option.splits)

lemma create_table_next:
  assumes "create_table T alloc off t i (m, a) = Some (Inr u, m', a')" and "tables_apart t u"
    and "\<And>a f a'. alloc a = (Some f, a') \<Longrightarrow> frame_ok f"
  shows "next_table T off err m' t i = Some (Inr u)" and "unat i < 512"
proof -
  have v: "fits 10 F_VALID" by (simp add: fits_def bit_flags)
  from assms(1) have "unat i < 512 \<and> next_table T off err m' t i = Some (Inr u)"
  proof (cases rule: create_table_cases)
    case (new f)
    have "read_u64 m' (entry_at t (unat i)) = pte64_set T f F_VALID"
      using read_table_zero_other [OF tables_apart_sym [OF assms(2)], of "unat i"] new by (simp add: read_write_u64)
    then show ?thesis using new pte_set_used pte_frame_set [OF assms(3) v] by (simp add: next_table_def table_index_eq)
  qed (simp add: next_table_def table_index_eq)
  then show "next_table T off err m' t i = Some (Inr u)" "unat i < 512" by simp_all
qed

lemma create_table_keeps:
  assumes "create_table T alloc off t i (m, a) = Some (Inr u, m', a')" and "tables_apart t v" and "tables_apart u v" and "j < 512"
  shows "read_u64 m' (entry_at v j) = read_u64 m (entry_at v j)"
  using assms(1)
proof (cases rule: create_table_cases)
  case (new f)
  then show ?thesis using assms read_table_zero_other [OF assms(3,4)] read_write_other_table [OF assms(2) _ assms(4), of "unat i"] by simp
qed simp

lemma next_table_found:
  "next_table T off err m t i = Some (Inr u) \<Longrightarrow> create_table T alloc off t i (m, a) = Some (Inr u, m, a)"
  by (auto simp: next_table_def create_table_def bind_eq_Some_conv split: if_splits)

lemma next_table_cong:
  "(unat i < 512 \<Longrightarrow> read_u64 m' (entry_at t (unat i)) = read_u64 m (entry_at t (unat i))) \<Longrightarrow>
    next_table T off err m' t i = next_table T off err m t i"
  by (simp add: next_table_def table_index_eq)

lemma path_found:
  assumes "create_table T alloc off root i (m, a) = Some (Inr t2, m2, a2)" and "create_table T alloc off t2 k (m2, a2) = Some (Inr t1, m1, a1)"
    and "tables_apart root t2" "tables_apart root t1" "tables_apart t2 t1" and "\<And>a f a'. alloc a = (Some f, a') \<Longrightarrow> frame_ok f" and "j < 512"
  shows "next_table T off err (write_u64 m1 (entry_at t1 j) w) root i = Some (Inr t2)"
    and "next_table T off err (write_u64 m1 (entry_at t1 j) w) t2 k = Some (Inr t1)"
proof -
  note n2 = create_table_next [OF assms(1,3,6)] and n1 = create_table_next [OF assms(2,5,6)]
  have "next_table T off err (write_u64 m1 (entry_at t1 j) w) root i = next_table T off err m2 root i"
  proof (rule next_table_cong)
    assume "unat i < 512"
    then show "read_u64 (write_u64 m1 (entry_at t1 j) w) (entry_at root (unat i)) = read_u64 m2 (entry_at root (unat i))"
      using create_table_keeps [OF assms(2), of root "unat i"] read_write_other_table [of t1 root j "unat i" m1 w] assms(3,4,7)
      by (simp add: tables_apart_sym)
  qed
  then show "next_table T off err (write_u64 m1 (entry_at t1 j) w) root i = Some (Inr t2)" using n2(1) by simp
  have "next_table T off err (write_u64 m1 (entry_at t1 j) w) t2 k = next_table T off err m1 t2 k"
    by (rule next_table_cong, rule read_write_other_table) (use assms(5,7) in \<open>simp_all add: tables_apart_sym\<close>)
  then show "next_table T off err (write_u64 m1 (entry_at t1 j) w) t2 k = Some (Inr t1)" using n1(1) by simp
qed

text \<open>Mapping and unmapping in the last table.\<close>

lemma unmap_mapped_entry:
  assumes "frame_ok f" and "fits 10 flags" and "unat j < 512" and "read_u64 m (t + 8 * j) = pte64_set T f flags"
  shows "unmap_entry T V page t j m =
    (if flags AND F_VALID = 0 then Some (Inl UnmapPageNotMapped, m) else Some (Inr (f, mapper_flush_new V page), write_u64 m (t + 8 * j) 0))"
proof -
  have "flags AND F_VALID = 0 \<longleftrightarrow> flags AND F_VALID \<noteq> F_VALID"
    by (simp add: flag_bits.simps and_one_eq mod_2_eq_odd)
  then show ?thesis using assms pte_frame_set [OF assms(1,2)] pte_flags_set [OF assms(2)] by (simp add: unmap_entry_def table_index_eq)
qed

end

definition frame39_ok :: "PhysAddrSv39 FrameWith \<Rightarrow> bool" where
  "frame39_ok f \<longleftrightarrow> fits 56 (pa39 (frame0 f)) \<and> take_bit 12 (pa39 (frame0 f)) = 0"

definition frame48_ok :: "PhysAddrSv48 FrameWith \<Rightarrow> bool" where
  "frame48_ok f \<longleftrightarrow> fits 56 (pa48 (frame0 f)) \<and> take_bit 12 (pa48 (frame0 f)) = 0"

lemma page_aligned_number:
  assumes "bit_field_ok bf" and "fits 56 w" and "take_bit 12 w = 0"
  shows "push_bit 12 (get_bits bf w 12 56) = w" and "push_bit 12 (drop_bit 12 w) = w" and "fits 44 (get_bits bf w 12 56)"
    and "get_bits bf w 56 64 = 0"
proof -
  have low: "12 \<le> n" if "bit w n" for n using assms(3) that by (metis bit_0_eq bit_take_bit_iff bot_apply bot_bool_def not_less)
  have high: "n - 12 < 44" if "bit w n" for n
  proof -
    have "n < 56" using assms(2) that by (meson fits_def not_less)
    then show ?thesis by simp
  qed
  have up: "12 \<le> n \<and> P (12 + (n - 12)) \<longleftrightarrow> 12 \<le> n \<and> P n" for n and P :: "nat \<Rightarrow> bool" by auto
  show "push_bit 12 (get_bits bf w 12 56) = w" "push_bit 12 (drop_bit 12 w) = w"
    using low high assms(1) by (auto simp: bit_eq_iff bit_push_bit_iff bit_get_bits bit_drop_bit_eq up)
  show "fits 44 (get_bits bf w 12 56)" using assms(1) by (simp add: fits_def bit_get_bits)
  show "get_bits bf w 56 64 = 0" using assms(1,2) by (simp add: high_bits_zero fits_def)
qed

lemma frame_numbers_39: "bit_field_ok bf \<Longrightarrow> frame_numbers (impl_pa39 bf) frame39_ok"
  by unfold_locales (auto simp: frame39_ok_def frame_number_def impl_pa39_def pa39_page_number_def frame_of_addr_def
    pa39_to_4k_aligned_def pa39_new_u64_def page_aligned_number intro: FrameWith.expand)

lemma frame_numbers_48: "bit_field_ok bf \<Longrightarrow> frame_numbers (impl_pa48 bf) frame48_ok"
  by unfold_locales (auto simp: frame48_ok_def frame_number_def impl_pa48_def frame_of_addr_def
    pa48_new_u64_def page_aligned_number intro: FrameWith.expand)

interpretation sv39: frame_numbers "impl_pa39 word_bit_field" frame39_ok
  by (rule frame_numbers_39 [OF word_bit_field_ok])

interpretation sv48: frame_numbers "impl_pa48 word_bit_field" frame48_ok
  by (rule frame_numbers_48 [OF word_bit_field_ok])

section \<open>Mapping, translating and unmapping a page\<close>

lemma va39_index_less:
  assumes "bit_field_ok bf"
  shows "unat (va39_p3_index bf a) < 512" "unat (va39_p2_index bf a) < 512" "unat (va39_p1_index bf a) < 512"
proof -
  have "fits 9 (get_bits bf w lo (lo + 9))" if "lo + 9 \<le> 64" for w lo
    using that by (simp add: fits_def bit_get_bits [OF assms])
  from this [of 30] this [of 21] this [of 12] show
    "unat (va39_p3_index bf a) < 512" "unat (va39_p2_index bf a) < 512" "unat (va39_p1_index bf a) < 512"
    by (simp_all add: fits_iff va39_p3_index_def va39_p2_index_def va39_p1_index_def)
qed

text \<open>
  C30. Mapping a page in a three-level table. Suppose that the tables on the way to a page, found or created in the frames that the
  allocator gives, lie apart in memory, and that the entry of the page is unused. Then \<open>map_to\<close> succeeds; the page then translates to the frame, mapping
  it again is refused with \<open>PageAlreadyMapped\<close> and changes nothing; when the flags contain \<open>VALID\<close>, \<open>unmap\<close> gives the frame back, after which the page
  translates to nothing and a second \<open>unmap\<close> fails with \<open>PageNotMapped\<close>. Without \<open>VALID\<close> the page translates all the same, but \<open>unmap\<close> fails with \<open>PageNotMapped\<close>.
\<close>

theorem rv39_map_translate_unmap:
  fixes page :: "VirtAddrSv39 PageWith"
  assumes bf: "bit_field_ok bf" and frames: "\<forall>a f a'. alloc a = (Some f, a') \<longrightarrow> frame39_ok f" "frame39_ok frame" and flags: "fits 10 flags"
    and down: "create_table (impl_pa39 bf) alloc off root (va39_p3_index bf (page0 page)) (m, a) = Some (Inr t2, m2, a2)"
      "create_table (impl_pa39 bf) alloc off t2 (va39_p2_index bf (page0 page)) (m2, a2) = Some (Inr t1, m1, a1)"
    and apart: "tables_apart root t2" "tables_apart root t1" "tables_apart t2 t1"
    and unused: "read_u64 m1 (t1 + 8 * va39_p1_index bf (page0 page)) = 0"
  shows "\<exists>m'. rv39_map_to bf (impl_va39 bf) alloc off root page frame flags (m, a) = Some (Inr (va39 (page0 page)), m', a1)
    \<and> translate_page (impl_pa39 bf) (rv39_ref_entry bf (impl_va39 bf) off root) page m' = Some (Some frame)
    \<and> rv39_map_to bf (impl_va39 bf) alloc off root page frame' flags' (m', a1) = Some (Inl PageAlreadyMapped, m', a1)
    \<and> (if flags AND F_VALID = 0 then rv39_unmap bf (impl_va39 bf) off root page m' = Some (Inl UnmapPageNotMapped, m')
       else \<exists>m''. rv39_unmap bf (impl_va39 bf) off root page m' = Some (Inr (frame, va39 (page0 page)), m'')
         \<and> translate_page (impl_pa39 bf) (rv39_ref_entry bf (impl_va39 bf) off root) page m'' = Some None
         \<and> rv39_unmap bf (impl_va39 bf) off root page m'' = Some (Inl UnmapPageNotMapped, m''))"
proof -
  let ?T = "impl_pa39 bf" and ?V = "impl_va39 bf"
  let ?i = "va39_p3_index bf (page0 page)" and ?k = "va39_p2_index bf (page0 page)" and ?j = "va39_p1_index bf (page0 page)"
  let ?e = "t1 + 8 * ?j" and ?pte = "pte64_set ?T frame flags"
  note L = frame_numbers_39 [OF bf]
  note j = va39_index_less(3) [OF bf, of "page0 page"]
  have ix: "page_l3_indices ?V page = (?i, ?k, ?j)" by (simp add: page_l3_indices_def impl_va39_def)
  have fl: "mapper_flush_new ?V page = va39 (page0 page)"
    by (simp add: mapper_flush_new_def impl_va39_def page_start_address_def va39_as_usize_def)
  have path: "next_table ?T off err (write_u64 m1 ?e w) root ?i = Some (Inr t2)" "next_table ?T off err (write_u64 m1 ?e w) t2 ?k = Some (Inr t1)" for err :: 'e and w
    using frame_numbers.path_found [OF L down apart _ j, where err = err and w = w] frames(1) by simp_all
  note found = frame_numbers.next_table_found [OF L]
  define m' where "m' = write_u64 m1 ?e ?pte"
  have twice: "write_u64 m' ?e 0 = write_u64 m1 ?e 0" by (rule ext) (simp add: m'_def write_u64_def write_bytes_def)
  have used: "\<not> pte64_is_unused ?pte" by (rule frame_numbers.pte_set_used [OF L])
  have read': "read_u64 m' ?e = ?pte" by (simp add: m'_def read_write_u64)
  have "rv39_map_to bf ?V alloc off root page frame flags (m, a) = Some (Inr (va39 (page0 page)), m', a1)"
    using down unused j by (simp add: rv39_map_to_def ix rv39_create_p1_if_not_exist_def and_then_def map_entry_def table_index_eq pte64_is_unused_def fl m'_def)
  moreover have "translate_page ?T (rv39_ref_entry bf ?V off root) page m' = Some (Some frame)"
    using path [of FlagPageNotMapped ?pte] j used frame_numbers.pte_frame_set [OF L frames(2) flags]
    by (simp add: translate_page_def rv39_ref_entry_def ix table_index_eq read' flip: m'_def)
  moreover have "rv39_map_to bf ?V alloc off root page frame' flags' (m', a1) = Some (Inl PageAlreadyMapped, m', a1)"
    using found [OF path(1) [of _ ?pte, folded m'_def], of alloc a1] found [OF path(2) [of _ ?pte, folded m'_def], of alloc a1] j used
    by (simp add: rv39_map_to_def ix rv39_create_p1_if_not_exist_def and_then_def map_entry_def table_index_eq read')
  moreover have "rv39_unmap bf ?V off root page m' = (if flags AND F_VALID = 0 then Some (Inl UnmapPageNotMapped, m')
      else Some (Inr (frame, va39 (page0 page)), write_u64 m1 ?e 0))"
    using path [of "UnmapPageNotMapped :: PhysAddrSv39 UnmapError" ?pte, folded m'_def] frame_numbers.unmap_mapped_entry [OF L frames(2) flags j read', of ?V page]
    by (simp add: rv39_unmap_def ix fl twice)
  moreover have "translate_page ?T (rv39_ref_entry bf ?V off root) page (write_u64 m1 ?e 0) = Some None"
    using path [of FlagPageNotMapped 0] j by (simp add: translate_page_def rv39_ref_entry_def ix table_index_eq read_write_u64 pte64_is_unused_def)
  moreover have "rv39_unmap bf ?V off root page (write_u64 m1 ?e 0) = Some (Inl UnmapPageNotMapped, write_u64 m1 ?e 0)"
    using path [of "UnmapPageNotMapped :: PhysAddrSv39 UnmapError" 0] j by (simp add: rv39_unmap_def ix unmap_entry_def table_index_eq read_write_u64 pte64_flags_def flag_bits.simps)
  ultimately show ?thesis by simp
qed

text \<open>An allocator that gives the frames at \<open>0x2000\<close> and \<open>0x3000\<close>, an empty memory with the root table at \<open>0x1000\<close>, and the first page.\<close>

definition two_frames :: "(PhysAddrSv39, nat) frame_source" where
  "two_frames n = (if n = 0 then (Some (FrameWith (PhysAddrSv39 0x2000)), 1) else if n = 1 then (Some (FrameWith (PhysAddrSv39 0x3000)), 2) else (None, n))"

definition page_zero :: "VirtAddrSv39 PageWith" where
  "page_zero = PageWith (VirtAddrSv39 0)"

lemma page_zero_indices: "va39_p3_index word_bit_field (page0 page_zero) = 0" "va39_p2_index word_bit_field (page0 page_zero) = 0"
    "va39_p1_index word_bit_field (page0 page_zero) = 0"
  by (simp_all add: page_zero_def va39_p3_index_def va39_p2_index_def va39_p1_index_def get_bits_eq [OF word_bit_field_ok])

lemma two_frames_ok: "\<forall>a f a'. two_frames a = (Some f, a') \<longrightarrow> frame39_ok f"
  by (auto simp: two_frames_def frame39_ok_def fits_iff take_bit_eq_mod split: if_splits)

lemma create_first: "create_table P two_frames 0 0x1000 0 (\<lambda>_. 0, 0) = Some (Inr (p_as_u64 P (PhysAddrSv39 0x2000)),
    table_zero (p_as_u64 P (PhysAddrSv39 0x2000)) (write_u64 (\<lambda>_. 0) 0x1000 (pte64_set P (FrameWith (PhysAddrSv39 0x2000)) F_VALID)), 1)"
proof -
  have "read_bytes (\<lambda>_. 0) 0x1000 8 = replicate 8 0" by (simp add: read_bytes_def map_replicate_const)
  then have "read_u64 (\<lambda>_. 0) 0x1000 = 0" by (simp only: read_u64_def le_decode_zeros)
  then show ?thesis by (simp add: create_table_def table_index_eq pte64_is_unused_def two_frames_def frame_as_kernel_mut_def Let_def)
qed

lemma create_second:
  assumes "read_u64 m 0x2000 = 0"
  shows "create_table P two_frames 0 0x2000 0 (m, 1) = Some (Inr (p_as_u64 P (PhysAddrSv39 0x3000)),
    table_zero (p_as_u64 P (PhysAddrSv39 0x3000)) (write_u64 m 0x2000 (pte64_set P (FrameWith (PhysAddrSv39 0x3000)) F_VALID)), 2)"
  using assms by (simp add: create_table_def table_index_eq pte64_is_unused_def two_frames_def frame_as_kernel_mut_def Let_def)

theorem rv39_map_translate_unmap_witness:
  "\<exists>m'. rv39_map_to word_bit_field (impl_va39 word_bit_field) two_frames 0 0x1000 page_zero (FrameWith (PhysAddrSv39 0x80000000)) F_VALID (\<lambda>_. 0, 0)
      = Some (Inr 0, m', 2)
    \<and> translate_page (impl_pa39 word_bit_field) (rv39_ref_entry word_bit_field (impl_va39 word_bit_field) 0 0x1000) page_zero m'
      = Some (Some (FrameWith (PhysAddrSv39 0x80000000)))"
proof -
  let ?P = "impl_pa39 word_bit_field"
  have u: "p_as_u64 ?P (PhysAddrSv39 x) = x" for x by (simp add: impl_pa39_def pa39_as_u64_def)
  note c = create_first [of ?P, unfolded u] create_second [of _ ?P, unfolded u]
  have z: "read_u64 (table_zero t m) t = 0" for t m using read_table_zero [of 0 t m] by simp
  have ok: "frame39_ok (FrameWith (PhysAddrSv39 0x80000000))" by (simp add: frame39_ok_def fits_iff take_bit_eq_mod)
  have v: "fits 10 F_VALID" by (simp add: fits_def bit_flags)
  have ap: "tables_apart 0x1000 0x2000" "tables_apart 0x1000 0x3000" "tables_apart 0x2000 0x3000" by (simp_all add: tables_apart_def)
  have "\<exists>m'. rv39_map_to word_bit_field (impl_va39 word_bit_field) two_frames 0 0x1000 page_zero (FrameWith (PhysAddrSv39 0x80000000)) F_VALID (\<lambda>_. 0, 0)
      = Some (Inr (va39 (page0 page_zero)), m', 2)
    \<and> translate_page ?P (rv39_ref_entry word_bit_field (impl_va39 word_bit_field) 0 0x1000) page_zero m' = Some (Some (FrameWith (PhysAddrSv39 0x80000000)))"
  proof -
    note t = rv39_map_translate_unmap [where bf = word_bit_field and page = page_zero and alloc = two_frames and root = "0x1000" and off = 0 and flags' = 0
      and frame' = "FrameWith (PhysAddrSv39 0)", unfolded page_zero_indices]
    have "read_u64 (table_zero 0x3000 m) (0x3000 + 8 * 0) = 0" for m by (simp add: z)
    from t [OF word_bit_field_ok two_frames_ok ok v c(1) c(2) [OF z] ap this] show ?thesis by blast
  qed
  then show ?thesis by (simp add: page_zero_def)
qed



end
