(* ===== verification/RiscvCsr.thy ===== *)
theory RiscvCsr
  imports RiscvRegister
begin

text \<open>
  The control and status registers of the \<open>riscv\<close> crate, \<open>src/ci-user/riscv/src/register\<close>. A module of that directory is
  a table of the methods it has: a getter \<open>f\<close> is \<open>self.bits.get_bit(i)\<close>, a setter \<open>set_f\<close> is \<open>self.bits.set_bit(i, val)\<close>, and
  the functions \<open>set_f\<close> and \<open>clear_f\<close> that the macros generate set or clear a bit of the register itself. The
  macros of \<open>macros.rs\<close> and the bodies of the methods are functions over such a table. The assembly file \<open>asm.S\<close>, which
  replaces the inline assembly when that feature is off, is a table of symbols. The registers of the
  hart are a function from numbers to words.
\<close>

section \<open>Access to the registers\<close>

type_synonym csrs = "int \<Rightarrow> usize"

record csr_module =
  csr_name :: string
  csr_no :: int
  csr_ops :: "string list"
  getters :: "(string \<times> nat) list"
  bit_setters :: "(string \<times> nat) list"
  range_getters :: "(string \<times> nat \<times> nat \<times> usize list option) list"
  range_setters :: "(string \<times> nat \<times> nat) list"
  set_fns :: "(string \<times> nat) list"
  clear_fns :: "(string \<times> nat) list"
  range_fns :: "(string \<times> nat \<times> nat) list"

text \<open>A module with the access macros \<open>ops\<close> and no methods yet.\<close>

definition csr_new :: "string \<Rightarrow> int \<Rightarrow> string list \<Rightarrow> csr_module" where
  "csr_new name no ops = \<lparr>csr_name = name, csr_no = no, csr_ops = ops, getters = [], bit_setters = [],
     range_getters = [], range_setters = [], set_fns = [], clear_fns = [], range_fns = []\<rparr>"

definition csr_read :: "csr_module \<Rightarrow> csrs \<Rightarrow> usize" where
  "csr_read M cs = cs (csr_no M)"

definition csr_write :: "csr_module \<Rightarrow> usize \<Rightarrow> csrs \<Rightarrow> csrs" where
  "csr_write M bits cs = cs(csr_no M := bits)"

definition csr_set :: "csr_module \<Rightarrow> usize \<Rightarrow> csrs \<Rightarrow> csrs" where
  "csr_set M bits cs = cs(csr_no M := cs (csr_no M) OR bits)"

definition csr_clear :: "csr_module \<Rightarrow> usize \<Rightarrow> csrs \<Rightarrow> csrs" where
  "csr_clear M bits cs = cs(csr_no M := cs (csr_no M) AND NOT bits)"

text \<open>The functions \<open>set_f\<close> and \<open>clear_f\<close>; no such function is \<open>None\<close>.\<close>

definition set_fn :: "csr_module \<Rightarrow> string \<Rightarrow> csrs \<Rightarrow> csrs option" where
  "set_fn M f cs = do { i \<leftarrow> map_of (set_fns M) f; Some (csr_set M (push_bit i 1) cs) }"

definition clear_fn :: "csr_module \<Rightarrow> string \<Rightarrow> csrs \<Rightarrow> csrs option" where
  "clear_fn M f cs = do { i \<leftarrow> map_of (clear_fns M) f; Some (csr_clear M (push_bit i 1) cs) }"

text \<open>The functions that replace a field, such as \<open>mstatus::set_mpp\<close>: read, change the copy, write.\<close>

definition range_fn :: "bit_field \<Rightarrow> csr_module \<Rightarrow> string \<Rightarrow> usize \<Rightarrow> csrs \<Rightarrow> csrs option" where
  "range_fn bf M f val cs = do {
     (lo, hi) \<leftarrow> map_of (range_fns M) f;
     let v = csr_read M cs;
     let v = set_bits bf v lo hi val;
     Some (csr_write M v cs) }"

text \<open>The methods of a value that was read. A field with an enumeration panics on a number that has no variant.\<close>

definition get_flag :: "bit_field \<Rightarrow> csr_module \<Rightarrow> string \<Rightarrow> usize \<Rightarrow> bool option" where
  "get_flag bf M f w = do { i \<leftarrow> map_of (getters M) f; Some (get_bit bf w i) }"

definition set_flag :: "bit_field \<Rightarrow> csr_module \<Rightarrow> string \<Rightarrow> bool \<Rightarrow> usize \<Rightarrow> usize option" where
  "set_flag bf M f v w = do { i \<leftarrow> map_of (bit_setters M) f; Some (set_bit_to bf w i v) }"

definition get_range :: "bit_field \<Rightarrow> csr_module \<Rightarrow> string \<Rightarrow> usize \<Rightarrow> usize option" where
  "get_range bf M f w = do {
     (lo, hi, variants) \<leftarrow> map_of (range_getters M) f;
     let v = get_bits bf w lo hi;
     case variants of None \<Rightarrow> Some v | Some vs \<Rightarrow> if v \<in> set vs then Some v else None }"

definition set_range :: "bit_field \<Rightarrow> csr_module \<Rightarrow> string \<Rightarrow> usize \<Rightarrow> usize \<Rightarrow> usize option" where
  "set_range bf M f v w = do { (lo, hi) \<leftarrow> map_of (range_setters M) f; Some (set_bits bf w lo hi v) }"

section \<open>The modules\<close>

definition Mie :: csr_module where
  "Mie = (let fs = [(''usoft'', 0), (''ssoft'', 1), (''msoft'', 3), (''utimer'', 4), (''stimer'', 5), (''mtimer'', 7),
     (''uext'', 8), (''sext'', 9), (''mext'', 11)] in (csr_new
     ''mie'' 0x304 [''read'', ''set'', ''clear''])\<lparr>getters := fs, set_fns := fs, clear_fns := fs\<rparr>)"

definition Mip :: csr_module where
  "Mip = (csr_new ''mip'' 0x344 [''read'', ''set'', ''clear''])\<lparr>getters := [(''usoft'', 0), (''ssoft'', 1),
     (''msoft'', 3), (''utimer'', 4), (''stimer'', 5), (''mtimer'', 7), (''uext'', 8), (''sext'', 9), (''mext'', 11)],
     set_fns := [(''usoft'', 0), (''ssoft'', 1), (''msoft'', 3), (''utimer'', 4), (''stimer'', 5), (''mtimer'', 7),
     (''uext'', 8), (''sext'', 9)], clear_fns := [(''usoft'', 0), (''ssoft'', 1), (''msoft'', 3), (''utimer'', 4),
     (''stimer'', 5), (''mtimer'', 7), (''uext'', 8), (''sext'', 9)]\<rparr>"

definition Mideleg :: csr_module where
  "Mideleg = (let fs = [(''usoft'', 0), (''ssoft'', 1), (''utimer'', 4), (''stimer'', 5), (''uext'', 8), (''sext'', 9)]
     in (csr_new ''mideleg'' 0x303 [''read'', ''set'', ''clear''])\<lparr>getters := fs, set_fns := fs,
     clear_fns := fs\<rparr>)"

definition Medeleg :: csr_module where
  "Medeleg = (let fs = [(''instruction_misaligned'', 0), (''instruction_fault'', 1), (''illegal_instruction'', 2),
     (''breakpoint'', 3), (''load_misaligned'', 4), (''load_fault'', 5), (''store_misaligned'', 6),
     (''store_fault'', 7), (''user_env_call'', 8), (''supervisor_env_call'', 9), (''machine_env_call'', 11),
     (''instruction_page_fault'', 12), (''load_page_fault'', 13), (''store_page_fault'', 15)] in (csr_new
     ''medeleg'' 0x302 [''read'', ''set'', ''clear''])\<lparr>getters := fs, set_fns := fs, clear_fns := fs\<rparr>)"

definition Mstatus :: csr_module where
  "Mstatus = (csr_new ''mstatus'' 0x300 [''read'', ''write'', ''set'', ''clear''])\<lparr>getters := [(''uie'', 0),
     (''sie'', 1), (''mie'', 3), (''upie'', 4), (''spie'', 5), (''mpie'', 7), (''spp'', 8), (''sd'', 63)],
     bit_setters := [(''mpie'', 7), (''mie'', 3)], range_getters := [(''mpp'', 11, 13, Some [0, 1, 3]),
     (''fs'', 13, 15, Some [0, 1, 2, 3]), (''xs'', 15, 17, Some [0, 1, 2, 3])], range_setters := [(''mpp'', 11, 13)],
     set_fns := [(''uie'', 0), (''sie'', 1), (''mie'', 3), (''upie'', 4), (''spie'', 5), (''mpie'', 7), (''spp'', 8)],
     clear_fns := [(''uie'', 0), (''sie'', 1), (''mie'', 3), (''spp'', 8)], range_fns := [(''mpp'', 11, 13),
     (''fs'', 13, 15)]\<rparr>"

definition Sstatus :: csr_module where
  "Sstatus = (csr_new ''sstatus'' 0x100 [''read'', ''write'', ''set'', ''clear''])\<lparr>getters := [(''uie'', 0),
     (''sie'', 1), (''upie'', 4), (''spie'', 5), (''sum'', 18), (''mxr'', 19), (''spp'', 8), (''sd'', 63)],
     bit_setters := [(''spie'', 5), (''sie'', 1), (''spp'', 8)],
     range_getters := [(''fs'', 13, 15, Some [0, 1, 2, 3]), (''xs'', 15, 17, Some [0, 1, 2, 3])],
     set_fns := [(''uie'', 0), (''sie'', 1), (''upie'', 4), (''spie'', 5), (''mxr'', 19), (''sum'', 18),
     (''spp'', 8)], clear_fns := [(''uie'', 0), (''sie'', 1), (''mxr'', 19), (''sum'', 18), (''spp'', 8)],
     range_fns := [(''fs'', 13, 15)]\<rparr>"

definition Sie :: csr_module where
  "Sie = (let fs = [(''usoft'', 0), (''ssoft'', 1), (''utimer'', 4), (''stimer'', 5), (''uext'', 8), (''sext'', 9)] in
     (csr_new ''sie'' 0x104 [''read'', ''set'', ''clear''])\<lparr>getters := fs, set_fns := fs,
     clear_fns := fs\<rparr>)"

definition Sip :: csr_module where
  "Sip = (csr_new ''sip'' 0x144 [''read''])\<lparr>getters := [(''usoft'', 0), (''ssoft'', 1), (''utimer'', 4),
     (''stimer'', 5), (''uext'', 8), (''sext'', 9)]\<rparr>"

definition Uie :: csr_module where
  "Uie = (let fs = [(''usoft'', 0), (''utimer'', 4), (''uext'', 8)] in (csr_new
     ''uie'' 0x004 [''read'', ''set'', ''clear''])\<lparr>getters := fs, set_fns := fs, clear_fns := fs\<rparr>)"

definition Uip :: csr_module where
  "Uip = (csr_new ''uip'' 0x044 [''read''])\<lparr>getters := [(''usoft'', 0), (''utimer'', 4), (''uext'', 8)]\<rparr>"

definition Ustatus :: csr_module where
  "Ustatus = (csr_new ''ustatus'' 0x000 [''read'', ''write'', ''set'', ''clear''])\<lparr>getters := [(''uie'', 0),
     (''upie'', 4)], set_fns := [(''uie'', 0), (''upie'', 4)], clear_fns := [(''uie'', 0)]\<rparr>"

definition Hstatus :: csr_module where
  "Hstatus = (let fs = [(''vtsr'', 22), (''vtw'', 21), (''vtvm'', 20), (''hu'', 9), (''spvp'', 8), (''spv'', 7),
     (''gva'', 6), (''vsbe'', 5)] in (csr_new
     ''hstatus'' 1536 [''read'', ''write'', ''set'', ''clear''])\<lparr>getters := fs, bit_setters := fs,
     range_getters := [(''vsxl'', 32, 34, Some [1, 2, 3]), (''vgein'', 12, 18, None)],
     range_setters := [(''vsxl'', 32, 34), (''vgein'', 12, 18)], set_fns := fs, clear_fns := fs\<rparr>)"

definition Hedeleg :: csr_module where
  "Hedeleg = (let fs = [(''ex0'', 0), (''ex1'', 1), (''ex2'', 2), (''ex3'', 3), (''ex4'', 4), (''ex5'', 5), (''ex6'', 6),
     (''ex7'', 7), (''ex8'', 8), (''ex12'', 12), (''ex13'', 13), (''ex15'', 15)] in (csr_new
     ''hedeleg'' 1538 [''read'', ''write'', ''set'', ''clear''])\<lparr>getters := fs, bit_setters := fs,
     set_fns := fs, clear_fns := fs\<rparr>)"

definition Hideleg :: csr_module where
  "Hideleg = (let fs = [(''sip'', 2), (''tip'', 6), (''eip'', 10)] in (csr_new
     ''hideleg'' 1539 [''read'', ''write'', ''set'', ''clear''])\<lparr>getters := fs, bit_setters := fs,
     set_fns := fs, clear_fns := fs\<rparr>)"

definition Hie :: csr_module where
  "Hie = (let fs = [(''vssie'', 2), (''vstie'', 6), (''vseie'', 10), (''sgeie'', 12)] in (csr_new
     ''hie'' 1540 [''read'', ''write'', ''set'', ''clear''])\<lparr>getters := fs, bit_setters := fs, set_fns := fs,
     clear_fns := fs\<rparr>)"

definition Hip :: csr_module where
  "Hip = (let fs = [(''vssip'', 2), (''vstip'', 6), (''vseip'', 10), (''sgeip'', 12)] in (csr_new
     ''hip'' 1604 [''read'', ''write'', ''set'', ''clear''])\<lparr>getters := fs, bit_setters := fs, set_fns := fs,
     clear_fns := fs\<rparr>)"

definition Hvip :: csr_module where
  "Hvip = (let fs = [(''vssip'', 2), (''vstip'', 6), (''vseip'', 10)] in (csr_new
     ''hvip'' 1605 [''read'', ''write'', ''set'', ''clear''])\<lparr>getters := fs, bit_setters := fs, set_fns := fs,
     clear_fns := fs\<rparr>)"

definition hcounteren_flags_lo :: "(string \<times> nat) list" where
  "hcounteren_flags_lo = [(''cy'', 0), (''tm'', 1), (''ir'', 2), (''hpm3'', 3), (''hpm4'', 4), (''hpm5'', 5),
     (''hpm6'', 6), (''hpm7'', 7), (''hpm8'', 8), (''hpm9'', 9), (''hpm10'', 10), (''hpm11'', 11), (''hpm12'', 12),
     (''hpm13'', 13), (''hpm14'', 14), (''hpm15'', 15)]"

definition hcounteren_flags_hi :: "(string \<times> nat) list" where
  "hcounteren_flags_hi = [(''hpm16'', 16), (''hpm17'', 17), (''hpm18'', 18), (''hpm19'', 19), (''hpm20'', 20),
     (''hpm21'', 21), (''hpm22'', 22), (''hpm23'', 23), (''hpm24'', 24), (''hpm25'', 25), (''hpm26'', 26),
     (''hpm27'', 27), (''hpm28'', 28), (''hpm29'', 29), (''hpm30'', 30), (''hpm31'', 31)]"

definition Hcounteren :: csr_module where
  "Hcounteren = (let fs = hcounteren_flags_lo @ hcounteren_flags_hi in (csr_new
     ''hcounteren'' 3602 [''read'', ''write'', ''set'', ''clear''])\<lparr>getters := fs, bit_setters := fs,
     set_fns := fs, clear_fns := fs\<rparr>)"

definition Vsstatus :: csr_module where
  "Vsstatus = (let fs = [(''mxr'', 19), (''sum'', 18), (''spp'', 8), (''ube'', 6), (''spie'', 5), (''sie'', 1)] in
     (csr_new ''vsstatus'' 512 [''read'', ''write'', ''set'', ''clear''])\<lparr>getters := fs, bit_setters := fs,
     range_getters := [(''sd'', 60, 64, None), (''uxl'', 32, 34, Some [1, 2, 3]), (''xs'', 15, 17, None),
     (''fs'', 13, 15, None)], range_setters := [(''sd'', 60, 64), (''uxl'', 32, 34), (''xs'', 15, 17),
     (''fs'', 13, 15)], set_fns := fs, clear_fns := fs\<rparr>)"

definition Vsie :: csr_module where
  "Vsie = (let fs = [(''ssie'', 1), (''stie'', 5), (''seie'', 9)] in (csr_new
     ''vsie'' 516 [''read'', ''write'', ''set'', ''clear''])\<lparr>getters := fs, bit_setters := fs, set_fns := fs,
     clear_fns := fs\<rparr>)"

definition Vsip :: csr_module where
  "Vsip = (let fs = [(''ssip'', 1), (''stip'', 5), (''seip'', 9)] in (csr_new
     ''vsip'' 580 [''read'', ''write'', ''set'', ''clear''])\<lparr>getters := fs, bit_setters := fs, set_fns := fs,
     clear_fns := fs\<rparr>)"

definition Vscause :: csr_module where
  "Vscause = (let fs = [(''interrupt'', 63)] in (csr_new
     ''vscause'' 578 [''read'', ''write'', ''set'', ''clear''])\<lparr>getters := fs, bit_setters := fs,
     range_getters := [(''code'', 0, 63, None)], range_setters := [(''code'', 0, 63)], set_fns := fs,
     clear_fns := fs\<rparr>)"

definition Vsatp :: csr_module where
  "Vsatp = (csr_new
     ''vsatp'' 640 [''read'', ''write'', ''set'', ''clear''])\<lparr>range_getters := [(''mode'', 60, 64, Some [0, 8, 9]),
     (''asid'', 44, 60, None), (''ppn'', 0, 44, None)], range_setters := [(''mode'', 60, 64), (''asid'', 44, 60),
     (''ppn'', 0, 44)]\<rparr>"

definition Hgatp :: csr_module where
  "Hgatp = (csr_new
     ''hgatp'' 1664 [''read'', ''write'', ''set'', ''clear''])\<lparr>range_getters := [(''mode'', 60, 64, Some [0, 8, 9]),
     (''vmid'', 44, 58, None), (''ppn'', 0, 44, None)], range_setters := [(''mode'', 60, 64), (''vmid'', 44, 58),
     (''ppn'', 0, 44)]\<rparr>"

definition Vstvec :: csr_module where
  "Vstvec = (csr_new
     ''vstvec'' 517 [''read'', ''write'', ''set'', ''clear''])\<lparr>range_getters := [(''base'', 2, 64, None),
     (''mode'', 0, 2, None)], range_setters := [(''base'', 2, 64), (''mode'', 0, 2)]\<rparr>"


text \<open>
  Registers that are a plain number. The identification registers read as none when they are zero.
\<close>

definition Hgeip :: csr_module where "Hgeip = csr_new ''hgeip'' 3602 [''read'', ''write'']"
definition Mvendorid :: csr_module where "Mvendorid = csr_new ''mvendorid'' 0xF11 [''read'']"
definition Marchid :: csr_module where "Marchid = csr_new ''marchid'' 0xF11 [''read'']"
definition Mimpid :: csr_module where "Mimpid = csr_new ''mimpid'' 0xF11 [''read'']"

definition read_nonzero :: "csr_module \<Rightarrow> csrs \<Rightarrow> usize option" where
  "read_nonzero M cs = (let r = csr_read M cs in if r = 0 then None else Some r)"

definition csr_modules :: "csr_module list" where
  "csr_modules = [Mie, Mip, Mideleg, Medeleg, Mstatus, Sstatus, Sie, Sip, Uie, Uip, Ustatus, Hstatus, Hedeleg, Hideleg, Hie,
     Hip, Hvip, Hcounteren, Vsstatus, Vsie, Vsip, Vscause, Vsatp, Hgatp, Vstvec, Hgeip, Mvendorid, Marchid, Mimpid]"

section \<open>The assembly file\<close>

text \<open>\<open>RW\<close> makes the symbols that read, write, set and clear, \<open>RO\<close> the one that reads. The rows for 32-bit harts are empty here.\<close>

datatype asm_access = RW | RO

definition asm_user_supervisor :: "(string \<times> asm_access \<times> int) list" where
  "asm_user_supervisor = [(''ustatus'', RW, 0x000), (''uie'', RW, 0x004), (''utvec'', RW, 0x005),
     (''uscratch'', RW, 0x040), (''uepc'', RW, 0x041), (''ucause'', RW, 0x042), (''utval'', RW, 0x043),
     (''uip'', RW, 0x044), (''fflags'', RW, 0x001), (''frm'', RW, 0x002), (''fcsr'', RW, 0x003),
     (''cycle'', RO, 0xc00), (''time'', RO, 0xc01), (''instret'', RO, 0xc02), (''hpmcounter3'', RO, 0xc03),
     (''hpmcounter4'', RO, 0xc04), (''hpmcounter5'', RO, 0xc05), (''hpmcounter6'', RO, 0xc06),
     (''hpmcounter7'', RO, 0xc07), (''hpmcounter8'', RO, 0xc08), (''hpmcounter9'', RO, 0xc09),
     (''hpmcounter10'', RO, 0xc0a), (''hpmcounter11'', RO, 0xc0b), (''hpmcounter12'', RO, 0xc0c),
     (''hpmcounter13'', RO, 0xc0d), (''hpmcounter14'', RO, 0xc0e), (''hpmcounter15'', RO, 0xc0f),
     (''hpmcounter16'', RO, 0xc10), (''hpmcounter17'', RO, 0xc11), (''hpmcounter18'', RO, 0xc12),
     (''hpmcounter19'', RO, 0xc13), (''hpmcounter20'', RO, 0xc14), (''hpmcounter21'', RO, 0xc15),
     (''hpmcounter22'', RO, 0xc16), (''hpmcounter23'', RO, 0xc17), (''hpmcounter24'', RO, 0xc18),
     (''hpmcounter25'', RO, 0xc19), (''hpmcounter26'', RO, 0xc1a), (''hpmcounter27'', RO, 0xc1b),
     (''hpmcounter28'', RO, 0xc1c), (''hpmcounter29'', RO, 0xc1d), (''hpmcounter30'', RO, 0xc1e),
     (''hpmcounter31'', RO, 0xc1f), (''sstatus'', RW, 0x100), (''sedeleg'', RW, 0x102), (''sideleg'', RW, 0x103),
     (''sie'', RW, 0x104), (''stvec'', RW, 0x105), (''scounteren'', RW, 0x106), (''sscratch'', RW, 0x140),
     (''sepc'', RW, 0x141), (''scause'', RW, 0x142), (''stval'', RW, 0x143), (''sip'', RW, 0x144),
     (''satp'', RW, 0x180), (''mvendorid'', RO, 0xf11), (''marchid'', RO, 0xf12), (''mimpid'', RO, 0xf13)]"

definition asm_machine :: "(string \<times> asm_access \<times> int) list" where
  "asm_machine = [(''mhartid'', RO, 0xf14), (''mstatus'', RW, 0x300), (''misa'', RW, 0x301), (''medeleg'', RW, 0x302),
     (''mideleg'', RW, 0x303), (''mie'', RW, 0x304), (''mtvec'', RW, 0x305), (''mcounteren'', RW, 0x306),
     (''mscratch'', RW, 0x340), (''mepc'', RW, 0x341), (''mcause'', RW, 0x342), (''mtval'', RW, 0x343),
     (''mip'', RW, 0x344), (''pmpcfg0'', RW, 0x3a0), (''pmpcfg2'', RW, 0x3a2), (''pmpaddr0'', RW, 0x3b0),
     (''pmpaddr1'', RW, 0x3b1), (''pmpaddr2'', RW, 0x3b2), (''pmpaddr3'', RW, 0x3b3), (''pmpaddr4'', RW, 0x3b4),
     (''pmpaddr5'', RW, 0x3b5), (''pmpaddr6'', RW, 0x3b6), (''pmpaddr7'', RW, 0x3b7), (''pmpaddr8'', RW, 0x3b8),
     (''pmpaddr9'', RW, 0x3b9), (''pmpaddr10'', RW, 0x3ba), (''pmpaddr11'', RW, 0x3bb), (''pmpaddr12'', RW, 0x3bc),
     (''pmpaddr13'', RW, 0x3bd), (''pmpaddr14'', RW, 0x3be), (''pmpaddr15'', RW, 0x3bf), (''mcycle'', RO, 0xb00),
     (''minstret'', RO, 0xb02), (''mhpmcounter3'', RO, 0xb03), (''mhpmcounter4'', RO, 0xb04),
     (''mhpmcounter5'', RO, 0xb05), (''mhpmcounter6'', RO, 0xb06), (''mhpmcounter7'', RO, 0xb07),
     (''mhpmcounter8'', RO, 0xb08), (''mhpmcounter9'', RO, 0xb09), (''mhpmcounter10'', RO, 0xb0a),
     (''mhpmcounter11'', RO, 0xb0b), (''mhpmcounter12'', RO, 0xb0c), (''mhpmcounter13'', RO, 0xb0d),
     (''mhpmcounter14'', RO, 0xb0e), (''mhpmcounter15'', RO, 0xb0f), (''mhpmcounter16'', RO, 0xb10),
     (''mhpmcounter17'', RO, 0xb11), (''mhpmcounter18'', RO, 0xb12), (''mhpmcounter19'', RO, 0xb13),
     (''mhpmcounter20'', RO, 0xb14), (''mhpmcounter21'', RO, 0xb15), (''mhpmcounter22'', RO, 0xb16),
     (''mhpmcounter23'', RO, 0xb17), (''mhpmcounter24'', RO, 0xb18), (''mhpmcounter25'', RO, 0xb19),
     (''mhpmcounter26'', RO, 0xb1a), (''mhpmcounter27'', RO, 0xb1b), (''mhpmcounter28'', RO, 0xb1c),
     (''mhpmcounter29'', RO, 0xb1d), (''mhpmcounter30'', RO, 0xb1e), (''mhpmcounter31'', RO, 0xb1f),
     (''mhpmevent3'', RW, 0x323), (''mhpmevent4'', RW, 0x324), (''mhpmevent5'', RW, 0x325),
     (''mhpmevent6'', RW, 0x326), (''mhpmevent7'', RW, 0x327), (''mhpmevent8'', RW, 0x328),
     (''mhpmevent9'', RW, 0x329), (''mhpmevent10'', RW, 0x32a), (''mhpmevent11'', RW, 0x32b),
     (''mhpmevent12'', RW, 0x32c), (''mhpmevent13'', RW, 0x32d), (''mhpmevent14'', RW, 0x32e),
     (''mhpmevent15'', RW, 0x32f), (''mhpmevent16'', RW, 0x330), (''mhpmevent17'', RW, 0x331),
     (''mhpmevent18'', RW, 0x332), (''mhpmevent19'', RW, 0x333), (''mhpmevent20'', RW, 0x334),
     (''mhpmevent21'', RW, 0x335), (''mhpmevent22'', RW, 0x336), (''mhpmevent23'', RW, 0x337),
     (''mhpmevent24'', RW, 0x338), (''mhpmevent25'', RW, 0x339), (''mhpmevent26'', RW, 0x33a),
     (''mhpmevent27'', RW, 0x33b), (''mhpmevent28'', RW, 0x33c), (''mhpmevent29'', RW, 0x33d),
     (''mhpmevent30'', RW, 0x33e), (''mhpmevent31'', RW, 0x33f), (''tselect'', RW, 0x7a0)]"

definition asm_hypervisor :: "(string \<times> asm_access \<times> int) list" where
  "asm_hypervisor = [(''tdata1'', RW, 0x7a1), (''tdata2'', RW, 0x7a2), (''tdata3'', RW, 0x7a3), (''dcsr'', RW, 0x7b0),
     (''dpc'', RW, 0x7b1), (''dscratch'', RW, 0x7b2), (''hstatus'', RW, 0x600), (''hedeleg'', RW, 0x602),
     (''hideleg'', RW, 0x603), (''hie'', RW, 0x604), (''hcounteren'', RW, 0x606), (''hgeie'', RW, 0x607),
     (''htval'', RW, 0x643), (''hip'', RW, 0x644), (''hvip'', RW, 0x645), (''htinst'', RW, 0x64a),
     (''hgeip'', RW, 0xe12), (''hgatp'', RO, 0x680), (''hcontext'', RW, 0x6a8), (''htimedelta'', RW, 0x605),
     (''vsstatus'', RW, 0x200), (''vsie'', RW, 0x204), (''vstvec'', RW, 0x205), (''vsscratch'', RW, 0x240),
     (''vsepc'', RW, 0x241), (''vscause'', RW, 0x242), (''vstval'', RW, 0x243), (''vsip'', RW, 0x244),
     (''vsatp'', RW, 0x280)]"

definition asm_symbol :: "string \<Rightarrow> string \<Rightarrow> int option" where
  "asm_symbol operation name = (case map_of (asm_user_supervisor @ asm_machine @ asm_hypervisor) name of
       None \<Rightarrow> None
     | Some (access, no) \<Rightarrow> if access = RW \<or> operation = ''read'' then Some no else None)"

section \<open>mcause\<close>

datatype MInterrupt = MUserSoft | MSupervisorSoft | MMachineSoft | MUserTimer | MSupervisorTimer | MMachineTimer
  | MUserExternal | MSupervisorExternal | MMachineExternal | MUnknownInterrupt

datatype MException = MInstructionMisaligned | MInstructionFault | MIllegalInstruction | MBreakpoint
  | MLoadMisaligned | MLoadFault | MStoreMisaligned | MStoreFault | MUserEnvCall | MSupervisorEnvCall
  | MMachineEnvCall | MInstructionPageFault | MLoadPageFault | MStorePageFault | MUnknownException

definition MInterrupt_from :: "usize \<Rightarrow> MInterrupt" where
  "MInterrupt_from nr =
     (if nr = 0 then MUserSoft else if nr = 1 then MSupervisorSoft else if nr = 3 then MMachineSoft
      else if nr = 4 then MUserTimer else if nr = 5 then MSupervisorTimer else if nr = 7 then MMachineTimer
      else if nr = 8 then MUserExternal else if nr = 9 then MSupervisorExternal
      else if nr = 11 then MMachineExternal else MUnknownInterrupt)"

definition MException_from :: "usize \<Rightarrow> MException" where
  "MException_from nr =
     (if nr = 0 then MInstructionMisaligned else if nr = 1 then MInstructionFault
      else if nr = 2 then MIllegalInstruction else if nr = 3 then MBreakpoint
      else if nr = 4 then MLoadMisaligned else if nr = 5 then MLoadFault
      else if nr = 6 then MStoreMisaligned else if nr = 7 then MStoreFault
      else if nr = 8 then MUserEnvCall else if nr = 9 then MSupervisorEnvCall
      else if nr = 11 then MMachineEnvCall else if nr = 12 then MInstructionPageFault
      else if nr = 13 then MLoadPageFault else if nr = 15 then MStorePageFault else MUnknownException)"

definition mcause_code :: "usize \<Rightarrow> usize" where
  "mcause_code w = w AND NOT (push_bit 63 1)"

definition mcause_is_interrupt :: "usize \<Rightarrow> bool" where
  "mcause_is_interrupt w \<longleftrightarrow> w AND push_bit 63 1 = push_bit 63 1"

definition mcause_cause :: "usize \<Rightarrow> MInterrupt + MException" where
  "mcause_cause w = (if mcause_is_interrupt w then Inl (MInterrupt_from (mcause_code w))
     else Inr (MException_from (mcause_code w)))"

section \<open>Critical sections\<close>

definition interrupt_disable :: "csrs \<Rightarrow> csrs option" where
  "interrupt_disable cs = clear_fn Mstatus ''mie'' cs"

definition interrupt_enable :: "csrs \<Rightarrow> csrs option" where
  "interrupt_enable cs = set_fn Mstatus ''mie'' cs"

text \<open>The closure works on the registers and a state of its own.\<close>

definition interrupt_free :: "bit_field \<Rightarrow> (csrs \<times> 's \<Rightarrow> ('r \<times> csrs \<times> 's) option) \<Rightarrow> csrs \<times> 's \<Rightarrow> ('r \<times> csrs \<times> 's) option" where
  "interrupt_free bf f = (\<lambda>(cs, s). do {
     let mstatus = csr_read Mstatus cs;
     cs \<leftarrow> interrupt_disable cs;
     (r, cs, s) \<leftarrow> f (cs, s);
     mie \<leftarrow> get_flag bf Mstatus ''mie'' mstatus;
     cs \<leftarrow> (if mie then interrupt_enable cs else Some cs);
     Some (r, cs, s) })"

end
