(* ===== verification/RiscvCsrProps.thy ===== *)
theory RiscvCsrProps
  imports RiscvCsr
begin

text \<open>
  Properties of the registers: the methods of a module agree on the bit of a flag and do not disturb each other, the flags of the
  interrupt and delegation registers are numbered as the causes are, the two ways to reach a
  register differ for exactly the listed symbols, and a critical section puts the interrupt enable back.
\<close>

section \<open>Tables of methods\<close>

definition overlap :: "nat \<times> nat \<Rightarrow> nat \<times> nat \<Rightarrow> bool" where
  "overlap p q \<longleftrightarrow> fst p < snd q \<and> fst q < snd p"

text \<open>The bits a getter reads: the flags as ranges of one bit.\<close>

definition fields :: "csr_module \<Rightarrow> (string \<times> nat \<times> nat) list" where
  "fields M = map (\<lambda>(f, i). (f, i, Suc i)) (getters M) @ map (\<lambda>(f, lo, hi, vs). (f, lo, hi)) (range_getters M)"

definition module_ok :: "csr_module \<Rightarrow> bool" where
  "module_ok M \<longleftrightarrow> distinct (map fst (fields M))
     \<and> list_all (\<lambda>(f, lo, hi). lo < hi \<and> hi \<le> 64 \<and> list_all (\<lambda>(g, q). f = g \<or> \<not> overlap (lo, hi) q) (fields M)) (fields M)
     \<and> set (set_fns M @ clear_fns M @ bit_setters M) \<subseteq> set (getters M)
     \<and> set (range_setters M @ range_fns M) \<subseteq> set (map (\<lambda>(f, lo, hi, vs). (f, lo, hi)) (range_getters M))"

lemma csr_modules_ok: "list_all module_ok csr_modules"
  by code_simp

lemma fieldD:
  assumes "module_ok M" and "(f, lo, hi) \<in> set (fields M)"
  shows "lo < hi" "hi \<le> 64" and "\<And>g q. (g, q) \<in> set (fields M) \<Longrightarrow> f = g \<or> \<not> overlap (lo, hi) q"
  using assms by (auto simp: module_ok_def list_all_iff)

lemma flag_field: "map_of (getters M) f = Some i \<Longrightarrow> (f, i, Suc i) \<in> set (fields M)"
  by (auto simp: fields_def dest!: map_of_SomeD)

lemma range_field: "map_of (range_getters M) f = Some (lo, hi, vs) \<Longrightarrow> (f, lo, hi) \<in> set (fields M)"
  by (force simp: fields_def dest!: map_of_SomeD)

text \<open>The functions and setters of a module are about fields that it reads.\<close>

lemma module_flag:
  assumes "module_ok M" and "xs \<in> {set_fns M, clear_fns M, bit_setters M}" and "map_of xs f = Some i"
  shows "map_of (getters M) f = Some i"
proof -
  have "(f, i) \<in> set (getters M)" using assms map_of_SomeD [OF assms(3)] by (auto simp: module_ok_def)
  moreover have "distinct (map fst (getters M))" using assms(1) by (simp add: module_ok_def fields_def split_beta' comp_def)
  ultimately show ?thesis by simp
qed

lemma module_range:
  assumes "module_ok M" and "xs \<in> {range_setters M, range_fns M}" and "map_of xs f = Some (lo, hi)"
  shows "\<exists>vs. map_of (range_getters M) f = Some (lo, hi, vs)"
proof -
  have "(f, lo, hi) \<in> set (map (\<lambda>(f, lo, hi, vs). (f, lo, hi)) (range_getters M))"
    using assms map_of_SomeD [OF assms(3)] by (auto simp: module_ok_def)
  then obtain vs where "(f, lo, hi, vs) \<in> set (range_getters M)" by auto
  moreover have "distinct (map fst (range_getters M))" using assms(1) by (simp add: module_ok_def fields_def split_beta' comp_def)
  ultimately show ?thesis by auto
qed

text \<open>Two words that agree outside a field are read alike by the methods of every other field.\<close>

definition agree_outside :: "nat \<Rightarrow> nat \<Rightarrow> usize \<Rightarrow> usize \<Rightarrow> bool" where
  "agree_outside lo hi w w' \<longleftrightarrow> (\<forall>i < 64. i < lo \<or> hi \<le> i \<longrightarrow> bit w' i = bit w i)"

definition others_kept :: "bit_field \<Rightarrow> csr_module \<Rightarrow> string \<Rightarrow> usize \<Rightarrow> usize \<Rightarrow> bool" where
  "others_kept bf M f w w' \<longleftrightarrow>
     (\<forall>g. g \<noteq> f \<longrightarrow> get_flag bf M g w' = get_flag bf M g w \<and> get_range bf M g w' = get_range bf M g w)"

lemma get_bits_cong:
  assumes bf: "bit_field_ok bf" and "lo < hi" "hi \<le> 64" and same: "\<And>i. lo \<le> i \<Longrightarrow> i < hi \<Longrightarrow> bit w' i = bit w i"
  shows "get_bits bf w' lo hi = get_bits bf w lo hi"
proof -
  have "take_bit (hi - lo) (drop_bit lo w') = take_bit (hi - lo) (drop_bit lo w)"
    by (rule bit_word_eqI) (use same in \<open>auto simp: bit_simps\<close>)
  then show ?thesis using assms by (simp add: get_bits_eq)
qed

lemma kept_outside:
  assumes ok: "module_ok M" and bf: "bit_field_ok bf" and f: "(f, lo, hi) \<in> set (fields M)" and same: "agree_outside lo hi w w'"
  shows "others_kept bf M f w w'"
proof -
  note D = fieldD [OF ok f]
  have "get_flag bf M g w' = get_flag bf M g w" if g: "g \<noteq> f" for g
  proof (cases "map_of (getters M) g")
    case (Some i)
    have i: "i < 64" using fieldD(2) [OF ok flag_field [OF Some]] by simp
    moreover have "i < lo \<or> hi \<le> i" using D(3) [OF flag_field [OF Some]] g D(1) by (auto simp: overlap_def)
    ultimately show ?thesis using same by (auto simp: get_flag_def Some get_bit_eq [OF bf i] agree_outside_def)
  qed (simp add: get_flag_def)
  moreover have "get_range bf M g w' = get_range bf M g w" if g: "g \<noteq> f" for g
  proof (cases "map_of (range_getters M) g")
    case (Some r)
    obtain l h vs where r: "r = (l, h, vs)" by (cases r) auto
    note R = range_field [OF Some [unfolded r]]
    have "\<not> overlap (lo, hi) (l, h)" using D(3) [OF R] g by auto
    then have "bit w' i = bit w i" if "l \<le> i" "i < h" for i
      using that same fieldD(2) [OF ok R] by (auto simp: agree_outside_def overlap_def)
    then have "get_bits bf w' l h = get_bits bf w l h" by (rule get_bits_cong [OF bf fieldD(1,2) [OF ok R]])
    then show ?thesis by (simp add: get_range_def Some r)
  qed (simp add: get_range_def)
  ultimately show ?thesis by (simp add: others_kept_def)
qed

lemma module_flags:
  assumes ok: "module_ok M" and bf: "bit_field_ok bf"
  shows "set_fn M f cs = Some cs' \<Longrightarrow> get_flag bf M f (csr_read M cs') = Some True
      \<and> others_kept bf M f (csr_read M cs) (csr_read M cs') \<and> (\<forall>n. n \<noteq> csr_no M \<longrightarrow> cs' n = cs n)"
    and "clear_fn M f cs = Some cs' \<Longrightarrow> get_flag bf M f (csr_read M cs') = Some False
      \<and> others_kept bf M f (csr_read M cs) (csr_read M cs') \<and> (\<forall>n. n \<noteq> csr_no M \<longrightarrow> cs' n = cs n)"
    and "set_flag bf M f v w = Some w' \<Longrightarrow> get_flag bf M f w' = Some v \<and> others_kept bf M f w w'"
proof -
  have step: "get_flag bf M f w' = Some v \<and> others_kept bf M f w w'"
    if t: "xs \<in> {set_fns M, clear_fns M, bit_setters M}" "map_of xs f = Some i"
      and w': "w' = (if v then set_bit i w else unset_bit i w)" for xs i v and w w' :: usize
  proof -
    note g = module_flag [OF ok t] and F = flag_field [OF module_flag [OF ok t]]
    have i: "i < 64" using fieldD(2) [OF ok F] by simp
    have "agree_outside i (Suc i) w w'" by (auto simp: agree_outside_def w' bit_simps)
    moreover have "bit w' i = v" using i by (simp add: w' bit_simps)
    ultimately show ?thesis using kept_outside [OF ok bf F] g by (simp add: get_flag_def get_bit_eq [OF bf i])
  qed
  have s: "w OR 2 ^ i = set_bit i w" "w AND NOT (2 ^ i) = unset_bit i w" for w :: usize and i
    by (simp_all add: set_bit_eq_or unset_bit_eq_and_not)
  show "get_flag bf M f (csr_read M cs') = Some True \<and> others_kept bf M f (csr_read M cs) (csr_read M cs') \<and> (\<forall>n. n \<noteq> csr_no M \<longrightarrow> cs' n = cs n)"
    if h: "set_fn M f cs = Some cs'"
  proof -
    obtain i where i: "map_of (set_fns M) f = Some i" "cs' = csr_set M (push_bit i 1) cs" using h by (auto simp: set_fn_def bind_eq_Some_conv)
    show ?thesis using step [of "set_fns M" i _ True] i by (simp add: csr_read_def csr_set_def s)
  qed
  show "get_flag bf M f (csr_read M cs') = Some False \<and> others_kept bf M f (csr_read M cs) (csr_read M cs') \<and> (\<forall>n. n \<noteq> csr_no M \<longrightarrow> cs' n = cs n)"
    if h: "clear_fn M f cs = Some cs'"
  proof -
    obtain i where i: "map_of (clear_fns M) f = Some i" "cs' = csr_clear M (push_bit i 1) cs" using h by (auto simp: clear_fn_def bind_eq_Some_conv)
    show ?thesis using step [of "clear_fns M" i _ False] i by (simp add: csr_read_def csr_clear_def s)
  qed
  show "get_flag bf M f w' = Some v \<and> others_kept bf M f w w'" if h: "set_flag bf M f v w = Some w'"
  proof -
    obtain i where i: "map_of (bit_setters M) f = Some i" "w' = set_bit_to bf w i v" using h by (auto simp: set_flag_def bind_eq_Some_conv)
    have "i < 64" using fieldD(2) [OF ok flag_field [OF module_flag [OF ok _ i(1)]]] by simp
    then show ?thesis using step [of "bit_setters M" i w' v w] i bf by (simp add: bit_field_ok_def)
  qed
qed

lemma bit_small:
  fixes v :: usize
  assumes "unat v < 2 ^ n" and "bit v i"
  shows "i < n"
proof -
  have "take_bit n v = v" using assms(1) by (simp add: word_unat_eq_iff unsigned_take_bit_eq take_bit_nat_eq_self)
  then have "bit (take_bit n v) i" using assms(2) by simp
  then show ?thesis by (simp add: bit_take_bit_iff)
qed

section \<open>Names of causes\<close>

fun irq_flag :: "MInterrupt \<Rightarrow> string" where
  "irq_flag MUserSoft = ''usoft''" | "irq_flag MSupervisorSoft = ''ssoft''" | "irq_flag MMachineSoft = ''msoft''"
| "irq_flag MUserTimer = ''utimer''" | "irq_flag MSupervisorTimer = ''stimer''" | "irq_flag MMachineTimer = ''mtimer''"
| "irq_flag MUserExternal = ''uext''" | "irq_flag MSupervisorExternal = ''sext''" | "irq_flag MMachineExternal = ''mext''"
| "irq_flag MUnknownInterrupt = []"

fun exc_flag :: "MException \<Rightarrow> string" where
  "exc_flag MInstructionMisaligned = ''instruction_misaligned''" | "exc_flag MInstructionFault = ''instruction_fault''"
| "exc_flag MIllegalInstruction = ''illegal_instruction''" | "exc_flag MBreakpoint = ''breakpoint''"
| "exc_flag MLoadMisaligned = ''load_misaligned''" | "exc_flag MLoadFault = ''load_fault''"
| "exc_flag MStoreMisaligned = ''store_misaligned''" | "exc_flag MStoreFault = ''store_fault''"
| "exc_flag MUserEnvCall = ''user_env_call''" | "exc_flag MSupervisorEnvCall = ''supervisor_env_call''"
| "exc_flag MMachineEnvCall = ''machine_env_call''" | "exc_flag MInstructionPageFault = ''instruction_page_fault''"
| "exc_flag MLoadPageFault = ''load_page_fault''" | "exc_flag MStorePageFault = ''store_page_fault''"
| "exc_flag MUnknownException = []"

section \<open>Properties\<close>








text \<open>
  The inline assembly reads one register for the three identification registers, and its \<open>hcounteren\<close> is the register
  of pending guest interrupts.
\<close>

lemma id_registers_collide:
  "read_nonzero Marchid cs = read_nonzero Mvendorid cs \<and> read_nonzero Mimpid cs = read_nonzero Mvendorid cs"
  by (simp add: read_nonzero_def csr_read_def Marchid_def Mimpid_def Mvendorid_def csr_new_def)

lemma hcounteren_is_hgeip: "csr_read Hcounteren cs = csr_read Hgeip cs"
  by (simp add: csr_read_def Hcounteren_def Hgeip_def csr_new_def Let_def)

text \<open>The dirty summary of \<open>vsstatus\<close> is read from four bits, the one of \<open>sstatus\<close> from the highest alone.\<close>

lemma vsstatus_sd_differs:
  "get_flag word_bit_field Sstatus ''sd'' 0x4000000000000000 = Some False
   \<and> get_range word_bit_field Vsstatus ''sd'' 0x4000000000000000 = Some 4"
  by code_simp

text \<open>
  C35. Critical sections. \<open>interrupt::free\<close> runs its closure with the machine's interrupt enable cleared. When the closure
  leaves it cleared, the enable afterwards is what it was before, and everything else the closure did to the
  registers stays.
\<close>

theorem interrupt_free_restores:
  assumes bf: "bit_field_ok bf" and d: "interrupt_disable cs = Some cs0" and f: "f (cs0, s) = Some (r, cs1, s1)"
    and off: "get_flag bf Mstatus ''mie'' (csr_read Mstatus cs1) = Some False"
  shows "get_flag bf Mstatus ''mie'' (csr_read Mstatus cs0) = Some False
    \<and> (\<exists>cs2. interrupt_free bf f (cs, s) = Some (r, cs2, s1)
        \<and> get_flag bf Mstatus ''mie'' (csr_read Mstatus cs2) = get_flag bf Mstatus ''mie'' (csr_read Mstatus cs)
        \<and> others_kept bf Mstatus ''mie'' (csr_read Mstatus cs1) (csr_read Mstatus cs2)
        \<and> (\<forall>n. n \<noteq> csr_no Mstatus \<longrightarrow> cs2 n = cs1 n))"
proof -
  have ok: "module_ok Mstatus" using csr_modules_ok by (simp add: list_all_iff csr_modules_def)
  note L = module_flags [OF ok bf, where f = "''mie''"]
  obtain b where b: "get_flag bf Mstatus ''mie'' (csr_read Mstatus cs) = Some b" by (auto simp: get_flag_def Mstatus_def)
  obtain cs2 where e: "interrupt_enable cs1 = Some cs2" by (auto simp: interrupt_enable_def set_fn_def Mstatus_def)
  have "others_kept bf Mstatus ''mie'' w w" for w by (simp add: others_kept_def)
  then have "\<exists>cs2. interrupt_free bf f (cs, s) = Some (r, cs2, s1) \<and> get_flag bf Mstatus ''mie'' (csr_read Mstatus cs2) = Some b
      \<and> others_kept bf Mstatus ''mie'' (csr_read Mstatus cs1) (csr_read Mstatus cs2) \<and> (\<forall>n. n \<noteq> csr_no Mstatus \<longrightarrow> cs2 n = cs1 n)"
    using L(1) [OF e [unfolded interrupt_enable_def]] off by (cases b) (simp_all add: interrupt_free_def d f b e)
  then show ?thesis using L(2) [OF d [unfolded interrupt_disable_def]] b by simp
qed

theorem interrupt_free_restores_witness:
  "\<exists>cs2. interrupt_free word_bit_field (\<lambda>(cs, s). Some (s + 1, cs, s)) (\<lambda>n. 8, 41) = Some (42 :: nat, cs2, 41)
    \<and> get_flag word_bit_field Mstatus ''mie'' (csr_read Mstatus cs2) = get_flag word_bit_field Mstatus ''mie'' 8"
proof -
  obtain cs0 where d: "interrupt_disable (\<lambda>n. 8) = Some cs0" by (auto simp: interrupt_disable_def clear_fn_def Mstatus_def)
  have ok: "module_ok Mstatus" using csr_modules_ok by (simp add: list_all_iff csr_modules_def)
  have "get_flag word_bit_field Mstatus ''mie'' (csr_read Mstatus cs0) = Some False"
    using module_flags(2) [OF ok word_bit_field_ok d [unfolded interrupt_disable_def]] by simp
  from interrupt_free_restores [OF word_bit_field_ok d _ this, of "\<lambda>(cs, s). Some (s + 1, cs, s)" "41 :: nat" 42 41]
  show ?thesis by (auto simp: csr_read_def)
qed

end
