(* ===== verification/Spec2Isabelle.thy ===== *)
theory Spec2Isabelle
  imports UserMem MmapProps FsProps Asm UserApps RiscvPagingProps RiscvCsrProps
begin

text \<open>
  A verification of the \<open>os5\<close> kernel and of the crates beside it: a single-core RV64 teaching kernel with SV39 paging,
  processes and a stride scheduler (\<open>src/os5\<close>), the file system \<open>easy-fs\<close> with the tool that packs a disk image
  (\<open>src/easy-fs\<close>, \<open>src/easy-fs-fuse\<close>), the library and some programs of user space (\<open>src/user\<close>), and the crate \<open>riscv\<close>
  (\<open>src/ci-user/riscv\<close>) that the kernel takes its registers from.

  \<^bold>\<open>How the parts interact.\<close> A user program calls the library, whose system calls are one \<open>ecall\<close>; the trap entry saves the
  registers in the trap context and calls \<open>trap_handler\<close>, which dispatches to the system calls; these change control blocks,
  the ready queue and address spaces, and read user memory through page tables. Address spaces own frames of the frame
  allocator, and kernel stacks are areas of the kernel's address space. The idle loop takes the next task from the
  scheduler and switches to it. The file system stands apart: this kernel does not mount it.

  \<^bold>\<open>Conventions.\<close> A panic is the value \<open>None\<close> of an \<open>option\<close>; an \<open>Option\<close> of the source is nested inside. Integers are words
  of their width and arithmetic wraps, as in the release build. Physical memory is a function from 64-bit addresses to
  bytes; a reference or a slice is its address. A \<open>FrameTracker\<close> is the number of the frame it owns, and its \<open>Drop\<close> is
  an explicit call where Rust drops it. An \<open>Arc<TaskControlBlock>\<close> is an index into a store, and its reference count is
  computed from the places that hold references. Code of other crates is a parameter: the ELF parser \<open>xmas_elf\<close>, the
  functions of \<open>bit_field\<close> (with the hypothesis \<open>bit_field_ok\<close>, which \<open>word_bit_field\<close> satisfies), and the heap of user programs.

  \<^bold>\<open>The kernel\<close> (files under \<open>src/os5/src\<close>).
  \<^item> \<open>Prelude\<close>: word types, panicking operations, iterator chains, little-endian bytes. \<open>Utf8\<close>: the conversions of \<open>str\<close>.
  \<^item> \<open>Address\<close>: \<open>config.rs\<close>, \<open>mm/address.rs\<close>; the index split is the base-512 expansion, and a range visits its pages once and in
    order. \<open>PhysMem\<close>: byte memory and the references that \<open>mm/address.rs\<close> makes from page numbers.
  \<^item> \<open>Allocator\<close>: the contract of an allocator of identities, as a locale; \<open>FrameAllocator\<close> (\<open>mm/frame_allocator.rs\<close>) and \<open>Pid\<close>
    (\<open>task/pid.rs\<close>) interpret it. A frame is never handed out twice, it is zeroed, and a second release panics. Kernel stacks do
    not meet.
  \<^item> \<open>PageTable\<close>: \<open>mm/page_table.rs\<close>. \<open>PageTableTree\<close>: the table in memory as a radix tree; \<open>map\<close> and \<open>unmap\<close> refine update and
    deletion of a finite map. \<open>UserMem\<close>: what the access to user memory reads and writes.
  \<^item> \<open>BTree\<close>, \<open>MemorySet\<close>: \<open>mm/memory_set.rs\<close> and the ordered map it uses. \<open>PageLoop\<close>: loops over pages, as locales.
    \<open>AddressSpace\<close>, \<open>Fork\<close>, \<open>SpaceOps\<close>: the invariant of an address space and that building, copying and taking down one keep it.
    \<open>SpaceProps\<close>: inserting and removing areas, the copy that \<open>fork\<close> makes, and that a copy that is dropped leaves nothing behind.
  \<^item> \<open>RiscvRegister\<close>: the registers that the kernel itself uses. \<open>Context\<close>: \<open>trap/context.rs\<close>, \<open>task/context.rs\<close>. \<open>Asm\<close>:
    \<open>task/switch.S\<close>, \<open>trap/trap.S\<close> and \<open>entry.asm\<close> as instruction lists with an interpreter; the saved registers come back.
  \<^item> \<open>Sbi\<close>: \<open>sbi.rs\<close>, \<open>console.rs\<close>, \<open>timer.rs\<close>, \<open>lang_items.rs\<close>. \<open>Loader\<close>: \<open>loader.rs\<close>.
  \<^item> \<open>Task\<close>, \<open>Manager\<close>, \<open>Processor\<close>: \<open>task/task.rs\<close>, \<open>task/manager.rs\<close>, \<open>task/processor.rs\<close> and \<open>task/mod.rs\<close>. \<open>Syscall\<close>:
    \<open>syscall\<close>. \<open>Trap\<close>: \<open>trap/mod.rs\<close> and \<open>main.rs\<close>.
  \<^item> \<open>ProcSpec\<close>: an abstract machine of processes as a step relation with its invariant. \<open>ProcRefine\<close>: every operation of the
    kernel is a sequence of its steps. \<open>Sched\<close>: the kernel keeps that invariant on every run; the choice of the scheduler, the bound on
    the spread of passes, and the cases of \<open>waitpid\<close>. \<open>MmapProps\<close>: the cases of \<open>mmap\<close> and \<open>munmap\<close>.

  \<^bold>\<open>The file system\<close> (files under \<open>src/easy-fs/src\<close>).
  \<^item> \<open>FsCache\<close>: \<open>block_dev.rs\<close>, \<open>block_cache.rs\<close>. \<open>FsBitmap\<close>: \<open>bitmap.rs\<close>. \<open>FsLayout\<close>: \<open>layout.rs\<close>. \<open>FsVfs\<close>: \<open>efs.rs\<close>, \<open>vfs.rs\<close>.
    \<open>FsFuse\<close>: \<open>src/easy-fs-fuse/src/main.rs\<close>, which interprets the locale of a block device on its host file.
  \<^item> \<open>FsView\<close>: the locale \<open>block_store\<close> and the judgement \<open>does\<close>: the cache is transparent. \<open>FsWords\<close>: encodings round trip.
    \<open>FsBitmapProps\<close>: a bitmap is a set of numbers. \<open>FsInode\<close>, \<open>FsGrow\<close>, \<open>FsGrow2\<close>, \<open>FsIncrease\<close>, \<open>FsClear\<close>: a disk inode is a
    sequence of blocks, which growing extends and clearing gives back. \<open>FsFile\<close>, \<open>FsWrite\<close>, \<open>FsFileOps\<close>: inodes with
    their allocator. \<open>FsProps\<close>: what was written is read again, and clearing a file frees its blocks.

  \<^bold>\<open>User space\<close> (files under \<open>src/user/src\<close>). \<open>UserLib\<close>: \<open>syscall.rs\<close>, \<open>lib.rs\<close>, \<open>console.rs\<close>, \<open>lang_items.rs\<close>, over the effect of \<open>ecall\<close>; its
  numbers are those of the kernel, its console loses nothing, \<open>waitpid\<close> returns once the child has exited, and \<open>sleep\<close> does not past the
  wrap-around of the clock. \<open>UserApps\<close>: the first process,
  the shells and the test runner of \<open>bin\<close>; the terminal shows the line that the shell will run.

  \<^bold>\<open>The crate \<open>riscv\<close>\<close> (files under \<open>src/ci-user/riscv/src\<close>). \<open>RiscvAddr\<close>: \<open>addr\<close>. \<open>RiscvPaging\<close>, \<open>RiscvPagingProps\<close>: \<open>paging\<close>, the
  mappers of three and four levels. \<open>RiscvCsr\<close>, \<open>RiscvCsrProps\<close>: \<open>register\<close>, \<open>interrupt.rs\<close> and the symbols of \<open>asm.S\<close>: setting a flag is
  seen by its getter and by no other, ranges round trip, and inline and assembled access agree but for the registers that are named.

  \<^bold>\<open>Bounds.\<close> No definition takes fuel: loops are structural, have a termination proof, or are \<open>partial_function (option)\<close> where the code
  may wait for ever (the waiting loops of user space, the shells) or where the end depends on memory; for the loops over user memory and over
  the blocks of a file the theorems show that they return. Pids below \<open>2 ^ 22\<close> keep the kernel stacks' pages
  apart, and below 3195660 also in the upper half of the address space. A file has at most 16540 blocks, which is
  what the direct and the indirect blocks hold. An operation that allocates has as hypothesis that enough frames or blocks are free; without them
  the code panics.

  \<^bold>\<open>Not modelled.\<close> The kernel heap and logging, which are other crates, and the borrow flags of \<open>UPSafeCell\<close> where the source cannot
  reach a second borrow. Time, other than the value of the clock, and interrupts inside the kernel, which runs with them off. What a
  hart does with an illegal register value, and the translation of user accesses by the hardware: the page table in
  memory is modelled, the accesses are not. In \<open>riscv\<close>: 32-bit targets, counters and other registers that are one number, and the
  wrappers of single instructions. In \<open>easy-fs\<close>: concurrent use, since its locks are held by one thread, and alignment of references.
  The other programs of \<open>src/user/src/bin\<close> are tests, \<open>src/ci-user/user\<close> has the same library text and more tests, \<open>src/os5-ref\<close> is
  the kernel before the exercises, and the build scripts and check scripts run on the host.
\<close>

end
